(* ===== verification/Hex.thy ===== *)
theory Hex
  imports Prelude
begin

text \<open>
  \<open>src/core/hex.cpp\<close>: hexadecimal text for keys, tags and hashes, and the parser that
  treats hex from the wire as untrusted.
\<close>

section \<open>Encoding and decoding\<close>

definition kDigits :: string where
  "kDigits = ''0123456789abcdef''"

definition hex_value :: "char \<Rightarrow> int" where
  "hex_value c =
     (if CHR ''0'' \<le> c \<and> c \<le> CHR ''9'' then int (of_char c) - 48
      else if CHR ''a'' \<le> c \<and> c \<le> CHR ''f'' then 10 + (int (of_char c) - 97)
      else if CHR ''A'' \<le> c \<and> c \<le> CHR ''F'' then 10 + (int (of_char c) - 65)
      else -1)"

fun to_hex :: "bytes \<Rightarrow> string" where
  "to_hex [] = []"
| "to_hex (b # bs) =
     (kDigits ! unat (drop_bit 4 b)) # (kDigits ! unat (b AND 0x0F)) # to_hex bs"

text \<open>The loop of \<open>from_hex\<close>, two characters a round; the size was found even before it.\<close>

fun from_hex_loop :: "string \<Rightarrow> bytes option" where
  "from_hex_loop [] = Some []"
| "from_hex_loop [c] = None"
| "from_hex_loop (c # d # s) =
     (let hi = hex_value c; lo = hex_value d
      in if hi < 0 \<or> lo < 0 then None
         else map_option (Cons (word_of_int (push_bit 4 hi OR lo))) (from_hex_loop s))"

definition from_hex :: "string \<Rightarrow> bytes option" where
  "from_hex s = (if length s mod 2 \<noteq> 0 then None else from_hex_loop s)"

section \<open>Digits\<close>

lemma All_less_16: "(\<forall>n<16. P n) \<longleftrightarrow> (\<forall>n\<in>set [0..<16]. P n)" for P :: "nat \<Rightarrow> bool"
  by auto

lemma hex_value_kDigits_all: "\<forall>n\<in>set [0..<16]. hex_value (kDigits ! n) = int n"
  by code_simp

lemma hex_value_kDigits: "n < 16 \<Longrightarrow> hex_value (kDigits ! n) = int n"
  using hex_value_kDigits_all by auto

lemma kDigits_lower_all:
  "\<forall>n\<in>set [0..<16]. let c = kDigits ! n in
     (CHR ''0'' \<le> c \<and> c \<le> CHR ''9'') \<or> (CHR ''a'' \<le> c \<and> c \<le> CHR ''f'')"
  by code_simp

lemma kDigits_lower:
  "n < 16 \<Longrightarrow> (CHR ''0'' \<le> kDigits ! n \<and> kDigits ! n \<le> CHR ''9'') \<or>
     (CHR ''a'' \<le> kDigits ! n \<and> kDigits ! n \<le> CHR ''f'')"
  using kDigits_lower_all by (auto simp: Let_def)

lemma high_nibble_less: "unat (drop_bit 4 (b::byte)) < 16"
proof -
  have "unat b < 2 ^ LENGTH(8)" by (rule unsigned_less)
  then have "unat b div 2 ^ 4 < 16" by (simp add: less_mult_imp_div_less)
  then show ?thesis unfolding unat_drop_bit_eq drop_bit_eq_div [of 4 "unat b"] .
qed

lemma low_nibble_less: "unat ((b::byte) AND 0x0F) < 16"
proof -
  have "unat (b AND 0x0F) \<le> unat (0x0F::byte)"
    using word_and_le1 [of b "0x0F"] by (simp only: word_le_nat_alt)
  then show ?thesis by simp
qed

lemma join_nibbles:
  "word_of_int (push_bit 4 (uint (drop_bit 4 (b::byte))) OR uint (b AND 0x0F)) = b"
proof -
  have mask: "(0x0F::byte) = mask 4" by (simp add: mask_eq_exp_minus_1)
  show ?thesis unfolding mask by (rule bit_word_eqI) (auto simp: bit_simps)
qed

section \<open>Round trip\<close>

lemma from_hex_loop_to_hex: "from_hex_loop (to_hex bs) = Some bs"
  by (induction bs)
    (simp_all add: hex_value_kDigits high_nibble_less low_nibble_less join_nibbles Let_def)

lemma length_to_hex [simp]: "length (to_hex bs) = 2 * length bs"
  by (induction bs) simp_all

lemma to_hex_inj: "to_hex as = to_hex bs \<longleftrightarrow> as = bs"
  by (metis from_hex_loop_to_hex option.inject)

lemma from_hex_to_hex: "from_hex (to_hex bs) = Some bs"
  by (simp add: from_hex_def from_hex_loop_to_hex)

text \<open>What the decoder accepts: an even number of hexadecimal digits, and nothing else.\<close>

lemma from_hex_loop_None_iff:
  "length s mod 2 = 0 \<Longrightarrow> from_hex_loop s = None \<longleftrightarrow> (\<exists>c\<in>set s. hex_value c < 0)"
  by (induction s rule: from_hex_loop.induct) (auto simp: Let_def)

lemma from_hex_None_iff:
  "from_hex s = None \<longleftrightarrow> length s mod 2 \<noteq> 0 \<or> (\<exists>c\<in>set s. hex_value c < 0)"
  by (simp add: from_hex_def from_hex_loop_None_iff)

lemma from_hex_loop_length: "from_hex_loop s = Some bs \<Longrightarrow> length s = 2 * length bs"
  by (induction s arbitrary: bs rule: from_hex_loop.induct) (auto simp: Let_def split: if_splits)

lemma to_hex_append: "to_hex (as @ bs) = to_hex as @ to_hex bs"
  by (induction as) simp_all

lemma hex_round_trip:
  "from_hex (to_hex bs) = Some bs \<and> length (to_hex bs) = 2 * length bs \<and> (to_hex bs = to_hex cs \<longleftrightarrow> bs = cs)"
  by (simp add: from_hex_to_hex to_hex_inj)

end
