(* ===== verification/Safename.thy ===== *)
theory Safename
  imports Hex
begin

text \<open>
  \<open>src/core/safename.cpp\<close>: which strings from the network may become a path component.
\<close>

definition kBackslash :: char where
  "kBackslash = char_of (92::nat)"

lemma kBackslash_code: "kBackslash = CHR 0x5C"
proof -
  have "(of_char kBackslash :: nat) = of_char (CHR 0x5C)" by (simp add: kBackslash_def of_char_of)
  then show ?thesis by (simp only: of_char_eq_iff)
qed

definition forbidden_char :: "char \<Rightarrow> bool" where
  "forbidden_char c \<longleftrightarrow>
     (of_char c :: nat) < 0x20 \<or> (of_char c :: nat) = 0x7F \<or>
     c = CHR ''/'' \<or> c = kBackslash \<or>
     c = CHR '':'' \<or> c = CHR ''*'' \<or> c = CHR ''?'' \<or>
     (of_char c :: nat) = 34 \<or> c = CHR ''<'' \<or> c = CHR ''>'' \<or> c = CHR ''|''"

definition is_safe_name :: "string \<Rightarrow> bool" where
  "is_safe_name name =
     (if name = [] \<or> length name > 255 then False
      else if name = ''.'' \<or> name = ''..'' then False
      else if hd name = CHR ''.'' then False
      else list_all (\<lambda>c. \<not> forbidden_char c) name)"

definition is_safe_chunk_id :: "string \<Rightarrow> bool" where
  "is_safe_chunk_id i =
     (if length i \<noteq> 64 then False
      else list_all (\<lambda>c. let digit = CHR ''0'' \<le> c \<and> c \<le> CHR ''9'';
                             lower = CHR ''a'' \<le> c \<and> c \<le> CHR ''f''
                         in digit \<or> lower) i)"

lemma is_safe_name_iff:
  "is_safe_name s \<longleftrightarrow>
     s \<noteq> [] \<and> length s \<le> 255 \<and> hd s \<noteq> CHR ''.'' \<and> list_all (\<lambda>c. \<not> forbidden_char c) s"
  by (auto simp: is_safe_name_def)

lemma is_safe_name_nonempty: "is_safe_name s \<Longrightarrow> s \<noteq> []"
  by (simp add: is_safe_name_iff)

lemma is_safe_name_length: "is_safe_name s \<Longrightarrow> length s \<le> 255"
  by (simp add: is_safe_name_iff)

lemma is_safe_name_no_dot: "is_safe_name s \<Longrightarrow> hd s \<noteq> CHR ''.''"
  by (simp add: is_safe_name_iff)

lemma is_safe_name_allowed: "is_safe_name s \<Longrightarrow> c \<in> set s \<Longrightarrow> \<not> forbidden_char c"
  by (auto simp only: is_safe_name_iff list_all_iff)

lemma is_safe_name_no_slash: "is_safe_name s \<Longrightarrow> CHR ''/'' \<notin> set s"
  using is_safe_name_allowed [of s "CHR ''/''"] by (auto simp: forbidden_char_def)

lemma is_safe_name_no_control: "is_safe_name s \<Longrightarrow> c \<in> set s \<Longrightarrow> 0x20 \<le> (of_char c :: nat)"
  using is_safe_name_allowed [of s c] by (simp add: forbidden_char_def not_less)

lemma is_safe_name_no_newline:
  "is_safe_name s \<Longrightarrow> char_of (10::nat) \<notin> set s \<and> char_of (13::nat) \<notin> set s"
  using is_safe_name_no_control [of s "char_of (10::nat)"]
    is_safe_name_no_control [of s "char_of (13::nat)"]
  by (auto simp: of_char_of)

lemma to_hex_lower: "list_all (\<lambda>c. (CHR ''0'' \<le> c \<and> c \<le> CHR ''9'') \<or> (CHR ''a'' \<le> c \<and> c \<le> CHR ''f'')) (to_hex bs)"
  by (induction bs) (auto simp: kDigits_lower high_nibble_less low_nibble_less)

lemma hash_is_safe_chunk_id: "length bs = 32 \<Longrightarrow> is_safe_chunk_id (to_hex bs)"
  using to_hex_lower [of bs] by (simp add: is_safe_chunk_id_def)

lemma is_safe_chunk_id_chars:
  assumes "is_safe_chunk_id i" and "c \<in> set i"
  shows "(48 \<le> (of_char c :: nat) \<and> (of_char c :: nat) \<le> 57) \<or> (97 \<le> (of_char c :: nat) \<and> (of_char c :: nat) \<le> 102)"
  using assms by (auto simp: is_safe_chunk_id_def list_all_iff less_eq_char_def split: if_splits)

text \<open>A chunk id is in particular a safe file name.\<close>

lemma chunk_id_is_safe_name: "is_safe_chunk_id i \<Longrightarrow> is_safe_name i"
proof -
  assume i: "is_safe_chunk_id i"
  then have len: "length i = 64" by (simp add: is_safe_chunk_id_def split: if_splits)
  then have "i \<noteq> []" by auto
  then have "hd i \<in> set i" by simp
  have bad: "\<not> forbidden_char c" if "c \<in> set i" for c
    using is_safe_chunk_id_chars [OF i that]
    by (auto simp: forbidden_char_def kBackslash_def of_char_of)
  have "hd i \<noteq> CHR ''.''"
    using is_safe_chunk_id_chars [OF i \<open>hd i \<in> set i\<close>] by auto
  with len \<open>i \<noteq> []\<close> bad show ?thesis by (simp add: is_safe_name_iff list_all_iff)
qed

end
