(* ===== verification/Filesys.thy ===== *)
theory Filesys
  imports Safename
begin

text \<open>
  What the program uses of \<open>std::filesystem\<close> and of file streams. A path is the list of its
  components; a disk maps paths of regular files to their content and modification time, and
  knows which directories exist. Any call that can fail at run time (a full disk, a permission)
  takes its outcome from the list \<open>faults\<close>: \<open>None\<close> or an exhausted list is success,
  \<open>Some k\<close> a failure, for a write after \<open>k\<close> bytes reached the file.
\<close>

type_synonym path = "string list"

record fnode =
  content :: string
  mtime :: int

record disk =
  files :: "(path \<times> fnode) list"
  dirs :: "path list"
  now :: int
  faults :: "nat option list"

section \<open>Paths\<close>

fun slash_split :: "string \<Rightarrow> string \<Rightarrow> string list" where
  "slash_split [] acc = [rev acc]"
| "slash_split (c # s) acc =
     (if c = CHR ''/'' then rev acc # slash_split s [] else slash_split s (c # acc))"

definition components :: "string \<Rightarrow> path" where
  "components s = filter (\<lambda>w. w \<noteq> []) (slash_split s [])"

text \<open>\<open>operator/\<close>: an absolute right side replaces the left one.\<close>

definition path_join :: "path \<Rightarrow> string \<Rightarrow> path" where
  "path_join p s = (if s \<noteq> [] \<and> hd s = CHR ''/'' then components s else p @ components s)"

text \<open>What the operating system makes of \<open>.\<close> and \<open>..\<close> components.\<close>

fun resolve_loop :: "path \<Rightarrow> path \<Rightarrow> path" where
  "resolve_loop acc [] = acc"
| "resolve_loop acc (c # cs) =
     (if c = ''.'' then resolve_loop acc cs
      else if c = ''..'' then resolve_loop (butlast acc) cs
      else resolve_loop (acc @ [c]) cs)"

definition resolve :: "path \<Rightarrow> path" where
  "resolve p = resolve_loop [] p"

section \<open>Queries\<close>

definition lookup :: "disk \<Rightarrow> path \<Rightarrow> fnode option" where
  "lookup d p = map_of (files d) p"

definition fs_exists :: "disk \<Rightarrow> path \<Rightarrow> bool" where
  "fs_exists d p \<longleftrightarrow> lookup d p \<noteq> None \<or> p \<in> set (dirs d)"

definition fs_is_regular :: "disk \<Rightarrow> path \<Rightarrow> bool" where
  "fs_is_regular d p \<longleftrightarrow> lookup d p \<noteq> None"

definition fs_read :: "disk \<Rightarrow> path \<Rightarrow> string option" where
  "fs_read d p = map_option content (lookup d p)"

definition fs_size :: "disk \<Rightarrow> path \<Rightarrow> nat option" where
  "fs_size d p = map_option length (fs_read d p)"

definition fs_mtime :: "disk \<Rightarrow> path \<Rightarrow> int option" where
  "fs_mtime d p = map_option mtime (lookup d p)"

text \<open>The regular files of a directory, in the order the directory happens to yield them.\<close>

definition fs_list :: "disk \<Rightarrow> path \<Rightarrow> path list" where
  "fs_list d p = filter (\<lambda>q. q \<noteq> [] \<and> butlast q = p) (map fst (files d))"

section \<open>Changes\<close>

definition pop_fault :: "disk \<Rightarrow> nat option \<times> disk" where
  "pop_fault d = (case faults d of [] \<Rightarrow> (None, d) | f # fs \<Rightarrow> (f, d\<lparr>faults := fs\<rparr>))"

definition put :: "disk \<Rightarrow> path \<Rightarrow> string \<Rightarrow> disk" where
  "put d p s = d\<lparr>files := AList.update p \<lparr>content = s, mtime = now d\<rparr> (files d)\<rparr>"

text \<open>Opening an output stream truncates or creates the file; the directory must exist.\<close>

definition fs_create :: "disk \<Rightarrow> path \<Rightarrow> bool \<times> disk" where
  "fs_create d p =
     (case pop_fault d of (f, d) \<Rightarrow>
        if f \<noteq> None \<or> butlast p \<notin> set (dirs d) \<or> p \<in> set (dirs d) then (False, d)
        else (True, put d p []))"

definition fs_append :: "disk \<Rightarrow> path \<Rightarrow> string \<Rightarrow> bool \<times> disk" where
  "fs_append d p s =
     (case pop_fault d of (f, d) \<Rightarrow>
        let old = (case fs_read d p of None \<Rightarrow> [] | Some c \<Rightarrow> c)
        in case f of None \<Rightarrow> (True, put d p (old @ s))
           | Some k \<Rightarrow> (False, put d p (old @ take k s)))"

text \<open>
  Flushing or closing pushes what the stream still buffers to the disk: when that fails, only
  some first part of the content is really there.
\<close>

definition fs_flush :: "disk \<Rightarrow> path \<Rightarrow> bool \<times> disk" where
  "fs_flush d p =
     (case pop_fault d of (f, d) \<Rightarrow>
        case f of None \<Rightarrow> (True, d)
        | Some k \<Rightarrow> (False, case fs_read d p of None \<Rightarrow> d | Some c \<Rightarrow> put d p (take k c)))"

text \<open>Writing at a position, after \<open>seekp\<close>: a gap past the old end reads as zero bytes.\<close>

definition overwrite :: "string \<Rightarrow> nat \<Rightarrow> string \<Rightarrow> string" where
  "overwrite c at s =
     take at c @ replicate (at - length c) (char_of (0::nat)) @ s @ drop (at + length s) c"

definition fs_write_at :: "disk \<Rightarrow> path \<Rightarrow> nat \<Rightarrow> string \<Rightarrow> bool \<times> disk" where
  "fs_write_at d p at s =
     (case pop_fault d of (f, d) \<Rightarrow>
        let old = (case fs_read d p of None \<Rightarrow> [] | Some c \<Rightarrow> c)
        in case f of None \<Rightarrow> (True, put d p (overwrite old at s))
           | Some k \<Rightarrow> (False, put d p (overwrite old at (take k s))))"

text \<open>\<open>resize_file\<close> cuts the file, or extends it with zero bytes.\<close>

definition resized :: "nat \<Rightarrow> string \<Rightarrow> string" where
  "resized n c = take n c @ replicate (n - length c) (char_of (0::nat))"

definition fs_resize :: "disk \<Rightarrow> path \<Rightarrow> nat \<Rightarrow> bool \<times> disk" where
  "fs_resize d p n =
     (case pop_fault d of (f, d) \<Rightarrow>
        case fs_read d p of None \<Rightarrow> (False, d)
        | Some c \<Rightarrow> if f \<noteq> None then (False, d) else (True, put d p (resized n c)))"

definition fs_rename :: "disk \<Rightarrow> path \<Rightarrow> path \<Rightarrow> bool \<times> disk" where
  "fs_rename d a b =
     (case pop_fault d of (f, d) \<Rightarrow>
        case lookup d a of
          None \<Rightarrow> (False, d)
        | Some x \<Rightarrow>
            if f \<noteq> None \<or> butlast b \<notin> set (dirs d) \<or> b \<in> set (dirs d) then (False, d)
            else (True, d\<lparr>files := AList.update b x (AList.delete a (files d))\<rparr>))"

definition fs_remove :: "disk \<Rightarrow> path \<Rightarrow> bool \<times> disk" where
  "fs_remove d p =
     (case pop_fault d of (f, d) \<Rightarrow>
        if f \<noteq> None \<or> lookup d p = None then (False, d)
        else (True, d\<lparr>files := AList.delete p (files d)\<rparr>))"

definition fs_mkdirs :: "disk \<Rightarrow> path \<Rightarrow> bool \<times> disk" where
  "fs_mkdirs d p =
     (case pop_fault d of (f, d) \<Rightarrow>
        if f \<noteq> None \<or> lookup d p \<noteq> None then (False, d)
        else (True, d\<lparr>dirs := dirs d @ filter (\<lambda>q. q \<notin> set (dirs d)) (prefixes p)\<rparr>))"

section \<open>Path lemmas\<close>

lemma slash_split_no_slash: "CHR ''/'' \<notin> set s \<Longrightarrow> slash_split s acc = [rev acc @ s]"
  by (induction s arbitrary: acc) auto

lemma path_join_component:
  "s \<noteq> [] \<Longrightarrow> CHR ''/'' \<notin> set s \<Longrightarrow> path_join p s = p @ [s]"
  by (cases s) (auto simp: path_join_def components_def slash_split_no_slash)

lemma path_join_safe: "is_safe_name s \<Longrightarrow> path_join p s = p @ [s]"
  by (simp add: path_join_component is_safe_name_nonempty is_safe_name_no_slash)

lemma path_join_safe_ext:
  "is_safe_name s \<Longrightarrow> CHR ''/'' \<notin> set e \<Longrightarrow> path_join p (s @ e) = p @ [s @ e]"
  by (rule path_join_component) (simp_all add: is_safe_name_nonempty is_safe_name_no_slash)

definition plain_component :: "string \<Rightarrow> bool" where
  "plain_component c \<longleftrightarrow> c \<noteq> [] \<and> c \<noteq> ''.'' \<and> c \<noteq> ''..'' \<and> CHR ''/'' \<notin> set c"

lemma resolve_loop_plain: "list_all plain_component cs \<Longrightarrow> resolve_loop acc cs = acc @ cs"
  by (induction cs arbitrary: acc) (auto simp: plain_component_def)

lemma resolve_plain: "list_all plain_component p \<Longrightarrow> resolve p = p"
  by (simp add: resolve_def resolve_loop_plain)

lemma safe_is_plain: "is_safe_name s \<Longrightarrow> plain_component s"
proof -
  assume s: "is_safe_name s"
  have "s \<noteq> ''.''" and "s \<noteq> ''..''" using is_safe_name_no_dot [OF s] by auto
  then show ?thesis
    using is_safe_name_nonempty [OF s] is_safe_name_no_slash [OF s] by (simp add: plain_component_def)
qed

section \<open>Lookups after a change\<close>

named_theorems fs_simps

lemma pop_fault_fields [fs_simps]:
  "files (snd (pop_fault d)) = files d" "dirs (snd (pop_fault d)) = dirs d"
  "now (snd (pop_fault d)) = now d"
  by (simp_all add: pop_fault_def split: list.splits)

lemma pop_fault_lookup [fs_simps]: "lookup (snd (pop_fault d)) p = lookup d p"
  by (simp add: lookup_def fs_simps)

lemma pop_fault_read [fs_simps]: "fs_read (snd (pop_fault d)) p = fs_read d p"
  by (simp add: fs_read_def fs_simps)

lemma pop_fault_none [fs_simps]: "faults d = [] \<Longrightarrow> pop_fault d = (None, d)"
  by (simp add: pop_fault_def)

lemma put_fields [fs_simps]:
  "dirs (put d p s) = dirs d" "now (put d p s) = now d" "faults (put d p s) = faults d"
  by (simp_all add: put_def)

lemma lookup_put [fs_simps]:
  "lookup (put d p s) q = (if q = p then Some \<lparr>content = s, mtime = now d\<rparr> else lookup d q)"
  by (simp add: lookup_def put_def update_conv')

lemma read_put [fs_simps]: "fs_read (put d p s) q = (if q = p then Some s else fs_read d q)"
  by (simp add: fs_read_def fs_simps)

lemma exists_put [fs_simps]: "fs_exists (put d p s) q \<longleftrightarrow> q = p \<or> fs_exists d q"
  by (auto simp: fs_exists_def fs_simps)

lemma put_put [fs_simps]: "put (put d p s) p t = put d p t"
  by (simp add: put_def update_Some_unfold)

lemma read_some:
  "fs_read d p = Some c \<Longrightarrow> fs_exists d p \<and> fs_is_regular d p \<and> fs_size d p = Some (length c)"
  by (auto simp: fs_exists_def fs_is_regular_def fs_size_def fs_read_def)

lemma faults_update [fs_simps]:
  "put (d\<lparr>faults := fs\<rparr>) p s = (put d p s)\<lparr>faults := fs\<rparr>"
  "fs_read (d\<lparr>faults := fs\<rparr>) p = fs_read d p" "lookup (d\<lparr>faults := fs\<rparr>) p = lookup d p"
  by (simp_all add: put_def fs_read_def lookup_def)

section \<open>Frames: what a call may have touched, whatever failed\<close>

definition touches :: "path set \<Rightarrow> disk \<Rightarrow> disk \<Rightarrow> bool" where
  "touches P d d' \<longleftrightarrow> (\<forall>q. q \<notin> P \<longrightarrow> lookup d' q = lookup d q) \<and> set (dirs d) \<subseteq> set (dirs d')"

named_theorems frame_intros

lemma touches_refl [simp, frame_intros]: "touches P d d"
  by (simp add: touches_def)

lemma touches_trans: "touches P d d' \<Longrightarrow> touches P d' d'' \<Longrightarrow> touches P d d''"
  by (auto simp: touches_def)

lemma touches_mono: "touches P d d' \<Longrightarrow> P \<subseteq> Q \<Longrightarrow> touches Q d d'"
  by (auto simp: touches_def)

lemma touches_pop: "pop_fault d = (f, d') \<Longrightarrow> touches P d d'"
  by (auto simp: touches_def pop_fault_def lookup_def split: list.splits)

lemma touches_put: "p \<in> P \<Longrightarrow> touches P d (put d p s)"
  by (auto simp: touches_def fs_simps)

lemma touches_create: "fs_create d p = (ok, d') \<Longrightarrow> touches {p} d d'"
  by (auto simp: fs_create_def split: prod.splits if_splits
      intro: touches_pop touches_trans [OF touches_pop touches_put])

lemma touches_append: "fs_append d p s = (ok, d') \<Longrightarrow> touches {p} d d'"
  by (auto simp: fs_append_def Let_def split: prod.splits option.splits
      intro: touches_trans [OF touches_pop touches_put])

lemma touches_flush: "fs_flush d p = (ok, d') \<Longrightarrow> touches {p} d d'"
  by (auto simp: fs_flush_def split: prod.splits option.splits
      intro: touches_pop touches_trans [OF touches_pop touches_put])

lemma touches_write_at: "fs_write_at d p k s = (ok, d') \<Longrightarrow> touches {p} d d'"
  by (auto simp: fs_write_at_def Let_def split: prod.splits option.splits
      intro: touches_trans [OF touches_pop touches_put])

lemma touches_resize: "fs_resize d p n = (ok, d') \<Longrightarrow> touches {p} d d'"
  by (auto simp: fs_resize_def split: prod.splits option.splits if_splits
      intro: touches_pop touches_trans [OF touches_pop touches_put])

lemma touches_rename: "fs_rename d a b = (ok, d') \<Longrightarrow> touches {a, b} d d'"
  by (auto simp: fs_rename_def touches_def pop_fault_def lookup_def update_conv' delete_conv'
      split: prod.splits option.splits if_splits list.splits)

lemma touches_remove: "fs_remove d p = (ok, d') \<Longrightarrow> touches {p} d d'"
  by (auto simp: fs_remove_def touches_def pop_fault_def lookup_def delete_conv'
      split: prod.splits option.splits if_splits list.splits)

lemma touches_mkdirs: "fs_mkdirs d p = (ok, d') \<Longrightarrow> touches {} d d'"
  by (auto simp: fs_mkdirs_def touches_def pop_fault_def lookup_def
      split: prod.splits option.splits if_splits list.splits)

lemma touchesD: "touches P d d' \<Longrightarrow> q \<notin> P \<Longrightarrow> lookup d' q = lookup d q"
  by (simp add: touches_def)

lemma touches_read: "touches P d d' \<Longrightarrow> q \<notin> P \<Longrightarrow> fs_read d' q = fs_read d q"
  by (simp add: fs_read_def touchesD)

lemma touches_dirs: "touches P d d' \<Longrightarrow> p \<in> set (dirs d) \<Longrightarrow> p \<in> set (dirs d')"
  by (auto simp: touches_def)

lemmas touch_intros = touches_create touches_append touches_flush touches_write_at touches_resize
  touches_rename touches_remove touches_pop touches_put

section \<open>Effects: what a call that succeeds has done\<close>

lemma create_effect: "fs_create d p = (True, d') \<Longrightarrow> fs_read d' p = Some []"
  by (auto simp: fs_create_def fs_simps split: prod.splits if_splits)

lemma append_effect:
  "fs_append d p s = (True, d') \<Longrightarrow> fs_read d p = Some c \<Longrightarrow> fs_read d' p = Some (c @ s)"
  by (auto simp: fs_append_def fs_simps Let_def pop_fault_def fs_read_def lookup_def put_def
      update_conv' split: prod.splits option.splits list.splits)

lemma append_effect_fail:
  "fs_append d p s = (ok, d') \<Longrightarrow> fs_read d p = Some c \<Longrightarrow>
     \<exists>k. fs_read d' p = Some (c @ take k s)"
  by (auto simp: fs_append_def fs_simps Let_def pop_fault_def fs_read_def lookup_def put_def
      update_conv' split: prod.splits option.splits list.splits intro: exI [of _ "length s"])

lemma rename_effect:
  "fs_rename d a b = (True, d') \<Longrightarrow> a \<noteq> b \<Longrightarrow>
     fs_read d' b = fs_read d a \<and> fs_read d a \<noteq> None \<and> fs_read d' a = None"
  by (auto simp: fs_rename_def pop_fault_def fs_read_def lookup_def update_conv' delete_conv'
      split: prod.splits option.splits if_splits list.splits)

lemma remove_effect: "fs_remove d p = (True, d') \<Longrightarrow> fs_read d' p = None"
  by (auto simp: fs_remove_def pop_fault_def fs_read_def lookup_def delete_conv'
      split: prod.splits option.splits if_splits list.splits)

lemma flush_effect: "fs_flush d p = (True, d') \<Longrightarrow> fs_read d' q = fs_read d q"
  by (auto simp: fs_flush_def fs_simps pop_fault_def fs_read_def lookup_def
      split: prod.splits option.splits list.splits)

lemma append_success:
  "fs_append d p s = (True, d') \<Longrightarrow> fs_read d' q =
     (if q = p then Some ((case fs_read d p of None \<Rightarrow> [] | Some c \<Rightarrow> c) @ s) else fs_read d q)"
  by (auto simp: fs_append_def Let_def pop_fault_def fs_read_def lookup_def put_def update_conv'
      split: prod.splits option.splits list.splits)

lemma create_success:
  "fs_create d p = (True, d') \<Longrightarrow> fs_read d' q = (if q = p then Some [] else fs_read d q)"
  by (auto simp: fs_create_def fs_simps pop_fault_def fs_read_def lookup_def put_def update_conv'
      split: prod.splits if_splits list.splits)

text \<open>A call that reports failure before writing has changed no file.\<close>

lemma create_fail: "fs_create d p = (False, d') \<Longrightarrow> touches {} d d'"
  by (auto simp: fs_create_def split: prod.splits if_splits intro: touches_pop)

lemma rename_fail: "fs_rename d a b = (False, d') \<Longrightarrow> touches {} d d'"
  by (auto simp: fs_rename_def split: prod.splits option.splits if_splits intro: touches_pop)

lemma remove_fail: "fs_remove d p = (False, d') \<Longrightarrow> touches {} d d'"
  by (auto simp: fs_remove_def split: prod.splits option.splits if_splits intro: touches_pop)

section \<open>Runs without faults\<close>

definition writable :: "disk \<Rightarrow> path \<Rightarrow> bool" where
  "writable d p \<longleftrightarrow> butlast p \<in> set (dirs d) \<and> p \<notin> set (dirs d)"

lemma create_ok:
  "faults d = [] \<Longrightarrow> butlast p \<in> set (dirs d) \<Longrightarrow> p \<notin> set (dirs d) \<Longrightarrow>
     fs_create d p = (True, put d p [])"
  by (simp add: fs_create_def fs_simps)

lemma append_ok:
  "faults d = [] \<Longrightarrow> fs_read d p = Some c \<Longrightarrow> fs_append d p s = (True, put d p (c @ s))"
  by (simp add: fs_append_def fs_simps)

lemma flush_ok: "faults d = [] \<Longrightarrow> fs_flush d p = (True, d)"
  by (simp add: fs_flush_def fs_simps)

lemma write_at_ok:
  "faults d = [] \<Longrightarrow> fs_read d p = Some c \<Longrightarrow> fs_write_at d p k s = (True, put d p (overwrite c k s))"
  by (simp add: fs_write_at_def fs_simps)

lemma resize_ok:
  "faults d = [] \<Longrightarrow> fs_read d p = Some c \<Longrightarrow> fs_resize d p n = (True, put d p (resized n c))"
  by (simp add: fs_resize_def fs_simps)

lemma rename_ok:
  "faults d = [] \<Longrightarrow> lookup d a = Some x \<Longrightarrow> butlast b \<in> set (dirs d) \<Longrightarrow> b \<notin> set (dirs d) \<Longrightarrow>
     fs_rename d a b = (True, d\<lparr>files := AList.update b x (AList.delete a (files d))\<rparr>)"
  by (simp add: fs_rename_def fs_simps)

lemmas fault_free = create_ok append_ok flush_ok write_at_ok resize_ok rename_ok

text \<open>Without faults to come, none come.\<close>

lemma faultless_create: "faults d = [] \<Longrightarrow> fs_create d p = (ok, d') \<Longrightarrow> faults d' = []"
  by (auto simp: fs_create_def fs_simps split: if_splits)

lemma faultless_append: "faults d = [] \<Longrightarrow> fs_append d p s = (ok, d') \<Longrightarrow> faults d' = []"
  by (auto simp: fs_append_def fs_simps)

lemma faultless_flush: "faults d = [] \<Longrightarrow> fs_flush d p = (ok, d') \<Longrightarrow> ok \<and> d' = d"
  by (auto simp: fs_flush_def fs_simps)

lemma faultless_remove: "faults d = [] \<Longrightarrow> fs_remove d p = (ok, d') \<Longrightarrow> faults d' = []"
  by (auto simp: fs_remove_def fs_simps split: if_splits)

lemma faultless_rename: "faults d = [] \<Longrightarrow> fs_rename d p q = (ok, d') \<Longrightarrow> faults d' = []"
  by (auto simp: fs_rename_def fs_simps split: if_splits option.splits)

lemma faultless_mkdirs: "faults d = [] \<Longrightarrow> fs_mkdirs d p = (ok, d') \<Longrightarrow> faults d' = []"
  by (auto simp: fs_mkdirs_def fs_simps split: if_splits)

lemma remove_gone: "faults d = [] \<Longrightarrow> fs_remove d p = (ok, d') \<Longrightarrow> fs_read d' p = None"
  by (auto simp: fs_remove_def fs_simps fs_read_def lookup_def delete_conv' split: if_splits)

lemmas faultless = faultless_create faultless_append faultless_remove faultless_rename faultless_mkdirs

text \<open>A disk with these directories and no files, for examples.\<close>

definition empty_disk :: "path list \<Rightarrow> disk" where
  "empty_disk ds = \<lparr>files = [], dirs = ds, now = 0, faults = []\<rparr>"

lemma empty_disk_simps [simp]:
  "files (empty_disk ds) = []" "dirs (empty_disk ds) = ds" "now (empty_disk ds) = 0"
  "faults (empty_disk ds) = []" "lookup (empty_disk ds) p = None" "fs_read (empty_disk ds) p = None"
  by (simp_all add: empty_disk_def lookup_def fs_read_def)

section \<open>Text streams\<close>

text \<open>
  \<open>getline\<close> until it fails: a last line without a newline still counts. Writing is \<open><<\<close> on a
  stream that ignores everything after a failure.
\<close>

abbreviation newline :: char where "newline \<equiv> CHR 0x0A"

lemma newline_code: "char_of (10::nat) = newline"
proof -
  have "(of_char (char_of (10::nat)) :: nat) = of_char newline" by (simp add: of_char_of)
  then show ?thesis by (simp only: of_char_eq_iff)
qed

lemma newline_not_digit: "newline \<notin> set (to_dec n)"
  using to_dec_digits [of n] by (auto simp: list_all_iff is_digit_code)

function getlines :: "string \<Rightarrow> string list" where
  "getlines s =
     (if s = [] then []
      else takeWhile (\<lambda>c. c \<noteq> newline) s # getlines (tl (dropWhile (\<lambda>c. c \<noteq> newline) s)))"
  by pat_completeness auto
termination
proof (relation "measure length")
  fix s :: string assume "s \<noteq> []"
  then show "(tl (dropWhile (\<lambda>c. c \<noteq> newline) s), s) \<in> measure length"
    using length_dropWhile_le [of "\<lambda>c. c \<noteq> newline" s] by (cases s) (auto simp: le_less_trans)
qed auto

declare getlines.simps [simp del]

definition unlines :: "string list \<Rightarrow> string" where
  "unlines ls = concat (map (\<lambda>l. l @ [newline]) ls)"

lemma getlines_Nil [simp]: "getlines [] = []"
  by (simp add: getlines.simps)

lemma getlines_line: "newline \<notin> set l \<Longrightarrow> getlines (l @ newline # r) = l # getlines r"
proof -
  assume "newline \<notin> set l"
  then have l: "list_all (\<lambda>c. c \<noteq> newline) l" by (auto simp: list_all_iff)
  have "takeWhile (\<lambda>c. c \<noteq> newline) (l @ newline # r) = l"
    "dropWhile (\<lambda>c. c \<noteq> newline) (l @ newline # r) = newline # r"
    using l by (simp_all only: takeWhile_append_stop dropWhile_append_stop not_not)
  then show ?thesis by (subst getlines.simps) simp
qed

lemma getlines_unlines: "\<forall>l\<in>set ls. newline \<notin> set l \<Longrightarrow> getlines (unlines ls) = ls"
  by (induction ls) (simp_all add: unlines_def getlines_line)

lemma getlines_no_newline: "l \<in> set (getlines s) \<Longrightarrow> newline \<notin> set l"
proof (induction s rule: getlines.induct)
  case (1 s)
  then show ?case by (subst (asm) (2) getlines.simps) (auto split: if_splits dest: set_takeWhileD)
qed

definition out_text :: "path \<Rightarrow> string \<Rightarrow> bool \<times> disk \<Rightarrow> bool \<times> disk" where
  "out_text p s st = (case st of (good, d) \<Rightarrow> if good then fs_append d p s else (False, d))"

definition out_flush :: "path \<Rightarrow> bool \<times> disk \<Rightarrow> bool \<times> disk" where
  "out_flush p st = (case st of (good, d) \<Rightarrow> if good then fs_flush d p else (False, d))"

definition out_lines :: "path \<Rightarrow> string list \<Rightarrow> bool \<times> disk \<Rightarrow> bool \<times> disk" where
  "out_lines p ls st = foldl (\<lambda>st l. out_text p (l @ [newline]) st) st ls"

lemma out_lines_bad: "out_lines p ls (False, d) = (False, d)"
  by (induction ls) (simp_all add: out_lines_def out_text_def)

lemma out_lines_Cons: "out_lines p (l # ls) st = out_lines p ls (out_text p (l @ [newline]) st)"
  by (simp add: out_lines_def)

lemma out_lines_success:
  "out_lines p ls (g, d) = (True, d') \<Longrightarrow> fs_read d p = Some c \<Longrightarrow>
     g \<and> fs_read d' p = Some (c @ unlines ls) \<and> (\<forall>q. q \<noteq> p \<longrightarrow> fs_read d' q = fs_read d q)"
proof (induction ls arbitrary: g d c)
  case Nil
  then show ?case by (simp add: out_lines_def unlines_def)
next
  case (Cons l ls)
  obtain g1 d1 where o: "out_text p (l @ [newline]) (g, d) = (g1, d1)" by fastforce
  with Cons.prems(1) have run: "out_lines p ls (g1, d1) = (True, d')" by (simp add: out_lines_Cons)
  then have g1: g1 using out_lines_bad [of p ls d1] by (cases g1) auto
  with o have g: g and a: "fs_append d p (l @ [newline]) = (True, d1)"
    by (auto simp: out_text_def split: if_splits)
  have "fs_read d1 p = Some (c @ l @ [newline])" using append_success [OF a, of p] Cons.prems(2) by simp
  from Cons.IH [OF run this] append_success [OF a] g show ?case by (auto simp: unlines_def)
qed

lemma out_lines_touches: "out_lines p ls (g, d) = (g', d') \<Longrightarrow> touches {p} d d'"
proof (induction ls arbitrary: g d)
  case (Cons l ls)
  obtain g1 d1 where o: "out_text p (l @ [newline]) (g, d) = (g1, d1)" by fastforce
  then have "touches {p} d d1" by (auto simp: out_text_def dest: touches_append split: if_splits)
  moreover have "touches {p} d1 d'" using Cons o by (simp add: out_lines_Cons)
  ultimately show ?case by (rule touches_trans)
qed (simp add: out_lines_def)

lemma out_lines_ok:
  "faults d = [] \<Longrightarrow> out_lines p ls (True, put d p c) = (True, put d p (c @ unlines ls))"
proof (induction ls arbitrary: c)
  case (Cons l ls)
  then show ?case
    using Cons.IH [of "c @ l @ [newline]"]
    by (simp add: out_lines_Cons out_text_def fault_free fs_simps unlines_def)
qed (simp add: out_lines_def unlines_def)

lemma out_flush_touches: "out_flush p (g, d) = (g', d') \<Longrightarrow> touches {p} d d'"
  by (auto simp: out_flush_def dest: touches_flush split: if_splits)

end
