(* ===== verification/Crypto.thy ===== *)
theory Crypto
  imports Hex Filesys
begin

text \<open>
  \<open>src/core/cipher.cpp\<close> and \<open>src/core/digest.cpp\<close>: the thin layer over OpenSSL. OpenSSL itself is
  a parameter, the record \<open>openssl\<close>, one field per call the code makes; a call that reports
  failure gives \<open>None\<close>. The system's entropy is the list of bytes \<open>RAND_bytes\<close> will still
  deliver; it fails when too few are left.
\<close>

definition kIvLen :: nat where "kIvLen = 12"
definition kTagLen :: nat where "kTagLen = 16"
definition kKeyLen :: nat where "kKeyLen = 32"
definition kSaltLen :: nat where "kSaltLen = 16"
definition kKdfIterations :: u32 where "kKdfIterations = 100000"
definition kPasswordIterations :: u32 where "kPasswordIterations = 600000"
definition kContentKeyLabel :: string where "kContentKeyLabel = ''pcs-content-v1''"
definition kDedupKeyLabel :: string where "kDedupKeyLabel = ''pcs-dedup-v1''"

lemmas crypto_lengths = kIvLen_def kTagLen_def kKeyLen_def kSaltLen_def

record 'x openssl =
  pbkdf2_hmac_sha256 :: "string \<Rightarrow> bytes \<Rightarrow> u32 \<Rightarrow> nat \<Rightarrow> bytes option"
  evp_ctx_new :: "'x option"
  evp_init :: "bool \<Rightarrow> 'x \<Rightarrow> 'x option"
  evp_set_ivlen :: "'x \<Rightarrow> nat \<Rightarrow> 'x option"
  evp_key_iv :: "'x \<Rightarrow> bytes \<Rightarrow> bytes \<Rightarrow> 'x option"
  evp_aad :: "'x \<Rightarrow> bytes \<Rightarrow> 'x option"
  evp_update :: "'x \<Rightarrow> bytes \<Rightarrow> ('x \<times> bytes) option"
  evp_set_tag :: "'x \<Rightarrow> bytes \<Rightarrow> 'x option"
  evp_final :: "'x \<Rightarrow> ('x \<times> bytes) option"
  evp_get_tag :: "'x \<Rightarrow> nat \<Rightarrow> bytes option"
  md_available :: bool
  sha256_of :: "bytes \<Rightarrow> bytes"
  mac_available :: bool
  hmac_sha256_of :: "bytes \<Rightarrow> bytes \<Rightarrow> bytes"

section \<open>Keys and randomness\<close>

text \<open>An empty vector is the code's sign of failure.\<close>

definition derive_key :: "'x openssl \<Rightarrow> string \<Rightarrow> bytes \<Rightarrow> string \<Rightarrow> u32 \<Rightarrow> bytes" where
  "derive_key E passphrase salt label iterations =
     (let full = bytes_of label @ salt
      in case pbkdf2_hmac_sha256 E passphrase full iterations kKeyLen of
           None \<Rightarrow> []
         | Some key \<Rightarrow> key)"

definition derive_dedup_key :: "'x openssl \<Rightarrow> string \<Rightarrow> bytes" where
  "derive_dedup_key E passphrase =
     (let label = kDedupKeyLabel; salt = bytes_of label
      in derive_key E passphrase salt label kKdfIterations)"

definition random_bytes :: "nat \<Rightarrow> bytes \<Rightarrow> bytes \<times> bytes" where
  "random_bytes n pool =
     (if n \<le> length pool then (take n pool, drop n pool) else ([], pool))"

section \<open>AES-256-GCM\<close>

text \<open>Empty input skips the update call, for the additional data and for the text alike.\<close>

definition feed_aad :: "'x openssl \<Rightarrow> 'x \<Rightarrow> bytes \<Rightarrow> 'x option" where
  "feed_aad E c aad = (if aad \<noteq> [] then evp_aad E c aad else Some c)"

definition feed_text :: "'x openssl \<Rightarrow> 'x \<Rightarrow> bytes \<Rightarrow> ('x \<times> bytes) option" where
  "feed_text E c s = (if s \<noteq> [] then evp_update E c s else Some (c, []))"

definition aes_gcm_seal ::
  "'x openssl \<Rightarrow> bytes \<Rightarrow> bytes \<Rightarrow> bytes \<Rightarrow> bytes \<Rightarrow> (bytes \<times> bytes) option" where
  "aes_gcm_seal E key iv aad plain =
     (if length key \<noteq> kKeyLen \<or> length iv \<noteq> kIvLen then None
      else case evp_ctx_new E of None \<Rightarrow> None | Some c \<Rightarrow>
      case evp_init E True c of None \<Rightarrow> None | Some c \<Rightarrow>
      case evp_set_ivlen E c (length iv) of None \<Rightarrow> None | Some c \<Rightarrow>
      case evp_key_iv E c key iv of None \<Rightarrow> None | Some c \<Rightarrow>
      case feed_aad E c aad of None \<Rightarrow> None | Some c \<Rightarrow>
      case feed_text E c plain of None \<Rightarrow> None | Some (c, written) \<Rightarrow>
      case evp_final E c of None \<Rightarrow> None | Some (c, end_bytes) \<Rightarrow>
      case evp_get_tag E c kTagLen of None \<Rightarrow> None | Some tag \<Rightarrow>
        Some (written @ end_bytes, tag))"

definition aes_gcm_open ::
  "'x openssl \<Rightarrow> bytes \<Rightarrow> bytes \<Rightarrow> bytes \<Rightarrow> bytes \<Rightarrow> bytes \<Rightarrow> bytes option" where
  "aes_gcm_open E key iv aad cipher tag =
     (if length key \<noteq> kKeyLen \<or> length iv \<noteq> kIvLen then None
      else if length tag \<noteq> kTagLen then None
      else case evp_ctx_new E of None \<Rightarrow> None | Some c \<Rightarrow>
      case evp_init E False c of None \<Rightarrow> None | Some c \<Rightarrow>
      case evp_set_ivlen E c (length iv) of None \<Rightarrow> None | Some c \<Rightarrow>
      case evp_key_iv E c key iv of None \<Rightarrow> None | Some c \<Rightarrow>
      case feed_aad E c aad of None \<Rightarrow> None | Some c \<Rightarrow>
      case feed_text E c cipher of None \<Rightarrow> None | Some (c, written) \<Rightarrow>
      case evp_set_tag E c tag of None \<Rightarrow> None | Some c \<Rightarrow>
      case evp_final E c of None \<Rightarrow> None | Some (c, end_bytes) \<Rightarrow> Some (written @ end_bytes))"

text \<open>
  What the code relies on: derived keys have the length asked for, and opening is the exact
  inverse of sealing, the tag being the one sealing would compute. Digests have 32 bytes.
\<close>

definition openssl_ok :: "'x openssl \<Rightarrow> bool" where
  "openssl_ok E \<longleftrightarrow>
     (\<forall>p s i n k. pbkdf2_hmac_sha256 E p s i n = Some k \<longrightarrow> length k = n) \<and>
     (\<forall>key iv aad p c t. aes_gcm_seal E key iv aad p = Some (c, t) \<longrightarrow>
        length c = length p \<and> length t = kTagLen) \<and>
     (\<forall>key iv aad p c t. aes_gcm_open E key iv aad c t = Some p \<longleftrightarrow>
        aes_gcm_seal E key iv aad p = Some (c, t)) \<and>
     (\<forall>m. length (sha256_of E m) = 32) \<and> (\<forall>k m. length (hmac_sha256_of E k m) = 32)"

section \<open>Digests\<close>

text \<open>
  A digest object holds what it has been fed, or nothing when OpenSSL gave it no context: then
  updates do nothing and the result is 32 zero bytes.
\<close>

type_synonym sha_state = "bytes option"

definition sha_new :: "'x openssl \<Rightarrow> sha_state" where
  "sha_new E = (if md_available E then Some [] else None)"

definition sha_update :: "sha_state \<Rightarrow> bytes \<Rightarrow> sha_state" where
  "sha_update h data = (case h of None \<Rightarrow> None | Some fed \<Rightarrow> Some (fed @ data))"

definition sha_finish :: "'x openssl \<Rightarrow> sha_state \<Rightarrow> bytes" where
  "sha_finish E h = (case h of None \<Rightarrow> replicate 32 0 | Some fed \<Rightarrow> sha256_of E fed)"

record hmac_state =
  hmac_key :: bytes
  hmac_fed :: "bytes option"

definition hmac_new :: "'x openssl \<Rightarrow> bytes \<Rightarrow> hmac_state" where
  "hmac_new E key = \<lparr>hmac_key = key, hmac_fed = (if mac_available E then Some [] else None)\<rparr>"

definition hmac_update :: "hmac_state \<Rightarrow> bytes \<Rightarrow> hmac_state" where
  "hmac_update h data =
     (case hmac_fed h of
        None \<Rightarrow> h
      | Some fed \<Rightarrow> if data = [] then h else h\<lparr>hmac_fed := Some (fed @ data)\<rparr>)"

definition hmac_finish :: "'x openssl \<Rightarrow> hmac_state \<Rightarrow> bytes" where
  "hmac_finish E h =
     (case hmac_fed h of None \<Rightarrow> replicate 32 0 | Some fed \<Rightarrow> hmac_sha256_of E (hmac_key h) fed)"

definition sha256 :: "'x openssl \<Rightarrow> bytes \<Rightarrow> bytes" where
  "sha256 E data = sha_finish E (sha_update (sha_new E) data)"

definition sha256_hex :: "'x openssl \<Rightarrow> bytes \<Rightarrow> string" where
  "sha256_hex E data = to_hex (sha256 E data)"

text \<open>The reading loop both streaming digests share: whole buffers, then the rest.\<close>

function feed_buffers :: "nat \<Rightarrow> ('s \<Rightarrow> bytes \<Rightarrow> 's) \<Rightarrow> 's \<Rightarrow> string \<Rightarrow> 's" where
  "feed_buffers n upd h rest =
     (if rest = [] \<or> n = 0 then h
      else feed_buffers n upd (upd h (bytes_of (take n rest))) (drop n rest))"
  by pat_completeness auto
termination by (relation "measure (\<lambda>(n, u, h, rest). length rest)") auto

declare feed_buffers.simps [simp del]

definition sha256_file_hex :: "'x openssl \<Rightarrow> disk \<Rightarrow> path \<Rightarrow> string" where
  "sha256_file_hex E d p =
     (case fs_read d p of
        None \<Rightarrow> []
      | Some c \<Rightarrow> to_hex (sha_finish E (feed_buffers kIoBufferSize sha_update (sha_new E) c)))"

definition secure_equal :: "string \<Rightarrow> string \<Rightarrow> bool" where
  "secure_equal a b =
     (if length a \<noteq> length b then False
      else if a = [] then True
      else foldl (OR) 0 (map2 (XOR) (bytes_of a) (bytes_of b)) = 0)"

section \<open>Lemmas\<close>

lemma random_bytes_length:
  "random_bytes n pool = (bs, pool') \<Longrightarrow> length bs = n \<or> bs = [] \<and> pool' = pool"
  by (auto simp: random_bytes_def split: if_splits)

lemma feed_buffers_sha:
  "0 < n \<Longrightarrow> feed_buffers n sha_update (Some fed) c = Some (fed @ bytes_of c)"
proof (induction n sha_update "Some fed" c arbitrary: fed rule: feed_buffers.induct)
  case (1 n c)
  show ?case
  proof (cases "c = []")
    case True
    then show ?thesis by (simp add: feed_buffers.simps bytes_of_def)
  next
    case False
    have "bytes_of (take n c) @ bytes_of (drop n c) = bytes_of c"
      by (simp flip: bytes_of_append)
    with False 1 show ?thesis
      by (subst feed_buffers.simps) (simp add: sha_update_def)
  qed
qed

lemma foldl_or_zero: "foldl (OR) a bs = 0 \<longleftrightarrow> a = 0 \<and> list_all (\<lambda>b. b = 0) bs" for a :: byte
  by (induction bs arbitrary: a) (auto simp: or_eq_0_iff)

lemma secure_equal_iff: "secure_equal a b \<longleftrightarrow> a = b"
proof (cases "length a = length b")
  case True
  then have "list_all (\<lambda>x. x = (0::byte)) (map2 (XOR) (bytes_of a) (bytes_of b)) \<longleftrightarrow> a = b"
  proof (induction a b rule: list_induct2)
    case (Cons x xs y ys)
    have "byte_of x XOR byte_of y = 0 \<longleftrightarrow> x = y"
      by (metis char_of_byte_byte_of xor_self_eq xor_self_left xor.right_neutral)
    with Cons.IH show ?case by (auto simp: bytes_of_def)
  qed (simp add: bytes_of_def)
  with True show ?thesis by (auto simp: secure_equal_def foldl_or_zero)
next
  case False
  then show ?thesis by (auto simp: secure_equal_def)
qed

section \<open>An instance of the interface\<close>

text \<open>
  Not a cipher anybody should use, but it obeys the laws above, so it shows they can be met:
  the key stream is one byte of the key, the tag a checksum of everything authenticated.
\<close>

record mini_ctx =
  mc_encrypt :: bool
  mc_key :: bytes
  mc_auth :: bytes
  mc_tag :: bytes

definition mini_tag :: "bytes \<Rightarrow> bytes" where
  "mini_tag bs = replicate 16 (foldl (\<lambda>a b. a * 3 + b) 7 bs)"

definition mini_hash :: "bytes \<Rightarrow> bytes" where
  "mini_hash bs = take 32 (bs @ replicate 32 (of_nat (length bs)))"

definition mini_openssl :: "mini_ctx openssl" where
  "mini_openssl = \<lparr>
     pbkdf2_hmac_sha256 = (\<lambda>p s i n. Some (take n (bytes_of p @ s @ replicate n 1))),
     evp_ctx_new = Some \<lparr>mc_encrypt = True, mc_key = [], mc_auth = [], mc_tag = []\<rparr>,
     evp_init = (\<lambda>e c. Some (c\<lparr>mc_encrypt := e\<rparr>)),
     evp_set_ivlen = (\<lambda>c n. Some c),
     evp_key_iv = (\<lambda>c k iv. Some (c\<lparr>mc_key := k, mc_auth := iv\<rparr>)),
     evp_aad = (\<lambda>c a. Some (c\<lparr>mc_auth := mc_auth c @ a\<rparr>)),
     evp_update = (\<lambda>c s. let r = map (\<lambda>b. b XOR hd (mc_key c)) s
        in Some (c\<lparr>mc_auth := mc_auth c @ (if mc_encrypt c then r else s)\<rparr>, r)),
     evp_set_tag = (\<lambda>c t. Some (c\<lparr>mc_tag := t\<rparr>)),
     evp_final = (\<lambda>c. if mc_encrypt c \<or> mc_tag c = mini_tag (mc_auth c) then Some (c, []) else None),
     evp_get_tag = (\<lambda>c n. Some (take n (mini_tag (mc_auth c)))),
     md_available = True, sha256_of = mini_hash,
     mac_available = True, hmac_sha256_of = (\<lambda>k m. mini_hash (k @ m))\<rparr>"

lemma mini_seal:
  "aes_gcm_seal mini_openssl key iv aad p =
     (if length key = 32 \<and> length iv = 12
      then Some (map (\<lambda>b. b XOR hd key) p, mini_tag (iv @ aad @ map (\<lambda>b. b XOR hd key) p))
      else None)"
  by (simp add: aes_gcm_seal_def mini_openssl_def crypto_lengths feed_aad_def feed_text_def Let_def
      mini_tag_def)

lemma mini_open:
  "aes_gcm_open mini_openssl key iv aad c t =
     (if length key = 32 \<and> length iv = 12 \<and> t = mini_tag (iv @ aad @ c)
      then Some (map (\<lambda>b. b XOR hd key) c) else None)"
  by (auto simp: aes_gcm_open_def mini_openssl_def crypto_lengths feed_aad_def feed_text_def Let_def
      mini_tag_def)

lemma mini_openssl_ok: "openssl_ok mini_openssl"
proof -
  have x: "(b XOR k) XOR k = b" for b k :: byte by (simp add: xor.assoc)
  have "\<forall>p s i n k. pbkdf2_hmac_sha256 mini_openssl p s i n = Some k \<longrightarrow> length k = n"
    by (auto simp: mini_openssl_def)
  moreover have "\<forall>m. length (sha256_of mini_openssl m) = 32"
    "\<forall>k m. length (hmac_sha256_of mini_openssl k m) = 32"
    by (auto simp: mini_openssl_def mini_hash_def)
  moreover have "aes_gcm_open mini_openssl key iv aad c t = Some p \<longleftrightarrow>
      aes_gcm_seal mini_openssl key iv aad p = Some (c, t)" for key iv aad p c t
    by (auto simp: mini_seal mini_open comp_def x)
  ultimately show ?thesis
    unfolding openssl_ok_def by (auto simp: mini_seal mini_tag_def kTagLen_def split: if_splits)
qed

end
