(* ===== verification/Protocol.thy ===== *)
theory Protocol
  imports Prelude
begin

text \<open>
  \<open>include/pcs/protocol.hpp\<close> and \<open>src/core/protocol.cpp\<close>: the words of the wire grammar and
  the three parsers both ends share. A loop over an index of the line is a recursion on what is
  left of the line.
\<close>

section \<open>The vocabulary\<close>

definition kHello :: string where "kHello = ''HELLO''"
definition kPing :: string where "kPing = ''PING''"
definition kAuth :: string where "kAuth = ''AUTH''"
definition kLogin :: string where "kLogin = ''LOGIN''"
definition kStat :: string where "kStat = ''STAT''"
definition kPutFile :: string where "kPutFile = ''PUTFILE''"
definition kGetFile :: string where "kGetFile = ''GETFILE''"
definition kDelFile :: string where "kDelFile = ''DELFILE''"
definition kPutChunk :: string where "kPutChunk = ''PUTCHUNK''"
definition kGetChunk :: string where "kGetChunk = ''GETCHUNK''"
definition kDelChunk :: string where "kDelChunk = ''DELCHUNK''"
definition kList :: string where "kList = ''LIST''"
definition kQuit :: string where "kQuit = ''QUIT''"

definition kOk :: string where "kOk = ''OK''"
definition kErr :: string where "kErr = ''ERR''"
definition kPong :: string where "kPong = ''PONG''"
definition kNone :: string where "kNone = ''NONE''"
definition kData :: string where "kData = ''DATA''"
definition kMeta :: string where "kMeta = ''META''"
definition kCount :: string where "kCount = ''COUNT''"
definition kBye :: string where "kBye = ''BYE''"

lemmas vocabulary = kHello_def kPing_def kAuth_def kLogin_def kStat_def kPutFile_def kGetFile_def
  kDelFile_def kPutChunk_def kGetChunk_def kDelChunk_def kList_def kQuit_def
  kOk_def kErr_def kPong_def kNone_def kData_def kMeta_def kCount_def kBye_def

definition kProtocol :: string where "kProtocol = ''pcs/4''"

section \<open>Splitting lines\<close>

abbreviation space :: char where "space \<equiv> CHR '' ''"

definition skip_spaces :: "string \<Rightarrow> string" where
  "skip_spaces = dropWhile (\<lambda>c. c = space)"

definition field :: "string \<Rightarrow> string" where
  "field = takeWhile (\<lambda>c. c \<noteq> space)"

definition after_field :: "string \<Rightarrow> string" where
  "after_field = dropWhile (\<lambda>c. c \<noteq> space)"

lemma after_field_shorter: "s \<noteq> [] \<Longrightarrow> length (after_field (skip_spaces s)) < length s"
proof -
  assume "s \<noteq> []"
  have le: "length (skip_spaces s) \<le> length s" by (simp add: skip_spaces_def length_dropWhile_le)
  show ?thesis
  proof (cases "skip_spaces s")
    case Nil
    with \<open>s \<noteq> []\<close> show ?thesis by (simp add: after_field_def)
  next
    case (Cons c t)
    then have "c \<noteq> space" using hd_dropWhile [of "\<lambda>c. c = space" s] by (auto simp: skip_spaces_def)
    with Cons le show ?thesis
      by (simp add: after_field_def) (metis length_dropWhile_le le_imp_less_Suc order_less_le_trans)
  qed
qed

function split :: "string \<Rightarrow> string list" where
  "split line =
     (if line = [] then []
      else let at = skip_spaces line; rest = after_field at
           in (if field at \<noteq> [] then [field at] else []) @ split rest)"
  by pat_completeness auto
termination
  by (relation "measure length") (auto simp: after_field_shorter)

declare split.simps [simp del]

text \<open>
  \<open>room\<close> is \<open>limit - 1 - parts.size()\<close>: how many fields may still be cut off before the
  rest of the line becomes the last one.
\<close>

function split_n_loop :: "string \<Rightarrow> nat \<Rightarrow> string list" where
  "split_n_loop line room =
     (if line \<noteq> [] \<and> 0 < room
      then let at = skip_spaces line; rest = after_field at
           in (if field at \<noteq> [] then field at # split_n_loop rest (room - 1)
               else split_n_loop rest room)
      else let last = skip_spaces line in if last \<noteq> [] then [last] else [])"
  by pat_completeness auto
termination
  by (relation "measure (\<lambda>(line, room). length line)") (auto simp: after_field_shorter)

declare split_n_loop.simps [simp del]

definition split_n :: "string \<Rightarrow> nat \<Rightarrow> string list" where
  "split_n line limit = (if limit = 0 then [] else split_n_loop line (limit - 1))"

section \<open>Sizes\<close>

fun parse_size_loop :: "string \<Rightarrow> u64 \<Rightarrow> u64 \<Rightarrow> u64 option" where
  "parse_size_loop [] limit value = Some value"
| "parse_size_loop (c # text) limit value =
     (if \<not> is_digit c then None
      else let digit = word_of_nat (digit_val c)
           in if value > (limit - digit) div 10 then None
              else let value = value * 10 + digit
                   in if value > limit then None else parse_size_loop text limit value)"

definition parse_size :: "string \<Rightarrow> u64 \<Rightarrow> u64 option" where
  "parse_size text limit =
     (if text = [] \<or> length text > 20 then None else parse_size_loop text limit 0)"

section \<open>Splitting: what comes out\<close>

lemma skip_spaces_simps [simp]:
  "skip_spaces [] = []" "skip_spaces (space # s) = skip_spaces s"
  "c \<noteq> space \<Longrightarrow> skip_spaces (c # s) = c # s"
  by (simp_all add: skip_spaces_def)

lemma field_append: "space \<notin> set w \<Longrightarrow> field (w @ space # r) = w"
  by (induction w) (auto simp: field_def)

lemma after_field_append: "space \<notin> set w \<Longrightarrow> after_field (w @ space # r) = space # r"
  by (induction w) (auto simp: after_field_def)

lemma field_word: "space \<notin> set w \<Longrightarrow> field w = w"
  by (induction w) (auto simp: field_def)

lemma after_field_word: "space \<notin> set w \<Longrightarrow> after_field w = []"
  by (induction w) (auto simp: after_field_def)

lemma skip_spaces_word: "w \<noteq> [] \<Longrightarrow> space \<notin> set w \<Longrightarrow> skip_spaces (w @ r) = w @ r"
  by (cases w) auto

lemma split_Nil [simp]: "split [] = []"
  by (simp add: split.simps)

lemma split_space [simp]: "split (space # s) = split s"
proof (cases "s = []")
  case True
  then show ?thesis by (simp add: split.simps [of "[space]"] field_def after_field_def)
next
  case False
  then show ?thesis
    by (subst (1 2) split.simps) (simp add: Let_def)
qed

lemma split_field:
  "w \<noteq> [] \<Longrightarrow> space \<notin> set w \<Longrightarrow> split (w @ space # r) = w # split r"
  by (subst split.simps)
    (simp add: skip_spaces_word field_append after_field_append Let_def)

lemma split_word: "w \<noteq> [] \<Longrightarrow> space \<notin> set w \<Longrightarrow> split w = [w]"
  using skip_spaces_word [of w "[]"]
  by (subst split.simps) (simp add: field_word after_field_word Let_def)

text \<open>Fields are never empty and never hold a space.\<close>

lemma space_notin_field: "space \<notin> set (field s)"
  by (auto simp: field_def dest: set_takeWhileD)

lemma split_fields: "w \<in> set (split line) \<Longrightarrow> w \<noteq> [] \<and> space \<notin> set w"
proof (induction line rule: split.induct)
  case (1 line)
  show ?case
  proof (cases "line = []")
    case False
    with "1.prems" consider "w = field (skip_spaces line)" "w \<noteq> []"
      | "w \<in> set (split (after_field (skip_spaces line)))"
      by (subst (asm) split.simps) (auto simp: Let_def split: if_splits)
    then show ?thesis
      using "1.IH" [OF False refl refl] space_notin_field by cases auto
  qed (use 1 in simp)
qed

lemma split_subset: "w \<in> set (split line) \<Longrightarrow> set w \<subseteq> set line"
proof (induction line rule: split.induct)
  case (1 line)
  show ?case
  proof (cases "line = []")
    case False
    let ?at = "skip_spaces line"
    have sub: "set ?at \<subseteq> set line" by (auto simp: skip_spaces_def dest: set_dropWhileD)
    have parts: "set (field ?at) \<subseteq> set ?at" "set (after_field ?at) \<subseteq> set ?at"
      by (auto simp: field_def after_field_def dest: set_takeWhileD set_dropWhileD)
    from False "1.prems" consider "w = field ?at" | "w \<in> set (split (after_field ?at))"
      by (subst (asm) split.simps) (auto simp: Let_def split: if_splits)
    then show ?thesis
      using "1.IH" [OF False refl refl] sub parts by cases auto
  qed (use 1 in simp)
qed

text \<open>A line assembled from words is taken apart into the same words.\<close>

fun join_words :: "string list \<Rightarrow> string" where
  "join_words [] = []"
| "join_words [w] = w"
| "join_words (w # ws) = w @ space # join_words ws"

definition is_word :: "string \<Rightarrow> bool" where
  "is_word w \<longleftrightarrow> w \<noteq> [] \<and> space \<notin> set w"

lemma split_join_words: "list_all is_word ws \<Longrightarrow> split (join_words ws) = ws"
  by (induction ws rule: join_words.induct) (simp_all add: is_word_def split_word split_field)

lemma split_n_loop_field:
  "is_word w \<Longrightarrow> split_n_loop (w @ space # r) (Suc room) = w # split_n_loop (space # r) room"
  by (subst split_n_loop.simps)
    (simp add: is_word_def skip_spaces_word field_append after_field_append Let_def)

lemma split_n_loop_space: "split_n_loop (space # r) room = split_n_loop r room"
proof (cases "r = []")
  case True
  then show ?thesis
    by (simp add: split_n_loop.simps [of "[space]"] split_n_loop.simps [of "[]"] field_def after_field_def)
next
  case False
  then show ?thesis by (subst (1 2) split_n_loop.simps) (simp add: Let_def)
qed

lemma split_n_field:
  "is_word w \<Longrightarrow> split_n (w @ space # r) (Suc (Suc k)) = w # split_n r (Suc k)"
  by (simp add: split_n_def split_n_loop_field split_n_loop_space)

lemma split_n_last: "split_n r (Suc 0) = (if skip_spaces r = [] then [] else [skip_spaces r])"
  by (simp add: split_n_def split_n_loop.simps Let_def)

text \<open>The last field keeps its spaces: a name survives whenever it does not start with one.\<close>

lemma split_n_keeps_name:
  assumes "list_all is_word ws" and "name \<noteq> []" and "hd name \<noteq> space"
  shows "split_n (concat (map (\<lambda>w. w @ [space]) ws) @ name) (Suc (length ws)) = ws @ [name]"
  using assms(1)
proof (induction ws)
  case Nil
  from assms(2,3) have "skip_spaces name = name" by (cases name) auto
  then show ?case using assms(2) by (simp add: split_n_last)
next
  case (Cons w ws)
  then show ?case using split_n_field [of w _ "length ws"] by simp
qed

lemma split_n_loop_length: "length (split_n_loop line room) \<le> Suc room"
proof (induction line room rule: split_n_loop.induct)
  case (1 line room)
  then show ?case
    by (subst split_n_loop.simps) (force simp: Let_def)
qed

lemma split_n_length: "length (split_n line limit) \<le> limit"
  using split_n_loop_length [of line "limit - 1"] by (cases limit) (auto simp: split_n_def)

section \<open>Sizes: the parser computes the decimal value and never wraps\<close>

lemma unat_word_of_nat_64: "n < 2 ^ 64 \<Longrightarrow> unat (word_of_nat n :: u64) = n"
  by (simp add: unat_of_nat)

lemma unat_less_64: "unat (w :: u64) < 2 ^ 64"
  using unsigned_less [of w] by simp

lemma parse_size_step:
  fixes val limit :: u64
  assumes le: "val \<le> limit" and d: "d < 10"
  shows "10 * unat val + d \<le> unat limit \<Longrightarrow>
           \<not> val > (limit - word_of_nat d) div 10 \<and>
           unat (val * 10 + word_of_nat d) = 10 * unat val + d"
    and "\<not> 10 * unat val + d \<le> unat limit \<Longrightarrow>
           val > (limit - word_of_nat d) div 10 \<or> val * 10 + word_of_nat d > limit"
proof -
  have digit: "unat (word_of_nat d :: u64) = d" using d by (simp add: unat_word_of_nat_64)
  have sum: "unat (val * 10 + word_of_nat d) = 10 * unat val + d"
    if "10 * unat val + d < 2 ^ 64"
    using that by (simp add: unat_word_ariths digit mult.commute)
  have quot: "val > (limit - word_of_nat d) div 10 \<longleftrightarrow> (unat limit - d) div 10 < unat val"
    if "d \<le> unat limit"
  proof -
    have "unat (limit - word_of_nat d) = unat limit - d"
      using that digit by (simp add: unat_sub word_le_nat_alt)
    then show ?thesis by (simp add: word_less_nat_alt unat_div)
  qed
  show "\<not> val > (limit - word_of_nat d) div 10 \<and>
      unat (val * 10 + word_of_nat d) = 10 * unat val + d"
    if fits: "10 * unat val + d \<le> unat limit"
  proof
    from fits have "unat val \<le> (unat limit - d) div 10" by linarith
    then show "\<not> val > (limit - word_of_nat d) div 10" using quot fits by simp
    show "unat (val * 10 + word_of_nat d) = 10 * unat val + d"
      using fits unat_less_64 [of limit] by (intro sum) linarith
  qed
  show "val > (limit - word_of_nat d) div 10 \<or> val * 10 + word_of_nat d > limit"
    if big: "\<not> 10 * unat val + d \<le> unat limit"
  proof (cases "d \<le> unat limit")
    case True
    with big have "(unat limit - d) div 10 < unat val" by linarith
    with quot True show ?thesis by simp
  next
    case False
    have "unat val \<le> unat limit" using le by (simp add: word_le_nat_alt)
    with False d have "10 * unat val + d < 2 ^ 64" by simp
    with sum big show ?thesis by (simp add: word_less_nat_alt)
  qed
qed

lemma dec_value_fold_mono: "n \<le> foldl (\<lambda>n c. 10 * n + digit_val c) n s"
proof (induction s arbitrary: n)
  case (Cons c s)
  have "n \<le> 10 * n + digit_val c" by simp
  also have "\<dots> \<le> foldl (\<lambda>n c. 10 * n + digit_val c) (10 * n + digit_val c) s" by (rule Cons.IH)
  finally show ?case by simp
qed simp

lemma parse_size_loop_spec:
  assumes "val \<le> limit"
  shows "parse_size_loop str limit val =
    (let v = foldl (\<lambda>n c. 10 * n + digit_val c) (unat val) str
     in if list_all is_digit str \<and> v \<le> unat limit then Some (word_of_nat v) else None)"
  using assms
proof (induction str arbitrary: val)
  case Nil
  then show ?case by (simp add: word_le_nat_alt)
next
  case (Cons c str)
  show ?case
  proof (cases "is_digit c")
    case True
    let ?d = "digit_val c" and ?next = "val * 10 + word_of_nat (digit_val c)"
    note step = parse_size_step [OF Cons.prems digit_val_less [OF True]]
    show ?thesis
    proof (cases "10 * unat val + ?d \<le> unat limit")
      case fits: True
      with step(1) have "?next \<le> limit" by (simp add: word_le_nat_alt)
      with Cons.IH [OF this] step(1) [OF fits] True show ?thesis
        by (simp add: Let_def not_less)
    next
      case False
      with step(2) True dec_value_fold_mono [of "10 * unat val + ?d" str]
      show ?thesis by (auto simp: Let_def)
    qed
  qed (simp add: Let_def)
qed

lemma parse_size_spec:
  "parse_size str limit =
    (if str \<noteq> [] \<and> length str \<le> 20 \<and> list_all is_digit str \<and> dec_value str \<le> unat limit
     then Some (word_of_nat (dec_value str)) else None)"
  using parse_size_loop_spec [of 0 limit str]
  by (auto simp: parse_size_def dec_value_def Let_def)

lemma parse_size_to_dec:
  "n \<le> unat limit \<Longrightarrow> parse_size (to_dec n) limit = Some (word_of_nat n)"
proof -
  assume n: "n \<le> unat limit"
  with unat_less_64 [of limit] have "n < 10 ^ 20" by simp
  then have "length (to_dec n) \<le> 20" by (rule to_dec_length) simp
  with n show ?thesis by (simp add: parse_size_spec to_dec_digits)
qed

lemma parse_size_bound: "parse_size str limit = Some v \<Longrightarrow> v \<le> limit"
  using unat_less_64 [of limit]
  by (auto simp: parse_size_spec word_le_nat_alt unat_of_nat split: if_splits)

lemma is_word_to_dec: "is_word (to_dec n)"
proof -
  have "\<not> is_digit space" by (simp add: is_digit_code)
  with to_dec_digits [of n] show ?thesis by (auto simp: is_word_def list_all_iff)
qed

text \<open>C36: sizes off the network.\<close>

theorem parse_size_exact:
  "parse_size str limit =
    (if str \<noteq> [] \<and> length str \<le> 20 \<and> list_all is_digit str \<and> dec_value str \<le> unat limit
     then Some (word_of_nat (dec_value str)) else None)"
  by (rule parse_size_spec)

end
