(* ===== verification/Passwd.thy ===== *)
theory Passwd
  imports Crypto Protocol
begin

text \<open>
  \<open>src/core/passwd.cpp\<close>: what the server keeps of a password, \<open>scheme$iterations$salt$hash\<close>,
  and how a password is checked against it.
\<close>

definition kScheme :: string where "kScheme = ''pbkdf2-sha256''"
definition kHashLen :: nat where "kHashLen = 32"

abbreviation dollar :: char where "dollar \<equiv> CHR ''$''"

function split_fields :: "string \<Rightarrow> string list" where
  "split_fields txt =
     (case dropWhile (\<lambda>c. c \<noteq> dollar) txt of
        [] \<Rightarrow> [txt]
      | _ # rest \<Rightarrow> takeWhile (\<lambda>c. c \<noteq> dollar) txt # split_fields rest)"
  by pat_completeness auto
termination
proof (relation "measure length")
  fix s c rest assume "dropWhile (\<lambda>c. c \<noteq> dollar) s = c # rest"
  then show "(rest, s) \<in> measure length"
    using length_dropWhile_le [of "\<lambda>c. c \<noteq> dollar" s] by simp
qed auto

declare split_fields.simps [simp del]

record verifier =
  v_iterations :: u32
  v_salt :: bytes
  v_hash :: bytes

definition parse_verifier :: "string \<Rightarrow> verifier option" where
  "parse_verifier txt =
     (let fields = split_fields txt
      in if length fields \<noteq> 4 then None
      else if fields ! 0 \<noteq> kScheme then None
      else case parse_size (fields ! 1) 100000000 of
        None \<Rightarrow> None
      | Some iterations \<Rightarrow>
      if iterations = 0 then None
      else case from_hex (fields ! 2) of
        None \<Rightarrow> None
      | Some s \<Rightarrow>
      if s = [] then None
      else case from_hex (fields ! 3) of
        None \<Rightarrow> None
      | Some h \<Rightarrow>
      if length h \<noteq> kHashLen then None
      else Some \<lparr>v_iterations = ucast iterations, v_salt = s, v_hash = h\<rparr>)"

definition stretch :: "'x openssl \<Rightarrow> string \<Rightarrow> bytes \<Rightarrow> u32 \<Rightarrow> bytes" where
  "stretch E password salt iterations = derive_key E password salt ''pcs-password-v1'' iterations"

definition hash_password :: "'x openssl \<Rightarrow> bytes \<Rightarrow> string \<Rightarrow> u32 \<Rightarrow> string \<times> bytes" where
  "hash_password E pool password iterations =
     (let iterations = (if iterations = 0 then kPasswordIterations else iterations);
          (salt, pool) = random_bytes kSaltLen pool
      in if length salt \<noteq> kSaltLen then ([], pool)
      else
      let hash = stretch E password salt iterations
      in if length hash \<noteq> kHashLen then ([], pool)
      else (kScheme @ ''$'' @ to_dec (unat iterations) @ ''$'' @ to_hex salt @ ''$'' @ to_hex hash, pool))"

definition verify_password :: "'x openssl \<Rightarrow> string \<Rightarrow> string \<Rightarrow> bool" where
  "verify_password E password txt =
     (case parse_verifier txt of
        None \<Rightarrow> False
      | Some parsed \<Rightarrow>
          let candidate = stretch E password (v_salt parsed) (v_iterations parsed)
          in if length candidate \<noteq> length (v_hash parsed) then False
             else secure_equal (to_hex candidate) (to_hex (v_hash parsed)))"

definition verifier_is_stale :: "string \<Rightarrow> u32 \<Rightarrow> bool" where
  "verifier_is_stale txt wanted =
     (case parse_verifier txt of None \<Rightarrow> True | Some parsed \<Rightarrow> v_iterations parsed < wanted)"

section \<open>A verifier is parsed back\<close>

lemma split_fields_cons:
  "dollar \<notin> set w \<Longrightarrow> split_fields (w @ dollar # r) = w # split_fields r"
proof -
  assume "dollar \<notin> set w"
  then have w: "list_all (\<lambda>c. c \<noteq> dollar) w" by (auto simp: list_all_iff)
  then have "dropWhile (\<lambda>c. c \<noteq> dollar) (w @ dollar # r) = dollar # r"
    "takeWhile (\<lambda>c. c \<noteq> dollar) (w @ dollar # r) = w"
    by (simp_all only: takeWhile_append_stop dropWhile_append_stop not_not)
  then show ?thesis by (subst split_fields.simps) simp
qed

lemma split_fields_last: "dollar \<notin> set w \<Longrightarrow> split_fields w = [w]"
proof -
  assume "dollar \<notin> set w"
  then have drop: "dropWhile (\<lambda>c. c \<noteq> dollar) w = []" by (auto simp: dropWhile_eq_Nil_conv)
  show ?thesis by (subst split_fields.simps) (simp only: drop list.case)
qed

lemma dollar_not_hex: "dollar \<notin> set (to_hex bs)"
  using to_hex_lower [of bs] by (auto simp: list_all_iff less_eq_char_def)

lemma dollar_not_dec: "dollar \<notin> set (to_dec n)"
  using to_dec_digits [of n] by (auto simp: list_all_iff is_digit_code)

lemma split_four_fields:
  assumes "dollar \<notin> set a" and "dollar \<notin> set b" and "dollar \<notin> set c" and "dollar \<notin> set e"
  shows "split_fields (a @ ''$'' @ b @ ''$'' @ c @ ''$'' @ e) = [a, b, c, e]"
  using assms by (simp add: split_fields_cons split_fields_last)

lemma dollar_not_scheme: "dollar \<notin> set kScheme"
  by (simp add: kScheme_def)

lemma ucast_via_nat: "ucast w = (word_of_nat (unat w) :: u32)" for w :: u64
  by (rule of_nat_unat [symmetric])

lemma parse_verifier_written:
  assumes "0 < unat n" and "unat n \<le> 100000000" and "s \<noteq> []" and "length h = kHashLen"
  shows "parse_verifier (kScheme @ ''$'' @ to_dec (unat n) @ ''$'' @ to_hex s @ ''$'' @ to_hex h) =
           Some \<lparr>v_iterations = n, v_salt = s, v_hash = h\<rparr>"
proof -
  have "split_fields (kScheme @ ''$'' @ to_dec (unat n) @ ''$'' @ to_hex s @ ''$'' @ to_hex h) =
      [kScheme, to_dec (unat n), to_hex s, to_hex h]"
    by (rule split_four_fields [OF dollar_not_scheme dollar_not_dec dollar_not_hex dollar_not_hex])
  moreover have "parse_size (to_dec (unat n)) 100000000 = Some (word_of_nat (unat n))"
    using assms(2) by (intro parse_size_to_dec) simp
  moreover have u: "unat (word_of_nat (unat n) :: u64) = unat n"
    using assms(2) by (intro unat_word_of_nat_64) simp
  moreover have "(word_of_nat (unat n) :: u64) \<noteq> 0"
    using u assms(1) by (metis less_numeral_extra(3) unat_0)
  moreover have "ucast (word_of_nat (unat n) :: u64) = n"
    unfolding ucast_via_nat u by simp
  ultimately show ?thesis
    using assms by (simp add: parse_verifier_def from_hex_to_hex)
qed

lemma verify_stretch:
  assumes "openssl_ok E" and "hash_password E pool pw n = (v, pool')" and "v \<noteq> []"
    and "unat n \<le> 100000000"
  shows "verify_password E pw v \<and>
    (\<forall>q. verify_password E q v \<longleftrightarrow>
       stretch E q (take kSaltLen pool) (if n = 0 then kPasswordIterations else n) =
       stretch E pw (take kSaltLen pool) (if n = 0 then kPasswordIterations else n))"
proof -
  define m where "m = (if n = 0 then kPasswordIterations else n)"
  have m: "0 < unat m" "unat m \<le> 100000000"
    using assms(4) by (auto simp: m_def kPasswordIterations_def unat_gt_0)
  from assms(2,3) have s: "kSaltLen \<le> length pool" "length (take kSaltLen pool) = kSaltLen"
    by (auto simp: hash_password_def random_bytes_def kSaltLen_def split: if_splits)
  define h where "h = stretch E pw (take kSaltLen pool) m"
  from assms(2,3) s(1) have h: "length h = kHashLen"
    and v: "v = kScheme @ ''$'' @ to_dec (unat m) @ ''$'' @ to_hex (take kSaltLen pool) @ ''$'' @ to_hex h"
    by (auto simp: hash_password_def random_bytes_def h_def m_def Let_def split: if_splits)
  have "take kSaltLen pool \<noteq> []" using s by (auto simp: kSaltLen_def)
  from parse_verifier_written [OF m this h]
  have "verify_password E q v \<longleftrightarrow> stretch E q (take kSaltLen pool) m = h" for q
    by (auto simp: verify_password_def v secure_equal_iff to_hex_inj Let_def)
  then show ?thesis by (simp add: h_def m_def)
qed

lemma split_fields_join: "split_fields s = w # ws \<Longrightarrow> s = w @ concat (map (\<lambda>x. dollar # x) ws)"
proof (induction s arbitrary: w ws rule: split_fields.induct)
  case (1 s)
  show ?case
  proof (cases "dropWhile (\<lambda>c. c \<noteq> dollar) s")
    case Nil
    then have "w = s" "ws = []" using "1.prems" by (subst (asm) split_fields.simps, simp)+
    then show ?thesis by simp
  next
    case (Cons c rest)
    then have c: "c = dollar" using hd_dropWhile [of "\<lambda>c. c \<noteq> dollar" s] by auto
    from Cons "1.prems" have w: "w = takeWhile (\<lambda>c. c \<noteq> dollar) s" "ws = split_fields rest"
      by (subst (asm) split_fields.simps, simp)+
    have s: "s = w @ dollar # rest" using Cons c w(1) by (metis takeWhile_dropWhile_id)
    obtain x xs where x: "split_fields rest = x # xs"
      by (cases "split_fields rest") (auto simp: split_fields.simps [of rest] split: list.splits)
    from "1.IH" [OF Cons x] s w(2) x show ?thesis by simp
  qed
qed

lemma verify_needs_parse:
  "verify_password E pw v \<Longrightarrow>
     \<exists>n s h. v = kScheme @ ''$'' @ n @ ''$'' @ s @ ''$'' @ h \<and> list_all is_digit n \<and>
       1 \<le> dec_value n \<and> dec_value n \<le> 100000000 \<and> length h = 2 * kHashLen \<and>
       from_hex h = Some (stretch E pw (the (from_hex s)) (of_nat (dec_value n)))"
proof -
  assume v: "verify_password E pw v"
  then obtain p where p: "parse_verifier v = Some p"
    and eq: "stretch E pw (v_salt p) (v_iterations p) = v_hash p"
    by (auto simp: verify_password_def secure_equal_iff to_hex_inj Let_def split: option.splits if_splits)
  from p have four: "length (split_fields v) = 4"
    by (auto simp: parse_verifier_def Let_def split: if_splits)
  then obtain a n s h where f: "split_fields v = [a, n, s, h]"
    by (auto simp: numeral_eq_Suc length_Suc_conv)
  from p f obtain it where a: "a = kScheme" and n: "parse_size n 100000000 = Some it" "it \<noteq> 0"
    and s: "from_hex s = Some (v_salt p)" and h: "from_hex h = Some (v_hash p)" "length (v_hash p) = kHashLen"
    and it: "v_iterations p = ucast it"
    by (auto simp: parse_verifier_def Let_def split: if_splits option.splits)
  from n(1) have n': "list_all is_digit n" "dec_value n \<le> 100000000" "it = word_of_nat (dec_value n)"
    by (auto simp: parse_size_spec split: if_splits)
  with n(2) have "1 \<le> dec_value n" by (cases "dec_value n") auto
  moreover have "ucast it = (of_nat (dec_value n) :: u32)"
    using n' unfolding ucast_via_nat n'(3) by (simp add: unat_word_of_nat_64)
  moreover have "length h = 2 * kHashLen" using h from_hex_loop_length by (auto simp: from_hex_def split: if_splits)
  ultimately show ?thesis
    using split_fields_join [OF f] a n' eq s h it by (intro exI [of _ n] exI [of _ s] exI [of _ h]) simp
qed


section \<open>Examples\<close>

lemma example_hash:
  "\<exists>v pool'. hash_password mini_openssl (replicate 16 1) ''correct horse'' 1000 = (v, pool') \<and> v \<noteq> []"
  by (simp add: hash_password_def random_bytes_def kSaltLen_def Let_def stretch_def derive_key_def
      mini_openssl_def kKeyLen_def kHashLen_def)

lemma verify_stretch_witness:
  "\<exists>v. v \<noteq> [] \<and> verify_password mini_openssl ''correct horse'' v"
proof -
  from example_hash obtain v pool' where v: "hash_password mini_openssl (replicate 16 1) ''correct horse'' 1000 = (v, pool')"
    and ne: "v \<noteq> []" by blast
  from verify_stretch [OF mini_openssl_ok v ne] ne show ?thesis by auto
qed

lemma verify_needs_parse_witness:
  "\<exists>v n s h. v = kScheme @ ''$'' @ n @ ''$'' @ s @ ''$'' @ h \<and> list_all is_digit n \<and> length h = 64"
proof -
  from example_hash obtain v pool' where v: "hash_password mini_openssl (replicate 16 1) ''correct horse'' 1000 = (v, pool')"
    and ne: "v \<noteq> []" by blast
  have "verify_password mini_openssl ''correct horse'' v" using verify_stretch [OF mini_openssl_ok v ne] by simp
  from verify_needs_parse [OF this] show ?thesis unfolding kHashLen_def by fastforce
qed

end
