(* ===== verification/Users.thy ===== *)
theory Users
  imports Passwd Filesys
begin

text \<open>
  \<open>src/server/users.cpp\<close>: the accounts of a server, a map from names to password verifiers that is
  kept in a text file. The map is an association list without duplicate keys; the file lists it in
  the order of the names. What the mutex protects is one call at a time.
\<close>

definition kUsersMagic :: string where "kUsersMagic = ''pcs-users''"
definition kUsersVersion :: nat where "kUsersVersion = 1"

datatype users_error =
    NotAUserFile path | UnsupportedUserFile string | CannotWriteUsers path | UsersWriteFailed path
  | CannotReplaceUsers path | InvalidUsername | PasswordTooShort | UserExists string
  | CannotHashPassword | NoSuchUser string

record user_store =
  u_path :: path
  u_verifiers :: "(string \<times> string) list"
  u_stamp :: int
  u_decoy :: "string option"

definition new_user_store :: "path \<Rightarrow> user_store" where
  "new_user_store p = \<lparr>u_path = p, u_verifiers = [], u_stamp = 0, u_decoy = None\<rparr>"

section \<open>Names\<close>

definition is_valid_username :: "string \<Rightarrow> bool" where
  "is_valid_username name =
     (if name = [] \<or> length name > 32 then False
      else if hd name < CHR ''a'' \<or> hd name > CHR ''z'' then False
      else list_all (\<lambda>c. let lower = CHR ''a'' \<le> c \<and> c \<le> CHR ''z'';
                             digit = CHR ''0'' \<le> c \<and> c \<le> CHR ''9''
                         in lower \<or> digit \<or> c = CHR ''-'' \<or> c = CHR ''_'') name)"

section \<open>Loading and saving\<close>

text \<open>\<open>last_write_time\<close> of a file that is not there is the smallest time.\<close>

definition fs_stamp :: "disk \<Rightarrow> path \<Rightarrow> int" where
  "fs_stamp d p = (case fs_mtime d p of None \<Rightarrow> - (2 ^ 63) | Some t \<Rightarrow> t)"

fun load_users :: "(string \<times> string) list \<Rightarrow> string list \<Rightarrow> (string \<times> string) list" where
  "load_users vs [] = vs"
| "load_users vs (line # lines) =
     (let f = split line
      in if length f < 3 \<or> f ! 0 \<noteq> ''user'' then load_users vs lines
      else if \<not> is_valid_username (f ! 1) then load_users vs lines
      else load_users (AList.update (f ! 1) (f ! 2) vs) lines)"

definition load_locked :: "disk \<Rightarrow> user_store \<Rightarrow> users_error option \<times> user_store" where
  "load_locked d us =
     (let us = us\<lparr>u_verifiers := [], u_stamp := fs_stamp d (u_path us)\<rparr>
      in case fs_read d (u_path us) of
        None \<Rightarrow> (None, us)
      | Some c \<Rightarrow>
      case getlines c of
        [] \<Rightarrow> (None, us)
      | line # lines \<Rightarrow>
      let head = split line
      in if length head \<noteq> 2 \<or> head ! 0 \<noteq> kUsersMagic then (Some (NotAUserFile (u_path us)), us)
      else if head ! 1 \<noteq> to_dec kUsersVersion then (Some (UnsupportedUserFile (head ! 1)), us)
      else (None, us\<lparr>u_verifiers := load_users [] lines\<rparr>))"

definition reload_if_changed :: "disk \<Rightarrow> user_store \<Rightarrow> user_store" where
  "reload_if_changed d us =
     (case fs_mtime d (u_path us) of
        None \<Rightarrow> us
      | Some stamp \<Rightarrow> if stamp = u_stamp us then us else snd (load_locked d us))"

definition user_line :: "string \<Rightarrow> string \<times> string \<Rightarrow> string" where
  "user_line today e = ''user '' @ fst e @ '' '' @ snd e @ '' '' @ today"

definition user_lines :: "string \<Rightarrow> user_store \<Rightarrow> string list" where
  "user_lines today us =
     (kUsersMagic @ '' '' @ to_dec kUsersVersion) # map (user_line today) (sort_key fst (u_verifiers us))"

definition temp_sibling :: "path \<Rightarrow> path" where
  "temp_sibling p = butlast p @ [last p @ ''.new'']"

definition save_locked ::
  "string \<Rightarrow> disk \<Rightarrow> user_store \<Rightarrow> users_error option \<times> user_store \<times> disk" where
  "save_locked today d us =
     (let temp = temp_sibling (u_path us)
      in case fs_create d temp of (ok, d) \<Rightarrow>
      if \<not> ok then (Some (CannotWriteUsers temp), us, d)
      else case out_flush temp (out_lines temp (user_lines today us) (True, d)) of (good, d) \<Rightarrow>
      if \<not> good then (Some (UsersWriteFailed temp), us, d)
      else case fs_rename d temp (u_path us) of (ok, d) \<Rightarrow>
      if \<not> ok then (case fs_remove d temp of (_, d) \<Rightarrow> (Some (CannotReplaceUsers (u_path us)), us, d))
      else (None, us\<lparr>u_stamp := fs_stamp d (u_path us)\<rparr>, d))"

section \<open>Changing accounts\<close>

definition users_add ::
  "'x openssl \<Rightarrow> string \<Rightarrow> bytes \<Rightarrow> disk \<Rightarrow> user_store \<Rightarrow> string \<Rightarrow> string \<Rightarrow>
     users_error option \<times> user_store \<times> bytes \<times> disk" where
  "users_add E today pool d us name password =
     (if \<not> is_valid_username name then (Some InvalidUsername, us, pool, d)
      else if length password < 8 then (Some PasswordTooShort, us, pool, d)
      else if map_of (u_verifiers us) name \<noteq> None then (Some (UserExists name), us, pool, d)
      else case hash_password E pool password kPasswordIterations of (v, pool) \<Rightarrow>
      if v = [] then (Some CannotHashPassword, us, pool, d)
      else case save_locked today d (us\<lparr>u_verifiers := AList.update name v (u_verifiers us)\<rparr>) of
        (Some e, us, d) \<Rightarrow> (Some e, us\<lparr>u_verifiers := AList.delete name (u_verifiers us)\<rparr>, pool, d)
      | (None, us, d) \<Rightarrow> (None, us, pool, d))"

definition users_set_password ::
  "'x openssl \<Rightarrow> string \<Rightarrow> bytes \<Rightarrow> disk \<Rightarrow> user_store \<Rightarrow> string \<Rightarrow> string \<Rightarrow>
     users_error option \<times> user_store \<times> bytes \<times> disk" where
  "users_set_password E today pool d us name password =
     (if length password < 8 then (Some PasswordTooShort, us, pool, d)
      else case map_of (u_verifiers us) name of
        None \<Rightarrow> (Some (NoSuchUser name), us, pool, d)
      | Some previous \<Rightarrow>
      case hash_password E pool password kPasswordIterations of (v, pool) \<Rightarrow>
      let us = us\<lparr>u_verifiers := AList.update name v (u_verifiers us)\<rparr>
      in if v = []
      then (Some CannotHashPassword, us\<lparr>u_verifiers := AList.update name previous (u_verifiers us)\<rparr>, pool, d)
      else case save_locked today d us of
        (Some e, us, d) \<Rightarrow> (Some e, us\<lparr>u_verifiers := AList.update name previous (u_verifiers us)\<rparr>, pool, d)
      | (None, us, d) \<Rightarrow> (None, us, pool, d))"

definition users_remove ::
  "string \<Rightarrow> disk \<Rightarrow> user_store \<Rightarrow> string \<Rightarrow> users_error option \<times> user_store \<times> disk" where
  "users_remove today d us name =
     (case map_of (u_verifiers us) name of
        None \<Rightarrow> (Some (NoSuchUser name), us, d)
      | Some previous \<Rightarrow>
      case save_locked today d (us\<lparr>u_verifiers := AList.delete name (u_verifiers us)\<rparr>) of
        (Some e, us, d) \<Rightarrow> (Some e, us\<lparr>u_verifiers := AList.update name previous (u_verifiers us)\<rparr>, d)
      | (None, us, d) \<Rightarrow> (None, us, d))"

section \<open>Questions\<close>

text \<open>The decoy is made the first time it is needed and kept.\<close>

definition decoy_verifier :: "'x openssl \<Rightarrow> bytes \<Rightarrow> user_store \<Rightarrow> string \<times> bytes \<times> user_store" where
  "decoy_verifier E pool us =
     (case u_decoy us of
        Some v \<Rightarrow> (v, pool, us)
      | None \<Rightarrow>
          (case hash_password E pool [] kPasswordIterations of
             (v, pool) \<Rightarrow> (v, pool, us\<lparr>u_decoy := Some v\<rparr>)))"

definition users_verify ::
  "'x openssl \<Rightarrow> bytes \<Rightarrow> disk \<Rightarrow> user_store \<Rightarrow> string \<Rightarrow> string \<Rightarrow> bool \<times> bytes \<times> user_store" where
  "users_verify E pool d us name password =
     (let us = reload_if_changed d us;
          v = (case map_of (u_verifiers us) name of None \<Rightarrow> [] | Some v \<Rightarrow> v)
      in if v = []
      then (case decoy_verifier E pool us of
              (decoy, pool, us) \<Rightarrow> let _ = verify_password E password decoy in (False, pool, us))
      else (verify_password E password v, pool, us))"

definition users_exists :: "disk \<Rightarrow> user_store \<Rightarrow> string \<Rightarrow> bool \<times> user_store" where
  "users_exists d us name =
     (let us = reload_if_changed d us in (map_of (u_verifiers us) name \<noteq> None, us))"

definition users_names :: "user_store \<Rightarrow> string list" where
  "users_names us = map fst (sort_key fst (u_verifiers us))"

definition users_empty :: "user_store \<Rightarrow> bool" where
  "users_empty us \<longleftrightarrow> u_verifiers us = []"

section \<open>Names are safe path components and words\<close>

lemma valid_username_chars:
  "is_valid_username n \<Longrightarrow> c \<in> set n \<Longrightarrow>
     (97 \<le> (of_char c :: nat) \<and> (of_char c :: nat) \<le> 122) \<or> (48 \<le> (of_char c :: nat) \<and> (of_char c :: nat) \<le> 57)
       \<or> c = CHR ''-'' \<or> c = CHR ''_''"
  by (auto simp: is_valid_username_def list_all_iff less_eq_char_def split: if_splits)

lemma valid_username_safe: "is_valid_username n \<Longrightarrow> is_safe_name n"
proof -
  assume n: "is_valid_username n"
  have "\<not> forbidden_char c" if "c \<in> set n" for c
    using valid_username_chars [OF n that] by (auto simp: forbidden_char_def kBackslash_code)
  moreover have "hd n \<noteq> CHR ''.''" using n by (auto simp: is_valid_username_def less_char_def split: if_splits)
  moreover have "n \<noteq> []" "length n \<le> 255" using n by (auto simp: is_valid_username_def split: if_splits)
  ultimately show ?thesis by (simp add: is_safe_name_iff list_all_iff)
qed

lemma valid_username_word: "is_valid_username n \<Longrightarrow> is_word n \<and> newline \<notin> set n"
  using valid_username_chars [of n space] valid_username_chars [of n newline]
  by (auto simp: is_word_def is_valid_username_def split: if_splits)

section \<open>Saving and loading\<close>

text \<open>The map is well formed: no name twice, every name valid, every verifier one word.\<close>

definition users_ok :: "(string \<times> string) list \<Rightarrow> bool" where
  "users_ok vs \<longleftrightarrow> distinct (map fst vs) \<and>
     (\<forall>(n, v)\<in>set vs. is_valid_username n \<and> is_word v \<and> newline \<notin> set v)"

lemma temp_sibling_differs [simp]: "temp_sibling p \<noteq> p"
proof
  assume eq: "temp_sibling p = p"
  then have "last p @ ''.new'' = last p" by (metis last_snoc temp_sibling_def)
  then show False by simp
qed

lemma save_locked_failure:
  assumes "save_locked today d us = (Some e, us', d')"
  shows "us' = us \<and> touches {temp_sibling (u_path us)} d d'"
proof -
  let ?t = "temp_sibling (u_path us)"
  obtain ok d1 where c: "fs_create d ?t = (ok, d1)" by fastforce
  obtain g1 d2 where w: "out_lines ?t (user_lines today us) (True, d1) = (g1, d2)" by fastforce
  obtain g2 d3 where f: "out_flush ?t (g1, d2) = (g2, d3)" by fastforce
  obtain ok4 d4 where r: "fs_rename d3 ?t (u_path us) = (ok4, d4)" by fastforce
  obtain ok5 d5 where x: "fs_remove d4 ?t = (ok5, d5)" by fastforce
  have t1: "touches {?t} d d1" using touches_create [OF c] .
  have t3: "touches {?t} d d3"
    using touches_trans [OF touches_trans [OF t1 out_lines_touches [OF w]] out_flush_touches [OF f]] .
  have t5: "touches {?t} d d5" if "\<not> ok4"
    using that touches_trans [OF touches_trans [OF t3 touches_mono [OF rename_fail]] touches_remove [OF x]] r
    by auto
  show ?thesis
    using assms t1 t3 t5 by (auto simp: save_locked_def Let_def c w f r x split: if_splits)
qed

lemma save_locked_success:
  assumes "save_locked today d us = (None, us', d')"
  shows "us' = us\<lparr>u_stamp := fs_stamp d' (u_path us)\<rparr> \<and>
    fs_read d' (u_path us) = Some (unlines (user_lines today us)) \<and>
    touches {temp_sibling (u_path us), u_path us} d d'"
proof -
  let ?t = "temp_sibling (u_path us)"
  obtain ok d1 where c: "fs_create d ?t = (ok, d1)" by fastforce
  obtain g1 d2 where w: "out_lines ?t (user_lines today us) (True, d1) = (g1, d2)" by fastforce
  obtain g2 d3 where f: "out_flush ?t (g1, d2) = (g2, d3)" by fastforce
  obtain ok4 d4 where r: "fs_rename d3 ?t (u_path us) = (ok4, d4)" by fastforce
  have ok: "ok" "g2" "ok4" "d' = d4" "us' = us\<lparr>u_stamp := fs_stamp d' (u_path us)\<rparr>"
    using assms by (auto simp: save_locked_def Let_def c w f r split: if_splits prod.splits)
  then have g1: g1 and fl: "fs_flush d2 ?t = (True, d3)" using f by (auto simp: out_flush_def split: if_splits)
  have "fs_read d2 ?t = Some (unlines (user_lines today us))"
    using out_lines_success [of ?t "user_lines today us" True d1 d2 "[]"] w g1 c ok(1) create_effect by simp
  then have "fs_read d3 ?t = Some (unlines (user_lines today us))" using flush_effect [OF fl] by simp
  then have "fs_read d4 (u_path us) = Some (unlines (user_lines today us))"
    using rename_effect [of d3 ?t "u_path us" d4] r ok(3) by simp
  moreover have "touches {?t, u_path us} d d4"
    using touches_trans [OF touches_trans [OF touches_trans [OF touches_create [OF c] out_lines_touches [OF w]]
        out_flush_touches [OF f], THEN touches_mono] touches_rename [OF r]] by simp
  ultimately show ?thesis using ok by simp
qed

lemma split_user_line:
  "is_valid_username n \<Longrightarrow> is_word v \<Longrightarrow> split (user_line today (n, v)) = ''user'' # n # v # split today"
  using split_field [of "''user''" "n @ '' '' @ v @ '' '' @ today"] split_field [of n "v @ '' '' @ today"]
    split_field [of v today] valid_username_word [of n]
  by (simp add: user_line_def is_word_def)

lemma load_users_lines:
  "\<forall>(n, v)\<in>set es. is_valid_username n \<and> is_word v \<Longrightarrow>
     map_of (load_users vs (map (user_line today) es)) = map_of (rev es @ vs)"
proof (induction es arbitrary: vs)
  case (Cons e es)
  obtain n v where e: "e = (n, v)" by fastforce
  with Cons have "map_of (load_users vs (map (user_line today) (e # es))) =
      map_of (rev es @ AList.update n v vs)"
    by (simp add: split_user_line Let_def)
  also have "\<dots> = map_of (rev (e # es) @ vs)" by (simp add: e map_add_def update_conv' fun_eq_iff)
  finally show ?case .
qed simp

lemma map_of_sorted: "distinct (map fst vs) \<Longrightarrow> map_of (rev (sort_key fst vs)) = map_of vs"
  for vs :: "(string \<times> 'v) list"
  by (rule map_of_inject_set [THEN iffD2]) (simp_all add: rev_map distinct_map)

text \<open>Well-formedness is kept.\<close>

lemma update_subset: "set (AList.update k v al) \<subseteq> insert (k, v) (set al)"
  by (induction al) auto

lemma update_twice: "AList.update k v (AList.update k w al) = AList.update k v al"
  by (induction al) auto

lemma users_ok_update:
  "users_ok vs \<Longrightarrow> is_valid_username n \<Longrightarrow> is_word v \<Longrightarrow> newline \<notin> set v \<Longrightarrow> users_ok (AList.update n v vs)"
  using update_subset [of n v vs] by (auto simp: users_ok_def AList.distinct_update)

lemma users_ok_delete: "users_ok vs \<Longrightarrow> users_ok (AList.delete n vs)"
  by (auto simp: users_ok_def AList.delete_eq distinct_map_filter)

lemma users_ok_load: "users_ok vs \<Longrightarrow> \<forall>l\<in>set lines. newline \<notin> set l \<Longrightarrow> users_ok (load_users vs lines)"
proof (induction lines arbitrary: vs)
  case (Cons line lines)
  have w: "is_word (split line ! 2) \<and> newline \<notin> set (split line ! 2)" if "3 \<le> length (split line)"
  proof -
    have m: "split line ! 2 \<in> set (split line)" using that by simp
    then have "set (split line ! 2) \<subseteq> set line" by (rule split_subset)
    with split_fields [OF m] Cons.prems(2) show ?thesis by (auto simp: is_word_def)
  qed
  with Cons show ?case by (auto simp: Let_def not_less intro!: Cons.IH users_ok_update)
qed simp

lemma users_ok_reload: "users_ok (u_verifiers us) \<Longrightarrow> users_ok (u_verifiers (reload_if_changed d us))"
proof -
  have "users_ok []" by (simp add: users_ok_def)
  moreover have "\<forall>l\<in>set (tl (getlines c)). newline \<notin> set l" for c
    using getlines_no_newline [of _ c] by (cases "getlines c") auto
  ultimately show "users_ok (u_verifiers us) \<Longrightarrow> ?thesis"
    using users_ok_load [of "[]"]
    by (auto simp: reload_if_changed_def load_locked_def Let_def split: option.splits list.splits)
      (metis list.sel(3))+
qed

lemma hash_word:
  assumes "hash_password E pool pw n = (v, pool')" and "v \<noteq> []"
  shows "is_word v \<and> newline \<notin> set v"
proof -
  have hex: "space \<notin> set (to_hex bs)" "newline \<notin> set (to_hex bs)" for bs
    using to_hex_lower [of bs] by (auto simp: list_all_iff less_eq_char_def)
  have dec: "space \<notin> set (to_dec k)" "newline \<notin> set (to_dec k)" for k
    using to_dec_digits [of k] by (auto simp: list_all_iff is_digit_code)
  show ?thesis
    using assms by (auto simp: hash_password_def Let_def is_word_def kScheme_def hex dec split: prod.splits if_splits)
qed

lemma saved_accounts_load:
  assumes "users_ok (u_verifiers us)" and "newline \<notin> set today"
    and "save_locked today d us = (None, us', d')" and "u_path w = u_path us"
  shows "\<exists>w'. load_locked d' w = (None, w') \<and> map_of (u_verifiers w') = map_of (u_verifiers us) \<and>
           users_ok (u_verifiers w') \<and> reload_if_changed d' us' = us'"
proof -
  have s: "us' = us\<lparr>u_stamp := fs_stamp d' (u_path us)\<rparr>"
    and r: "fs_read d' (u_path us) = Some (unlines (user_lines today us))"
    using save_locked_success [OF assms(3)] by simp_all
  let ?es = "sort_key fst (u_verifiers us)"
  have ok: "\<forall>(n, v)\<in>set ?es. is_valid_username n \<and> is_word v \<and> newline \<notin> set v"
    using assms(1) by (simp add: users_ok_def)
  have "\<forall>l\<in>set (user_lines today us). newline \<notin> set l"
    using ok assms(2) valid_username_word
    by (auto simp: user_lines_def user_line_def kUsersMagic_def newline_not_digit)
  then have lines: "getlines (unlines (user_lines today us)) = user_lines today us"
    by (rule getlines_unlines)
  have head: "split (kUsersMagic @ '' '' @ to_dec kUsersVersion) = [kUsersMagic, to_dec kUsersVersion]"
    using split_field [of kUsersMagic "to_dec kUsersVersion"] is_word_to_dec [of kUsersVersion]
    by (simp add: kUsersMagic_def split_word is_word_def)
  let ?w = "w\<lparr>u_verifiers := load_users [] (map (user_line today) ?es), u_stamp := fs_stamp d' (u_path us)\<rparr>"
  have "load_locked d' w = (None, ?w)"
    using r lines head assms(4) by (simp add: load_locked_def user_lines_def)
  moreover have "map_of (u_verifiers ?w) = map_of (u_verifiers us)"
    using load_users_lines [of ?es "[]" today] ok assms(1) map_of_sorted [of "u_verifiers us"] by (auto simp: users_ok_def)
  moreover have "users_ok (u_verifiers ?w)"
    using users_ok_load [of "[]" "map (user_line today) ?es"] \<open>\<forall>l\<in>set (user_lines today us). newline \<notin> set l\<close>
    by (simp add: users_ok_def user_lines_def)
  moreover have "reload_if_changed d' us' = us'"
    by (auto simp: reload_if_changed_def s fs_stamp_def split: option.splits)
  ultimately show ?thesis by blast
qed

text \<open>C31: the user file.\<close>

theorem users_round_trip:
  assumes "users_ok (u_verifiers us)" and "newline \<notin> set today"
    and "save_locked today d us = (None, us', d')" and "u_path w = u_path us"
  shows "\<exists>w'. load_locked d' w = (None, w') \<and> map_of (u_verifiers w') = map_of (u_verifiers us) \<and>
           users_ok (u_verifiers w') \<and> reload_if_changed d' us' = us'"
  using assms by (rule saved_accounts_load)

lemma save_keeps:
  "save_locked today d us = (r, us', d') \<Longrightarrow> u_verifiers us' = u_verifiers us \<and> u_path us' = u_path us"
  using save_locked_failure [of today d us _ us' d'] save_locked_success [of today d us us' d']
  by (cases r) auto

lemma reload_after_save: "save_locked today d us = (None, us', d') \<Longrightarrow> reload_if_changed d' us' = us'"
  using save_locked_success [of today d us us' d']
  by (auto simp: reload_if_changed_def fs_stamp_def split: option.splits)

lemma users_ok_member: "users_ok vs \<Longrightarrow> map_of vs n = Some v \<Longrightarrow> is_valid_username n \<and> is_word v \<and> newline \<notin> set v"
  by (auto simp: users_ok_def dest: map_of_SomeD)

lemma users_add_ok:
  "users_add E today pool d us n pw = (e, us', pool', d') \<Longrightarrow> users_ok (u_verifiers us) \<Longrightarrow>
     users_ok (u_verifiers us')"
  by (auto simp: users_add_def hash_word users_ok_update users_ok_delete dest: save_keeps
      split: prod.splits if_splits option.splits)

lemma users_remove_ok:
  "users_remove today d us n = (e, us', d') \<Longrightarrow> users_ok (u_verifiers us) \<Longrightarrow> users_ok (u_verifiers us')"
  by (auto simp: users_remove_def users_ok_update users_ok_delete users_ok_member dest: save_keeps
      split: prod.splits option.splits)

lemma users_set_password_ok:
  "users_set_password E today pool d us n pw = (e, us', pool', d') \<Longrightarrow> users_ok (u_verifiers us) \<Longrightarrow>
     users_ok (u_verifiers us')"
  by (auto simp: users_set_password_def Let_def hash_word users_ok_update users_ok_member update_twice
      dest: save_keeps split: prod.splits if_splits option.splits)

text \<open>C33: accounts stay well formed.\<close>

theorem users_invariant:
  assumes "users_ok (u_verifiers us)"
  shows "users_ok (u_verifiers (fst (snd (users_add E today pool d us n pw)))) \<and>
         users_ok (u_verifiers (fst (snd (users_set_password E today pool d us n pw)))) \<and>
         users_ok (u_verifiers (fst (snd (users_remove today d us n)))) \<and>
         users_ok (u_verifiers (reload_if_changed d us)) \<and>
         users_ok (u_verifiers (snd (load_locked d us)))"
proof -
  have "users_ok (u_verifiers (snd (load_locked d us)))"
    using users_ok_reload [of "us\<lparr>u_verifiers := [], u_stamp := fs_stamp d (u_path us) + 1\<rparr>" d]
    by (auto simp: reload_if_changed_def load_locked_def fs_stamp_def fs_mtime_def fs_read_def
        users_ok_def split: option.splits)
  moreover obtain e1 us1 pool1 d1 where "users_add E today pool d us n pw = (e1, us1, pool1, d1)"
    by (cases rule: prod_cases4)
  moreover obtain e2 us2 pool2 d2 where "users_set_password E today pool d us n pw = (e2, us2, pool2, d2)"
    by (cases rule: prod_cases4)
  moreover obtain e3 us3 d3 where "users_remove today d us n = (e3, us3, d3)"
    by (cases rule: prod_cases3)
  ultimately show ?thesis
    using assms by (auto intro: users_add_ok users_set_password_ok users_remove_ok users_ok_reload)
qed

lemma failed_save:
  "save_locked today d (us\<lparr>u_verifiers := vs\<rparr>) = (Some x, us', d') \<Longrightarrow>
     us' = us\<lparr>u_verifiers := vs\<rparr> \<and> fs_read d' (u_path us) = fs_read d (u_path us)"
  using save_locked_failure [of today d "us\<lparr>u_verifiers := vs\<rparr>" x us' d']
    touches_read [of "{temp_sibling (u_path us)}" d d' "u_path us"] temp_sibling_differs [of "u_path us"]
  by auto

lemma failed_add:
  "users_add E today pool d us n pw = (Some e, us', pool', d') \<Longrightarrow>
     map_of (u_verifiers us') = map_of (u_verifiers us) \<and> fs_read d' (u_path us) = fs_read d (u_path us)"
  by (auto simp: users_add_def fun_eq_iff update_conv' delete_conv' dest!: failed_save
      split: prod.splits if_splits option.splits)

lemma failed_set_password:
  "users_set_password E today pool d us n pw = (Some e, us', pool', d') \<Longrightarrow>
     map_of (u_verifiers us') = map_of (u_verifiers us) \<and> fs_read d' (u_path us) = fs_read d (u_path us)"
  by (auto simp: users_set_password_def Let_def fun_eq_iff update_conv' dest!: failed_save
      split: prod.splits if_splits option.splits)

lemma failed_remove:
  "users_remove today d us n = (Some e, us', d') \<Longrightarrow>
     map_of (u_verifiers us') = map_of (u_verifiers us) \<and> fs_read d' (u_path us) = fs_read d (u_path us)"
  by (auto simp: users_remove_def fun_eq_iff update_conv' delete_conv' dest!: failed_save
      split: prod.splits option.splits)

text \<open>C32: a failed change changes nothing.\<close>

theorem users_change_atomic:
  "(users_add E today pool d us n pw = (Some e, us1, pool1, d1) \<or>
    users_set_password E today pool d us n pw = (Some e, us1, pool1, d1) \<or>
    users_remove today d us n = (Some e, us1, d1)) \<Longrightarrow>
     map_of (u_verifiers us1) = map_of (u_verifiers us) \<and> fs_read d1 (u_path us) = fs_read d (u_path us)"
  by (elim disjE) (auto dest: failed_add failed_set_password failed_remove)

lemma add_verifies:
  assumes "openssl_ok E" and "users_add E today pool d us n pw = (None, us1, pool1, d1)"
  shows "fst (users_verify E pool2 d1 us1 n pw) \<and>
    (\<forall>m. m \<noteq> n \<longrightarrow> map_of (u_verifiers us1) m = map_of (u_verifiers us) m)"
proof -
  obtain v where v: "hash_password E pool pw kPasswordIterations = (v, pool1)" "v \<noteq> []"
    and save: "save_locked today d (us\<lparr>u_verifiers := AList.update n v (u_verifiers us)\<rparr>) = (None, us1, d1)"
    using assms(2) by (auto simp: users_add_def split: prod.splits if_splits option.splits)
  have "unat kPasswordIterations \<le> 100000000" by (simp add: kPasswordIterations_def)
  then have "verify_password E pw v" using verify_stretch [OF assms(1) v(1,2)] by blast
  moreover have "map_of (u_verifiers us1) m = (if m = n then Some v else map_of (u_verifiers us) m)" for m
    using save_keeps [OF save] by (simp add: update_conv')
  ultimately show ?thesis
    using v(2) reload_after_save [OF save] by (simp add: users_verify_def)
qed

lemmas added_verifies = add_verifies [THEN conjunct1]

lemma users_verify_unknown:
  assumes "fst (users_verify E pool d us n pw)"
  shows "\<exists>v. map_of (u_verifiers (reload_if_changed d us)) n = Some v \<and> verify_password E pw v"
  using assms
  by (auto simp: users_verify_def Let_def split: if_splits option.splits prod.splits)

section \<open>Examples\<close>

lemma save_locked_works:
  assumes "faults d = []" and "writable d (u_path us)" and "writable d (temp_sibling (u_path us))"
  shows "\<exists>us' d'. save_locked today d us = (None, us', d') \<and> u_path us' = u_path us \<and>
    u_verifiers us' = u_verifiers us \<and> faults d' = [] \<and> dirs d' = dirs d"
  using assms
  by (simp add: save_locked_def Let_def create_ok writable_def out_lines_ok out_flush_def flush_ok
      rename_ok fs_simps)

abbreviation example_accounts :: user_store where "example_accounts \<equiv> new_user_store [''users'']"

lemma example_add:
  "\<exists>us pool d. users_add mini_openssl ''2025-01-31'' (replicate 16 1) (empty_disk [[]]) example_accounts ''ann'' ''longpass''
     = (None, us, pool, d)"
proof -
  obtain v pool where h: "hash_password mini_openssl (replicate 16 1) ''longpass'' kPasswordIterations = (v, pool)" "v \<noteq> []"
    by (simp add: hash_password_def random_bytes_def kSaltLen_def Let_def stretch_def derive_key_def
        mini_openssl_def kKeyLen_def kHashLen_def)
  have "is_valid_username ''ann''" by (simp add: is_valid_username_def less_char_def less_eq_char_def)
  moreover obtain us d where "save_locked ''2025-01-31'' (empty_disk [[]])
      (example_accounts\<lparr>u_verifiers := [(''ann'', v)]\<rparr>) = (None, us, d)"
    using save_locked_works [of "empty_disk [[]]" "example_accounts\<lparr>u_verifiers := [(''ann'', v)]\<rparr>" "''2025-01-31''"]
    by (auto simp: writable_def new_user_store_def temp_sibling_def)
  ultimately show ?thesis using h by (simp add: users_add_def new_user_store_def)
qed

lemma add_verifies_witness:
  "\<exists>us d. fst (users_verify mini_openssl [] d us ''ann'' ''longpass'')"
proof -
  from example_add obtain us pool d where a: "users_add mini_openssl ''2025-01-31'' (replicate 16 1) (empty_disk [[]])
      example_accounts ''ann'' ''longpass'' = (None, us, pool, d)" by blast
  from add_verifies [OF mini_openssl_ok a] show ?thesis by blast
qed

lemma users_verify_unknown_witness:
  "\<exists>us d v. map_of (u_verifiers (reload_if_changed d us)) ''ann'' = Some v \<and> verify_password mini_openssl ''longpass'' v"
proof -
  from example_add obtain us pool d where a: "users_add mini_openssl ''2025-01-31'' (replicate 16 1) (empty_disk [[]])
      example_accounts ''ann'' ''longpass'' = (None, us, pool, d)" by blast
  then have "fst (users_verify mini_openssl [] d us ''ann'' ''longpass'')"
    by (rule added_verifies [OF mini_openssl_ok])
  from users_verify_unknown [OF this] show ?thesis by blast
qed

lemma users_round_trip_witness:
  "\<exists>d w. load_locked d example_accounts = (None, w) \<and> map_of (u_verifiers w) = Map.empty"
proof -
  obtain us d where s: "save_locked ''2025-01-31'' (empty_disk [[]]) example_accounts = (None, us, d)"
    using save_locked_works [of "empty_disk [[]]" example_accounts "''2025-01-31''"]
    by (auto simp: writable_def new_user_store_def temp_sibling_def)
  from users_round_trip [OF _ _ s, of example_accounts] show ?thesis
    by (auto simp: new_user_store_def users_ok_def)
qed

lemma users_invariant_witness:
  "users_ok (u_verifiers (fst (snd (users_add mini_openssl ''2025-01-31'' (replicate 16 1) (empty_disk [[]])
     example_accounts ''ann'' ''longpass''))))"
  using users_invariant [of example_accounts mini_openssl "''2025-01-31''" "replicate 16 1" "empty_disk [[]]" "''ann''" "''longpass''"]
  by (simp add: new_user_store_def users_ok_def)

lemma users_change_atomic_witness:
  "map_of (u_verifiers (fst (snd (users_add mini_openssl ''2025-01-31'' (replicate 16 1) (empty_disk [[]])
     example_accounts ''ann'' ''short'')))) = Map.empty"
proof -
  have "users_add mini_openssl ''2025-01-31'' (replicate 16 1) (empty_disk [[]]) example_accounts ''ann'' ''short'' =
      (Some PasswordTooShort, example_accounts, replicate 16 1, empty_disk [[]])"
    by (simp add: users_add_def is_valid_username_def less_char_def less_eq_char_def)
  with users_change_atomic [OF disjI1 [OF this]] show ?thesis by (simp add: new_user_store_def)
qed

end
