(* ===== verification/Store.thy ===== *)
theory Store
  imports Users
begin

text \<open>
  \<open>src/server/store.cpp\<close>: the layout under the server's data directory, and every path that is made
  from a name off the network. An empty path, the code's refusal, is \<open>None\<close>.
\<close>

type_synonym store = path

definition store_users :: "store \<Rightarrow> path" where "store_users root = root @ [''users'']"
definition store_chunks :: "store \<Rightarrow> path" where "store_chunks root = root @ [''chunks'']"
definition store_tmp :: "store \<Rightarrow> path" where "store_tmp root = root @ [''tmp'']"

datatype store_error = CannotCreateDir path | InvalidAccount | CannotCreateAccount string

record stored_file =
  sf_name :: string
  sf_size :: nat
  sf_modified :: int
  sf_tag :: string

section \<open>Setting up\<close>

fun make_dirs :: "disk \<Rightarrow> path list \<Rightarrow> store_error option \<times> disk" where
  "make_dirs d [] = (None, d)"
| "make_dirs d (p # ps) =
     (case fs_mkdirs d p of (ok, d) \<Rightarrow> if \<not> ok then (Some (CannotCreateDir p), d) else make_dirs d ps)"

fun remove_all :: "disk \<Rightarrow> path list \<Rightarrow> disk" where
  "remove_all d [] = d"
| "remove_all d (p # ps) = remove_all (snd (fs_remove d p)) ps"

definition store_init :: "disk \<Rightarrow> store \<Rightarrow> store_error option \<times> disk" where
  "store_init d root =
     (case make_dirs d [root, store_users root, store_chunks root, store_tmp root] of
        (Some e, d) \<Rightarrow> (Some e, d)
      | (None, d) \<Rightarrow> (None, remove_all d (fs_list d (store_tmp root))))"

section \<open>Paths\<close>

definition account_dir :: "store \<Rightarrow> string \<Rightarrow> path option" where
  "account_dir root user =
     (if \<not> is_valid_username user then None else Some (path_join (store_users root) user))"

text \<open>The second call's error code overwrites the first one's, as in the code.\<close>

definition ensure_account :: "disk \<Rightarrow> store \<Rightarrow> string \<Rightarrow> store_error option \<times> disk" where
  "ensure_account d root user =
     (case account_dir root user of
        None \<Rightarrow> (Some InvalidAccount, d)
      | Some base \<Rightarrow>
          (case fs_mkdirs d (base @ [''files'']) of (_, d) \<Rightarrow>
             case fs_mkdirs d (base @ [''meta'']) of (ok, d) \<Rightarrow>
               if \<not> ok then (Some (CannotCreateAccount user), d) else (None, d)))"

definition file_path :: "store \<Rightarrow> string \<Rightarrow> string \<Rightarrow> path option" where
  "file_path root user name =
     (case account_dir root user of
        None \<Rightarrow> None
      | Some base \<Rightarrow> if \<not> is_safe_name name then None else Some (path_join (base @ [''files'']) name))"

definition chunk_path :: "store \<Rightarrow> string \<Rightarrow> path option" where
  "chunk_path root i = (if \<not> is_safe_chunk_id i then None else Some (path_join (store_chunks root) i))"

definition temp_path :: "store \<Rightarrow> bytes \<Rightarrow> path \<times> bytes" where
  "temp_path root pool =
     (case random_bytes 16 pool of (bs, pool) \<Rightarrow> (path_join (store_tmp root) (to_hex bs @ ''.part''), pool))"

definition tag_path :: "path \<Rightarrow> string \<Rightarrow> path" where
  "tag_path base name = path_join (base @ [''meta'']) (name @ ''.tag'')"

text \<open>The first line of a file, nothing when there is no file or no line.\<close>

definition first_line :: "disk \<Rightarrow> path \<Rightarrow> string" where
  "first_line d p =
     (case fs_read d p of
        None \<Rightarrow> []
      | Some c \<Rightarrow> (case getlines c of [] \<Rightarrow> [] | l # _ \<Rightarrow> l))"

text \<open>
  The last step of every upload: the finished temporary file takes its final name, or goes away
  when it cannot.
\<close>

definition commit_upload :: "disk \<Rightarrow> path \<Rightarrow> path \<Rightarrow> bool \<times> disk" where
  "commit_upload d temp final =
     (case fs_rename d temp final of (ok, d) \<Rightarrow>
        if \<not> ok then (case fs_remove d temp of (_, d) \<Rightarrow> (False, d)) else (True, d))"

section \<open>Files of an account\<close>

definition file_info :: "disk \<Rightarrow> store \<Rightarrow> string \<Rightarrow> string \<Rightarrow> (nat \<times> string) option" where
  "file_info d root user name =
     (case file_path root user name of
        None \<Rightarrow> None
      | Some p \<Rightarrow>
          if \<not> fs_exists d p \<or> \<not> fs_is_regular d p then None
          else (case fs_size d p of
                  None \<Rightarrow> None
                | Some n \<Rightarrow> Some (n, first_line d (tag_path (the (account_dir root user)) name))))"

definition write_tag :: "disk \<Rightarrow> store \<Rightarrow> string \<Rightarrow> string \<Rightarrow> string \<Rightarrow> bool \<times> disk" where
  "write_tag d root user name tag =
     (case account_dir root user of
        None \<Rightarrow> (False, d)
      | Some base \<Rightarrow>
          if \<not> is_safe_name name then (False, d)
          else (case fs_create d (tag_path base name) of (ok, d) \<Rightarrow>
            if \<not> ok then (False, d)
            else out_flush (tag_path base name) (out_lines (tag_path base name) [tag] (True, d))))"

definition remove_file :: "disk \<Rightarrow> store \<Rightarrow> string \<Rightarrow> string \<Rightarrow> bool \<times> disk" where
  "remove_file d root user name =
     (case file_path root user name of
        None \<Rightarrow> (False, d)
      | Some p \<Rightarrow>
          (case fs_remove d p of (existed, d) \<Rightarrow>
             case fs_remove d (tag_path (the (account_dir root user)) name) of (_, d) \<Rightarrow> (existed, d)))"

definition stored_entry :: "disk \<Rightarrow> path \<Rightarrow> path \<Rightarrow> stored_file" where
  "stored_entry d base p =
     \<lparr>sf_name = last p,
      sf_size = (case fs_size d p of None \<Rightarrow> 0 | Some n \<Rightarrow> n),
      sf_modified = (case fs_mtime d p of None \<Rightarrow> 0 | Some t \<Rightarrow> t),
      sf_tag = first_line d (tag_path base (last p))\<rparr>"

definition list_files :: "disk \<Rightarrow> store \<Rightarrow> string \<Rightarrow> stored_file list" where
  "list_files d root user =
     (case account_dir root user of
        None \<Rightarrow> []
      | Some base \<Rightarrow>
          if \<not> fs_exists d (base @ [''files'']) then []
          else sort_key sf_name
                 (map (stored_entry d base)
                   (filter (\<lambda>p. is_safe_name (last p)) (fs_list d (base @ [''files''])))))"

section \<open>The machine token\<close>

definition load_or_create_token :: "disk \<Rightarrow> bytes \<Rightarrow> path \<Rightarrow> string \<times> bytes \<times> disk" where
  "load_or_create_token d pool p =
     (if length (first_line d p) = 64 then (first_line d p, pool, d)
      else
        case random_bytes 32 pool of (bs, pool) \<Rightarrow>
        let token = to_hex bs
        in case fs_create d p of (ok, d) \<Rightarrow>
             (token, pool, if ok then snd (out_flush p (out_lines p [token] (True, d))) else d))"

section \<open>Where paths can lead\<close>

lemma account_dir_eq: "account_dir root user = (if is_valid_username user then Some (root @ [''users'', user]) else None)"
  by (auto simp: account_dir_def store_users_def path_join_safe valid_username_safe)

lemma file_path_eq:
  "file_path root user name =
     (if is_valid_username user \<and> is_safe_name name then Some (root @ [''users'', user, ''files'', name])
      else None)"
  by (auto simp: file_path_def account_dir_eq path_join_safe)

lemma chunk_path_eq: "chunk_path root i = (if is_safe_chunk_id i then Some (root @ [''chunks'', i]) else None)"
  by (auto simp: chunk_path_def store_chunks_def path_join_safe chunk_id_is_safe_name)

lemma tag_path_eq: "is_safe_name name \<Longrightarrow> tag_path base name = base @ [''meta'', name @ ''.tag'']"
  by (simp add: tag_path_def path_join_safe_ext)

lemma slash_not_hex: "CHR ''/'' \<notin> set (to_hex bs)"
  using to_hex_lower [of bs] by (auto simp: list_all_iff less_eq_char_def)

lemma temp_path_eq:
  "temp_path root pool = (p, pool') \<Longrightarrow> \<exists>bs. p = root @ [''tmp'', to_hex bs @ ''.part'']"
  by (auto simp: temp_path_def store_tmp_def path_join_component slash_not_hex split: prod.splits)


section \<open>Areas of named content\<close>

text \<open>
  What uploads rely on of the store, for the files of accounts and for chunks alike: two keys never
  share a path, and no key's path is that of a temporary file.
\<close>

locale blob_area =
  fixes path_of :: "'k \<Rightarrow> path option"
    and temporary :: "path \<Rightarrow> bool"
  assumes path_inj: "path_of k = Some p \<Longrightarrow> path_of k' = Some p \<Longrightarrow> k = k'"
    and path_not_temporary: "path_of k = Some p \<Longrightarrow> \<not> temporary p"
begin

definition blob :: "disk \<Rightarrow> 'k \<Rightarrow> string option" where
  "blob d k = Option.bind (path_of k) (fs_read d)"

lemma blob_touches:
  assumes "touches P d d'" and "\<And>p. path_of k = Some p \<Longrightarrow> p \<notin> P"
  shows "blob d' k = blob d k"
  using assms touches_read [OF assms(1)] by (cases "path_of k") (auto simp: blob_def)

lemma temporary_keeps: "touches {t} d d' \<Longrightarrow> temporary t \<Longrightarrow> blob d' k = blob d k"
  using path_not_temporary by (auto intro!: blob_touches)

lemma commit_stores:
  assumes "commit_upload d t p = (True, d')" and "path_of k = Some p" and "temporary t"
  shows "blob d' k = fs_read d t \<and> blob d' k \<noteq> None \<and> (\<forall>k'. k' \<noteq> k \<longrightarrow> blob d' k' = blob d k')"
proof -
  have "t \<noteq> p" using assms(2,3) path_not_temporary by auto
  moreover have r: "fs_rename d t p = (True, d')"
    using assms(1) by (auto simp: commit_upload_def split: prod.splits if_splits)
  ultimately have "fs_read d' p = fs_read d t" "fs_read d t \<noteq> None" using rename_effect by auto
  moreover have "blob d' k' = blob d k'" if "k' \<noteq> k" for k'
    using touches_rename [OF r] that path_inj [OF assms(2)] path_not_temporary assms(3)
    by (auto intro!: blob_touches)
  ultimately show ?thesis using assms(2) by (auto simp: blob_def)
qed

lemma commit_fails:
  assumes "commit_upload d t p = (False, d')" and "temporary t"
  shows "blob d' k = blob d k"
proof -
  obtain d1 where r: "fs_rename d t p = (False, d1)" and x: "\<exists>ok. fs_remove d1 t = (ok, d')"
    using assms(1) by (auto simp: commit_upload_def split: prod.splits if_splits)
  then have "touches {t} d d'"
    using touches_trans [OF touches_mono [OF rename_fail [OF r]] touches_remove] by auto
  with assms(2) show ?thesis by (simp add: temporary_keeps)
qed

end

definition in_tmp :: "store \<Rightarrow> path \<Rightarrow> bool" where
  "in_tmp root p \<longleftrightarrow> butlast p = store_tmp root"

interpretation account_files: blob_area "\<lambda>(u, n). file_path root u n" "in_tmp root" for root
proof unfold_locales
  show "(case k of (u, n) \<Rightarrow> file_path root u n) = Some p \<Longrightarrow>
      (case k' of (u, n) \<Rightarrow> file_path root u n) = Some p \<Longrightarrow> k = k'" for k p k'
    by (auto simp: file_path_eq split: prod.splits if_splits)
  show "(case k of (u, n) \<Rightarrow> file_path root u n) = Some p \<Longrightarrow> \<not> in_tmp root p" for k p
    by (auto simp: file_path_eq in_tmp_def store_tmp_def butlast_append split: prod.splits if_splits)
qed

interpretation chunk_area: blob_area "chunk_path root" "in_tmp root" for root
  by unfold_locales
    (auto simp: chunk_path_eq in_tmp_def store_tmp_def butlast_append split: if_splits)

lemma temp_path_in_tmp: "temp_path root pool = (p, pool') \<Longrightarrow> in_tmp root p"
  using temp_path_eq [of root pool p pool'] by (auto simp: in_tmp_def store_tmp_def butlast_append)

text \<open>The content of a file of an account, and of a chunk, over the areas' definitions.\<close>

definition stored :: "disk \<Rightarrow> store \<Rightarrow> string \<Rightarrow> string \<Rightarrow> string option" where
  "stored d root user name = Option.bind (file_path root user name) (fs_read d)"

definition stored_chunk :: "disk \<Rightarrow> store \<Rightarrow> string \<Rightarrow> string option" where
  "stored_chunk d root i = Option.bind (chunk_path root i) (fs_read d)"

lemma stored_blob: "stored d root u n = account_files.blob root d (u, n)"
  by (simp add: stored_def account_files.blob_def)

lemma stored_chunk_blob: "stored_chunk d root i = chunk_area.blob root d i"
  by (simp add: stored_chunk_def chunk_area.blob_def)

section \<open>Tags, removal, listing\<close>

lemma write_tag_touches:
  assumes "write_tag d root u n tag = (ok, d')" and "is_valid_username u" and "is_safe_name n"
  shows "touches {tag_path (root @ [''users'', u]) n} d d'"
proof -
  let ?t = "tag_path (root @ [''users'', u]) n"
  obtain ok1 d1 where c: "fs_create d ?t = (ok1, d1)" by fastforce
  obtain g d2 where l: "out_lines ?t [tag] (True, d1) = (g, d2)" by fastforce
  obtain g' d3 where f: "out_flush ?t (g, d2) = (g', d3)" by fastforce
  have "touches {?t} d d3"
    using touches_trans [OF touches_trans [OF touches_create [OF c] out_lines_touches [OF l]] out_flush_touches [OF f]] .
  then show ?thesis
    using assms touches_create [OF c] by (auto simp: write_tag_def account_dir_eq c l f split: if_splits)
qed

lemma write_tag_success:
  assumes "write_tag d root u n tag = (True, d')"
  shows "\<exists>base. account_dir root u = Some base \<and> fs_read d' (tag_path base n) = Some (tag @ [newline])"
proof -
  from assms obtain base d1 where b: "account_dir root u = Some base" "fs_create d (tag_path base n) = (True, d1)"
    and f: "out_flush (tag_path base n) (out_lines (tag_path base n) [tag] (True, d1)) = (True, d')"
    by (auto simp: write_tag_def split: option.splits if_splits prod.splits)
  obtain g d2 where l: "out_lines (tag_path base n) [tag] (True, d1) = (g, d2)" by fastforce
  with f have g: g and fl: "fs_flush d2 (tag_path base n) = (True, d')"
    by (auto simp: out_flush_def split: if_splits)
  have "fs_read d2 (tag_path base n) = Some (tag @ [newline])"
    using out_lines_success [of "tag_path base n" "[tag]" True d1 d2 "[]"] l g create_effect [OF b(2)]
    by (simp add: unlines_def)
  with flush_effect [OF fl] b(1) show ?thesis by simp
qed

lemma first_line_single: "fs_read d p = Some (s @ [newline]) \<Longrightarrow> newline \<notin> set s \<Longrightarrow> first_line d p = s"
  by (simp add: first_line_def getlines_line)

lemma tag_path_not_file:
  "is_safe_name n \<Longrightarrow> file_path root u m \<noteq> Some (tag_path (root @ [''users'', v]) n)"
  by (auto simp: file_path_eq tag_path_eq)

lemma write_tag_file_info:
  assumes "write_tag d root u n tag = (True, d')" and "newline \<notin> set tag" and "stored d root u n = Some c"
  shows "file_info d' root u n = Some (length c, tag) \<and> stored d' root u n = Some c"
proof -
  obtain p where p: "file_path root u n = Some p" "fs_read d p = Some c"
    using assms(3) by (cases "file_path root u n") (auto simp: stored_def)
  then have ok: "is_valid_username u" "is_safe_name n" by (auto simp: file_path_eq split: if_splits)
  have tag: "fs_read d' (tag_path (root @ [''users'', u]) n) = Some (tag @ [newline])"
    using write_tag_success [OF assms(1)] ok by (auto simp: account_dir_eq)
  have "p \<notin> {tag_path (root @ [''users'', u]) n}" using p(1) tag_path_not_file [OF ok(2), of root u n u] by auto
  from touches_read [OF write_tag_touches [OF assms(1) ok] this] p(2)
  have "fs_read d' p = Some c" by simp
  with p ok tag first_line_single [OF tag assms(2)] show ?thesis
    by (auto simp: file_info_def stored_def fs_size_def fs_exists_def fs_is_regular_def account_dir_eq fs_read_def)
qed

lemma remove_file_spec:
  assumes "remove_file d root u n = (existed, d')" and "faults d = []"
  shows "stored d' root u n = None \<and> file_info d' root u n = None \<and>
    (existed \<longleftrightarrow> stored d root u n \<noteq> None) \<and>
    (\<forall>v m. (v, m) \<noteq> (u, n) \<longrightarrow> stored d' root v m = stored d root v m) \<and>
    (stored d root u n \<noteq> None \<longrightarrow> first_line d' (tag_path (the (account_dir root u)) n) = [])"
proof (cases "file_path root u n")
  case None
  with assms(1) show ?thesis by (auto simp: remove_file_def stored_def file_info_def)
next
  case (Some p)
  then have ok: "is_valid_username u" "is_safe_name n" "p = root @ [''users'', u, ''files'', n]"
    by (auto simp: file_path_eq split: if_splits)
  let ?t = "tag_path (root @ [''users'', u]) n"
  obtain e1 d1 where r1: "fs_remove d p = (e1, d1)" by fastforce
  obtain e2 d2 where r2: "fs_remove d1 ?t = (e2, d2)" by fastforce
  have res: "existed = e1" "d' = d2" using assms(1) Some ok r1 r2 by (auto simp: remove_file_def account_dir_eq)
  have f1: "faults d1 = []" using faultless_remove [OF assms(2) r1] .
  have other: "fs_read d2 q = fs_read d q" if "q \<noteq> p" "q \<noteq> ?t" for q
    using that touches_read [OF touches_remove [OF r1]] touches_read [OF touches_remove [OF r2]] by simp
  have pt: "p \<noteq> ?t" using Some tag_path_not_file [OF ok(2), of root u n u] by auto
  then have gone: "fs_read d2 p = None" "fs_read d2 ?t = None"
    using remove_gone [OF assms(2) r1] remove_gone [OF f1 r2] touches_read [OF touches_remove [OF r2]] by auto
  have "e1 \<longleftrightarrow> fs_read d p \<noteq> None"
    using r1 assms(2) by (auto simp: fs_remove_def fs_simps fs_read_def split: if_splits)
  moreover have "stored d2 root v m = stored d root v m" if "(v, m) \<noteq> (u, n)" for v m
    using other tag_path_not_file [OF ok(2), of root v m u] that ok(3)
    by (auto simp: stored_def file_path_eq)
  ultimately show ?thesis
    using gone Some ok res
    by (auto simp: stored_def file_info_def fs_is_regular_def fs_read_def first_line_def account_dir_eq
        fs_exists_def)
qed

lemma in_fs_list: "p \<in> set (fs_list d b) \<longleftrightarrow> p \<noteq> [] \<and> butlast p = b \<and> fs_read d p \<noteq> None"
  by (auto simp: fs_list_def fs_read_def lookup_def map_of_eq_None_iff)

lemma list_files_spec:
  assumes "is_valid_username u" and "fs_exists d (root @ [''users'', u, ''files''])"
  shows "sorted (map sf_name (list_files d root u)) \<and>
    set (map sf_name (list_files d root u)) = {n. is_safe_name n \<and> stored d root u n \<noteq> None} \<and>
    (\<forall>f\<in>set (list_files d root u). file_info d root u (sf_name f) = Some (sf_size f, sf_tag f))"
proof -
  let ?base = "root @ [''users'', u]"
  let ?ps = "filter (\<lambda>p. is_safe_name (last p)) (fs_list d (?base @ [''files'']))"
  have list: "list_files d root u = sort_key sf_name (map (stored_entry d ?base) ?ps)"
    using assms by (simp add: list_files_def account_dir_eq)
  have member: "p \<in> set ?ps \<longleftrightarrow>
      (\<exists>n. p = root @ [''users'', u, ''files'', n] \<and> is_safe_name n \<and> fs_read d p \<noteq> None)" for p
  proof -
    have "p \<noteq> [] \<and> butlast p = ?base @ [''files''] \<longleftrightarrow> (\<exists>n. p = root @ [''users'', u, ''files'', n])"
      by (cases p rule: rev_cases) auto
    then show ?thesis by (auto simp: in_fs_list)
  qed
  have names: "sf_name (stored_entry d ?base p) = last p" for p by (simp add: stored_entry_def)
  have "set (map sf_name (list_files d root u)) = last ` set ?ps"
    unfolding list by (simp add: image_image names)
  also have "\<dots> = {n. is_safe_name n \<and> stored d root u n \<noteq> None}"
    using member assms(1) by (force simp: stored_def file_path_eq image_iff)
  finally have set: "set (map sf_name (list_files d root u)) = {n. is_safe_name n \<and> stored d root u n \<noteq> None}" .
  have "file_info d root u (sf_name f) = Some (sf_size f, sf_tag f)" if f: "f \<in> set (list_files d root u)" for f
  proof -
    from f obtain p where p: "f = stored_entry d ?base p" "p \<in> set ?ps" by (auto simp: list)
    then obtain n where n: "p = root @ [''users'', u, ''files'', n]" "is_safe_name n" "fs_read d p \<noteq> None"
      using member by blast
    then show ?thesis
      using p(1) assms(1) by (auto simp: stored_entry_def file_info_def file_path_eq account_dir_eq
          fs_exists_def fs_is_regular_def fs_size_def fs_read_def)
  qed
  with set show ?thesis by (simp add: list)
qed

lemma token_is_stable:
  assumes "load_or_create_token d pool p = (t, pool', d')" and "faults d = []" and "writable d p"
    and "length (first_line d p) = 64 \<or> 32 \<le> length pool"
  shows "length t = 64 \<and> load_or_create_token d' pool2 p = (t, pool2, d')"
proof (cases "length (first_line d p) = 64")
  case True
  with assms(1) show ?thesis by (auto simp: load_or_create_token_def)
next
  case False
  let ?t = "to_hex (take 32 pool)"
  have len: "32 \<le> length pool" using assms(4) False by simp
  have nl: "newline \<notin> set ?t" using to_hex_lower [of "take 32 pool"] by (auto simp: list_all_iff less_eq_char_def)
  have "t = ?t \<and> d' = put d p (?t @ [newline])"
    using assms(1-3) False len
    by (auto simp: load_or_create_token_def random_bytes_def create_ok writable_def Let_def out_lines_ok
        unlines_def out_flush_def flush_ok fs_simps)
  moreover have "first_line (put d p (?t @ [newline])) p = ?t"
    using nl by (intro first_line_single) (simp_all add: fs_simps)
  ultimately show ?thesis using len by (simp add: load_or_create_token_def)
qed

section \<open>What an account's operations may touch\<close>

definition own_paths :: "store \<Rightarrow> string \<Rightarrow> path set" where
  "own_paths root user = {p. in_tmp root p \<or> (\<exists>r. p = root @ [''users'', user] @ r)}"

lemma own_paths_file: "file_path root u n = Some p \<Longrightarrow> p \<in> own_paths root u"
  by (auto simp: file_path_eq own_paths_def split: if_splits)

lemma own_paths_tag: "is_safe_name n \<Longrightarrow> tag_path (root @ [''users'', u]) n \<in> own_paths root u"
  by (auto simp: tag_path_eq own_paths_def)

lemma own_paths_temp: "temp_path root pool = (p, pool') \<Longrightarrow> p \<in> own_paths root u"
  by (simp add: own_paths_def temp_path_in_tmp)

lemma own_paths_other_file: "v \<noteq> u \<Longrightarrow> file_path root v n = Some p \<Longrightarrow> p \<notin> own_paths root u"
  by (auto simp: file_path_eq own_paths_def in_tmp_def store_tmp_def butlast_append split: if_splits)

lemma own_paths_chunk: "chunk_path root i = Some p \<Longrightarrow> p \<notin> own_paths root u"
  by (auto simp: chunk_path_eq own_paths_def in_tmp_def store_tmp_def butlast_append split: if_splits)

lemma own_stored: "touches (own_paths root u) d d' \<Longrightarrow> v \<noteq> u \<Longrightarrow> stored d' root v n = stored d root v n"
  unfolding stored_blob
  by (rule account_files.blob_touches) (auto simp: own_paths_other_file)

lemma own_chunks: "touches (own_paths root u) d d' \<Longrightarrow> stored_chunk d' root i = stored_chunk d root i"
  unfolding stored_chunk_blob by (rule chunk_area.blob_touches) (auto simp: own_paths_chunk)

lemma commit_touches: "commit_upload d t p = (ok, d') \<Longrightarrow> touches {t, p} d d'"
proof -
  assume c: "commit_upload d t p = (ok, d')"
  obtain ok1 d1 where r: "fs_rename d t p = (ok1, d1)" by fastforce
  obtain ok2 d2 where x: "fs_remove d1 t = (ok2, d2)" by fastforce
  show ?thesis
    using c touches_rename [OF r] touches_trans [OF touches_rename [OF r] touches_mono [OF touches_remove [OF x]]]
    by (auto simp: commit_upload_def r x split: if_splits)
qed

lemma remove_file_touches: "remove_file d root u n = (ex, d') \<Longrightarrow> touches (own_paths root u) d d'"
proof (cases "file_path root u n")
  case (Some p)
  then have ok: "is_valid_username u" "is_safe_name n" by (auto simp: file_path_eq split: if_splits)
  let ?t = "tag_path (root @ [''users'', u]) n"
  obtain e1 d1 where r1: "fs_remove d p = (e1, d1)" by fastforce
  obtain e2 d2 where r2: "fs_remove d1 ?t = (e2, d2)" by fastforce
  have "touches (own_paths root u) d d2"
    using touches_trans [OF touches_mono [OF touches_remove [OF r1]] touches_mono [OF touches_remove [OF r2]]]
      own_paths_file [OF Some] own_paths_tag [OF ok(2)] by simp
  moreover assume "remove_file d root u n = (ex, d')"
  ultimately show ?thesis using Some ok r1 r2 by (auto simp: remove_file_def account_dir_eq)
qed (simp add: remove_file_def)

section \<open>Uploads\<close>

lemma temp_keeps_stored: "touches {temp} d d' \<Longrightarrow> in_tmp root temp \<Longrightarrow> stored d' root v n = stored d root v n"
  unfolding stored_blob by (rule account_files.temporary_keeps)

lemma commit_stored:
  assumes "commit_upload d temp final = (ok, d')" and "in_tmp root temp" and "file_path root u n = Some final"
  shows "(ok \<longrightarrow> stored d' root u n = fs_read d temp) \<and> (\<not> ok \<longrightarrow> stored d' root u n = stored d root u n) \<and>
    (\<forall>v m. (v, m) \<noteq> (u, n) \<longrightarrow> stored d' root v m = stored d root v m)"
proof (cases ok)
  case True
  with assms account_files.commit_stores [of d temp final d' root "(u, n)"] show ?thesis
    by (simp add: stored_blob)
next
  case False
  with assms account_files.commit_fails [of d temp final d' root] show ?thesis
    by (simp add: stored_blob)
qed

lemma write_tag_stored: "write_tag d root u n tag = (ok, d') \<Longrightarrow> stored d' root v m = stored d root v m"
proof (cases "is_valid_username u \<and> is_safe_name n")
  case True
  assume w: "write_tag d root u n tag = (ok, d')"
  show ?thesis
    unfolding stored_blob
    by (rule account_files.blob_touches [OF write_tag_touches [OF w]])
      (use True tag_path_not_file in auto)
qed (auto simp: write_tag_def account_dir_eq split: if_splits)

lemma write_tag_own:
  "write_tag d root u n tag = (ok, d') \<Longrightarrow> touches (own_paths root u) d d'"
proof (cases "is_valid_username u \<and> is_safe_name n")
  case True
  assume "write_tag d root u n tag = (ok, d')"
  from touches_mono [OF write_tag_touches [OF this]] True own_paths_tag show ?thesis by simp
qed (auto simp: write_tag_def account_dir_eq split: if_splits)

lemma remove_file_others:
  assumes "remove_file d root u n = (ex, d')" and "(v, m) \<noteq> (u, n)"
  shows "stored d' root v m = stored d root v m"
proof (cases "file_path root u n")
  case None
  with assms(1) show ?thesis by (simp add: remove_file_def)
next
  case (Some p)
  then have ok: "is_valid_username u" "is_safe_name n" "p = root @ [''users'', u, ''files'', n]"
    by (auto simp: file_path_eq split: if_splits)
  let ?t = "tag_path (root @ [''users'', u]) n"
  obtain e1 d1 where r1: "fs_remove d p = (e1, d1)" by fastforce
  obtain e2 d2 where r2: "fs_remove d1 ?t = (e2, d2)" by fastforce
  have "d' = d2" using assms(1) Some ok r1 r2 by (auto simp: remove_file_def account_dir_eq)
  moreover have "fs_read d2 q = fs_read d q" if "q \<noteq> p" "q \<noteq> ?t" for q
    using that touches_read [OF touches_remove [OF r1]] touches_read [OF touches_remove [OF r2]] by simp
  ultimately show ?thesis
    using assms(2) ok(3) tag_path_not_file [OF ok(2), of root v m u] by (auto simp: stored_def file_path_eq)
qed

lemma ensure_account_touches: "ensure_account d root u = (e, d') \<Longrightarrow> touches {} d d'"
  by (auto simp: ensure_account_def split: option.splits prod.splits if_splits
      intro: touches_trans [OF touches_mkdirs touches_mkdirs])

section \<open>Examples\<close>

abbreviation example_root :: store where "example_root \<equiv> [''srv'']"

definition example_store :: disk where
  "example_store =
     put (empty_disk [[''srv''], [''srv'', ''tmp''], [''srv'', ''chunks''],
       [''srv'', ''users'', ''ann'', ''files''], [''srv'', ''users'', ''ann'', ''meta'']])
     [''srv'', ''users'', ''ann'', ''files'', ''notes''] ''hello''"

lemma example_names: "is_valid_username ''ann''" "is_safe_name ''notes''" "newline \<notin> set ''t1''"
  by (simp_all add: is_valid_username_def less_char_def less_eq_char_def is_safe_name_def
      forbidden_char_def kBackslash_code)

lemma example_store_simps [simp]:
  "faults example_store = []"
  "fs_read example_store p = (if p = [''srv'', ''users'', ''ann'', ''files'', ''notes''] then Some ''hello'' else None)"
  "dirs example_store = [[''srv''], [''srv'', ''tmp''], [''srv'', ''chunks''],
       [''srv'', ''users'', ''ann'', ''files''], [''srv'', ''users'', ''ann'', ''meta'']]"
  by (simp_all add: example_store_def fs_simps)

lemma example_stored: "stored example_store example_root ''ann'' ''notes'' = Some ''hello''"
  by (simp add: stored_def file_path_eq example_names)


lemma write_tag_file_info_witness:
  "\<exists>d'. write_tag example_store example_root ''ann'' ''notes'' ''t1'' = (True, d') \<and>
     file_info d' example_root ''ann'' ''notes'' = Some (length ''hello'', ''t1'')"
proof -
  have "\<exists>d'. write_tag example_store example_root ''ann'' ''notes'' ''t1'' = (True, d')"
    by (simp add: write_tag_def account_dir_eq example_names tag_path_eq create_ok out_lines_ok out_flush_def
        flush_ok fs_simps)
  then obtain d' where d': "write_tag example_store example_root ''ann'' ''notes'' ''t1'' = (True, d')" ..
  from write_tag_file_info [OF d' example_names(3) example_stored] d' show ?thesis by blast
qed

lemma remove_file_spec_witness:
  "stored (snd (remove_file example_store example_root ''ann'' ''notes'')) example_root ''ann'' ''notes'' = None"
  using remove_file_spec [of example_store example_root "''ann''" "''notes''"]
  by (cases "remove_file example_store example_root ''ann'' ''notes''") simp

lemma list_files_spec_witness:
  "\<exists>f\<in>set (list_files example_store example_root ''ann''). sf_name f = ''notes''"
proof -
  have "fs_exists example_store (example_root @ [''users'', ''ann'', ''files''])"
    by (simp add: fs_exists_def)
  note l = list_files_spec [OF example_names(1) this]
  have "''notes'' \<in> {n. is_safe_name n \<and> stored example_store example_root ''ann'' n \<noteq> None}"
    using example_stored example_names(2) by simp
  then have "''notes'' \<in> set (map sf_name (list_files example_store example_root ''ann''))"
    unfolding l [THEN conjunct2, THEN conjunct1] .
  then show ?thesis by auto
qed

lemma token_is_stable_witness:
  "\<exists>t d. length t = 64 \<and> load_or_create_token d [] [''srv'', ''token''] = (t, [], d)"
proof -
  obtain t pool' d' where t: "load_or_create_token example_store (replicate 32 7) [''srv'', ''token''] = (t, pool', d')"
    by (rule prod_cases3)
  have "writable example_store [''srv'', ''token'']" by (simp add: writable_def)
  from token_is_stable [OF t _ this, of "[]"] show ?thesis by auto
qed

end
