(* ===== verification/Tlsca.thy ===== *)
theory Tlsca
  imports Filesys
begin

text \<open>
  \<open>src/core/tlsca.cpp\<close>: which names a certificate is issued for, what is put into it, when it is reissued,
  and that an existing authority is kept. OpenSSL and the resolver are a parameter, the record \<open>x509\<close>: the
  outcome of each call, and signing as a function from what is to be signed. A field that is a
  function of the role stands for a call made once for the authority and once for the server.
\<close>

datatype cert_role = Authority | Server

datatype nid = BasicConstraints | KeyUsage | ExtKeyUsage | SubjectAltName | SubjectKeyIdentifier | AuthorityKeyIdentifier

record 'k to_be_signed =
  tbs_version :: nat
  tbs_serial :: bytes
  tbs_not_before :: int
  tbs_not_after :: int
  tbs_key :: 'k
  tbs_subject :: "(string \<times> string) list"
  tbs_issuer :: "(string \<times> string) list"
  tbs_extensions :: "(nid \<times> string) list"

record ('c, 'k) x509 =
  inet4 :: "string \<Rightarrow> bool"
  inet6 :: "string \<Rightarrow> bool"
  host_name :: "string option"
  resolved :: "string \<Rightarrow> string list"
  pem_cert :: "string \<Rightarrow> 'c option"
  pem_key :: "string \<Rightarrow> 'k option"
  cert_pem :: "'c \<Rightarrow> string option"
  key_pem :: "'k \<Rightarrow> string option"
  days_to_expiry :: "'c \<Rightarrow> int option"
  covers_ip :: "'c \<Rightarrow> string \<Rightarrow> bool"
  covers_host :: "'c \<Rightarrow> string \<Rightarrow> bool"
  cert_subject :: "'c \<Rightarrow> (string \<times> string) list"
  key_ctx_new :: bool
  keygen_init :: bool
  rsa_keygen :: "cert_role \<Rightarrow> nat \<Rightarrow> 'k option"
  x509_new :: bool
  serial_bytes :: "cert_role \<Rightarrow> bytes option"
  serial_number_ok :: "bytes \<Rightarrow> bool"
  time_now :: int
  name_entry_ok :: "string \<Rightarrow> string \<Rightarrow> bool"
  extension_ok :: "nid \<Rightarrow> string \<Rightarrow> bool"
  x509_sign :: "'k to_be_signed \<Rightarrow> 'k \<Rightarrow> 'c option"

datatype ca_error = NoCaKey | CannotAllocate | NoSerialNumber | CannotAddExtensions | CannotSign | CannotWriteCa
  | CannotReadCa | NoHosts | NoServerKey | CannotWriteCert

definition kCaLifetimeSeconds :: int where "kCaLifetimeSeconds = 10 * 365 * 24 * 3600"
definition kLeafLifetimeSeconds :: int where "kLeafLifetimeSeconds = 820 * 24 * 3600"

section \<open>The parts of a certificate\<close>

definition generate_key :: "('c, 'k) x509 \<Rightarrow> cert_role \<Rightarrow> 'k option" where
  "generate_key X r =
     (if \<not> key_ctx_new X then None
      else if \<not> keygen_init X then None
      else rsa_keygen X r 2048)"

text \<open>The top bit is cleared, which keeps the number positive.\<close>

definition set_random_serial :: "('c, 'k) x509 \<Rightarrow> cert_role \<Rightarrow> bytes option" where
  "set_random_serial X r =
     (case serial_bytes X r of
        None \<Rightarrow> None
      | Some bs \<Rightarrow>
          let bs = bs[0 := bs ! 0 AND 0x7F]
          in if serial_number_ok X bs then Some bs else None)"

text \<open>Nobody looks at whether an entry was taken.\<close>

definition set_name_entry :: "('c, 'k) x509 \<Rightarrow> string \<Rightarrow> string \<Rightarrow> (string \<times> string) list \<Rightarrow> (string \<times> string) list" where
  "set_name_entry X f v name = (if name_entry_ok X f v then name @ [(f, v)] else name)"

definition add_extension ::
  "('c, 'k) x509 \<Rightarrow> nid \<Rightarrow> string \<Rightarrow> (nid \<times> string) list \<Rightarrow> (nid \<times> string) list option" where
  "add_extension X n v es = (if extension_ok X n v then Some (es @ [(n, v)]) else None)"

fun add_extensions ::
  "('c, 'k) x509 \<Rightarrow> (nid \<times> string) list \<Rightarrow> (nid \<times> string) list \<Rightarrow> (nid \<times> string) list option" where
  "add_extensions X [] es = Some es"
| "add_extensions X ((n, v) # rest) es =
     (case add_extension X n v es of None \<Rightarrow> None | Some es \<Rightarrow> add_extensions X rest es)"

definition looks_like_ip :: "('c, 'k) x509 \<Rightarrow> string \<Rightarrow> bool" where
  "looks_like_ip X host = (if inet4 X host then True else inet6 X host)"

section \<open>The names of this machine\<close>

definition local_host_identities :: "('c, 'k) x509 \<Rightarrow> string list" where
  "local_host_identities X =
     (let hosts = [''localhost'', ''127.0.0.1'', ''::1'']
            @ (case host_name X of
                 None \<Rightarrow> []
               | Some name \<Rightarrow> name # filter (\<lambda>t. t \<noteq> []) (resolved X name))
      in remdups_adj (sort hosts))"

section \<open>The authority\<close>

definition read_pem :: "(string \<Rightarrow> 'a option) \<Rightarrow> disk \<Rightarrow> path \<Rightarrow> 'a option" where
  "read_pem parse d p = Option.bind (fs_read d p) parse"

definition write_pem :: "disk \<Rightarrow> path \<Rightarrow> string option \<Rightarrow> bool \<times> disk" where
  "write_pem d p pem =
     (case fs_create d p of (ok, d) \<Rightarrow>
        if \<not> ok then (False, d)
        else case pem of None \<Rightarrow> (False, d) | Some s \<Rightarrow> fs_append d p s)"

definition make_ca :: "('c, 'k) x509 \<Rightarrow> 'k \<Rightarrow> ca_error + 'c" where
  "make_ca X key =
     (if \<not> x509_new X then Inl CannotAllocate
      else case set_random_serial X Authority of
        None \<Rightarrow> Inl NoSerialNumber
      | Some serial \<Rightarrow>
      let subject = set_name_entry X ''CN'' ''Personal Cloud Storage local CA'' [];
          subject = set_name_entry X ''O'' ''Personal Cloud Storage'' subject
      in case add_extensions X
          [(BasicConstraints, ''critical,CA:TRUE,pathlen:0''), (KeyUsage, ''critical,keyCertSign,cRLSign''),
           (SubjectKeyIdentifier, ''hash'')] [] of
        None \<Rightarrow> Inl CannotAddExtensions
      | Some es \<Rightarrow>
      case x509_sign X
          \<lparr>tbs_version = 2, tbs_serial = serial, tbs_not_before = time_now X + 0,
           tbs_not_after = time_now X + kCaLifetimeSeconds, tbs_key = key, tbs_subject = subject,
           tbs_issuer = subject, tbs_extensions = es\<rparr> key of
        None \<Rightarrow> Inl CannotSign
      | Some cert \<Rightarrow> Inr cert)"

definition ensure_ca :: "('c, 'k) x509 \<Rightarrow> disk \<Rightarrow> path \<Rightarrow> path \<Rightarrow> (ca_error + unit) \<times> disk" where
  "ensure_ca X d cert_path key_path =
     (if read_pem (pem_cert X) d cert_path \<noteq> None \<and> read_pem (pem_key X) d key_path \<noteq> None
      then (Inr (), d)
      else case generate_key X Authority of
        None \<Rightarrow> (Inl NoCaKey, d)
      | Some key \<Rightarrow>
      case make_ca X key of
        Inl e \<Rightarrow> (Inl e, d)
      | Inr cert \<Rightarrow>
      case write_pem d cert_path (cert_pem X cert) of (ok, d) \<Rightarrow>
      if \<not> ok then (Inl CannotWriteCa, d)
      else case write_pem d key_path (key_pem X key) of (ok, d) \<Rightarrow>
      if \<not> ok then (Inl CannotWriteCa, d) else (Inr (), d))"

section \<open>Server certificates\<close>

definition san_entry :: "('c, 'k) x509 \<Rightarrow> string \<Rightarrow> string" where
  "san_entry X host = (if looks_like_ip X host then ''IP:'' else ''DNS:'') @ host"

definition subject_alt_name :: "('c, 'k) x509 \<Rightarrow> string list \<Rightarrow> string" where
  "subject_alt_name X hosts =
     foldl (\<lambda>san host. (if san \<noteq> [] then san @ '','' else san) @ san_entry X host) [] hosts"

definition make_leaf :: "('c, 'k) x509 \<Rightarrow> 'c \<Rightarrow> 'k \<Rightarrow> 'k \<Rightarrow> string list \<Rightarrow> ca_error + 'c" where
  "make_leaf X ca_cert ca_key key hosts =
     (if \<not> x509_new X then Inl CannotAllocate
      else case set_random_serial X Server of
        None \<Rightarrow> Inl NoSerialNumber
      | Some serial \<Rightarrow>
      let subject = set_name_entry X ''CN'' (hd hosts) [];
          subject = set_name_entry X ''O'' ''Personal Cloud Storage'' subject
      in case add_extensions X
          [(BasicConstraints, ''critical,CA:FALSE''), (KeyUsage, ''critical,digitalSignature,keyEncipherment''),
           (ExtKeyUsage, ''serverAuth''), (SubjectAltName, subject_alt_name X hosts),
           (SubjectKeyIdentifier, ''hash''), (AuthorityKeyIdentifier, ''keyid:always'')] [] of
        None \<Rightarrow> Inl CannotAddExtensions
      | Some es \<Rightarrow>
      case x509_sign X
          \<lparr>tbs_version = 2, tbs_serial = serial, tbs_not_before = time_now X + 0,
           tbs_not_after = time_now X + kLeafLifetimeSeconds, tbs_key = key, tbs_subject = subject,
           tbs_issuer = cert_subject X ca_cert, tbs_extensions = es\<rparr> ca_key of
        None \<Rightarrow> Inl CannotSign
      | Some cert \<Rightarrow> Inr cert)"

definition issue_server_cert ::
  "('c, 'k) x509 \<Rightarrow> disk \<Rightarrow> path \<Rightarrow> path \<Rightarrow> path \<Rightarrow> path \<Rightarrow> string list \<Rightarrow> (ca_error + unit) \<times> disk" where
  "issue_server_cert X d ca_cert_path ca_key_path cert_path key_path hosts =
     (case (read_pem (pem_cert X) d ca_cert_path, read_pem (pem_key X) d ca_key_path) of
        (Some ca_cert, Some ca_key) \<Rightarrow>
          if hosts = [] then (Inl NoHosts, d)
          else (case generate_key X Server of
            None \<Rightarrow> (Inl NoServerKey, d)
          | Some key \<Rightarrow>
          case make_leaf X ca_cert ca_key key hosts of
            Inl e \<Rightarrow> (Inl e, d)
          | Inr cert \<Rightarrow>
          case write_pem d cert_path (cert_pem X cert) of (ok, d) \<Rightarrow>
          if \<not> ok then (Inl CannotWriteCert, d)
          else case write_pem d key_path (key_pem X key) of (ok, d) \<Rightarrow>
          if \<not> ok then (Inl CannotWriteCert, d) else (Inr (), d))
      | _ \<Rightarrow> (Inl CannotReadCa, d))"

definition covered :: "('c, 'k) x509 \<Rightarrow> 'c \<Rightarrow> string \<Rightarrow> bool" where
  "covered X cert host =
     (if looks_like_ip X host then covers_ip X cert host else covers_host X cert host)"

definition server_cert_needs_reissue ::
  "('c, 'k) x509 \<Rightarrow> disk \<Rightarrow> path \<Rightarrow> string list \<Rightarrow> int \<Rightarrow> bool" where
  "server_cert_needs_reissue X d cert_path hosts days_left =
     (case read_pem (pem_cert X) d cert_path of
        None \<Rightarrow> True
      | Some cert \<Rightarrow>
          (case days_to_expiry X cert of
             None \<Rightarrow> True
           | Some days \<Rightarrow> days < days_left \<or> list_ex (\<lambda>host. \<not> covered X cert host) hosts))"

section \<open>Lemmas\<close>

lemma san_loop:
  "san \<noteq> [] \<Longrightarrow> foldl (\<lambda>san host. (if san \<noteq> [] then san @ '','' else san) @ san_entry X host) san hosts =
     san @ concat (map (\<lambda>h. '','' @ san_entry X h) hosts)"
  by (induction hosts arbitrary: san) simp_all

lemma san_entry_nonempty: "san_entry X h \<noteq> []"
  by (simp add: san_entry_def)

lemma subject_alt_name_Cons:
  "subject_alt_name X (h # hosts) = san_entry X h @ concat (map (\<lambda>h. '','' @ san_entry X h) hosts)"
  by (simp add: subject_alt_name_def san_loop san_entry_nonempty)

lemma sort_unique:
  fixes hs :: "'a::linorder list"
  shows "distinct (remdups_adj (sort hs))" and "sorted (remdups_adj (sort hs))"
    and "set (remdups_adj (sort hs)) = set hs"
proof -
  have "sorted xs \<Longrightarrow> distinct (remdups_adj xs)" for xs :: "'a list"
    by (induction xs rule: remdups_adj.induct) (auto simp: order_antisym)
  then show "distinct (remdups_adj (sort hs))" by simp
qed (simp_all add: sorted_remdups_adj)

lemma local_host_identities_set:
  "distinct (local_host_identities X) \<and> sorted (local_host_identities X) \<and>
     {''localhost'', ''127.0.0.1'', ''::1''} \<subseteq> set (local_host_identities X)"
  unfolding local_host_identities_def Let_def sort_unique by (simp add: sort_unique del: sort_key_simps)

lemma write_pem_success:
  "write_pem d p pem = (True, d') \<Longrightarrow> \<exists>s. pem = Some s \<and> fs_read d' p = Some s"
  by (auto simp: write_pem_def dest!: create_effect append_effect split: prod.splits if_splits option.splits)

lemma write_pem_touches: "write_pem d p pem = (ok, d') \<Longrightarrow> touches {p} d d'"
  by (auto simp: write_pem_def split: prod.splits if_splits option.splits
      intro: touches_create touches_trans [OF touches_create touches_append])

lemma ensure_ca_stable:
  assumes "\<forall>c s. cert_pem X c = Some s \<longrightarrow> pem_cert X s = Some c"
    and "\<forall>k s. key_pem X k = Some s \<longrightarrow> pem_key X s = Some k"
    and "cp \<noteq> kp" and "ensure_ca X d cp kp = (Inr (), d')"
  shows "ensure_ca X d' cp kp = (Inr (), d')"
proof (cases "read_pem (pem_cert X) d cp \<noteq> None \<and> read_pem (pem_key X) d kp \<noteq> None")
  case True
  with assms(4) show ?thesis by (auto simp: ensure_ca_def)
next
  case False
  with assms(4) obtain k c d1 where w: "write_pem d cp (cert_pem X c) = (True, d1)"
    "write_pem d1 kp (key_pem X k) = (True, d')"
    by (auto simp: ensure_ca_def split: option.splits sum.splits prod.splits if_splits)
  obtain s where s: "cert_pem X c = Some s" "fs_read d1 cp = Some s" using write_pem_success [OF w(1)] by blast
  obtain r where r: "key_pem X k = Some r" "fs_read d' kp = Some r" using write_pem_success [OF w(2)] by blast
  have "fs_read d' cp = Some s"
    using touches_read [OF write_pem_touches [OF w(2)]] assms(3) s(2) by simp
  with s r assms(1,2) show ?thesis by (auto simp: ensure_ca_def read_pem_def)
qed

section \<open>What is signed\<close>

lemma add_extensions_all:
  "add_extensions X xs es = Some es' \<Longrightarrow> es' = es @ xs \<and> list_all (\<lambda>(n, v). extension_ok X n v) xs"
  by (induction X xs es rule: add_extensions.induct) (auto simp: add_extension_def split: if_splits)

lemma serial_positive:
  assumes "set_random_serial X r = Some bs"
  shows "bs \<noteq> [] \<longrightarrow> hd bs \<le> 0x7F" and "\<exists>rnd. serial_bytes X r = Some rnd \<and> tl bs = tl rnd \<and> length bs = length rnd"
proof -
  obtain rnd where rnd: "serial_bytes X r = Some rnd" "bs = rnd[0 := rnd ! 0 AND 0x7F]"
    using assms by (auto simp: set_random_serial_def Let_def split: option.splits if_splits)
  then show "bs \<noteq> [] \<longrightarrow> hd bs \<le> 0x7F"
    using word_and_le1 [of "rnd ! 0" "0x7F"] by (cases rnd) (auto simp: word_and_le1)
  show "\<exists>rnd. serial_bytes X r = Some rnd \<and> tl bs = tl rnd \<and> length bs = length rnd"
    using rnd by (cases rnd) auto
qed

lemma make_leaf_signs:
  assumes "make_leaf X ca ca_key key hosts = Inr cert"
  shows "\<exists>t. x509_sign X t ca_key = Some cert \<and> tbs_key t = key \<and> tbs_issuer t = cert_subject X ca \<and>
    (tbs_serial t \<noteq> [] \<longrightarrow> hd (tbs_serial t) \<le> 0x7F) \<and>
    tbs_not_before t = time_now X \<and> tbs_not_after t = time_now X + kLeafLifetimeSeconds \<and>
    tbs_extensions t =
      [(BasicConstraints, ''critical,CA:FALSE''), (KeyUsage, ''critical,digitalSignature,keyEncipherment''),
       (ExtKeyUsage, ''serverAuth''), (SubjectAltName, subject_alt_name X hosts),
       (SubjectKeyIdentifier, ''hash''), (AuthorityKeyIdentifier, ''keyid:always'')]"
  using assms serial_positive(1) [of X Server]
  by (auto simp: make_leaf_def Let_def simp del: add_extensions.simps dest!: add_extensions_all split: if_splits option.splits intro!: exI)

lemma make_ca_signs:
  assumes "make_ca X key = Inr cert"
  shows "\<exists>t. x509_sign X t key = Some cert \<and> tbs_key t = key \<and> tbs_issuer t = tbs_subject t \<and>
    (tbs_serial t \<noteq> [] \<longrightarrow> hd (tbs_serial t) \<le> 0x7F) \<and>
    (BasicConstraints, ''critical,CA:TRUE,pathlen:0'') \<in> set (tbs_extensions t)"
  using assms serial_positive(1) [of X Authority]
  by (auto simp: make_ca_def Let_def simp del: add_extensions.simps dest!: add_extensions_all split: if_splits option.splits intro!: exI)

text \<open>C1: what a server certificate says.\<close>

theorem issued_certificate_contents:
  assumes "issue_server_cert X d ca_cert_path ca_key_path cert_path key_path hosts = (Inr (), d')"
    and "cert_path \<noteq> key_path"
  shows "\<exists>ca ca_key t cert s r.
    read_pem (pem_cert X) d ca_cert_path = Some ca \<and> read_pem (pem_key X) d ca_key_path = Some ca_key \<and>
    x509_sign X t ca_key = Some cert \<and> tbs_issuer t = cert_subject X ca \<and>
    cert_pem X cert = Some s \<and> fs_read d' cert_path = Some s \<and>
    key_pem X (tbs_key t) = Some r \<and> fs_read d' key_path = Some r \<and>
    (tbs_serial t \<noteq> [] \<longrightarrow> hd (tbs_serial t) \<le> 0x7F) \<and>
    tbs_not_after t - tbs_not_before t \<le> 825 * 24 * 3600 \<and>
    (BasicConstraints, ''critical,CA:FALSE'') \<in> set (tbs_extensions t) \<and>
    (ExtKeyUsage, ''serverAuth'') \<in> set (tbs_extensions t) \<and>
    (\<forall>san. (SubjectAltName, san) \<in> set (tbs_extensions t) \<longleftrightarrow>
       san = san_entry X (hd hosts) @ concat (map (\<lambda>h. '','' @ san_entry X h) (tl hosts)))"
proof -
  from assms(1) obtain ca ca_key key cert d1 where
    ca: "read_pem (pem_cert X) d ca_cert_path = Some ca" "read_pem (pem_key X) d ca_key_path = Some ca_key"
    and ne: "hosts \<noteq> []" and leaf: "make_leaf X ca ca_key key hosts = Inr cert"
    and w: "write_pem d cert_path (cert_pem X cert) = (True, d1)" "write_pem d1 key_path (key_pem X key) = (True, d')"
    by (auto simp: issue_server_cert_def split: option.splits sum.splits prod.splits if_splits)
  obtain s where s: "cert_pem X cert = Some s" "fs_read d1 cert_path = Some s" using write_pem_success [OF w(1)] by blast
  obtain r where r: "key_pem X key = Some r" "fs_read d' key_path = Some r" using write_pem_success [OF w(2)] by blast
  have "fs_read d' cert_path = Some s"
    using touches_read [OF write_pem_touches [OF w(2)]] assms(2) s(2) by simp
  moreover have "subject_alt_name X hosts = san_entry X (hd hosts) @ concat (map (\<lambda>h. '','' @ san_entry X h) (tl hosts))"
    using ne by (cases hosts) (simp_all add: subject_alt_name_Cons)
  ultimately show ?thesis
    using make_leaf_signs [OF leaf] ca s(1) r by (fastforce simp: kLeafLifetimeSeconds_def)
qed

section \<open>Examples\<close>

text \<open>Certificates and keys that are numbers, written as that many letters.\<close>

definition example_x509 :: "(nat, nat) x509" where
  "example_x509 = \<lparr>inet4 = (\<lambda>h. h = ''127.0.0.1''), inet6 = (\<lambda>h. False), host_name = None, resolved = (\<lambda>h. []),
     pem_cert = (\<lambda>s. Some (length s)), pem_key = (\<lambda>s. Some (length s)),
     cert_pem = (\<lambda>n. Some (replicate n CHR ''c'')), key_pem = (\<lambda>n. Some (replicate n CHR ''k'')),
     days_to_expiry = (\<lambda>c. Some 400), covers_ip = (\<lambda>c h. True), covers_host = (\<lambda>c h. True),
     cert_subject = (\<lambda>c. []), key_ctx_new = True, keygen_init = True, rsa_keygen = (\<lambda>r n. Some (if r = Authority then 3 else 4)),
     x509_new = True, serial_bytes = (\<lambda>r. Some (replicate 16 200)), serial_number_ok = (\<lambda>b. True), time_now = 0,
     name_entry_ok = (\<lambda>f v. True), extension_ok = (\<lambda>n v. True), x509_sign = (\<lambda>t k. Some (if tbs_key t = 3 then 5 else 7))\<rparr>"

lemma ensure_ca_stable_witness:
  "\<exists>d. ensure_ca example_x509 (empty_disk [[]]) [''ca.pem''] [''ca.key''] = (Inr (), d) \<and>
     ensure_ca example_x509 d [''ca.pem''] [''ca.key''] = (Inr (), d)"
proof -
  have "\<exists>d. ensure_ca example_x509 (empty_disk [[]]) [''ca.pem''] [''ca.key''] = (Inr (), d)"
    by (simp add: ensure_ca_def generate_key_def make_ca_def set_random_serial_def add_extension_def read_pem_def write_pem_def
        example_x509_def create_ok append_ok fs_simps)
  then obtain d where d: "ensure_ca example_x509 (empty_disk [[]]) [''ca.pem''] [''ca.key''] = (Inr (), d)" ..
  from ensure_ca_stable [OF _ _ _ d] d show ?thesis by (auto simp: example_x509_def)
qed

lemma issued_certificate_contents_witness:
  "\<exists>d d' t. issue_server_cert example_x509 d [''ca.crt''] [''ca.key''] [''server.crt''] [''server.key''] [''127.0.0.1'', ''nas.lan''] =
       (Inr (), d') \<and>
     x509_sign example_x509 t 1 \<noteq> None \<and> (SubjectAltName, ''IP:127.0.0.1,DNS:nas.lan'') \<in> set (tbs_extensions t) \<and>
     tbs_not_after t - tbs_not_before t \<le> 825 * 24 * 3600"
proof -
  let ?d = "put (put (empty_disk [[]]) [''ca.crt''] ''c'') [''ca.key''] ''k''"
  have "\<exists>d'. issue_server_cert example_x509 ?d [''ca.crt''] [''ca.key''] [''server.crt''] [''server.key''] [''127.0.0.1'', ''nas.lan''] =
      (Inr (), d')"
    by (simp add: issue_server_cert_def generate_key_def make_leaf_def set_random_serial_def add_extension_def read_pem_def
        write_pem_def example_x509_def create_ok append_ok fs_simps)
  then obtain d' where d: "issue_server_cert example_x509 ?d [''ca.crt''] [''ca.key''] [''server.crt''] [''server.key'']
      [''127.0.0.1'', ''nas.lan''] = (Inr (), d')" ..
  have san: "san_entry example_x509 ''127.0.0.1'' @ concat (map (\<lambda>h. '','' @ san_entry example_x509 h) [''nas.lan'']) =
      ''IP:127.0.0.1,DNS:nas.lan''"
    by (simp add: san_entry_def looks_like_ip_def example_x509_def)
  have "[''server.crt''] \<noteq> [''server.key'']" by simp
  from issued_certificate_contents [OF d this] obtain k t cert where
    t: "read_pem (pem_key example_x509) ?d [''ca.key''] = Some k" "x509_sign example_x509 t k = Some cert"
      "tbs_not_after t - tbs_not_before t \<le> 825 * 24 * 3600" "(SubjectAltName, ''IP:127.0.0.1,DNS:nas.lan'') \<in> set (tbs_extensions t)"
    unfolding list.sel san by (elim exE conjE) (drule spec, drule iffD2, rule refl, rule that, assumption+)
  have "k = 1" using t(1) by (simp add: read_pem_def example_x509_def fs_simps)
  then have "x509_sign example_x509 t 1 \<noteq> None" using t(2) by simp
  with d t(3,4) show ?thesis by blast
qed

end
