(* ===== verification/Wire.thy ===== *)
theory Wire
  imports Protocol Tlsca
begin

text \<open>
  \<open>src/core/wire.cpp\<close>: the framing over a TLS connection, and dialling. \<open>SSL_read\<close> and
  \<open>SSL_write\<close> may handle fewer bytes than asked or fail: the two scripts of a channel say how many
  bytes each next call handles, 0 being an error, and an exhausted script that all are handled.
  \<open>inp\<close> is what the peer has yet to deliver to us, \<open>outp\<close> what was delivered to the peer.
\<close>

definition kMaxLineLen :: nat where "kMaxLineLen = 4096"
definition kInt32Max :: nat where "kInt32Max = 2 ^ 31 - 1"

record channel =
  inp :: string
  outp :: string
  read_script :: "nat list"
  write_script :: "nat list"

section \<open>Sending and receiving\<close>

definition ssl_write :: "channel \<Rightarrow> string \<Rightarrow> nat \<times> channel" where
  "ssl_write c chunk =
     (let n = (case write_script c of [] \<Rightarrow> length chunk | k # _ \<Rightarrow> min k (length chunk))
      in (n, c\<lparr>outp := outp c @ take n chunk, write_script := tl (write_script c)\<rparr>))"

definition ssl_read :: "channel \<Rightarrow> nat \<Rightarrow> string \<times> channel" where
  "ssl_read c want =
     (let n = (case read_script c of [] \<Rightarrow> want | k # _ \<Rightarrow> min k want)
      in (take n (inp c), c\<lparr>inp := drop n (inp c), read_script := tl (read_script c)\<rparr>))"

lemma ssl_read_result:
  "ssl_read c n = (s, c') \<Longrightarrow>
     length s \<le> n \<and> inp c = s @ inp c' \<and> outp c' = outp c \<and> write_script c' = write_script c"
  by (auto simp: ssl_read_def Let_def split: list.splits)

lemma ssl_read_shorter: "(s, c') = ssl_read c n \<Longrightarrow> s \<noteq> [] \<Longrightarrow> length (inp c') < length (inp c)"
  using ssl_read_result [of c n s c'] by simp

function ch_send :: "channel \<Rightarrow> string \<Rightarrow> bool \<times> channel" where
  "ch_send c p =
     (if p = [] then (True, c)
      else let chunk = take kInt32Max p; (n, c) = ssl_write c chunk
           in if n = 0 then (False, c) else ch_send c (drop n p))"
  by pat_completeness auto
termination by (relation "measure (\<lambda>(c, p). length p)") auto

declare ch_send.simps [simp del]

function recv_loop :: "channel \<Rightarrow> nat \<Rightarrow> string \<Rightarrow> string option \<times> channel" where
  "recv_loop c len got =
     (if length got < len then
        let want = min (len - length got) kInt32Max; (s, c) = ssl_read c want
        in if s = [] then (None, c) else recv_loop c len (got @ s)
      else (Some got, c))"
  by pat_completeness auto
termination
  by (relation "measure (\<lambda>(c, len, got). len - length got)")
    (auto simp: neq_Nil_conv)

declare recv_loop.simps [simp del]

definition ch_recv :: "channel \<Rightarrow> nat \<Rightarrow> string option \<times> channel" where
  "ch_recv c len = recv_loop c len []"

text \<open>One byte at a time; a carriage return is dropped wherever it stands.\<close>

function read_line_loop :: "channel \<Rightarrow> string \<Rightarrow> string option \<times> channel" where
  "read_line_loop c out =
     (let (s, c') = ssl_read c 1
      in if s = [] then (None, c')
      else if hd s = newline then (Some out, c')
      else if hd s = CHR 0x0D then read_line_loop c' out
      else if kMaxLineLen \<le> length out then (None, c')
      else read_line_loop c' (out @ [hd s]))"
  by pat_completeness auto
termination
  by (relation "measure (\<lambda>(c, out). length (inp c))") (auto dest: ssl_read_shorter)

declare read_line_loop.simps [simp del]

definition ch_read_line :: "channel \<Rightarrow> string option \<times> channel" where
  "ch_read_line c = read_line_loop c []"

definition ch_send_line :: "channel \<Rightarrow> string \<Rightarrow> bool \<times> channel" where
  "ch_send_line c line = (let framed = line @ [newline] in ch_send c framed)"

section \<open>Addresses\<close>

definition split_address :: "string \<Rightarrow> (string \<times> string) option" where
  "split_address address =
     (if address = [] then None
      else
        let parts =
          (if hd address = CHR ''['' then
             (if CHR '']'' \<notin> set address then None
              else
                let close = length (takeWhile (\<lambda>c. c \<noteq> CHR '']'') address)
                in if close + 2 > length address then None
                   else if address ! (close + 1) \<noteq> CHR '':'' then None
                   else Some (take (close - 1) (drop 1 address), drop (close + 2) address))
           else
             (if CHR '':'' \<notin> set address then None
              else
                let port = rev (takeWhile (\<lambda>c. c \<noteq> CHR '':'') (rev address));
                    colon = length address - length port - 1
                in Some (take colon address, drop (colon + 1) address)))
        in case parts of
             None \<Rightarrow> None
           | Some (host, port) \<Rightarrow> if host \<noteq> [] \<and> port \<noteq> [] then Some (host, port) else None)"

section \<open>Dialling\<close>

text \<open>
  The outcome of every operating system and TLS call is a parameter; the model follows which
  resources are held when the function returns.
\<close>

record sock_outcome =
  nonblocking :: bool
  connect_now :: bool
  in_progress :: bool
  select_ready :: bool
  no_error :: bool
  blocking_again :: bool

definition connect_with_timeout :: "sock_outcome \<Rightarrow> bool" where
  "connect_with_timeout s =
     (if \<not> nonblocking s then False
      else if connect_now s then blocking_again s
      else if \<not> in_progress s then False
      else if \<not> select_ready s then False
      else if \<not> no_error s then False
      else blocking_again s)"

datatype verification = AcceptAny | VerifyPeer string string

record 'a network =
  resolve_address :: "string \<Rightarrow> string \<Rightarrow> 'a list option"
  socket_opens :: "'a \<Rightarrow> bool"
  socket_outcome :: "'a \<Rightarrow> sock_outcome"
  ctx_new :: bool
  load_verify_locations :: "string \<Rightarrow> bool"
  ssl_new :: bool
  name_check :: "bool \<Rightarrow> string \<Rightarrow> bool"
  tls_connect :: "'a \<Rightarrow> verification \<Rightarrow> bool"
  verify_result_ok :: bool

record tls_trust =
  ca_file :: string
  trust_verify :: bool

datatype dial_error = MalformedAddress | CannotResolve | CannotConnect | NoTlsContext | NoCaGiven
  | CannotReadCaFile | NoTlsSession | CannotCheckName | CertificateRejected | HandshakeFailed

record 'a held =
  held_fd :: "'a option"
  held_ctx :: bool
  held_ssl :: bool

definition nothing_held :: "'a held" where
  "nothing_held = \<lparr>held_fd = None, held_ctx = False, held_ssl = False\<rparr>"

fun try_addresses :: "'a network \<Rightarrow> 'a list \<Rightarrow> 'a option" where
  "try_addresses N [] = None"
| "try_addresses N (a # as) =
     (if \<not> socket_opens N a then try_addresses N as
      else if connect_with_timeout (socket_outcome N a) then Some a
      else try_addresses N as)"

definition dial ::
  "('c, 'k) x509 \<Rightarrow> 'a network \<Rightarrow> string \<Rightarrow> tls_trust \<Rightarrow> (dial_error + verification) \<times> 'a held" where
  "dial X N address trust =
     (let h = nothing_held in
      case split_address address of
        None \<Rightarrow> (Inl MalformedAddress, h)
      | Some (host, port) \<Rightarrow>
      case resolve_address N host port of
        None \<Rightarrow> (Inl CannotResolve, h)
      | Some results \<Rightarrow>
      if results = [] then (Inl CannotResolve, h)
      else case try_addresses N results of
        None \<Rightarrow> (Inl CannotConnect, h)
      | Some fd \<Rightarrow>
      let h = h\<lparr>held_fd := Some fd\<rparr> in
      if \<not> ctx_new N then (Inl NoTlsContext, h\<lparr>held_fd := None\<rparr>)
      else
      let h = h\<lparr>held_ctx := True\<rparr> in
      if trust_verify trust \<and> ca_file trust = []
      then (Inl NoCaGiven, h\<lparr>held_ctx := False, held_fd := None\<rparr>)
      else if trust_verify trust \<and> \<not> load_verify_locations N (ca_file trust)
      then (Inl CannotReadCaFile, h\<lparr>held_ctx := False, held_fd := None\<rparr>)
      else if \<not> ssl_new N
      then (Inl NoTlsSession, h\<lparr>held_ctx := False, held_fd := None\<rparr>)
      else
      let h = h\<lparr>held_ssl := True\<rparr> in
      if trust_verify trust \<and> \<not> name_check N (looks_like_ip X host) host
      then (Inl CannotCheckName, h\<lparr>held_ssl := False, held_ctx := False, held_fd := None\<rparr>)
      else
      let v = (if trust_verify trust then VerifyPeer (ca_file trust) host else AcceptAny) in
      if \<not> tls_connect N fd v
      then (Inl (if \<not> verify_result_ok N then CertificateRejected else HandshakeFailed),
            h\<lparr>held_ssl := False, held_ctx := False, held_fd := None\<rparr>)
      else (Inr v, h))"

section \<open>Short writes and reads do not show\<close>

lemma take_kInt32Max_nonempty: "p \<noteq> [] \<Longrightarrow> take kInt32Max p \<noteq> []"
  by (simp add: kInt32Max_def)

lemma ssl_write_result:
  "ssl_write c chunk = (n, c') \<Longrightarrow>
     n \<le> length chunk \<and> outp c' = outp c @ take n chunk \<and> inp c' = inp c \<and> read_script c' = read_script c"
  by (auto simp: ssl_write_def Let_def split: list.splits)

lemma ch_send_spec:
  "ch_send c p = (ok, c') \<Longrightarrow> \<exists>k. outp c' = outp c @ take k p \<and> (ok \<longrightarrow> take k p = p) \<and>
     inp c' = inp c \<and> read_script c' = read_script c"
proof (induction c p arbitrary: ok rule: ch_send.induct)
  case (1 c p)
  show ?case
  proof (cases "p = []")
    case True
    with "1.prems" show ?thesis by (simp add: ch_send.simps)
  next
    case False
    obtain n c1 where w: "ssl_write c (take kInt32Max p) = (n, c1)" by fastforce
    note r = ssl_write_result [OF w]
    have tk: "take n (take kInt32Max p) = take n p" using r by (auto simp: min_def split: if_splits)
    show ?thesis
    proof (cases "n = 0")
      case True
      with "1.prems" False w have "ok = False" "c' = c1" by (simp_all add: ch_send.simps)
      with r True show ?thesis by (intro exI [of _ 0]) simp
    next
      case n: False
      with "1.prems" False w have "ch_send c1 (drop n p) = (ok, c')" by (simp add: ch_send.simps)
      from "1.IH" [OF False refl w [symmetric] refl n this] obtain k where
        k: "outp c' = outp c1 @ take k (drop n p)" "ok \<longrightarrow> take k (drop n p) = drop n p"
        "inp c' = inp c1" "read_script c' = read_script c1"
        by blast
      have "take (n + k) p = take n p @ take k (drop n p)" by (rule take_add)
      with k r tk show ?thesis by (intro exI [of _ "n + k"]) (auto simp: append_take_drop_id)
    qed
  qed
qed

lemma recv_loop_spec:
  "recv_loop c len got = (r, c') \<Longrightarrow> length got \<le> len \<Longrightarrow>
     outp c' = outp c \<and> write_script c' = write_script c \<and>
     (case r of None \<Rightarrow> True | Some s \<Rightarrow> length s = len \<and> got @ inp c = s @ inp c')"
proof (induction c len got arbitrary: r rule: recv_loop.induct)
  case (1 c len got)
  show ?case
  proof (cases "length got < len")
    case False
    with "1.prems" show ?thesis by (auto simp: recv_loop.simps)
  next
    case True
    let ?want = "min (len - length got) kInt32Max"
    obtain s c1 where w: "ssl_read c ?want = (s, c1)" by fastforce
    note r = ssl_read_result [OF w]
    show ?thesis
    proof (cases "s = []")
      case True
      with "1.prems" \<open>length got < len\<close> w r show ?thesis by (auto simp: recv_loop.simps)
    next
      case False
      with "1.prems" True w have "recv_loop c1 len (got @ s) = (r, c')"
        by (simp add: recv_loop.simps [of c])
      from "1.IH" [OF True refl w [symmetric] refl False this] r True show ?thesis
        by (auto split: option.splits)
    qed
  qed
qed

lemma ch_recv_spec:
  "ch_recv c len = (r, c') \<Longrightarrow> outp c' = outp c \<and> write_script c' = write_script c \<and>
     (case r of None \<Rightarrow> True | Some s \<Rightarrow> length s = len \<and> inp c = s @ inp c')"
  using recv_loop_spec [of c len "[]"] by (auto simp: ch_recv_def split: option.splits)

lemma transport_exact:
  "(ch_send c p = (True, c1) \<longrightarrow> outp c1 = outp c @ p \<and> inp c1 = inp c) \<and>
   (ch_recv c n = (Some s, c2) \<longrightarrow> length s = n \<and> inp c = s @ inp c2 \<and> outp c2 = outp c)"
  using ch_send_spec [of c p True c1] ch_recv_spec [of c n "Some s" c2] by auto

text \<open>A channel without errors, and what its operations then do.\<close>

definition calm :: "channel \<Rightarrow> bool" where
  "calm c \<longleftrightarrow> 0 \<notin> set (read_script c) \<and> 0 \<notin> set (write_script c)"

lemma set_tl: "x \<in> set (tl xs) \<Longrightarrow> x \<in> set xs"
  by (cases xs) auto

lemma ssl_read_calm:
  assumes "calm c" and "inp c \<noteq> []" and "0 < n" and "ssl_read c n = (s, c')"
  shows "s \<noteq> [] \<and> calm c'"
  using assms by (cases "read_script c") (auto simp: ssl_read_def calm_def min_def split: if_splits)

lemma ssl_read_one:
  assumes "calm c" and "inp c = x # r"
  shows "\<exists>c'. ssl_read c 1 = ([x], c') \<and> inp c' = r \<and> outp c' = outp c \<and> calm c'"
proof -
  obtain s c' where s: "ssl_read c 1 = (s, c')" by fastforce
  have "s \<noteq> [] \<and> calm c'" by (rule ssl_read_calm [OF assms(1) _ _ s]) (simp_all add: assms(2))
  with ssl_read_result [OF s] s assms(2) show ?thesis by (cases s) auto
qed

lemma read_line_loop_calm:
  assumes "calm c" and "inp c = l @ newline # r" and "newline \<notin> set l" and "CHR 0x0D \<notin> set l"
    and "length out + length l \<le> kMaxLineLen"
  shows "\<exists>c'. read_line_loop c out = (Some (out @ l), c') \<and> inp c' = r \<and> outp c' = outp c \<and> calm c'"
  using assms
proof (induction l arbitrary: c out)
  case Nil
  with ssl_read_one [of c newline r] show ?case by (auto simp: read_line_loop.simps [of c])
next
  case (Cons x l)
  then obtain c1 where c1: "ssl_read c 1 = ([x], c1)" "inp c1 = l @ newline # r" "outp c1 = outp c" "calm c1"
    using ssl_read_one [of c x "l @ newline # r"] by auto
  then obtain c' where "read_line_loop c1 (out @ [x]) = (Some (out @ x # l), c')" "inp c' = r"
    "outp c' = outp c" "calm c'"
    using Cons.IH [of c1 "out @ [x]"] Cons.prems by auto
  with c1 Cons.prems show ?case by (subst read_line_loop.simps) auto
qed

lemma ch_send_calm:
  "calm c \<Longrightarrow> \<exists>c'. ch_send c p = (True, c') \<and> calm c'"
proof (induction c p rule: ch_send.induct)
  case (1 c p)
  show ?case
  proof (cases "p = []")
    case True
    with "1.prems" show ?thesis by (simp add: ch_send.simps)
  next
    case False
    obtain n c1 where w: "ssl_write c (take kInt32Max p) = (n, c1)" by fastforce
    have n: "n \<noteq> 0" "calm c1"
      using w "1.prems" False
      by (auto simp: ssl_write_def calm_def Let_def kInt32Max_def min_def dest: set_tl split: list.splits if_splits)
    from "1.IH" [OF False refl w [symmetric] refl n] show ?thesis
      using w n False by (subst ch_send.simps) simp
  qed
qed

lemma line_round_trip:
  assumes "ch_send_line a line = (True, a')" and "calm b" and "inp b = drop (length (outp a)) (outp a') @ r"
    and "newline \<notin> set line" and "CHR 0x0D \<notin> set line" and "length line \<le> kMaxLineLen"
  shows "\<exists>b'. ch_read_line b = (Some line, b') \<and> inp b' = r \<and> outp b' = outp b"
proof -
  have "outp a' = outp a @ line @ [newline]"
    using ch_send_spec [of a "line @ [newline]" True a'] assms(1) by (auto simp: ch_send_line_def Let_def)
  then have "inp b = line @ newline # r" using assms(3) by simp
  with read_line_loop_calm [OF assms(2) this assms(4,5), of "[]"] assms(6) show ?thesis
    by (auto simp: ch_read_line_def)
qed

text \<open>Whatever arrives, a line is never longer than the limit and holds no line break.\<close>

lemma read_line_loop_bound:
  "read_line_loop c out = (Some l, c') \<Longrightarrow> length out \<le> kMaxLineLen \<Longrightarrow>
     newline \<notin> set out \<Longrightarrow> CHR 0x0D \<notin> set out \<Longrightarrow>
     length l \<le> kMaxLineLen \<and> newline \<notin> set l \<and> CHR 0x0D \<notin> set l"
proof (induction c out rule: read_line_loop.induct)
  case (1 c out)
  obtain s c1 where s: "ssl_read c 1 = (s, c1)" by fastforce
  note IH = "1.IH" [OF refl s [symmetric]]
  have "read_line_loop c out =
      (if s = [] then (None, c1)
       else if hd s = newline then (Some out, c1)
       else if hd s = CHR 0x0D then read_line_loop c1 out
       else if kMaxLineLen \<le> length out then (None, c1)
       else read_line_loop c1 (out @ [hd s]))"
    by (subst read_line_loop.simps) (simp only: s Let_def prod.case)
  with "1.prems" IH show ?case by (auto split: if_splits)
qed

lemma read_line_bounded:
  "ch_read_line c = (Some l, c') \<Longrightarrow> length l \<le> kMaxLineLen \<and> newline \<notin> set l \<and> CHR 0x0D \<notin> set l"
  using read_line_loop_bound [of c "[]"] by (simp add: ch_read_line_def)

section \<open>Addresses and dialling\<close>

lemma takeWhile_rev_port:
  "CHR '':'' \<notin> set port \<Longrightarrow> takeWhile (\<lambda>c. c \<noteq> CHR '':'') (rev port @ CHR '':'' # r) = rev port"
  by (rule takeWhile_append_stop) (auto simp: list_all_iff)

lemma split_address_forms:
  assumes "host \<noteq> []" and "port \<noteq> []" and "CHR '':'' \<notin> set port"
  shows "(hd host \<noteq> CHR ''['' \<longrightarrow> split_address (host @ '':'' @ port) = Some (host, port)) \<and>
         (CHR '']'' \<notin> set host \<longrightarrow> split_address (''['' @ host @ '']:'' @ port) = Some (host, port))"
proof (intro conjI impI)
  assume h: "hd host \<noteq> CHR ''[''"
  have "hd (host @ '':'' @ port) \<noteq> CHR ''[''" using assms(1) h by (cases host) auto
  moreover have "rev (takeWhile (\<lambda>c. c \<noteq> CHR '':'') (rev (host @ '':'' @ port))) = port"
    using takeWhile_rev_port [OF assms(3), of "rev host"] by simp
  ultimately show "split_address (host @ '':'' @ port) = Some (host, port)"
    using assms by (simp add: split_address_def Let_def)
next
  assume h: "CHR '']'' \<notin> set host"
  have "list_all (\<lambda>c. c \<noteq> CHR '']'') host" using h by (auto simp: list_all_iff)
  then have "takeWhile (\<lambda>c. c \<noteq> CHR '']'') (host @ CHR '']'' # '':'' @ port) = host"
    by (rule takeWhile_append_stop) simp
  then show "split_address (''['' @ host @ '']:'' @ port) = Some (host, port)"
    using assms by (simp add: split_address_def Let_def nth_append)
qed

lemma dial_safe:
  "case dial X N address trust of
     (Inl e, h) \<Rightarrow> h = nothing_held
   | (Inr v, h) \<Rightarrow> held_ctx h \<and> held_ssl h \<and>
       (\<exists>fd host port. held_fd h = Some fd \<and> split_address address = Some (host, port) \<and>
          tls_connect N fd v \<and>
          (trust_verify trust \<longrightarrow> v = VerifyPeer (ca_file trust) host \<and> ca_file trust \<noteq> [] \<and>
             load_verify_locations N (ca_file trust) \<and> name_check N (looks_like_ip X host) host))"
  by (auto simp: dial_def Let_def nothing_held_def split: option.split prod.split)

section \<open>Examples\<close>

definition example_channel :: "string \<Rightarrow> nat list \<Rightarrow> channel" where
  "example_channel i r = \<lparr>inp = i, outp = [], read_script = r, write_script = [1, 2]\<rparr>"

lemma transport_exact_witness:
  "ch_recv (example_channel ''abcdef'' [1, 2]) 5 = (Some ''abcde'', example_channel ''f'' []) \<and>
   inp (example_channel ''abcdef'' [1, 2]) = ''abcde'' @ inp (example_channel ''f'' [])"
proof
  show r: "ch_recv (example_channel ''abcdef'' [1, 2]) 5 = (Some ''abcde'', example_channel ''f'' [])"
    by (simp add: ch_recv_def recv_loop.simps ssl_read_def example_channel_def kInt32Max_def)
  show "inp (example_channel ''abcdef'' [1, 2]) = ''abcde'' @ inp (example_channel ''f'' [])"
    using transport_exact [of "example_channel ''abcdef'' [1, 2]" "[]" _ 5 "''abcde''"] r by blast
qed

lemma line_round_trip_witness:
  "\<exists>b'. ch_read_line (example_channel (''PING'' @ newline # ''rest'') [1]) = (Some ''PING'', b') \<and> inp b' = ''rest''"
proof -
  have calm: "calm (example_channel i [1])" "calm (example_channel i [])" for i
    by (simp_all add: calm_def example_channel_def)
  obtain a' where a': "ch_send_line (example_channel [] []) ''PING'' = (True, a')"
    using ch_send_calm [OF calm(2)] unfolding ch_send_line_def Let_def by blast
  then have "outp a' = ''PING'' @ [newline]"
    using ch_send_spec [of "example_channel [] []" "''PING'' @ [newline]" True a']
    by (auto simp: ch_send_line_def Let_def example_channel_def)
  then show ?thesis
    using line_round_trip [OF a' calm(1), of "''PING'' @ newline # ''rest''" "''rest''"]
    by (auto simp: example_channel_def kMaxLineLen_def)
qed

lemma read_line_bounded_witness:
  "length ''ok'' \<le> kMaxLineLen \<and> newline \<notin> set ''ok''"
proof -
  have "fst (ch_read_line (example_channel (''ok'' @ [newline]) [])) = Some ''ok''"
    by (simp add: ch_read_line_def read_line_loop.simps ssl_read_def example_channel_def kMaxLineLen_def)
  then obtain c where "ch_read_line (example_channel (''ok'' @ [newline]) []) = (Some ''ok'', c)"
    by (metis prod.collapse)
  from read_line_bounded [OF this] show ?thesis by blast
qed

lemma split_address_forms_witness:
  "split_address ''[::1]:9000'' = Some (''::1'', ''9000'')"
  using split_address_forms [of "''::1''" "''9000''"] by simp

definition example_network :: "nat network" where
  "example_network = \<lparr>resolve_address = (\<lambda>h p. Some [1, 2]), socket_opens = (\<lambda>a. a = 2),
     socket_outcome = (\<lambda>a. \<lparr>nonblocking = True, connect_now = False, in_progress = True, select_ready = True,
        no_error = True, blocking_again = True\<rparr>),
     ctx_new = True, load_verify_locations = (\<lambda>f. True), ssl_new = True, name_check = (\<lambda>ip h. True),
     tls_connect = (\<lambda>a v. True), verify_result_ok = True\<rparr>"

lemma dial_safe_witness:
  "\<exists>h. dial example_x509 example_network ''h:1'' \<lparr>ca_file = ''ca.pem'', trust_verify = True\<rparr> =
     (Inr (VerifyPeer ''ca.pem'' ''h''), h) \<and> held_fd h = Some 2"
proof -
  have d: "dial example_x509 example_network ''h:1'' \<lparr>ca_file = ''ca.pem'', trust_verify = True\<rparr> =
     (Inr (VerifyPeer ''ca.pem'' ''h''), \<lparr>held_fd = Some 2, held_ctx = True, held_ssl = True\<rparr>)"
    by (simp add: dial_def split_address_def example_network_def connect_with_timeout_def nothing_held_def)
  from dial_safe [where X = example_x509 and N = example_network and address = "''h:1''"
      and trust = "\<lparr>ca_file = ''ca.pem'', trust_verify = True\<rparr>"]
  show ?thesis unfolding d by auto
qed

end
