(* ===== verification/Http.thy ===== *)
theory Http
  imports Wire
begin

text \<open>
  \<open>src/server/http.cpp\<close>: as much of HTTP as the bundled page needs. A position in a string that the
  code advances is here the part of the string from that position on.
\<close>

abbreviation quote :: char where "quote \<equiv> CHR 0x22"
abbreviation backslash :: char where "backslash \<equiv> CHR 0x5C"
abbreviation carriage_return :: char where "carriage_return \<equiv> CHR 0x0D"

definition crlf :: string where "crlf = [carriage_return, newline]"

datatype http_error = MalformedRequestLine | ClosedInHeaders | TooManyHeaders | BadContentLength

record http_request =
  rq_method :: string
  rq_path :: string
  rq_query :: string
  rq_headers :: "(string \<times> string) list"
  rq_content_length :: u64

section \<open>Text\<close>

definition status_text :: "nat \<Rightarrow> string" where
  "status_text status =
     (if status = 200 then ''OK''
      else if status = 201 then ''Created''
      else if status = 204 then ''No Content''
      else if status = 400 then ''Bad Request''
      else if status = 401 then ''Unauthorized''
      else if status = 403 then ''Forbidden''
      else if status = 404 then ''Not Found''
      else if status = 405 then ''Method Not Allowed''
      else if status = 413 then ''Payload Too Large''
      else if status = 500 then ''Internal Server Error''
      else ''Error'')"

definition tolower :: "char \<Rightarrow> char" where
  "tolower c = (if CHR ''A'' \<le> c \<and> c \<le> CHR ''Z'' then char_of (of_char c + 32 :: nat) else c)"

definition http_lowercase :: "string \<Rightarrow> string" where
  "http_lowercase s = map tolower s"

definition hex_digit :: "char \<Rightarrow> nat option" where
  "hex_digit c =
     (if CHR ''0'' \<le> c \<and> c \<le> CHR ''9'' then Some (of_char c - 48)
      else if CHR ''a'' \<le> c \<and> c \<le> CHR ''f'' then Some (10 + (of_char c - 97))
      else if CHR ''A'' \<le> c \<and> c \<le> CHR ''F'' then Some (10 + (of_char c - 65))
      else None)"

fun url_decode :: "string \<Rightarrow> string" where
  "url_decode [] = []"
| "url_decode (c # s) =
     (let plain = (if c = CHR ''+'' then CHR '' '' else c) # url_decode s
      in case s of
           a # b # r \<Rightarrow>
             (if c = CHR ''%'' then
                (case (hex_digit a, hex_digit b) of
                   (Some hi, Some lo) \<Rightarrow> char_of (16 * hi + lo) # url_decode r
                 | _ \<Rightarrow> plain)
              else plain)
         | _ \<Rightarrow> plain)"

section \<open>Requests\<close>

definition request_header :: "http_request \<Rightarrow> string \<Rightarrow> string" where
  "request_header rq name =
     (case map_of (rq_headers rq) (http_lowercase name) of None \<Rightarrow> [] | Some v \<Rightarrow> v)"

definition kMethods :: "string list" where
  "kMethods = [''GET '', ''POST '', ''PUT '', ''DELETE '', ''HEAD '', ''OPTIONS '']"

definition looks_like_http :: "string \<Rightarrow> bool" where
  "looks_like_http line = list_ex (\<lambda>m. prefix m line) kMethods"

function read_headers ::
  "channel \<Rightarrow> nat \<Rightarrow> (string \<times> string) list \<Rightarrow> (http_error + (string \<times> string) list) \<times> channel" where
  "read_headers c count hs =
     (case ch_read_line c of
        (None, c) \<Rightarrow> (Inl ClosedInHeaders, c)
      | (Some line, c) \<Rightarrow>
          if line = [] then (Inr hs, c)
          else if count + 1 > 64 then (Inl TooManyHeaders, c)
          else if CHR '':'' \<notin> set line then read_headers c (count + 1) hs
          else
            let name = http_lowercase (takeWhile (\<lambda>x. x \<noteq> CHR '':'') line);
                val = dropWhile (\<lambda>x. x = CHR '' '' \<or> x = CHR 0x09)
                        (tl (dropWhile (\<lambda>x. x \<noteq> CHR '':'') line))
            in read_headers c (count + 1) (AList.update name val hs))"
  by pat_completeness auto
termination by (relation "measure (\<lambda>(c, count, hs). 65 - count)") auto

declare read_headers.simps [simp del]

definition read_request :: "channel \<Rightarrow> string \<Rightarrow> (http_error + http_request) \<times> channel" where
  "read_request c first_line =
     (let parts = split first_line
      in if length parts \<noteq> 3 then (Inl MalformedRequestLine, c)
      else
      let target = parts ! 1;
          query = tl (dropWhile (\<lambda>x. x \<noteq> CHR ''?'') target);
          target = takeWhile (\<lambda>x. x \<noteq> CHR ''?'') target
      in case read_headers c 0 [] of
        (Inl e, c) \<Rightarrow> (Inl e, c)
      | (Inr hs, c) \<Rightarrow>
      let rq = \<lparr>rq_method = parts ! 0, rq_path = url_decode target, rq_query = query,
                rq_headers = hs, rq_content_length = 0\<rparr>;
          len = request_header rq ''content-length''
      in if len \<noteq> [] then
           (case parse_size len kMaxTransferSize of
              None \<Rightarrow> (Inl BadContentLength, c)
            | Some n \<Rightarrow> (Inr (rq\<lparr>rq_content_length := n\<rparr>), c))
         else (Inr rq, c))"

function drain_body :: "channel \<Rightarrow> nat \<Rightarrow> bool \<times> channel" where
  "drain_body c len =
     (if 0 < len then
        let want = min kIoBufferSize len
        in case ch_recv c want of
             (None, c) \<Rightarrow> (False, c)
           | (Some _, c) \<Rightarrow> drain_body c (len - want)
      else (True, c))"
  by pat_completeness auto
termination by (relation "measure (\<lambda>(c, len). len)") (auto simp: kIoBufferSize_def)

declare drain_body.simps [simp del]

section \<open>Responses\<close>

definition header_block :: "nat \<Rightarrow> string \<Rightarrow> nat \<Rightarrow> string list \<Rightarrow> string" where
  "header_block status content_type content_length extra =
     ''HTTP/1.1 '' @ to_dec status @ '' '' @ status_text status @ crlf
     @ ''Content-Type: '' @ content_type @ crlf
     @ ''Content-Length: '' @ to_dec content_length @ crlf
     @ ''Cache-Control: no-store'' @ crlf
     @ ''X-Content-Type-Options: nosniff'' @ crlf
     @ ''Referrer-Policy: no-referrer'' @ crlf
     @ concat (map (\<lambda>e. e @ crlf) extra)
     @ crlf"

definition send_header :: "channel \<Rightarrow> nat \<Rightarrow> string \<Rightarrow> nat \<Rightarrow> string list \<Rightarrow> bool \<times> channel" where
  "send_header c status content_type content_length extra =
     ch_send c (header_block status content_type content_length extra)"

definition send_response :: "channel \<Rightarrow> nat \<Rightarrow> string \<Rightarrow> string \<Rightarrow> string list \<Rightarrow> bool \<times> channel" where
  "send_response c status content_type body extra =
     (case send_header c status content_type (length body) extra of (ok, c) \<Rightarrow>
        if \<not> ok then (False, c)
        else if body = [] then (True, c)
        else ch_send c body)"

section \<open>JSON\<close>

definition json_escape_char :: "char \<Rightarrow> string" where
  "json_escape_char c =
     (if c = quote \<or> c = backslash then [backslash, c]
      else if c = newline then [backslash, CHR ''n'']
      else if c = carriage_return then [backslash, CHR ''r'']
      else if c = CHR 0x09 then [backslash, CHR ''t'']
      else if (of_char c :: nat) < 0x20 then [backslash, CHR ''u''] @ ''00'' @ to_hex [byte_of c]
      else [c])"

definition json_escape :: "string \<Rightarrow> string" where
  "json_escape s = concat (map json_escape_char s)"

text \<open>\<open>find\<close> of a string: what follows its first occurrence.\<close>

fun after_sub :: "string \<Rightarrow> string \<Rightarrow> string option" where
  "after_sub key [] = (if key = [] then Some [] else None)"
| "after_sub key (c # s) =
     (if prefix key (c # s) then Some (drop (length key) (c # s)) else after_sub key s)"

function json_value :: "string \<Rightarrow> string \<Rightarrow> string option" where
  "json_value s val =
     (case s of
        [] \<Rightarrow> None
      | c # r \<Rightarrow>
          if c = quote then Some val
          else
            let (x, r) =
                  (if c = backslash \<and> r \<noteq> [] then
                     (if hd r = CHR ''n'' then newline
                      else if hd r = CHR ''r'' then carriage_return
                      else if hd r = CHR ''t'' then CHR 0x09
                      else hd r, tl r)
                   else (c, r));
                val = val @ [x]
            in if length val > kMaxLineLen then None else json_value r val)"
  by pat_completeness auto
termination by (relation "measure (\<lambda>(s, val). length s)") (auto split: if_splits)

declare json_value.simps [simp del]

definition json_field :: "string \<Rightarrow> string \<Rightarrow> string option" where
  "json_field body name =
     (let key = [quote] @ name @ [quote]
      in case after_sub key body of
        None \<Rightarrow> None
      | Some at \<Rightarrow>
      case after_sub '':'' at of
        None \<Rightarrow> None
      | Some at \<Rightarrow>
      case after_sub [quote] at of
        None \<Rightarrow> None
      | Some at \<Rightarrow> json_value at [])"

section \<open>Percent encoding\<close>

text \<open>What a browser does to a file name before it puts it into a URL.\<close>

definition kUpperHex :: string where "kUpperHex = ''0123456789ABCDEF''"

definition unreserved :: "char \<Rightarrow> bool" where
  "unreserved ch \<longleftrightarrow> is_digit ch
     \<or> (CHR ''A'' \<le> ch \<and> ch \<le> CHR ''Z'') \<or> (CHR ''a'' \<le> ch \<and> ch \<le> CHR ''z'')
     \<or> ch \<in> set ''-_.~''"

definition url_encode :: "string \<Rightarrow> string" where
  "url_encode s = concat (map (\<lambda>c. if unreserved c then [c]
     else [CHR ''%'', kUpperHex ! (of_char c div 16), kUpperHex ! (of_char c mod 16)]) s)"

lemma hex_digit_upper: "n < 16 \<Longrightarrow> hex_digit (kUpperHex ! n) = Some n"
proof -
  have "\<forall>n\<in>set [0..<16]. hex_digit (kUpperHex ! n) = Some n"
    by (simp add: upt_rec kUpperHex_def hex_digit_def less_eq_char_def)
  then show "n < 16 \<Longrightarrow> hex_digit (kUpperHex ! n) = Some n" by simp
qed

lemma url_decode_literal:
  assumes "c \<noteq> CHR ''%''" and "c \<noteq> CHR ''+''"
  shows "url_decode (c # s) = c # url_decode s"
  using assms unfolding url_decode.simps(2) Let_def by (simp split: list.split del: url_decode.simps)

lemma unreserved_plain: "unreserved c \<Longrightarrow> c \<noteq> CHR ''%'' \<and> c \<noteq> CHR ''+''"
  by (auto simp: unreserved_def is_digit_def less_eq_char_def)

lemma url_decode_encode: "url_decode (url_encode s) = s"
proof (induction s)
  case (Cons c s)
  show ?case
  proof (cases "unreserved c")
    case True
    with Cons unreserved_plain [OF True] show ?thesis
      by (simp add: url_encode_def url_decode_literal del: url_decode.simps)
  next
    case False
    have c: "(of_char c :: nat) < 256" by (rule of_char_less_256)
    then have "(of_char c :: nat) div 16 < 16" "(of_char c :: nat) mod 16 < 16"
      by (simp_all add: less_mult_imp_div_less)
    then have "hex_digit (kUpperHex ! (of_char c div 16)) = Some (of_char c div 16)"
      "hex_digit (kUpperHex ! (of_char c mod 16)) = Some (of_char c mod 16)"
      by (simp_all only: hex_digit_upper)
    moreover have "16 * (of_char c div 16) + of_char c mod 16 = (of_char c :: nat)" by simp
    ultimately show ?thesis using Cons False by (simp add: url_encode_def del: mult_div_mod_eq)
  qed
qed (simp add: url_encode_def)

section \<open>Quoting\<close>

definition json_plain :: "char \<Rightarrow> bool" where
  "json_plain c \<longleftrightarrow> 0x20 \<le> (of_char c :: nat) \<or> c = newline \<or> c = carriage_return \<or> c = CHR 0x09"

lemma json_value_escaped:
  "length val < kMaxLineLen \<Longrightarrow> json_value (backslash # x # s) val =
     json_value s (val @ [if x = CHR ''n'' then newline else if x = CHR ''r'' then carriage_return
       else if x = CHR ''t'' then CHR 0x09 else x])"
  by (subst json_value.simps) simp

lemma json_value_plain:
  "length val < kMaxLineLen \<Longrightarrow> c \<noteq> quote \<Longrightarrow> c \<noteq> backslash \<Longrightarrow>
     json_value (c # s) val = json_value s (val @ [c])"
  by (subst json_value.simps) simp

lemma json_value_char:
  assumes "json_plain c" and "length val < kMaxLineLen"
  shows "json_value (json_escape_char c @ s) val = json_value s (val @ [c])"
proof -
  consider "c = quote \<or> c = backslash" | "c = newline" | "c = carriage_return" | "c = CHR 0x09"
    | "c \<noteq> quote" "c \<noteq> backslash" "c \<noteq> newline" "c \<noteq> carriage_return" "c \<noteq> CHR 0x09"
    by blast
  then show ?thesis
  proof cases
    case 1
    with assms(2) show ?thesis by (auto simp: json_escape_char_def json_value_escaped)
  next
    case 5
    with assms show ?thesis by (simp add: json_escape_char_def json_plain_def json_value_plain)
  qed (simp_all add: json_escape_char_def json_value_escaped assms(2))
qed

lemma json_value_escape:
  "list_all json_plain v \<Longrightarrow> length val + length v \<le> kMaxLineLen \<Longrightarrow>
     json_value (json_escape v @ quote # rest) val = Some (val @ v)"
proof (induction v arbitrary: val)
  case Nil
  then show ?case by (simp add: json_escape_def json_value.simps)
next
  case (Cons c v)
  have "json_escape (c # v) @ quote # rest = json_escape_char c @ json_escape v @ quote # rest"
    by (simp add: json_escape_def)
  with Cons json_value_char [of c val] show ?case by simp
qed

lemma after_sub_skip:
  "key \<noteq> [] \<Longrightarrow> hd key \<notin> set a \<Longrightarrow> after_sub key (a @ s) = after_sub key s"
proof (induction a)
  case (Cons c a)
  then have "\<not> prefix key (c # a @ s)" by (cases key) auto
  with Cons show ?case by simp
qed simp

lemma after_sub_here: "after_sub key (key @ s) = Some s"
proof (cases "key @ s")
  case (Cons a r)
  then have "prefix key (a # r)" "drop (length key) (a # r) = s" by (metis prefixI, metis append_eq_conv_conj)
  with Cons show ?thesis by simp
qed simp

lemma after_sub_step: "\<not> prefix key (c # s) \<Longrightarrow> after_sub key (c # s) = after_sub key s"
  by simp

lemma until_quote: "quote \<notin> set a \<Longrightarrow> quote \<notin> set b \<Longrightarrow> a @ quote # x = b @ quote # y \<Longrightarrow> a = b"
proof (induction a arbitrary: b)
  case Nil
  then show ?case by (cases b) auto
next
  case (Cons c a)
  then show ?case by (cases b) auto
qed

text \<open>The body the page sends to sign in.\<close>

definition login_body :: "string \<Rightarrow> string \<Rightarrow> string" where
  "login_body u pw = ''{'' @ [quote] @ ''user'' @ [quote] @ '':'' @ [quote] @ json_escape u @ [quote] @ '',''
     @ [quote] @ ''password'' @ [quote] @ '':'' @ [quote] @ json_escape pw @ [quote] @ ''}''"

lemma json_escape_plain: "list_all (\<lambda>c. 0x20 \<le> (of_char c :: nat) \<and> c \<noteq> quote \<and> c \<noteq> backslash) s \<Longrightarrow> json_escape s = s"
  by (induction s) (auto simp: json_escape_def json_escape_char_def)

lemma login_body_fields:
  assumes "list_all json_plain pw" and "length pw \<le> kMaxLineLen" and "length u \<le> kMaxLineLen"
    and "list_all (\<lambda>c. 0x20 \<le> (of_char c :: nat) \<and> c \<noteq> quote \<and> c \<noteq> backslash) u"
  shows "json_field (login_body u pw) ''user'' = Some u \<and> json_field (login_body u pw) ''password'' = Some pw"
proof
  let ?rest = "[quote] @ '','' @ [quote] @ ''password'' @ [quote] @ '':'' @ [quote] @ json_escape pw @ [quote] @ ''}''"
  have u: "json_escape u = u" "quote \<notin> set u" "list_all json_plain u"
    using assms(4) json_escape_plain by (auto simp: list_all_iff json_plain_def)
  have "after_sub ([quote] @ ''user'' @ [quote]) (login_body u pw) = Some ('':'' @ [quote] @ u @ ?rest)"
    unfolding login_body_def u using after_sub_here [of "[quote] @ ''user'' @ [quote]" "'':'' @ [quote] @ u @ ?rest"]
    by (simp add: after_sub_step)
  then show "json_field (login_body u pw) ''user'' = Some u"
    using json_value_escape [OF u(3), of "[]" "tl ?rest"] assms(3)
    by (simp add: json_field_def u)
next
  let ?key = "[quote] @ ''password'' @ [quote]"
  let ?tail = "'':'' @ [quote] @ json_escape pw @ [quote] @ ''}''"
  have u: "json_escape u = u" "quote \<notin> set u"
    using assms(4) json_escape_plain by (auto simp: list_all_iff)
  have final: "(case after_sub '':'' ?tail of None \<Rightarrow> None
      | Some at \<Rightarrow> (case after_sub [quote] at of None \<Rightarrow> None | Some at \<Rightarrow> json_value at [])) = Some pw"
    using json_value_escape [OF assms(1), of "[]" "''}''"] assms(2) by simp
  show "json_field (login_body u pw) ''password'' = Some pw"
  proof (cases "u = ''password''")
    case True
    have "after_sub ?key (login_body u pw) = Some ('','' @ ?key @ ?tail)"
      using u(1) by (simp add: login_body_def True)
    then show ?thesis using final by (simp add: json_field_def)
  next
    case False
    have "after_sub ?key (login_body u pw) = after_sub ?key ([quote] @ u @ [quote] @ '','' @ ?key @ ?tail)"
      unfolding login_body_def u by simp
    also have "\<dots> = after_sub ?key (u @ [quote] @ '','' @ ?key @ ?tail)"
    proof -
      have "\<not> prefix ?key (quote # u @ quote # '','' @ ?key @ ?tail)"
        using False u(2) until_quote [of u "''password''"] by (auto simp: prefix_def simp flip: append_assoc)
      then show ?thesis by (simp add: after_sub_step del: Cons_prefix_Cons)
    qed
    also have "\<dots> = after_sub ?key ([quote] @ '','' @ ?key @ ?tail)"
      using u(2) by (intro after_sub_skip) simp_all
    also have "\<dots> = Some ?tail" by simp
    finally show ?thesis using final by (simp add: json_field_def)
  qed
qed

lemma response_framing:
  "send_response c status ct body extra = (True, c') \<Longrightarrow>
     outp c' = outp c @ header_block status ct (length body) extra @ body \<and> inp c' = inp c"
  using ch_send_spec [of c "header_block status ct (length body) extra"]
  by (auto simp: send_response_def send_header_def dest!: ch_send_spec split: prod.splits if_splits)

section \<open>Examples\<close>

lemma login_body_fields_witness:
  "json_field (login_body ''ann'' [quote, backslash]) ''password'' = Some [quote, backslash]"
  using login_body_fields [of "[quote, backslash]" "''ann''"]
  by (simp add: json_plain_def kMaxLineLen_def)

lemma response_framing_witness:
  "\<exists>c :: channel. outp c = header_block 200 ''text/plain'' (length ''hi'') [] @ ''hi''"
proof -
  let ?c = "\<lparr>inp = [], outp = [], read_script = [], write_script = []\<rparr>"
  have calm: "calm ?c" by (simp add: calm_def)
  obtain c1 where c1: "ch_send ?c (header_block 200 ''text/plain'' (length ''hi'') []) = (True, c1)" "calm c1"
    using ch_send_calm [OF calm] by blast
  obtain c2 where c2: "ch_send c1 ''hi'' = (True, c2)" using ch_send_calm [OF c1(2)] by blast
  have "send_response ?c 200 ''text/plain'' ''hi'' [] = (True, c2)"
    using c1(1) c2 by (simp add: send_response_def send_header_def)
  from response_framing [OF this] show ?thesis by (intro exI [of _ c2]) simp
qed

end
