(* ===== verification/Webui.thy ===== *)
theory Webui
  imports Store Http
begin

text \<open>
  \<open>src/server/webui.cpp\<close>: the browser's sessions and the endpoints of the page. The page itself, a
  literal, is an argument. What every connection shares is the record \<open>world\<close>; the steady clock
  counts seconds.
\<close>

definition kSessionMinutes :: int where "kSessionMinutes = 120"

record browser_entry =
  be_user :: string
  be_expires :: int

record world =
  w_disk :: disk
  w_pool :: bytes
  w_users :: user_store
  w_sessions :: "(string \<times> browser_entry) list"
  w_clock :: int
  w_log :: "string list"

definition log_line :: "string \<Rightarrow> world \<Rightarrow> world" where
  "log_line s w = w\<lparr>w_log := w_log w @ [s]\<rparr>"

section \<open>Browser sessions\<close>

definition expire_locked :: "world \<Rightarrow> world" where
  "expire_locked w = w\<lparr>w_sessions := filter (\<lambda>(t, e). \<not> be_expires e \<le> w_clock w) (w_sessions w)\<rparr>"

definition sessions_create :: "world \<Rightarrow> string \<Rightarrow> string \<times> world" where
  "sessions_create w user =
     (case random_bytes 32 (w_pool w) of (bs, pool) \<Rightarrow>
        let token = to_hex bs;
            w = expire_locked (w\<lparr>w_pool := pool\<rparr>)
        in (token, w\<lparr>w_sessions := AList.update token
             \<lparr>be_user = user, be_expires = w_clock w + 60 * kSessionMinutes\<rparr> (w_sessions w)\<rparr>))"

definition sessions_lookup :: "world \<Rightarrow> string \<Rightarrow> string option \<times> world" where
  "sessions_lookup w token =
     (if token = [] then (None, w)
      else
        let w = expire_locked w
        in (map_option be_user (map_of (w_sessions w) token), w))"

definition sessions_destroy :: "world \<Rightarrow> string \<Rightarrow> world" where
  "sessions_destroy w token = w\<lparr>w_sessions := AList.delete token (w_sessions w)\<rparr>"

definition kBearer :: string where "kBearer = ''Bearer ''"

definition authenticate :: "world \<Rightarrow> http_request \<Rightarrow> string option \<times> world" where
  "authenticate w rq =
     (let header = request_header rq ''authorization''
      in if \<not> prefix kBearer header then (None, w)
         else sessions_lookup w (drop (length kBearer) header))"

section \<open>Bodies\<close>

definition json_error :: "string \<Rightarrow> string" where
  "json_error message = ''{'' @ [quote] @ ''error'' @ [quote] @ '':'' @ [quote] @ json_escape message @ [quote] @ ''}''"

definition json_ok :: string where
  "json_ok = ''{'' @ [quote] @ ''ok'' @ [quote] @ '':true}''"

definition json_string_field :: "string \<Rightarrow> string \<Rightarrow> string" where
  "json_string_field name val =
     [quote] @ name @ [quote] @ '':'' @ [quote] @ json_escape val @ [quote]"

definition json_file :: "stored_file \<Rightarrow> string" where
  "json_file f =
     ''{'' @ json_string_field ''name'' (sf_name f) @ '','' @ [quote] @ ''size'' @ [quote] @ '':'' @ to_dec (sf_size f)
     @ '','' @ [quote] @ ''modified'' @ [quote] @ '':''
     @ (if sf_modified f < 0 then ''-'' else []) @ to_dec (nat \<bar>sf_modified f\<bar>)
     @ '','' @ json_string_field ''tag'' (sf_tag f) @ ''}''"

fun json_files :: "stored_file list \<Rightarrow> string" where
  "json_files [] = []"
| "json_files [f] = json_file f"
| "json_files (f # fs) = json_file f @ '','' @ json_files fs"

definition json_type :: string where "json_type = ''application/json''"

text \<open>A handler's result: whether the connection goes on, the channel and the shared state.\<close>

type_synonym outcome = "bool \<times> channel \<times> world"

definition respond :: "channel \<Rightarrow> world \<Rightarrow> nat \<Rightarrow> string \<Rightarrow> outcome" where
  "respond c w status body =
     (case send_response c status json_type body [] of (ok, c) \<Rightarrow> (ok, c, w))"

section \<open>Streaming\<close>

text \<open>
  Receiving a body into an output stream: a dropped connection stops it, a failed write does not,
  but spoils the stream.
\<close>

function receive_body :: "channel \<Rightarrow> path \<Rightarrow> bool \<times> disk \<Rightarrow> nat \<Rightarrow> bool \<times> channel \<times> (bool \<times> disk)" where
  "receive_body c p out left =
     (if 0 < left then
        let want = min kIoBufferSize left
        in case ch_recv c want of
             (None, c) \<Rightarrow> (False, c, out)
           | (Some s, c) \<Rightarrow> receive_body c p (out_text p s out) (left - want)
      else (True, c, out))"
  by pat_completeness auto
termination by (relation "measure (\<lambda>(c, p, out, left). left)") (auto simp: kIoBufferSize_def)

declare receive_body.simps [simp del]

text \<open>Sending \<open>left\<close> bytes of what an input stream still holds.\<close>

function send_slices :: "channel \<Rightarrow> string \<Rightarrow> nat \<Rightarrow> bool \<times> channel" where
  "send_slices c rest left =
     (if 0 < left then
        let want = min kIoBufferSize left; s = take want rest
        in if length s \<noteq> want then (False, c)
           else case ch_send c s of (ok, c) \<Rightarrow>
             if \<not> ok then (False, c) else send_slices c (drop want rest) (left - want)
      else (True, c))"
  by pat_completeness auto
termination by (relation "measure (\<lambda>(c, rest, left). left)") (auto simp: kIoBufferSize_def)

declare send_slices.simps [simp del]

section \<open>Endpoints\<close>

definition serve_page :: "string \<Rightarrow> channel \<Rightarrow> world \<Rightarrow> outcome" where
  "serve_page page c w =
     (case send_response c 200 ''text/html; charset=utf-8'' page [] of (ok, c) \<Rightarrow> (ok, c, w))"

definition serve_login ::
  "'x openssl \<Rightarrow> store \<Rightarrow> channel \<Rightarrow> world \<Rightarrow> http_request \<Rightarrow> outcome" where
  "serve_login E root c w rq =
     (if rq_content_length rq > of_nat kMaxLineLen then
        (case drain_body c (unat (rq_content_length rq)) of (_, c) \<Rightarrow>
           respond c w 400 (json_error ''request too large''))
      else case (if rq_content_length rq > 0 then ch_recv c (unat (rq_content_length rq)) else (Some [], c)) of
        (None, c) \<Rightarrow> (False, c, w)
      | (Some body, c) \<Rightarrow>
      case (json_field body ''user'', json_field body ''password'') of
        (Some user, Some password) \<Rightarrow>
          (case users_verify E (w_pool w) (w_disk w) (w_users w) user password of (good, pool, us) \<Rightarrow>
           let w = w\<lparr>w_pool := pool, w_users := us\<rparr>
           in if \<not> good then
                respond c (log_line (''[web] sign-in rejected for '' @ user) w) 401
                  (json_error ''wrong account or password'')
              else case ensure_account (w_disk w) root user of (err, d) \<Rightarrow>
                let w = w\<lparr>w_disk := d\<rparr>
                in if err \<noteq> None then respond c w 500 (json_error ''cannot prepare storage'')
                else case sessions_create w user of (token, w) \<Rightarrow>
                  respond c (log_line (''[web] '' @ user @ '' signed in'') w) 200
                    (''{'' @ json_string_field ''token'' token @ '','' @ json_string_field ''user'' user @ ''}''))
      | _ \<Rightarrow> respond c w 400 (json_error ''missing user or password''))"

definition serve_logout :: "channel \<Rightarrow> world \<Rightarrow> http_request \<Rightarrow> outcome" where
  "serve_logout c w rq =
     (let header = request_header rq ''authorization'';
          w = (if prefix kBearer header then sessions_destroy w (drop (length kBearer) header) else w)
      in case drain_body c (unat (rq_content_length rq)) of (_, c) \<Rightarrow> respond c w 200 json_ok)"

definition serve_list :: "store \<Rightarrow> channel \<Rightarrow> world \<Rightarrow> string \<Rightarrow> outcome" where
  "serve_list root c w user =
     (let files = list_files (w_disk w) root user
      in respond c w 200 (''{'' @ [quote] @ ''files'' @ [quote] @ '':['' @ json_files files @ '']}''))"

definition serve_get_file :: "store \<Rightarrow> channel \<Rightarrow> world \<Rightarrow> string \<Rightarrow> string \<Rightarrow> outcome" where
  "serve_get_file root c w user name =
     (case (file_path root user name, file_info (w_disk w) root user name) of
        (Some p, Some (n, tag)) \<Rightarrow>
          (case send_header c 200 ''application/octet-stream'' n [] of (ok, c) \<Rightarrow>
             if \<not> ok then (False, c, w)
             else case fs_read (w_disk w) p of
               None \<Rightarrow> (False, c, w)
             | Some s \<Rightarrow> (case send_slices c s n of (ok, c) \<Rightarrow> (ok, c, w)))
      | _ \<Rightarrow> respond c w 404 (json_error ''no such file''))"

definition serve_delete_file :: "store \<Rightarrow> channel \<Rightarrow> world \<Rightarrow> string \<Rightarrow> string \<Rightarrow> outcome" where
  "serve_delete_file root c w user name =
     (case remove_file (w_disk w) root user name of (removed, d) \<Rightarrow>
        let w = w\<lparr>w_disk := d\<rparr>
        in if \<not> removed then respond c w 404 (json_error ''no such file'')
           else respond c (log_line (''[web] '' @ user @ '' deleted '' @ name) w) 200 json_ok)"

text \<open>The tag is whatever follows the first \<open>tag=\<close> of the query.\<close>

definition query_tag :: "http_request \<Rightarrow> string" where
  "query_tag rq = (case after_sub ''tag='' (rq_query rq) of None \<Rightarrow> [] | Some t \<Rightarrow> t)"

definition serve_put_file ::
  "store \<Rightarrow> channel \<Rightarrow> world \<Rightarrow> http_request \<Rightarrow> string \<Rightarrow> string \<Rightarrow> outcome" where
  "serve_put_file root c w rq user name =
     (case (if is_safe_name name then file_path root user name else None) of
        None \<Rightarrow>
          (case drain_body c (unat (rq_content_length rq)) of (_, c) \<Rightarrow>
             respond c w 400 (json_error ''that name cannot be stored''))
      | Some final \<Rightarrow>
      case temp_path root (w_pool w) of (temp, pool) \<Rightarrow>
      let w = w\<lparr>w_pool := pool\<rparr>
      in case fs_create (w_disk w) temp of (ok, d) \<Rightarrow>
      if \<not> ok then (False, c, w\<lparr>w_disk := d\<rparr>)
      else case receive_body c temp (True, d) (unat (rq_content_length rq)) of (got, c, out) \<Rightarrow>
      if \<not> got then (case fs_remove (snd out) temp of (_, d) \<Rightarrow> (False, c, w\<lparr>w_disk := d\<rparr>))
      else case out_flush temp out of (good, d) \<Rightarrow>
      if \<not> good then
        (case fs_remove d temp of (_, d) \<Rightarrow> respond c (w\<lparr>w_disk := d\<rparr>) 500 (json_error ''write failed''))
      else case commit_upload d temp final of (ok, d) \<Rightarrow>
      if \<not> ok then respond c (w\<lparr>w_disk := d\<rparr>) 500 (json_error ''cannot store the file'')
      else case write_tag d root user name (query_tag rq) of (_, d) \<Rightarrow>
        respond c
          (log_line (''[web] '' @ user @ '' stored '' @ name @ '' ('' @ to_dec (unat (rq_content_length rq))
             @ '' bytes, encrypted)'') (w\<lparr>w_disk := d\<rparr>)) 201 json_ok)"

definition kFilesPrefix :: string where "kFilesPrefix = ''/api/files/''"

definition no_such_route :: "channel \<Rightarrow> world \<Rightarrow> http_request \<Rightarrow> outcome" where
  "no_such_route c w rq =
     (case drain_body c (unat (rq_content_length rq)) of (_, c) \<Rightarrow>
        case respond c w 404 (json_error ''no such route'') of (_, c, w) \<Rightarrow> (True, c, w))"

definition web_routes :: "store \<Rightarrow> channel \<Rightarrow> world \<Rightarrow> http_request \<Rightarrow> string \<Rightarrow> outcome" where
  "web_routes root c w rq user =
     (if rq_method rq = ''GET'' \<and> rq_path rq = ''/api/files'' then serve_list root c w user
      else if prefix kFilesPrefix (rq_path rq) then
        let name = drop (length kFilesPrefix) (rq_path rq)
        in if rq_method rq = ''GET'' then serve_get_file root c w user name
           else if rq_method rq = ''PUT'' then serve_put_file root c w rq user name
           else if rq_method rq = ''DELETE'' then serve_delete_file root c w user name
           else no_such_route c w rq
      else no_such_route c w rq)"

definition web_handle ::
  "'x openssl \<Rightarrow> store \<Rightarrow> string \<Rightarrow> channel \<Rightarrow> world \<Rightarrow> http_request \<Rightarrow> outcome" where
  "web_handle E root page c w rq =
     (if rq_method rq = ''GET'' \<and> (rq_path rq = ''/'' \<or> rq_path rq = ''/index.html'') then serve_page page c w
      else if rq_method rq = ''POST'' \<and> rq_path rq = ''/api/login'' then serve_login E root c w rq
      else if rq_method rq = ''POST'' \<and> rq_path rq = ''/api/logout'' then serve_logout c w rq
      else if prefix ''/api/'' (rq_path rq) then
        (case authenticate w rq of
           (None, w) \<Rightarrow>
             (case drain_body c (unat (rq_content_length rq)) of (_, c) \<Rightarrow>
                case respond c w 401 (json_error ''not signed in'') of (_, c, w) \<Rightarrow> (True, c, w))
         | (Some user, w) \<Rightarrow> web_routes root c w rq user)
      else web_routes root c w rq [])"

section \<open>Receiving and sending\<close>

lemma out_text_touches: "out_text p s (g, d) = (g', d') \<Longrightarrow> touches {p} d d'"
  by (auto simp: out_text_def dest: touches_append split: if_splits)

lemma receive_body_touches:
  "receive_body c p (g, d) left = (got, c', (g', d')) \<Longrightarrow> touches {p} d d'"
proof (induction left arbitrary: c g d rule: less_induct)
  case (less left)
  show ?case
  proof (cases "0 < left")
    case False
    with less.prems show ?thesis by (simp add: receive_body.simps)
  next
    case True
    let ?n = "min kIoBufferSize left"
    have n: "left - ?n < left" using True by (simp add: kIoBufferSize_def)
    obtain r c1 where r: "ch_recv c ?n = (r, c1)" by fastforce
    show ?thesis
    proof (cases r)
      case None
      with less.prems True r show ?thesis by (simp add: receive_body.simps)
    next
      case (Some s)
      obtain g1 d1 where o: "out_text p s (g, d) = (g1, d1)" by fastforce
      have "receive_body c1 p (g1, d1) (left - ?n) = (got, c', (g', d'))"
        using less.prems True r Some o by (simp add: receive_body.simps [of c])
      from touches_trans [OF out_text_touches [OF o] less.IH [OF n this]] show ?thesis .
    qed
  qed
qed

lemma receive_body_spec:
  assumes "receive_body c p (g, d) left = (True, c', (True, d'))" and "fs_read d p = Some c0"
  shows "\<exists>s. length s = left \<and> inp c = s @ inp c' \<and> outp c' = outp c \<and> g \<and> fs_read d' p = Some (c0 @ s)"
  using assms
proof (induction left arbitrary: c g d c0 rule: less_induct)
  case (less left)
  show ?case
  proof (cases "0 < left")
    case False
    with less.prems show ?thesis by (simp add: receive_body.simps)
  next
    case True
    let ?n = "min kIoBufferSize left"
    have n: "left - ?n < left" "?n \<le> left" using True by (simp_all add: kIoBufferSize_def)
    obtain s c1 where r: "ch_recv c ?n = (Some s, c1)"
      using less.prems(1) True by (cases "ch_recv c ?n") (auto simp: receive_body.simps split: option.splits)
    note recv = ch_recv_spec [OF r, simplified]
    obtain g1 d1 where o: "out_text p s (g, d) = (g1, d1)" by fastforce
    have run: "receive_body c1 p (g1, d1) (left - ?n) = (True, c', (True, d'))"
      using less.prems(1) True r o by (simp add: receive_body.simps [of c])
    have g1: "g1 \<Longrightarrow> g \<and> fs_read d1 p = Some (c0 @ s)"
      using o less.prems(2) by (auto simp: out_text_def dest: append_effect split: if_splits)
    obtain x where x: "fs_read d1 p = Some x"
      using o less.prems(2) by (auto simp: out_text_def dest: append_effect_fail split: if_splits)
    from less.IH [OF n(1) run x] obtain s' where s': "length s' = left - ?n" "inp c1 = s' @ inp c'"
      "outp c' = outp c1" "g1" "fs_read d' p = Some (x @ s')" by blast
    with g1 x recv n(2) show ?thesis by (intro exI [of _ "s @ s'"]) auto
  qed
qed

lemma send_slices_spec:
  "send_slices c rest left = (True, c') \<Longrightarrow> outp c' = outp c @ take left rest \<and> left \<le> length rest \<and> inp c' = inp c"
proof (induction left arbitrary: c rest rule: less_induct)
  case (less left)
  show ?case
  proof (cases "0 < left")
    case False
    with less.prems show ?thesis by (simp add: send_slices.simps)
  next
    case True
    let ?n = "min kIoBufferSize left"
    have n: "left - ?n < left" "?n \<le> left" using True by (simp_all add: kIoBufferSize_def)
    obtain ok c1 where o: "ch_send c (take ?n rest) = (ok, c1)" by fastforce
    have len: "length (take ?n rest) = ?n" and ok: ok
      and run: "send_slices c1 (drop ?n rest) (left - ?n) = (True, c')"
      using less.prems True o by (auto simp: send_slices.simps [of c] Let_def split: if_splits)
    have "take left rest = take ?n rest @ take (left - ?n) (drop ?n rest)"
      using n(2) by (metis le_add_diff_inverse take_add)
    with less.IH [OF n(1) run] ch_send_spec [OF o] ok len n(2) show ?thesis by auto
  qed
qed

section \<open>An upload is all or nothing\<close>

lemma respond_world: "respond c w status body = (ok, c', w') \<Longrightarrow> w' = w"
  by (auto simp: respond_def split: prod.splits)

lemma log_line_fields [simp]:
  "w_disk (log_line s w) = w_disk w" "w_sessions (log_line s w) = w_sessions w"
  "w_users (log_line s w) = w_users w" "w_pool (log_line s w) = w_pool w" "w_clock (log_line s w) = w_clock w"
  by (simp_all add: log_line_def)

text \<open>
  What a request may have done to the files of the server: its own account's paths only, and of
  those files at most one, which then holds exactly bytes that arrived.
\<close>

definition upload_effect :: "store \<Rightarrow> string \<Rightarrow> string \<Rightarrow> string \<Rightarrow> nat \<Rightarrow> disk \<Rightarrow> disk \<Rightarrow> bool" where
  "upload_effect root user name arrived n d d' \<longleftrightarrow>
     touches (own_paths root user) d d' \<and>
     (stored d' root user name = stored d root user name \<or>
      n \<le> length arrived \<and> stored d' root user name = Some (take n arrived)) \<and>
     (\<forall>m. m \<noteq> name \<longrightarrow> stored d' root user m = stored d root user m)"

lemma upload_effect_none:
  "touches {temp} d d' \<Longrightarrow> in_tmp root temp \<Longrightarrow> upload_effect root user name arrived n d d'"
  using temp_keeps_stored [of temp d d' root]
  by (auto simp: upload_effect_def own_paths_def intro: touches_mono)

lemma upload_effect_refl: "upload_effect root user name arrived n d d"
  by (simp add: upload_effect_def)

lemma upload_effect_commit:
  assumes "touches {temp} d d1" and "in_tmp root temp" and "file_path root user name = Some final"
    and "fs_read d1 temp = Some s" and "length s = n" and "\<exists>r. arrived = s @ r"
    and "commit_upload d1 temp final = (ok, d2)" and "touches (own_paths root user) d2 d3"
    and "\<forall>v m. stored d3 root v m = stored d2 root v m"
  shows "upload_effect root user name arrived n d d3"
proof -
  have "touches (own_paths root user) d d3"
    using touches_trans [OF touches_mono [OF assms(1)] touches_trans [OF touches_mono [OF commit_touches [OF assms(7)]] assms(8)]]
      own_paths_file [OF assms(3)] assms(2) by (auto simp: own_paths_def)
  with commit_stored [OF assms(7,2,3)] temp_keeps_stored [OF assms(1,2)] assms(4,5,6,9) show ?thesis
    by (cases ok) (auto simp: upload_effect_def)
qed

lemma serve_put_file_spec:
  assumes "serve_put_file root c w rq user name = (ok, c', w')"
  shows "upload_effect root user name (inp c) (unat (rq_content_length rq)) (w_disk w) (w_disk w') \<and>
     w_sessions w' = w_sessions w \<and> w_users w' = w_users w \<and> w_clock w' = w_clock w"
proof (cases "file_path root user name")
  case None
  with assms show ?thesis
    by (auto simp: serve_put_file_def upload_effect_refl dest!: respond_world split: prod.splits if_splits)
next
  case (Some final)
  then have safe: "is_safe_name name" by (auto simp: file_path_eq split: if_splits)
  let ?n = "unat (rq_content_length rq)"
  obtain temp pool where temp: "temp_path root (w_pool w) = (temp, pool)" by fastforce
  then have tmp: "in_tmp root temp" by (rule temp_path_in_tmp)
  obtain made d1 where cr: "fs_create (w_disk w) temp = (made, d1)" by fastforce
  obtain got c1 g2 d2 where rb: "receive_body c temp (True, d1) ?n = (got, c1, (g2, d2))"
    by (metis prod_cases3 surj_pair)
  obtain x3 d3 where rm: "fs_remove d2 temp = (x3, d3)" by fastforce
  obtain g4 d4 where fl: "out_flush temp (g2, d2) = (g4, d4)" by fastforce
  obtain x5 d5 where rm4: "fs_remove d4 temp = (x5, d5)" by fastforce
  obtain ok6 d6 where co: "commit_upload d4 temp final = (ok6, d6)" by fastforce
  obtain x7 d7 where wt: "write_tag d6 root user name (query_tag rq) = (x7, d7)" by fastforce
  have t1: "touches {temp} (w_disk w) d1" using touches_create [OF cr] .
  have t2: "touches {temp} (w_disk w) d2" using touches_trans [OF t1 receive_body_touches [OF rb]] .
  have t3: "touches {temp} (w_disk w) d3" using touches_trans [OF t2 touches_remove [OF rm]] .
  have t4: "touches {temp} (w_disk w) d4" using touches_trans [OF t2 out_flush_touches [OF fl]] .
  have t5: "touches {temp} (w_disk w) d5" using touches_trans [OF t4 touches_remove [OF rm4]] .
  have none: "upload_effect root user name (inp c) ?n (w_disk w) d1"
    "upload_effect root user name (inp c) ?n (w_disk w) d3"
    "upload_effect root user name (inp c) ?n (w_disk w) d5"
    using t1 t3 t5 tmp by (simp_all add: upload_effect_none)
  have stored: "upload_effect root user name (inp c) ?n (w_disk w) d6 \<and>
      upload_effect root user name (inp c) ?n (w_disk w) d7" if "made" "got" "g4"
  proof -
    from that fl have fl': "g2" "fs_flush d2 temp = (True, d4)" by (auto simp: out_flush_def split: if_splits)
    have "fs_read d1 temp = Some []" using create_effect cr that by simp
    with receive_body_spec [of c temp True d1 ?n c1 d2 "[]"] rb that fl' obtain s where
      s: "length s = ?n" "inp c = s @ inp c1" "fs_read d2 temp = Some s" by auto
    have r4: "fs_read d4 temp = Some s" using flush_effect [OF fl'(2)] s(3) by simp
    have "\<exists>r. inp c = s @ r" using s(2) by blast
    with upload_effect_commit [OF t4 tmp Some r4 s(1) _ co] write_tag_own [OF wt] write_tag_stored [OF wt]
    show ?thesis by simp
  qed
  show ?thesis
    using assms none stored
    by (auto simp: serve_put_file_def Some safe temp cr rb rm fl rm4 co wt Let_def dest!: respond_world
        split: if_splits)
qed

section \<open>Who can change what\<close>

lemma sessions_create_disk: "sessions_create w u = (t, w') \<Longrightarrow> w_disk w' = w_disk w"
  by (auto simp: sessions_create_def expire_locked_def Let_def split: prod.splits)

lemma serve_login_disk: "serve_login E root c w rq = (ok, c', w') \<Longrightarrow> touches {} (w_disk w) (w_disk w')"
  by (auto simp: serve_login_def Let_def dest!: respond_world sessions_create_disk ensure_account_touches
      split: prod.splits if_splits option.splits)

lemma touches_empty_stored: "touches {} d d' \<Longrightarrow> stored d' root u n = stored d root u n"
  unfolding stored_blob by (rule account_files.blob_touches) auto

lemma touches_empty_chunk: "touches {} d d' \<Longrightarrow> stored_chunk d' root i = stored_chunk d root i"
  unfolding stored_chunk_blob by (rule chunk_area.blob_touches) auto

lemma serve_others_world:
  "serve_page page c w = (ok, c', w') \<Longrightarrow> w' = w"
  "serve_list root c w u = (ok, c', w') \<Longrightarrow> w' = w"
  "serve_get_file root c w u n = (ok, c', w') \<Longrightarrow> w' = w"
  "no_such_route c w rq = (ok, c', w') \<Longrightarrow> w' = w"
  by (auto simp: serve_page_def serve_list_def serve_get_file_def no_such_route_def dest!: respond_world
      split: prod.splits if_splits option.splits)

lemma serve_logout_disk: "serve_logout c w rq = (ok, c', w') \<Longrightarrow> w_disk w' = w_disk w"
  by (auto simp: serve_logout_def sessions_destroy_def Let_def dest!: respond_world split: prod.splits if_splits)

lemma serve_delete_world:
  "serve_delete_file root c w u n = (ok, c', w') \<Longrightarrow>
     (\<exists>ex. remove_file (w_disk w) root u n = (ex, w_disk w')) \<and> w_sessions w' = w_sessions w \<and> w_users w' = w_users w"
  by (auto simp: serve_delete_file_def Let_def dest!: respond_world split: prod.splits if_splits)

lemma sessions_lookup_disk: "sessions_lookup w t = (r, w') \<Longrightarrow> w_disk w' = w_disk w"
  by (auto simp: sessions_lookup_def expire_locked_def Let_def split: if_splits)

lemma authenticate_disk: "authenticate w rq = (r, w') \<Longrightarrow> w_disk w' = w_disk w"
  by (auto simp: authenticate_def Let_def dest: sessions_lookup_disk split: if_splits)

lemma web_routes_effect:
  assumes "web_routes root c w rq u = (ok, c', w')"
  shows "touches (own_paths root u) (w_disk w) (w_disk w') \<and>
    (stored (w_disk w') root v n \<noteq> stored (w_disk w) root v n \<longrightarrow>
       v = u \<and> rq_path rq = kFilesPrefix @ n \<and> (rq_method rq = ''PUT'' \<or> rq_method rq = ''DELETE''))"
proof -
  consider "w' = w"
    | m where "rq_path rq = kFilesPrefix @ m" "rq_method rq = ''PUT''" "serve_put_file root c w rq u m = (ok, c', w')"
    | m where "rq_path rq = kFilesPrefix @ m" "rq_method rq = ''DELETE''" "serve_delete_file root c w u m = (ok, c', w')"
    using assms by (auto simp: web_routes_def Let_def prefix_def dest: serve_others_world split: if_splits)
  then show ?thesis
  proof cases
    case 2
    note e = serve_put_file_spec [OF 2(3), unfolded upload_effect_def]
    show ?thesis
      using e own_stored [of root u "w_disk w" "w_disk w'" v n] 2 by (cases "v = u"; cases "n = m") auto
  next
    case 3
    then obtain ex where r: "remove_file (w_disk w) root u m = (ex, w_disk w')"
      using serve_delete_world by blast
    with remove_file_touches [OF r] remove_file_others [OF r, of v n] 3 show ?thesis by auto
  qed simp
qed

lemma web_changes_by_owner:
  assumes "web_handle E root page c w rq = (ok, c', w')"
    and "stored (w_disk w') root v n \<noteq> stored (w_disk w) root v n"
  shows "fst (authenticate w rq) = Some v \<and> rq_path rq = kFilesPrefix @ n \<and>
    (rq_method rq = ''PUT'' \<or> rq_method rq = ''DELETE'')"
proof -
  obtain r w1 where a: "authenticate w rq = (r, w1)" by fastforce
  have d1: "w_disk w1 = w_disk w" using authenticate_disk [OF a] .
  have keep: "stored (w_disk w') root v n = stored (w_disk w) root v n"
    if "serve_login E root c w rq = (ok, c', w') \<or> serve_logout c w rq = (ok, c', w') \<or>
        serve_page page c w = (ok, c', w') \<or> no_such_route c w rq = (ok, c', w') \<or> w' = w1"
    using that touches_empty_stored [OF serve_login_disk] serve_logout_disk serve_others_world d1 by metis
  show ?thesis
  proof (cases "prefix ''/api/'' (rq_path rq)")
    case True
    then consider "web_routes root c w1 rq (the r) = (ok, c', w')" "r \<noteq> None"
      | "serve_login E root c w rq = (ok, c', w') \<or> serve_logout c w rq = (ok, c', w') \<or>
         serve_page page c w = (ok, c', w') \<or> w' = w1"
      using assms(1) a
      by (auto simp: web_handle_def dest!: respond_world split: if_splits option.splits prod.splits)
    then show ?thesis
      using keep assms(2) web_routes_effect [of root c w1 rq "the r" ok c' w' v n] d1 a by cases auto
  next
    case False
    then have "web_routes root c w rq [] = no_such_route c w rq"
      by (auto simp: web_routes_def kFilesPrefix_def prefix_def)
    with assms False keep show ?thesis
      by (auto simp: web_handle_def split: if_splits)
  qed
qed

section \<open>Examples\<close>

definition example_browser :: world where
  "example_browser = \<lparr>w_disk = example_store, w_pool = replicate 64 7,
     w_users = new_user_store [''srv'', ''users.txt''],
     w_sessions = [(''t0k3n'', \<lparr>be_user = ''ann'', be_expires = 100\<rparr>)], w_clock = 0, w_log = []\<rparr>"

definition example_delete :: http_request where
  "example_delete = \<lparr>rq_method = ''DELETE'', rq_path = ''/api/files/notes'', rq_query = [],
     rq_headers = [(''authorization'', ''Bearer t0k3n'')], rq_content_length = 0\<rparr>"

lemma example_delete_simps [simp]:
  "rq_method example_delete = ''DELETE''" "rq_path example_delete = ''/api/files/notes''"
  by (simp_all add: example_delete_def)

lemma example_authenticated: "authenticate example_browser example_delete = (Some ''ann'', example_browser)"
  by (simp add: authenticate_def request_header_def example_delete_def example_browser_def kBearer_def
      sessions_lookup_def expire_locked_def http_lowercase_def tolower_def less_eq_char_def)

lemma web_changes_by_owner_witness:
  "\<exists>ok c w. web_handle mini_openssl example_root [] (example_channel [] []) example_browser example_delete = (ok, c, w) \<and>
     stored (w_disk w) example_root ''ann'' ''notes'' = None \<and>
     rq_path example_delete = kFilesPrefix @ ''notes''"
proof -
  obtain ok c w where r: "web_handle mini_openssl example_root [] (example_channel [] []) example_browser example_delete = (ok, c, w)"
    by (rule prod_cases3)
  then have "serve_delete_file example_root (example_channel [] []) example_browser ''ann'' ''notes'' = (ok, c, w)"
    by (simp add: web_handle_def example_authenticated web_routes_def kFilesPrefix_def)
  then obtain ex where "remove_file example_store example_root ''ann'' ''notes'' = (ex, w_disk w)"
    using serve_delete_world by (fastforce simp: example_browser_def)
  from remove_file_spec [OF this] have gone: "stored (w_disk w) example_root ''ann'' ''notes'' = None" by simp
  with web_changes_by_owner [OF r, of "''ann''" "''notes''"] r example_stored show ?thesis
    by (auto simp: example_browser_def)
qed

end
