(* ===== verification/Session.thy ===== *)
theory Session
  imports Webui
begin

text \<open>
  \<open>src/server/session.cpp\<close>: one connection's conversation. What it knows of itself and the channel are
  the record \<open>session\<close>, with the shared \<open>world\<close> beside them. A handler returns whether the
  connection goes on. The log goes to \<open>w_log\<close>.
\<close>

record config =
  cfg_root :: store
  cfg_page :: string
  cfg_token :: string
  cfg_port :: nat

record session =
  s_chan :: channel
  s_world :: world
  s_user :: string
  s_logged_in :: bool
  s_trusted :: bool

definition new_session :: "channel \<Rightarrow> world \<Rightarrow> session" where
  "new_session c w =
     \<lparr>s_chan = c, s_world = w, s_user = [], s_logged_in = False, s_trusted = False\<rparr>"

section \<open>Transfers\<close>

datatype upload_error = CannotOpenTemp | DroppedMidUpload | UploadWriteFailed | UploadFlushFailed

text \<open>Unlike the page's upload, this one looks at the stream after every slice.\<close>

function receive_loop :: "channel \<Rightarrow> path \<Rightarrow> disk \<Rightarrow> nat \<Rightarrow> upload_error option \<times> channel \<times> disk" where
  "receive_loop c p d left =
     (if 0 < left then
        let want = min kIoBufferSize left
        in case ch_recv c want of
             (None, c) \<Rightarrow> (Some DroppedMidUpload, c, d)
           | (Some s, c) \<Rightarrow>
               (case fs_append d p s of (ok, d) \<Rightarrow>
                  if \<not> ok then (Some UploadWriteFailed, c, d) else receive_loop c p d (left - want))
      else (None, c, d))"
  by pat_completeness auto
termination by (relation "measure (\<lambda>(c, p, d, left). left)") (auto simp: kIoBufferSize_def)

declare receive_loop.simps [simp del]

definition receive_to_file :: "channel \<Rightarrow> disk \<Rightarrow> path \<Rightarrow> nat \<Rightarrow> upload_error option \<times> channel \<times> disk" where
  "receive_to_file c d p n =
     (case fs_create d p of (ok, d) \<Rightarrow>
        if \<not> ok then (Some CannotOpenTemp, c, d)
        else case receive_loop c p d n of
          (Some e, c, d) \<Rightarrow> (Some e, c, d)
        | (None, c, d) \<Rightarrow>
            (case fs_flush d p of (ok, d) \<Rightarrow> if \<not> ok then (Some UploadFlushFailed, c, d) else (None, c, d)))"

definition send_from_file :: "channel \<Rightarrow> disk \<Rightarrow> path \<Rightarrow> nat \<Rightarrow> bool \<times> channel" where
  "send_from_file c d p n =
     (case fs_read d p of None \<Rightarrow> (False, c) | Some s \<Rightarrow> send_slices c s n)"

section \<open>Replies\<close>

text \<open>Nobody looks at whether a reply could be sent: the next read will tell.\<close>

definition say :: "string \<Rightarrow> session \<Rightarrow> session" where
  "say line s = s\<lparr>s_chan := snd (ch_send_line (s_chan s) line)\<rparr>"

definition fail :: "string \<Rightarrow> session \<Rightarrow> bool \<times> session" where
  "fail reason s = (True, say (kErr @ '' '' @ reason) s)"

definition server_log :: "config \<Rightarrow> string \<Rightarrow> session \<Rightarrow> session" where
  "server_log cfg message s =
     s\<lparr>s_world := log_line (''[server '' @ to_dec (cfg_port cfg) @ ''] '' @ message) (s_world s)\<rparr>"

definition with_disk :: "disk \<Rightarrow> session \<Rightarrow> session" where
  "with_disk d s = s\<lparr>s_world := (s_world s)\<lparr>w_disk := d\<rparr>\<rparr>"

abbreviation s_disk :: "session \<Rightarrow> disk" where "s_disk s \<equiv> w_disk (s_world s)"

section \<open>Signing in\<close>

definition do_login :: "'x openssl \<Rightarrow> config \<Rightarrow> string list \<Rightarrow> session \<Rightarrow> bool \<times> session" where
  "do_login E cfg f s =
     (if length f \<noteq> 3 then fail ''malformed-login'' s
      else
      let name = f ! 1
      in case users_verify E (w_pool (s_world s)) (s_disk s) (w_users (s_world s)) name (f ! 2) of
        (good, pool, us) \<Rightarrow>
        let s = s\<lparr>s_world := (s_world s)\<lparr>w_pool := pool, w_users := us\<rparr>\<rparr>
        in if \<not> good then
          (False, say (kErr @ '' bad-credentials'') (server_log cfg (''login rejected for '' @ name) s))
        else case ensure_account (s_disk s) (cfg_root cfg) name of (err, d) \<Rightarrow>
          let s = with_disk d s
          in if err \<noteq> None then fail ''account-storage'' s
          else
            let s = say kOk (s\<lparr>s_user := name, s_logged_in := True\<rparr>)
            in (True, server_log cfg (name @ '' logged in'') s))"

definition do_auth :: "config \<Rightarrow> string list \<Rightarrow> session \<Rightarrow> bool \<times> session" where
  "do_auth cfg f s =
     (if length f \<noteq> 2 then fail ''malformed-auth'' s
      else if \<not> secure_equal (f ! 1) (cfg_token cfg) then
        (False, say (kErr @ '' bad-token'') (server_log cfg ''auth rejected'' s))
      else (True, say kOk (s\<lparr>s_trusted := True\<rparr>)))"

section \<open>Commands on files\<close>

definition do_stat :: "config \<Rightarrow> string \<Rightarrow> session \<Rightarrow> bool \<times> session" where
  "do_stat cfg line s =
     (let f = split_n line 2
      in if length f \<noteq> 2 then fail ''malformed-stat'' s
         else case file_info (s_disk s) (cfg_root cfg) (s_user s) (f ! 1) of
           None \<Rightarrow> (True, say kNone s)
         | Some (n, tag) \<Rightarrow>
             (True, say (kMeta @ '' '' @ to_dec n @ '' '' @ (if tag = [] then ''-'' else tag)) s))"

definition do_put_file :: "config \<Rightarrow> string \<Rightarrow> session \<Rightarrow> bool \<times> session" where
  "do_put_file cfg line s =
     (let f = split_n line 4
      in if length f \<noteq> 4 then fail ''malformed-putfile'' s
      else
      let name = f ! 3
      in case parse_size (f ! 1) kMaxTransferSize of
        None \<Rightarrow> fail ''bad-size'' s
      | Some n \<Rightarrow>
      case file_path (cfg_root cfg) (s_user s) name of
        None \<Rightarrow> fail ''bad-name'' s
      | Some final \<Rightarrow>
      case temp_path (cfg_root cfg) (w_pool (s_world s)) of (temp, pool) \<Rightarrow>
      let s = s\<lparr>s_world := (s_world s)\<lparr>w_pool := pool\<rparr>\<rparr>
      in case receive_to_file (s_chan s) (s_disk s) temp (unat n) of (err, c, d) \<Rightarrow>
      let s = s\<lparr>s_chan := c\<rparr>
      in if err \<noteq> None then
        (case fs_remove d temp of (_, d) \<Rightarrow> (False, server_log cfg ''upload failed'' (with_disk d s)))
      else case commit_upload d temp final of (ok, d) \<Rightarrow>
      if \<not> ok then fail ''store-failed'' (with_disk d s)
      else case write_tag d (cfg_root cfg) (s_user s) name (f ! 2) of (_, d) \<Rightarrow>
      let s = say kOk (with_disk d s)
      in (True, server_log cfg (s_user s @ '' stored '' @ name @ '' ('' @ to_dec (unat n) @ '' bytes, encrypted)'') s))"

definition do_get_file :: "config \<Rightarrow> string \<Rightarrow> session \<Rightarrow> bool \<times> session" where
  "do_get_file cfg line s =
     (let f = split_n line 2
      in if length f \<noteq> 2 then fail ''malformed-getfile'' s
      else case (file_path (cfg_root cfg) (s_user s) (f ! 1), file_info (s_disk s) (cfg_root cfg) (s_user s) (f ! 1)) of
        (Some p, Some (n, tag)) \<Rightarrow>
          let s = say (kData @ '' '' @ to_dec n) s
          in (case send_from_file (s_chan s) (s_disk s) p n of (ok, c) \<Rightarrow>
                let s = s\<lparr>s_chan := c\<rparr>
                in if \<not> ok then (False, s)
                   else (True, server_log cfg (''served '' @ s_user s @ ''/'' @ f ! 1 @ '' ('' @ to_dec n @ '' bytes)'') s))
      | _ \<Rightarrow> (True, say kNone s))"

definition do_del_file :: "config \<Rightarrow> string \<Rightarrow> session \<Rightarrow> bool \<times> session" where
  "do_del_file cfg line s =
     (let f = split_n line 2
      in if length f \<noteq> 2 then fail ''malformed-delfile'' s
      else case remove_file (s_disk s) (cfg_root cfg) (s_user s) (f ! 1) of (removed, d) \<Rightarrow>
        let s = with_disk d s
        in if \<not> removed then (True, say kNone s)
           else (True, server_log cfg (s_user s @ '' deleted '' @ f ! 1) (say kOk s)))"

section \<open>Commands on chunks\<close>

definition do_put_chunk :: "config \<Rightarrow> string list \<Rightarrow> session \<Rightarrow> bool \<times> session" where
  "do_put_chunk cfg f s =
     (if length f \<noteq> 3 then fail ''malformed-putchunk'' s
      else case chunk_path (cfg_root cfg) (f ! 1) of
        None \<Rightarrow> fail ''bad-chunk-id'' s
      | Some final \<Rightarrow>
      case parse_size (f ! 2) kMaxTransferSize of
        None \<Rightarrow> fail ''bad-size'' s
      | Some n \<Rightarrow>
      case temp_path (cfg_root cfg) (w_pool (s_world s)) of (temp, pool) \<Rightarrow>
      let s = s\<lparr>s_world := (s_world s)\<lparr>w_pool := pool\<rparr>\<rparr>
      in case receive_to_file (s_chan s) (s_disk s) temp (unat n) of (err, c, d) \<Rightarrow>
      let s = s\<lparr>s_chan := c\<rparr>
      in if err \<noteq> None then (case fs_remove d temp of (_, d) \<Rightarrow> (False, with_disk d s))
      else case commit_upload d temp final of (ok, d) \<Rightarrow>
      if \<not> ok then fail ''store-failed'' (with_disk d s)
      else (True, server_log cfg (''stored chunk '' @ take 12 (f ! 1) @ '' ('' @ to_dec (unat n) @ '' bytes)'')
                    (say kOk (with_disk d s))))"

definition do_get_chunk :: "config \<Rightarrow> string list \<Rightarrow> session \<Rightarrow> bool \<times> session" where
  "do_get_chunk cfg f s =
     (if length f \<noteq> 2 then fail ''malformed-getchunk'' s
      else case chunk_path (cfg_root cfg) (f ! 1) of
        None \<Rightarrow> (True, say kNone s)
      | Some p \<Rightarrow>
      if \<not> fs_exists (s_disk s) p then (True, say kNone s)
      else case fs_size (s_disk s) p of
        None \<Rightarrow> (True, say kNone s)
      | Some n \<Rightarrow>
          let s = say (kData @ '' '' @ to_dec n) s
          in (case send_from_file (s_chan s) (s_disk s) p n of (ok, c) \<Rightarrow> (ok, s\<lparr>s_chan := c\<rparr>)))"

definition do_del_chunk :: "config \<Rightarrow> string list \<Rightarrow> session \<Rightarrow> bool \<times> session" where
  "do_del_chunk cfg f s =
     (if length f \<noteq> 2 then fail ''malformed-delchunk'' s
      else case chunk_path (cfg_root cfg) (f ! 1) of
        None \<Rightarrow> fail ''bad-chunk-id'' s
      | Some p \<Rightarrow> (case fs_remove (s_disk s) p of (_, d) \<Rightarrow> (True, say kOk (with_disk d s))))"

section \<open>Listing\<close>

definition show_int :: "int \<Rightarrow> string" where
  "show_int i = (if i < 0 then ''-'' else []) @ to_dec (nat \<bar>i\<bar>)"

definition list_entry :: "stored_file \<Rightarrow> string" where
  "list_entry e = to_dec (sf_size e) @ '' '' @ show_int (sf_modified e) @ '' '' @ sf_name e"

fun send_entries :: "channel \<Rightarrow> stored_file list \<Rightarrow> bool \<times> channel" where
  "send_entries c [] = (True, c)"
| "send_entries c (e # es) =
     (case ch_send_line c (list_entry e) of (ok, c) \<Rightarrow> if \<not> ok then (False, c) else send_entries c es)"

definition do_list :: "config \<Rightarrow> session \<Rightarrow> bool \<times> session" where
  "do_list cfg s =
     (let entries = list_files (s_disk s) (cfg_root cfg) (s_user s);
          s = say (kCount @ '' '' @ to_dec (length entries)) s
      in case send_entries (s_chan s) entries of (ok, c) \<Rightarrow> (ok, s\<lparr>s_chan := c\<rparr>))"

section \<open>The conversation\<close>

definition is_file_command :: "string \<Rightarrow> bool" where
  "is_file_command cmd \<longleftrightarrow>
     cmd = kStat \<or> cmd = kPutFile \<or> cmd = kGetFile \<or> cmd = kDelFile \<or> cmd = kList"

definition is_chunk_command :: "string \<Rightarrow> bool" where
  "is_chunk_command cmd \<longleftrightarrow> cmd = kPutChunk \<or> cmd = kGetChunk \<or> cmd = kDelChunk"

definition handle :: "'x openssl \<Rightarrow> config \<Rightarrow> string \<Rightarrow> session \<Rightarrow> bool \<times> session" where
  "handle E cfg line s =
     (let f = split line
      in if f = [] then (True, s)
      else
      let cmd = f ! 0
      in if cmd = kHello then (True, say (kOk @ '' '' @ kProtocol) s)
      else if cmd = kPing then (True, say kPong s)
      else if cmd = kQuit then (False, say kBye s)
      else if cmd = kLogin then do_login E cfg f s
      else if cmd = kAuth then do_auth cfg f s
      else if is_file_command cmd \<and> \<not> s_logged_in s then fail ''login-required'' s
      else if is_chunk_command cmd \<and> \<not> s_trusted s then fail ''token-required'' s
      else if cmd = kStat then do_stat cfg line s
      else if cmd = kPutFile then do_put_file cfg line s
      else if cmd = kGetFile then do_get_file cfg line s
      else if cmd = kDelFile then do_del_file cfg line s
      else if cmd = kPutChunk then do_put_chunk cfg f s
      else if cmd = kGetChunk then do_get_chunk cfg f s
      else if cmd = kDelChunk then do_del_chunk cfg f s
      else if cmd = kList then do_list cfg s
      else fail ''unknown-command'' s)"

section \<open>What a conversation does to the channel\<close>

text \<open>Input is only consumed, output is only added.\<close>

definition chan_step :: "channel \<Rightarrow> channel \<Rightarrow> bool" where
  "chan_step c c' \<longleftrightarrow> suffix (inp c') (inp c) \<and> prefix (outp c) (outp c')"

lemma chan_step_refl [simp]: "chan_step c c"
  by (simp add: chan_step_def)

lemma chan_step_trans: "chan_step a b \<Longrightarrow> chan_step b c \<Longrightarrow> chan_step a c"
  by (auto simp: chan_step_def)

lemma chan_step_length: "chan_step c c' \<Longrightarrow> length (inp c') \<le> length (inp c)"
  by (auto simp: chan_step_def intro: suffix_length_le)

lemma read_line_loop_step:
  "read_line_loop c out = (r, c') \<Longrightarrow>
     suffix (inp c') (inp c) \<and> outp c' = outp c \<and> (r \<noteq> None \<longrightarrow> length (inp c') < length (inp c))"
proof (induction c out rule: read_line_loop.induct)
  case (1 c out)
  obtain s c1 where s: "ssl_read c 1 = (s, c1)" by fastforce
  note IH = "1.IH" [OF refl s [symmetric]]
  have "read_line_loop c out =
      (if s = [] then (None, c1)
       else if hd s = newline then (Some out, c1)
       else if hd s = CHR 0x0D then read_line_loop c1 out
       else if kMaxLineLen \<le> length out then (None, c1)
       else read_line_loop c1 (out @ [hd s]))"
    by (subst read_line_loop.simps) (simp only: s Let_def prod.case)
  moreover have "suffix (inp c1) (inp c)" "outp c1 = outp c" "s \<noteq> [] \<Longrightarrow> length (inp c1) < length (inp c)"
    using ssl_read_result [OF s] by (auto simp: suffix_def)
  ultimately show ?case
    using "1.prems" IH by (auto split: if_splits intro: suffix_order.trans dest: order.strict_trans)
qed

lemma read_line_step: "ch_read_line c = (r, c') \<Longrightarrow> chan_step c c'"
  using read_line_loop_step [of c "[]" r c'] by (simp add: ch_read_line_def chan_step_def)

lemma read_line_consumes: "ch_read_line c = (Some l, c') \<Longrightarrow> length (inp c') < length (inp c)"
  using read_line_loop_step [of c "[]" "Some l" c'] by (simp add: ch_read_line_def)

lemma send_step: "ch_send c p = (ok, c') \<Longrightarrow> chan_step c c'"
  by (auto simp: chan_step_def dest!: ch_send_spec)

lemma send_line_step: "ch_send_line c l = (ok, c') \<Longrightarrow> chan_step c c'"
  by (auto simp: ch_send_line_def Let_def intro: send_step)

lemma recv_loop_suffix: "recv_loop c len got = (r, c') \<Longrightarrow> suffix (inp c') (inp c) \<and> outp c' = outp c"
proof (induction c len got rule: recv_loop.induct)
  case (1 c len got)
  show ?case
  proof (cases "length got < len")
    case True
    let ?want = "min (len - length got) kInt32Max"
    obtain s c1 where s: "ssl_read c ?want = (s, c1)" by fastforce
    have "suffix (inp c1) (inp c)" "outp c1 = outp c"
      using ssl_read_result [OF s] by (auto simp: suffix_def)
    with "1.prems" "1.IH" [OF True refl s [symmetric] refl] True s show ?thesis
      by (subst (asm) recv_loop.simps) (auto split: if_splits intro: suffix_order.trans)
  qed (use "1.prems" in \<open>simp add: recv_loop.simps\<close>)
qed

lemma recv_step: "ch_recv c n = (r, c') \<Longrightarrow> chan_step c c'"
  by (auto simp: ch_recv_def chan_step_def dest: recv_loop_suffix)

lemma drain_step: "drain_body c n = (ok, c') \<Longrightarrow> chan_step c c'"
proof (induction c n rule: drain_body.induct)
  case (1 c n)
  show ?case
    using "1.prems" "1.IH"
    by (subst (asm) drain_body.simps)
      (auto simp: Let_def split: if_splits prod.splits option.splits intro: recv_step chan_step_trans)
qed

lemma send_slices_step: "send_slices c s n = (ok, c') \<Longrightarrow> chan_step c c'"
proof (induction c s n rule: send_slices.induct)
  case (1 c s n)
  show ?case
    using "1.prems" "1.IH"
    by (subst (asm) send_slices.simps)
      (auto simp: Let_def split: if_splits prod.splits intro: send_step chan_step_trans)
qed

lemma receive_body_step: "receive_body c p out n = (ok, c', out') \<Longrightarrow> chan_step c c'"
proof (induction c p out n rule: receive_body.induct)
  case (1 c p out n)
  show ?case
    using "1.prems" "1.IH"
    by (subst (asm) receive_body.simps)
      (auto simp: Let_def split: if_splits prod.splits option.splits intro: recv_step chan_step_trans)
qed

lemma receive_loop_step: "receive_loop c p d n = (e, c', d') \<Longrightarrow> chan_step c c'"
proof (induction c p d n rule: receive_loop.induct)
  case (1 c p d n)
  show ?case
    using "1.prems" "1.IH"
    by (subst (asm) receive_loop.simps)
      (auto simp: Let_def split: if_splits prod.splits option.splits intro: recv_step chan_step_trans)
qed

lemma receive_to_file_step: "receive_to_file c d p n = (e, c', d') \<Longrightarrow> chan_step c c'"
  by (auto simp: receive_to_file_def dest: receive_loop_step split: prod.splits option.splits if_splits)

lemma read_headers_step: "read_headers c k hs = (r, c') \<Longrightarrow> chan_step c c'"
proof (induction c k hs rule: read_headers.induct)
  case (1 c k hs)
  show ?case
    using "1.prems" "1.IH"
    by (subst (asm) read_headers.simps)
      (auto simp: Let_def split: if_splits prod.splits option.splits intro: read_line_step chan_step_trans)
qed

lemma read_request_step: "read_request c l = (r, c') \<Longrightarrow> chan_step c c'"
  by (auto simp: read_request_def Let_def split: if_splits prod.splits option.splits sum.splits
      dest: read_headers_step)

lemma send_response_step: "send_response c st ct body extra = (ok, c') \<Longrightarrow> chan_step c c'"
  by (auto simp: send_response_def send_header_def split: if_splits prod.splits
      intro: send_step chan_step_trans)

lemma send_header_step: "send_header c st ct n extra = (ok, c') \<Longrightarrow> chan_step c c'"
  by (auto simp: send_header_def intro: send_step)

lemma respond_step: "respond c w st body = (ok, c', w') \<Longrightarrow> chan_step c c'"
  by (auto simp: respond_def split: prod.splits intro: send_response_step)

lemmas channel_steps = read_line_step send_step send_line_step recv_step drain_step send_slices_step
  receive_body_step receive_to_file_step read_request_step send_response_step send_header_step respond_step

lemma serve_steps:
  "serve_page page c w = (ok, c', w') \<Longrightarrow> chan_step c c'"
  "serve_logout c w rq = (ok, c', w') \<Longrightarrow> chan_step c c'"
  "serve_list root c w u = (ok, c', w') \<Longrightarrow> chan_step c c'"
  "serve_get_file root c w u n = (ok, c', w') \<Longrightarrow> chan_step c c'"
  "serve_delete_file root c w u n = (ok, c', w') \<Longrightarrow> chan_step c c'"
  "no_such_route c w rq = (ok, c', w') \<Longrightarrow> chan_step c c'"
  by (auto simp: serve_page_def serve_logout_def serve_list_def serve_get_file_def serve_delete_file_def
      no_such_route_def Let_def split: prod.splits if_splits option.splits
      dest!: channel_steps elim: chan_step_trans)

lemma serve_login_step: "serve_login E root c w rq = (ok, c', w') \<Longrightarrow> chan_step c c'"
  by (auto simp: serve_login_def Let_def split: prod.splits if_splits option.splits
      dest!: channel_steps elim: chan_step_trans)

lemma serve_put_step: "serve_put_file root c w rq u n = (ok, c', w') \<Longrightarrow> chan_step c c'"
  by (auto simp: serve_put_file_def Let_def split: prod.splits if_splits option.splits
      dest!: channel_steps elim: chan_step_trans)

lemma web_routes_step: "web_routes root c w rq u = (ok, c', w') \<Longrightarrow> chan_step c c'"
  by (auto simp: web_routes_def Let_def split: if_splits dest: serve_steps serve_put_step)

lemma web_handle_step: "web_handle E root page c w rq = (ok, c', w') \<Longrightarrow> chan_step c c'"
  by (auto simp: web_handle_def Let_def split: if_splits prod.splits option.splits
      dest: serve_steps serve_login_step web_routes_step dest!: drain_step respond_step elim: chan_step_trans)

text \<open>The same for the commands, over the session's channel.\<close>

lemma say_step [simp]: "chan_step (s_chan s) (s_chan (say l s))"
  by (cases "ch_send_line (s_chan s) l") (auto simp: say_def intro: send_line_step)

lemma say_fields [simp]:
  "s_world (say l s) = s_world s" "s_user (say l s) = s_user s"
  "s_logged_in (say l s) = s_logged_in s" "s_trusted (say l s) = s_trusted s"
  by (simp_all add: say_def)

lemma server_log_fields [simp]:
  "s_chan (server_log cfg m s) = s_chan s" "s_user (server_log cfg m s) = s_user s"
  "s_logged_in (server_log cfg m s) = s_logged_in s" "s_trusted (server_log cfg m s) = s_trusted s"
  "s_disk (server_log cfg m s) = s_disk s" "w_users (s_world (server_log cfg m s)) = w_users (s_world s)"
  "w_pool (s_world (server_log cfg m s)) = w_pool (s_world s)"
  by (simp_all add: server_log_def)

lemma with_disk_fields [simp]:
  "s_chan (with_disk d s) = s_chan s" "s_user (with_disk d s) = s_user s"
  "s_logged_in (with_disk d s) = s_logged_in s" "s_trusted (with_disk d s) = s_trusted s"
  "s_disk (with_disk d s) = d" "w_users (s_world (with_disk d s)) = w_users (s_world s)"
  "w_pool (s_world (with_disk d s)) = w_pool (s_world s)"
  by (simp_all add: with_disk_def)

lemma fail_fields:
  "fail r s = (ok, s') \<Longrightarrow> ok \<and> s' = say (kErr @ '' '' @ r) s"
  by (auto simp: fail_def)

lemma say_after: "chan_step c (s_chan s) \<Longrightarrow> chan_step c (s_chan (say l s))"
  by (rule chan_step_trans [OF _ say_step])

lemma send_entries_step: "send_entries c es = (ok, c') \<Longrightarrow> chan_step c c'"
  by (induction c es rule: send_entries.induct)
    (auto split: prod.splits if_splits intro: send_line_step chan_step_trans)

lemma send_from_file_step: "send_from_file c d p n = (ok, c') \<Longrightarrow> chan_step c c'"
  by (auto simp: send_from_file_def split: option.splits intro: send_slices_step)

lemma sent_after_say: "send_from_file (s_chan (say l s)) d p n = (ok, c') \<Longrightarrow> chan_step (s_chan s) c'"
  by (rule chan_step_trans [OF say_step send_from_file_step])

lemma entries_after_say: "send_entries (s_chan (say l s)) es = (ok, c') \<Longrightarrow> chan_step (s_chan s) c'"
  by (rule chan_step_trans [OF say_step send_entries_step])

lemmas command_defs = do_login_def do_auth_def do_stat_def do_put_file_def do_get_file_def do_del_file_def
  do_put_chunk_def do_get_chunk_def do_del_chunk_def do_list_def

lemma commands_step:
  "do_login E cfg f s = (ok, s') \<Longrightarrow> chan_step (s_chan s) (s_chan s')"
  "do_auth cfg f s = (ok, s') \<Longrightarrow> chan_step (s_chan s) (s_chan s')"
  "do_stat cfg l s = (ok, s') \<Longrightarrow> chan_step (s_chan s) (s_chan s')"
  "do_get_file cfg l s = (ok, s') \<Longrightarrow> chan_step (s_chan s) (s_chan s')"
  "do_del_file cfg l s = (ok, s') \<Longrightarrow> chan_step (s_chan s) (s_chan s')"
  "do_get_chunk cfg f s = (ok, s') \<Longrightarrow> chan_step (s_chan s) (s_chan s')"
  "do_del_chunk cfg f s = (ok, s') \<Longrightarrow> chan_step (s_chan s) (s_chan s')"
  "do_list cfg s = (ok, s') \<Longrightarrow> chan_step (s_chan s) (s_chan s')"
  by (auto simp: command_defs Let_def split: if_splits prod.splits option.splits
      dest!: fail_fields intro!: say_after dest: sent_after_say entries_after_say)

lemma put_commands_step:
  "do_put_file cfg l s = (ok, s') \<Longrightarrow> chan_step (s_chan s) (s_chan s')"
  "do_put_chunk cfg f s = (ok, s') \<Longrightarrow> chan_step (s_chan s) (s_chan s')"
  by (auto simp: command_defs Let_def split: if_splits prod.splits option.splits
      dest!: fail_fields receive_to_file_step intro!: say_after)

lemma handle_step: "handle E cfg line s = (ok, s') \<Longrightarrow> chan_step (s_chan s) (s_chan s')"
  by (auto simp: handle_def Let_def split: if_splits dest!: fail_fields
      dest: commands_step put_commands_step)

section \<open>Whole connections\<close>

text \<open>Every turn of the two loops reads a line, so the input that is left is a measure.\<close>

function session_loop :: "'x openssl \<Rightarrow> config \<Rightarrow> session \<Rightarrow> session" where
  "session_loop E cfg s =
     (case ch_read_line (s_chan s) of
        (None, c) \<Rightarrow> s\<lparr>s_chan := c\<rparr>
      | (Some line, c) \<Rightarrow>
          (case handle E cfg line (s\<lparr>s_chan := c\<rparr>) of (ok, s) \<Rightarrow> if ok then session_loop E cfg s else s))"
  by pat_completeness auto
termination
proof (relation "measure (\<lambda>(E, cfg, s). length (inp (s_chan s)))")
  fix E :: "'x openssl" and cfg s r c line ok s'
  assume "(r, c) = ch_read_line (s_chan s)" "r = Some line" "(ok, s') = handle E cfg line (s\<lparr>s_chan := c\<rparr>)"
  then have "length (inp c) < length (inp (s_chan s))" "length (inp (s_chan s')) \<le> length (inp c)"
    using read_line_consumes [of "s_chan s" line c] chan_step_length [OF handle_step [of E cfg line "s\<lparr>s_chan := c\<rparr>" ok s']]
    by auto
  then show "((E, cfg, s'), E, cfg, s) \<in> measure (\<lambda>(E, cfg, s). length (inp (s_chan s)))" by simp
qed auto

declare session_loop.simps [simp del]

function run_http :: "'x openssl \<Rightarrow> config \<Rightarrow> string \<Rightarrow> channel \<Rightarrow> world \<Rightarrow> channel \<times> world" where
  "run_http E cfg line c w =
     (case read_request c line of
        (Inl _, c) \<Rightarrow> (c, w)
      | (Inr rq, c) \<Rightarrow>
      case web_handle E (cfg_root cfg) (cfg_page cfg) c w rq of (ok, c, w) \<Rightarrow>
      if \<not> ok then (c, w)
      else case ch_read_line c of
        (None, c) \<Rightarrow> (c, w)
      | (Some line, c) \<Rightarrow> if \<not> looks_like_http line then (c, w) else run_http E cfg line c w)"
  by pat_completeness auto
termination
proof (relation "measure (\<lambda>(E, cfg, line, c, w). length (inp c))")
  fix E :: "'x openssl" and cfg line c w r c1 rq ok cw c2 w2 r2 c3 line2
  assume a: "(r, c1) = read_request c line" "r = Inr rq"
    "(ok, cw) = web_handle E (cfg_root cfg) (cfg_page cfg) c1 w rq" "(c2, w2) = cw"
    "(r2, c3) = ch_read_line c2" "r2 = Some line2"
  have "length (inp c1) \<le> length (inp c)"
    using chan_step_length [OF read_request_step] a(1) by metis
  moreover have "length (inp c2) \<le> length (inp c1)"
    using chan_step_length [OF web_handle_step] a(3,4) by metis
  moreover have "length (inp c3) < length (inp c2)"
    using read_line_consumes [of c2 line2 c3] a(5,6) by simp
  ultimately show "((E, cfg, line2, c3, w2), E, cfg, line, c, w) \<in> measure (\<lambda>(E, cfg, line, c, w). length (inp c))"
    by simp
qed auto

declare run_http.simps [simp del]

definition run :: "'x openssl \<Rightarrow> config \<Rightarrow> channel \<Rightarrow> world \<Rightarrow> channel \<times> world" where
  "run E cfg c w =
     (case ch_read_line c of
        (None, c) \<Rightarrow> (c, w)
      | (Some line, c) \<Rightarrow>
          if looks_like_http line then run_http E cfg line c w
          else case handle E cfg line (new_session c w) of (ok, s) \<Rightarrow>
            let s = (if ok then session_loop E cfg s else s)
            in (s_chan s, s_world s))"

section \<open>What a command does to the files and chunks\<close>

lemma receive_loop_touches: "receive_loop c p d n = (e, c', d') \<Longrightarrow> touches {p} d d'"
proof (induction c p d n rule: receive_loop.induct)
  case (1 c p d n)
  show ?case
    using "1.prems" "1.IH"
    by (subst (asm) receive_loop.simps)
      (auto simp: Let_def split: if_splits prod.splits option.splits intro: touches_append
        touches_trans [OF touches_append])
qed

lemma receive_loop_spec:
  "receive_loop c p d n = (None, c', d') \<Longrightarrow> fs_read d p = Some c0 \<Longrightarrow>
     \<exists>s. length s = n \<and> inp c = s @ inp c' \<and> outp c' = outp c \<and> fs_read d' p = Some (c0 @ s)"
proof (induction n arbitrary: c d c0 rule: less_induct)
  case (less n)
  show ?case
  proof (cases "0 < n")
    case False
    with less.prems show ?thesis by (simp add: receive_loop.simps)
  next
    case True
    let ?k = "min kIoBufferSize n"
    have k: "n - ?k < n" "?k \<le> n" using True by (simp_all add: kIoBufferSize_def)
    obtain s c1 d1 where r: "ch_recv c ?k = (Some s, c1)" and a: "fs_append d p s = (True, d1)"
      and run: "receive_loop c1 p d1 (n - ?k) = (None, c', d')"
      using less.prems(1) True
      by (subst (asm) receive_loop.simps) (auto simp: Let_def split: option.splits prod.splits if_splits)
    note recv = ch_recv_spec [OF r, simplified]
    from less.IH [OF k(1) run append_effect [OF a less.prems(2)]] obtain s' where
      "length s' = n - ?k" "inp c1 = s' @ inp c'" "outp c' = outp c1" "fs_read d' p = Some ((c0 @ s) @ s')"
      by blast
    with recv k(2) show ?thesis by (intro exI [of _ "s @ s'"]) auto
  qed
qed

lemma receive_loop_outp: "receive_loop c p d n = (e, c', d') \<Longrightarrow> outp c' = outp c"
proof (induction c p d n rule: receive_loop.induct)
  case (1 c p d n)
  show ?case
    using "1.prems" "1.IH"
    by (subst (asm) receive_loop.simps)
      (auto simp: Let_def split: if_splits prod.splits option.splits dest!: ch_recv_spec)
qed

lemma receive_to_file_outp: "receive_to_file c d p n = (e, c', d') \<Longrightarrow> outp c' = outp c"
  by (auto simp: receive_to_file_def dest: receive_loop_outp split: prod.splits option.splits if_splits)

lemma receive_to_file_touches: "receive_to_file c d p n = (e, c', d') \<Longrightarrow> touches {p} d d'"
proof -
  assume r: "receive_to_file c d p n = (e, c', d')"
  obtain ok d1 where cr: "fs_create d p = (ok, d1)" by fastforce
  obtain e2 c2 d2 where l: "receive_loop c p d1 n = (e2, c2, d2)" by (metis prod_cases3)
  obtain ok3 d3 where f: "fs_flush d2 p = (ok3, d3)" by fastforce
  have "touches {p} d d2" "touches {p} d d3"
    using touches_trans [OF touches_create [OF cr] receive_loop_touches [OF l]]
      touches_trans [OF _ touches_flush [OF f]] by blast+
  with r touches_create [OF cr] show ?thesis
    by (auto simp: receive_to_file_def cr l f split: if_splits option.splits)
qed

lemma receive_to_file_spec:
  assumes "receive_to_file c d p n = (None, c', d')"
  shows "\<exists>s. length s = n \<and> inp c = s @ inp c' \<and> outp c' = outp c \<and> fs_read d' p = Some s"
proof -
  from assms obtain d1 d2 where cr: "fs_create d p = (True, d1)"
    and l: "receive_loop c p d1 n = (None, c', d2)" and f: "fs_flush d2 p = (True, d')"
    by (auto simp: receive_to_file_def split: if_splits option.splits prod.splits)
  from receive_loop_spec [OF l create_effect [OF cr]] flush_effect [OF f] show ?thesis by simp
qed

lemma do_put_file_effect:
  assumes "do_put_file cfg line s = (ok, s')"
  shows "s_disk s' = s_disk s \<or>
    (\<exists>n. length (split_n line 4) = 4 \<and> parse_size (split_n line 4 ! 1) kMaxTransferSize = Some n \<and>
      upload_effect (cfg_root cfg) (s_user s) (split_n line 4 ! 3) (inp (s_chan s)) (unat n) (s_disk s) (s_disk s'))"
proof -
  let ?f = "split_n line 4" and ?root = "cfg_root cfg"
  consider "\<exists>r. fail r s = (ok, s')" | n final where "length ?f = 4"
      "parse_size (?f ! 1) kMaxTransferSize = Some n" "file_path ?root (s_user s) (?f ! 3) = Some final"
    using assms by (auto simp: do_put_file_def Let_def split: if_splits option.splits)
  then show ?thesis
  proof cases
    case 1
    then show ?thesis by (auto dest: fail_fields)
  next
    case 2
    obtain temp pool where temp: "temp_path ?root (w_pool (s_world s)) = (temp, pool)" by fastforce
    then have tmp: "in_tmp ?root temp" by (rule temp_path_in_tmp)
    obtain e c1 d1 where rf: "receive_to_file (s_chan s) (s_disk s) temp (unat n) = (e, c1, d1)" by (metis prod_cases3)
    obtain x2 d2 where rm: "fs_remove d1 temp = (x2, d2)" by fastforce
    obtain ok3 d3 where co: "commit_upload d1 temp final = (ok3, d3)" by fastforce
    obtain x4 d4 where wt: "write_tag d3 ?root (s_user s) (?f ! 3) (?f ! 2) = (x4, d4)" by fastforce
    let ?effect = "upload_effect ?root (s_user s) (?f ! 3) (inp (s_chan s)) (unat n) (s_disk s)"
    have t1: "touches {temp} (s_disk s) d1" using receive_to_file_touches [OF rf] .
    then have t2: "?effect d2" using touches_trans [OF t1 touches_remove [OF rm]] tmp upload_effect_none by blast
    have "?effect d3 \<and> ?effect d4" if none: "e = None"
    proof -
      obtain b where b: "length b = unat n" "inp (s_chan s) = b @ inp c1" "fs_read d1 temp = Some b"
        using receive_to_file_spec rf none by blast
      then have r: "\<exists>r. inp (s_chan s) = b @ r" by blast
      note commit = upload_effect_commit [OF t1 tmp 2(3) b(3,1) r co]
      have "?effect d3" by (rule commit) simp_all
      moreover have "?effect d4"
        using write_tag_own [OF wt] write_tag_stored [OF wt] by (intro commit) auto
      ultimately show ?thesis ..
    qed
    with t2 assms 2 show ?thesis
      by (auto simp: do_put_file_def Let_def temp rf rm co wt split: if_splits dest!: fail_fields)
  qed
qed

text \<open>Chunks: the files of no account are touched.\<close>

definition chunk_paths :: "store \<Rightarrow> path set" where
  "chunk_paths root = {p. in_tmp root p \<or> (\<exists>i. chunk_path root i = Some p)}"

lemma chunk_paths_file: "file_path root u n = Some p \<Longrightarrow> p \<notin> chunk_paths root"
  by (auto simp: file_path_eq chunk_paths_def chunk_path_eq in_tmp_def store_tmp_def butlast_append split: if_splits)

lemma chunk_paths_stored: "touches (chunk_paths root) d d' \<Longrightarrow> stored d' root u n = stored d root u n"
  unfolding stored_blob by (rule account_files.blob_touches) (auto simp: chunk_paths_file)

lemma one_chunk_path:
  assumes "touches {p} d d'" and "chunk_path root i = Some p" and "j \<noteq> i"
  shows "stored_chunk d' root j = stored_chunk d root j"
  unfolding stored_chunk_blob
  by (rule chunk_area.blob_touches [OF assms(1)]) (use assms(2,3) chunk_area.path_inj in blast)

lemma temp_keeps_chunk: "touches {temp} d d' \<Longrightarrow> in_tmp root temp \<Longrightarrow> stored_chunk d' root i = stored_chunk d root i"
  unfolding stored_chunk_blob by (rule chunk_area.temporary_keeps)

lemma commit_chunk:
  assumes "commit_upload d temp final = (ok, d')" and "in_tmp root temp" and "chunk_path root i = Some final"
  shows "(ok \<longrightarrow> stored_chunk d' root i = fs_read d temp) \<and>
    (\<not> ok \<longrightarrow> stored_chunk d' root i = stored_chunk d root i) \<and>
    (\<forall>j. j \<noteq> i \<longrightarrow> stored_chunk d' root j = stored_chunk d root j)"
  using assms chunk_area.commit_stores [of d temp final d' root i] chunk_area.commit_fails [of d temp final d' root]
  by (cases ok) (auto simp: stored_chunk_blob)

definition chunk_effect :: "store \<Rightarrow> string \<Rightarrow> string \<Rightarrow> nat \<Rightarrow> disk \<Rightarrow> disk \<Rightarrow> bool" where
  "chunk_effect root i arrived n d d' \<longleftrightarrow>
     touches (chunk_paths root) d d' \<and>
     (stored_chunk d' root i = stored_chunk d root i \<or>
      n \<le> length arrived \<and> stored_chunk d' root i = Some (take n arrived)) \<and>
     (\<forall>j. j \<noteq> i \<longrightarrow> stored_chunk d' root j = stored_chunk d root j)"

lemma do_put_chunk_effect:
  assumes "do_put_chunk cfg f s = (ok, s')"
  shows "s_disk s' = s_disk s \<or>
    (\<exists>n. length f = 3 \<and> parse_size (f ! 2) kMaxTransferSize = Some n \<and>
      chunk_effect (cfg_root cfg) (f ! 1) (inp (s_chan s)) (unat n) (s_disk s) (s_disk s'))"
proof -
  let ?root = "cfg_root cfg"
  consider "\<exists>r. fail r s = (ok, s')" | n final where "length f = 3"
      "parse_size (f ! 2) kMaxTransferSize = Some n" "chunk_path ?root (f ! 1) = Some final"
    using assms by (auto simp: do_put_chunk_def Let_def split: if_splits option.splits)
  then show ?thesis
  proof cases
    case 1
    then show ?thesis by (auto dest: fail_fields)
  next
    case 2
    obtain temp pool where temp: "temp_path ?root (w_pool (s_world s)) = (temp, pool)" by fastforce
    then have tmp: "in_tmp ?root temp" by (rule temp_path_in_tmp)
    obtain e c1 d1 where rf: "receive_to_file (s_chan s) (s_disk s) temp (unat n) = (e, c1, d1)" by (metis prod_cases3)
    obtain x2 d2 where rm: "fs_remove d1 temp = (x2, d2)" by fastforce
    obtain ok3 d3 where co: "commit_upload d1 temp final = (ok3, d3)" by fastforce
    have t1: "touches {temp} (s_disk s) d1" using receive_to_file_touches [OF rf] .
    have t2: "touches {temp} (s_disk s) d2" using touches_trans [OF t1 touches_remove [OF rm]] .
    have t3: "touches {temp, final} (s_disk s) d3"
      using touches_trans [OF touches_mono [OF t1] commit_touches [OF co]] by blast
    have own: "{temp} \<subseteq> chunk_paths ?root" "{temp, final} \<subseteq> chunk_paths ?root"
      using tmp 2(3) by (auto simp: chunk_paths_def)
    have d2: "chunk_effect ?root (f ! 1) (inp (s_chan s)) (unat n) (s_disk s) d2"
      using touches_mono [OF t2 own(1)] temp_keeps_chunk [OF t2 tmp] by (simp add: chunk_effect_def)
    have "chunk_effect ?root (f ! 1) (inp (s_chan s)) (unat n) (s_disk s) d3" if none: "e = None"
    proof -
      obtain b where b: "length b = unat n" "inp (s_chan s) = b @ inp c1" "fs_read d1 temp = Some b"
        using receive_to_file_spec rf none by blast
      with touches_mono [OF t3 own(2)] temp_keeps_chunk [OF t1 tmp] commit_chunk [OF co tmp 2(3)]
      show ?thesis by (cases ok3) (auto simp: chunk_effect_def)
    qed
    with d2 assms 2 show ?thesis
      by (auto simp: do_put_chunk_def Let_def temp rf rm co split: if_splits dest!: fail_fields)
  qed
qed

lemma do_del_chunk_effect:
  assumes "do_del_chunk cfg f s = (ok, s')"
  shows "touches (chunk_paths (cfg_root cfg)) (s_disk s) (s_disk s') \<and>
    (\<forall>i. i \<noteq> f ! 1 \<longrightarrow> stored_chunk (s_disk s') (cfg_root cfg) i = stored_chunk (s_disk s) (cfg_root cfg) i)"
proof (cases "length f = 2 \<and> chunk_path (cfg_root cfg) (f ! 1) \<noteq> None")
  case False
  with assms show ?thesis by (auto simp: do_del_chunk_def dest!: fail_fields split: if_splits)
next
  case True
  then obtain p where p: "chunk_path (cfg_root cfg) (f ! 1) = Some p" by blast
  obtain x d where r: "fs_remove (s_disk s) p = (x, d)" by fastforce
  have "touches (chunk_paths (cfg_root cfg)) (s_disk s) d"
    by (rule touches_mono [OF touches_remove [OF r]]) (use p in \<open>auto simp: chunk_paths_def\<close>)
  with assms True p r one_chunk_path [OF touches_remove [OF r] p] show ?thesis
    by (auto simp: do_del_chunk_def)
qed

lemma do_del_file_disk:
  "do_del_file cfg line s = (ok, s') \<Longrightarrow>
     s_disk s' = s_disk s \<or> length (split_n line 2) = 2 \<and>
     (\<exists>ex. remove_file (s_disk s) (cfg_root cfg) (s_user s) (split_n line 2 ! 1) = (ex, s_disk s'))"
  by (auto simp: do_del_file_def Let_def dest!: fail_fields split: if_splits prod.splits)

lemma do_login_disk: "do_login E cfg f s = (ok, s') \<Longrightarrow> touches {} (s_disk s) (s_disk s')"
  by (auto simp: do_login_def Let_def with_disk_def dest!: fail_fields ensure_account_touches
      split: if_splits prod.splits)

lemma quiet_commands:
  "do_auth cfg f s = (ok, s') \<Longrightarrow> s_disk s' = s_disk s"
  "do_stat cfg line s = (ok, s') \<Longrightarrow> s_disk s' = s_disk s"
  "do_get_file cfg line s = (ok, s') \<Longrightarrow> s_disk s' = s_disk s"
  "do_get_chunk cfg f s = (ok, s') \<Longrightarrow> s_disk s' = s_disk s"
  "do_list cfg s = (ok, s') \<Longrightarrow> s_disk s' = s_disk s"
  by (auto simp: command_defs Let_def dest!: fail_fields split: if_splits prod.splits option.splits)

lemma chunk_effect_stored: "chunk_effect root i a n d d' \<Longrightarrow> stored d' root u m = stored d root u m"
  by (simp add: chunk_effect_def chunk_paths_stored)

lemma upload_effect_chunk: "upload_effect root u n a k d d' \<Longrightarrow> stored_chunk d' root i = stored_chunk d root i"
  by (auto simp: upload_effect_def intro: own_chunks)

lemma upload_effect_cases:
  assumes "upload_effect root u n a k d d'" and "stored d' root v m \<noteq> stored d root v m"
  shows "v = u \<and> m = n \<and> k \<le> length a \<and> stored d' root v m = Some (take k a)"
  using assms own_stored [of root u d d' v m] by (cases "v = u"; cases "m = n") (auto simp: upload_effect_def)

text \<open>The parts of a line that decide what a command may change.\<close>

definition asks_put_file :: "string \<Rightarrow> string \<Rightarrow> u64 \<Rightarrow> bool" where
  "asks_put_file line name n \<longleftrightarrow> split line ! 0 = kPutFile \<and> length (split_n line 4) = 4 \<and>
     split_n line 4 ! 3 = name \<and> parse_size (split_n line 4 ! 1) kMaxTransferSize = Some n"

definition asks_delete_file :: "string \<Rightarrow> string \<Rightarrow> bool" where
  "asks_delete_file line name \<longleftrightarrow> split line ! 0 = kDelFile \<and> length (split_n line 2) = 2 \<and> split_n line 2 ! 1 = name"

definition asks_put_chunk :: "string \<Rightarrow> string \<Rightarrow> u64 \<Rightarrow> bool" where
  "asks_put_chunk line i n \<longleftrightarrow> (\<exists>size. split line = [kPutChunk, i, size] \<and> parse_size size kMaxTransferSize = Some n)"

definition asks_delete_chunk :: "string \<Rightarrow> string \<Rightarrow> bool" where
  "asks_delete_chunk line i \<longleftrightarrow> split line = [kDelChunk, i]"

lemma list_of_length:
  "length f = 2 \<Longrightarrow> f = [f ! 0, f ! 1]" "length f = 3 \<Longrightarrow> f = [f ! 0, f ! 1, f ! 2]"
  by (auto simp: length_Suc_conv numeral_eq_Suc)

lemma handle_dispatch:
  assumes "handle E cfg line s = (ok, s')"
  defines "f \<equiv> split line"
  shows "f = [] \<and> s' = s \<or> (\<exists>l. s' = say l s) \<or> (\<exists>r. fail r s = (ok, s')) \<or>
    f ! 0 = kLogin \<and> do_login E cfg f s = (ok, s') \<or> f ! 0 = kAuth \<and> do_auth cfg f s = (ok, s') \<or>
    do_stat cfg line s = (ok, s') \<or> do_get_file cfg line s = (ok, s') \<or>
    do_get_chunk cfg f s = (ok, s') \<or> do_list cfg s = (ok, s') \<or>
    s_logged_in s \<and> f ! 0 = kPutFile \<and> do_put_file cfg line s = (ok, s') \<or>
    s_logged_in s \<and> f ! 0 = kDelFile \<and> do_del_file cfg line s = (ok, s') \<or>
    s_trusted s \<and> f ! 0 = kPutChunk \<and> do_put_chunk cfg f s = (ok, s') \<or>
    s_trusted s \<and> f ! 0 = kDelChunk \<and> do_del_chunk cfg f s = (ok, s')"
  using assms(1) unfolding handle_def Let_def is_file_command_def is_chunk_command_def f_def
  by (simp split: if_split_asm) blast+

lemma handle_cases:
  assumes "handle E cfg line s = (ok, s')"
  obtains "touches {} (s_disk s) (s_disk s')"
  | "s_logged_in s" "split line ! 0 = kPutFile" "do_put_file cfg line s = (ok, s')"
  | "s_logged_in s" "split line ! 0 = kDelFile" "do_del_file cfg line s = (ok, s')"
  | "s_trusted s" "split line ! 0 = kPutChunk" "do_put_chunk cfg (split line) s = (ok, s')"
  | "s_trusted s" "split line ! 0 = kDelChunk" "do_del_chunk cfg (split line) s = (ok, s')"
proof -
  let ?f = "split line" and ?cmd = "split line ! 0"
  from handle_dispatch [OF assms] have "touches {} (s_disk s) (s_disk s') \<or>
      s_logged_in s \<and> ?cmd = kPutFile \<and> do_put_file cfg line s = (ok, s') \<or>
      s_logged_in s \<and> ?cmd = kDelFile \<and> do_del_file cfg line s = (ok, s') \<or>
      s_trusted s \<and> ?cmd = kPutChunk \<and> do_put_chunk cfg ?f s = (ok, s') \<or>
      s_trusted s \<and> ?cmd = kDelChunk \<and> do_del_chunk cfg ?f s = (ok, s')"
    by (elim disjE) (auto dest: fail_fields do_login_disk quiet_commands)
  with that show thesis by blast
qed

lemma handle_changes:
  assumes "handle E cfg line s = (ok, s')"
  shows "(stored (s_disk s') (cfg_root cfg) v m \<noteq> stored (s_disk s) (cfg_root cfg) v m \<longrightarrow>
      s_logged_in s \<and> v = s_user s \<and>
      (asks_delete_file line m \<or>
       (\<exists>n. asks_put_file line m n \<and> unat n \<le> length (inp (s_chan s)) \<and>
          stored (s_disk s') (cfg_root cfg) v m = Some (take (unat n) (inp (s_chan s)))))) \<and>
    (stored_chunk (s_disk s') (cfg_root cfg) i \<noteq> stored_chunk (s_disk s) (cfg_root cfg) i \<longrightarrow>
      s_trusted s \<and>
      (asks_delete_chunk line i \<or>
       (\<exists>n. asks_put_chunk line i n \<and> unat n \<le> length (inp (s_chan s)) \<and>
          stored_chunk (s_disk s') (cfg_root cfg) i = Some (take (unat n) (inp (s_chan s))))))"
  using assms
proof (cases rule: handle_cases)
  case 1
  then show ?thesis by (simp add: touches_empty_stored touches_empty_chunk)
next
  case 2
  from do_put_file_effect [OF 2(3)] show ?thesis
  proof
    assume "\<exists>n. length (split_n line 4) = 4 \<and> parse_size (split_n line 4 ! 1) kMaxTransferSize = Some n \<and>
      upload_effect (cfg_root cfg) (s_user s) (split_n line 4 ! 3) (inp (s_chan s)) (unat n) (s_disk s) (s_disk s')"
    then obtain n where n: "asks_put_file line (split_n line 4 ! 3) n"
      and e: "upload_effect (cfg_root cfg) (s_user s) (split_n line 4 ! 3) (inp (s_chan s)) (unat n) (s_disk s) (s_disk s')"
      using 2(2) by (auto simp: asks_put_file_def)
    from upload_effect_cases [OF e] upload_effect_chunk [OF e] n 2(1) show ?thesis by metis
  qed simp
next
  case 3
  from do_del_file_disk [OF 3(3)] show ?thesis
  proof
    assume "length (split_n line 2) = 2 \<and>
     (\<exists>ex. remove_file (s_disk s) (cfg_root cfg) (s_user s) (split_n line 2 ! 1) = (ex, s_disk s'))"
    then obtain ex where len: "length (split_n line 2) = 2"
      and r: "remove_file (s_disk s) (cfg_root cfg) (s_user s) (split_n line 2 ! 1) = (ex, s_disk s')" by blast
    with remove_file_others [OF r] own_chunks [OF remove_file_touches [OF r]] 3 show ?thesis
      by (auto simp: asks_delete_file_def)
  qed simp
next
  case 4
  from do_put_chunk_effect [OF 4(3)] show ?thesis
  proof
    assume "\<exists>n. length (split line) = 3 \<and> parse_size (split line ! 2) kMaxTransferSize = Some n \<and>
      chunk_effect (cfg_root cfg) (split line ! 1) (inp (s_chan s)) (unat n) (s_disk s) (s_disk s')"
    then obtain n where n: "asks_put_chunk line (split line ! 1) n"
      and e: "chunk_effect (cfg_root cfg) (split line ! 1) (inp (s_chan s)) (unat n) (s_disk s) (s_disk s')"
      using 4(2) list_of_length(2) [of "split line"] by (auto simp: asks_put_chunk_def)
    from e [unfolded chunk_effect_def] chunk_effect_stored [OF e] n 4(1) show ?thesis by metis
  qed simp
next
  case 5
  show ?thesis
  proof (cases "length (split line) = 2")
    case True
    with 5(2) have "asks_delete_chunk line (split line ! 1)"
      using list_of_length(1) [of "split line"] by (simp add: asks_delete_chunk_def)
    with do_del_chunk_effect [OF 5(3)] 5(1) chunk_paths_stored show ?thesis by metis
  next
    case False
    with 5(3) show ?thesis by (auto simp: do_del_chunk_def dest!: fail_fields)
  qed
qed

text \<open>C7: who can change what.\<close>

theorem handle_authorised:
  assumes "handle E cfg line s = (ok, s')"
  shows "(stored (s_disk s') (cfg_root cfg) v m \<noteq> stored (s_disk s) (cfg_root cfg) v m \<longrightarrow>
      s_logged_in s \<and> v = s_user s \<and>
      (asks_delete_file line m \<or>
       (\<exists>n. asks_put_file line m n \<and> unat n \<le> length (inp (s_chan s)) \<and>
          stored (s_disk s') (cfg_root cfg) v m = Some (take (unat n) (inp (s_chan s)))))) \<and>
    (stored_chunk (s_disk s') (cfg_root cfg) i \<noteq> stored_chunk (s_disk s) (cfg_root cfg) i \<longrightarrow>
      s_trusted s \<and>
      (asks_delete_chunk line i \<or>
       (\<exists>n. asks_put_chunk line i n \<and> unat n \<le> length (inp (s_chan s)) \<and>
          stored_chunk (s_disk s') (cfg_root cfg) i = Some (take (unat n) (inp (s_chan s))))))"
  using assms by (rule handle_changes)

section \<open>Who a connection speaks for\<close>

text \<open>
  The conversation as a step relation: a line is read and handled, or other connections change
  what is shared. What a connection may do rests on two flags and a name; only a password or the
  token that verified sets them.
\<close>

inductive converses :: "'x openssl \<Rightarrow> config \<Rightarrow> session \<Rightarrow> session \<Rightarrow> bool" for E cfg s0 where
  start: "converses E cfg s0 s0"
| handled: "converses E cfg s0 s \<Longrightarrow> ch_read_line (s_chan s) = (Some line, c) \<Longrightarrow>
    handle E cfg line (s\<lparr>s_chan := c\<rparr>) = (True, s') \<Longrightarrow> converses E cfg s0 s'"
| others: "converses E cfg s0 s \<Longrightarrow> converses E cfg s0 (s\<lparr>s_world := w\<rparr>)"

text \<open>The loop of the code goes through states of this relation only.\<close>

lemma session_loop_converses:
  "converses E cfg s0 s \<Longrightarrow> \<exists>m. converses E cfg s0 m \<and>
     (session_loop E cfg s = m\<lparr>s_chan := snd (ch_read_line (s_chan m))\<rparr> \<or>
      (\<exists>line c. ch_read_line (s_chan m) = (Some line, c) \<and>
         handle E cfg line (m\<lparr>s_chan := c\<rparr>) = (False, session_loop E cfg s)))"
proof (induction E cfg s rule: session_loop.induct)
  case (1 E cfg s)
  obtain r c where r: "ch_read_line (s_chan s) = (r, c)" by fastforce
  show ?case
  proof (cases r)
    case None
    with r "1.prems" show ?thesis by (subst session_loop.simps) (intro exI [of _ s], simp)
  next
    case (Some line)
    obtain ok s' where h: "handle E cfg line (s\<lparr>s_chan := c\<rparr>) = (ok, s')" by fastforce
    show ?thesis
    proof (cases ok)
      case True
      with "1.prems" r Some h have "converses E cfg s0 s'" by (auto intro: converses.handled)
      from "1.IH" [OF r [symmetric] Some h [symmetric] True this] show ?thesis
        using r Some h True by (subst (1 2) session_loop.simps) simp
    next
      case False
      with "1.prems" r Some h show ?thesis
        by (subst (1 2) session_loop.simps) (intro exI [of _ s], simp)
    qed
  qed
qed

text \<open>A connection that does not speak HTTP is the loop from a fresh session.\<close>

lemma run_is_loop:
  assumes "ch_read_line c = (r, c1)" and "r \<noteq> None \<longrightarrow> \<not> looks_like_http (the r)"
  shows "run E cfg c w = (let s = session_loop E cfg (new_session c w) in (s_chan s, s_world s))"
proof (cases r)
  case None
  with assms show ?thesis by (simp add: run_def session_loop.simps new_session_def)
next
  case (Some line)
  have "new_session c w\<lparr>s_chan := c1\<rparr> = new_session c1 w" by (simp add: new_session_def)
  with assms Some show ?thesis
    by (subst session_loop.simps) (simp add: run_def new_session_def Let_def split: prod.split)
qed

lemma quiet_identity:
  "fail r s = (ok, s') \<Longrightarrow> s_logged_in s' = s_logged_in s \<and> s_user s' = s_user s \<and> s_trusted s' = s_trusted s"
  "do_stat cfg line s = (ok, s') \<Longrightarrow> s_logged_in s' = s_logged_in s \<and> s_user s' = s_user s \<and> s_trusted s' = s_trusted s"
  "do_get_file cfg line s = (ok, s') \<Longrightarrow> s_logged_in s' = s_logged_in s \<and> s_user s' = s_user s \<and> s_trusted s' = s_trusted s"
  "do_del_file cfg line s = (ok, s') \<Longrightarrow> s_logged_in s' = s_logged_in s \<and> s_user s' = s_user s \<and> s_trusted s' = s_trusted s"
  "do_get_chunk cfg f s = (ok, s') \<Longrightarrow> s_logged_in s' = s_logged_in s \<and> s_user s' = s_user s \<and> s_trusted s' = s_trusted s"
  "do_del_chunk cfg f s = (ok, s') \<Longrightarrow> s_logged_in s' = s_logged_in s \<and> s_user s' = s_user s \<and> s_trusted s' = s_trusted s"
  "do_list cfg s = (ok, s') \<Longrightarrow> s_logged_in s' = s_logged_in s \<and> s_user s' = s_user s \<and> s_trusted s' = s_trusted s"
  by (auto simp: command_defs fail_def Let_def split: if_splits prod.splits option.splits)

lemma put_identity:
  "do_put_file cfg line s = (ok, s') \<Longrightarrow> s_logged_in s' = s_logged_in s \<and> s_user s' = s_user s \<and> s_trusted s' = s_trusted s"
  "do_put_chunk cfg f s = (ok, s') \<Longrightarrow> s_logged_in s' = s_logged_in s \<and> s_user s' = s_user s \<and> s_trusted s' = s_trusted s"
  by (auto simp: command_defs fail_def Let_def split: if_splits prod.splits option.splits)

definition verifies :: "'x openssl \<Rightarrow> session \<Rightarrow> string \<Rightarrow> string \<Rightarrow> bool" where
  "verifies E s u pw = fst (users_verify E (w_pool (s_world s)) (s_disk s) (w_users (s_world s)) u pw)"

lemma do_login_identity:
  "do_login E cfg f s = (ok, s') \<Longrightarrow> s_trusted s' = s_trusted s \<and>
     (s_logged_in s' = s_logged_in s \<and> s_user s' = s_user s \<or>
      s_logged_in s' \<and> length f = 3 \<and> s_user s' = f ! 1 \<and> verifies E s (f ! 1) (f ! 2))"
  by (auto simp: do_login_def Let_def verifies_def dest!: fail_fields split: if_splits prod.splits)

lemma do_auth_identity:
  "do_auth cfg f s = (ok, s') \<Longrightarrow> s_logged_in s' = s_logged_in s \<and> s_user s' = s_user s \<and>
     (s_trusted s' = s_trusted s \<or> s_trusted s' \<and> length f = 2 \<and> f ! 1 = cfg_token cfg)"
  by (auto simp: do_auth_def secure_equal_iff dest!: fail_fields split: if_splits)

lemma handle_identity:
  assumes "handle E cfg line s = (ok, s')"
  shows "(s_logged_in s' = s_logged_in s \<and> s_user s' = s_user s \<or>
      (\<exists>pw. split line = [kLogin, s_user s', pw] \<and> verifies E s (s_user s') pw)) \<and>
    (s_trusted s' = s_trusted s \<or> split line = [kAuth, cfg_token cfg])"
proof -
  let ?f = "split line" and ?same = "s_logged_in s' = s_logged_in s \<and> s_user s' = s_user s \<and> s_trusted s' = s_trusted s"
  from handle_dispatch [OF assms] have "?same \<or> ?f ! 0 = kLogin \<and> do_login E cfg ?f s = (ok, s') \<or>
      ?f ! 0 = kAuth \<and> do_auth cfg ?f s = (ok, s')"
    by (elim disjE) (auto dest: quiet_identity put_identity)
  then consider ?same | "?f ! 0 = kLogin" "do_login E cfg ?f s = (ok, s')"
    | "?f ! 0 = kAuth" "do_auth cfg ?f s = (ok, s')" by blast
  then show ?thesis
  proof cases
    case 2
    with do_login_identity [OF 2(2)] list_of_length(2) [of ?f] show ?thesis by auto
  next
    case 3
    with do_auth_identity [OF 3(2)] list_of_length(1) [of ?f] show ?thesis by auto
  qed simp
qed

lemma signed_in_by_password:
  assumes "converses E cfg (new_session c w) s"
  shows "(s_logged_in s \<longrightarrow> (\<exists>m line c' pw. converses E cfg (new_session c w) m \<and>
      ch_read_line (s_chan m) = (Some line, c') \<and> split line = [kLogin, s_user s, pw] \<and> verifies E m (s_user s) pw)) \<and>
    (s_trusted s \<longrightarrow> (\<exists>m line c'. converses E cfg (new_session c w) m \<and>
      ch_read_line (s_chan m) = (Some line, c') \<and> split line = [kAuth, cfg_token cfg]))"
  using assms
proof (induction rule: converses.induct)
  case start
  then show ?case by (simp add: new_session_def)
next
  case (handled s line c' s')
  have v: "verifies E (s\<lparr>s_chan := c'\<rparr>) u pw = verifies E s u pw" for u pw by (simp add: verifies_def)
  from handle_identity [OF handled(3)] handled(1,2,4) v show ?case by auto
qed simp

section \<open>Uploads and downloads\<close>

lemma say_result: "\<exists>k. outp (s_chan (say l s)) = outp (s_chan s) @ take k (l @ [newline]) \<and> inp (s_chan (say l s)) = inp (s_chan s)"
proof -
  obtain ok c where c: "ch_send (s_chan s) (l @ [newline]) = (ok, c)" by fastforce
  from ch_send_spec [OF c] show ?thesis by (auto simp: say_def ch_send_line_def Let_def c)
qed

lemma say_calm:
  assumes "calm (s_chan s)"
  shows "outp (s_chan (say l s)) = outp (s_chan s) @ l @ [newline] \<and> inp (s_chan (say l s)) = inp (s_chan s) \<and>
    calm (s_chan (say l s))"
proof -
  obtain c where c: "ch_send (s_chan s) (l @ [newline]) = (True, c)" "calm c" using ch_send_calm [OF assms] by blast
  from ch_send_spec [OF c(1)] c show ?thesis by (auto simp: say_def ch_send_line_def Let_def)
qed

lemma err_is_not_ok [simp]: "take k (CHR ''E'' # xs) \<noteq> CHR ''O'' # ys" "CHR ''O'' # ys \<noteq> take k (CHR ''E'' # xs)"
  by (cases k; simp)+

lemma fail_is_not_ok:
  "fail r s = (ok, s') \<Longrightarrow> outp (s_chan s') \<noteq> outp (s_chan s) @ kOk @ [newline]"
  using say_result [of "kErr @ '' '' @ r" s] by (auto simp: fail_def vocabulary)

lemma fail_with_disk_not_ok:
  "fail r (with_disk d (s\<lparr>s_world := w, s_chan := c\<rparr>)) = (ok, s') \<Longrightarrow> outp c = outp (s_chan s) \<Longrightarrow>
     outp (s_chan s') \<noteq> outp (s_chan s) @ kOk @ [newline]"
  by (drule fail_is_not_ok) simp

lemma accepted_upload:
  assumes "do_put_file cfg line s = (ok, s')" and "outp (s_chan s') = outp (s_chan s) @ kOk @ [newline]"
  shows "\<exists>n. parse_size (split_n line 4 ! 1) kMaxTransferSize = Some n \<and> unat n \<le> length (inp (s_chan s)) \<and>
    stored (s_disk s') (cfg_root cfg) (s_user s) (split_n line 4 ! 3) = Some (take (unat n) (inp (s_chan s))) \<and>
    inp (s_chan s') = drop (unat n) (inp (s_chan s))"
proof -
  let ?f = "split_n line 4" and ?root = "cfg_root cfg"
  obtain n final where n: "length ?f = 4"
      "parse_size (?f ! 1) kMaxTransferSize = Some n" "file_path ?root (s_user s) (?f ! 3) = Some final"
    using assms by (auto simp: do_put_file_def Let_def dest: fail_is_not_ok split: if_splits option.splits)
  obtain temp pool where temp: "temp_path ?root (w_pool (s_world s)) = (temp, pool)" by fastforce
  then have tmp: "in_tmp ?root temp" by (rule temp_path_in_tmp)
  obtain e c1 d1 where rf: "receive_to_file (s_chan s) (s_disk s) temp (unat n) = (e, c1, d1)" by (metis prod_cases3)
  obtain x2 d2 where rm: "fs_remove d1 temp = (x2, d2)" by fastforce
  obtain ok3 d3 where co: "commit_upload d1 temp final = (ok3, d3)" by fastforce
  obtain x4 d4 where wt: "write_tag d3 ?root (s_user s) (?f ! 3) (?f ! 2) = (x4, d4)" by fastforce
  have out: "outp c1 = outp (s_chan s)" using receive_to_file_outp [OF rf] .
  have none: "e = None" and ok3: ok3 and s': "s_disk s' = d4" "inp (s_chan s') = inp c1"
    using assms n temp rf rm co wt out say_result [of kOk "with_disk d4 (s\<lparr>s_world := (s_world s)\<lparr>w_pool := pool\<rparr>, s_chan := c1\<rparr>)"]
    by (auto simp: do_put_file_def Let_def vocabulary dest: fail_with_disk_not_ok [unfolded vocabulary] split: if_splits)
  obtain b where b: "length b = unat n" "inp (s_chan s) = b @ inp c1" "fs_read d1 temp = Some b"
    using receive_to_file_spec rf none by blast
  have "stored d4 ?root (s_user s) (?f ! 3) = Some b"
    using commit_stored [OF co tmp n(3)] ok3 b(3) write_tag_stored [OF wt] by simp
  with b n s' show ?thesis by auto
qed

text \<open>C23: a positive reply is a promise.\<close>

theorem accepted_upload_is_stored:
  assumes "do_put_file cfg line s = (ok, s')" and "outp (s_chan s') = outp (s_chan s) @ kOk @ [newline]"
  shows "\<exists>n. parse_size (split_n line 4 ! 1) kMaxTransferSize = Some n \<and> unat n \<le> length (inp (s_chan s)) \<and>
    stored (s_disk s') (cfg_root cfg) (s_user s) (split_n line 4 ! 3) = Some (take (unat n) (inp (s_chan s))) \<and>
    inp (s_chan s') = drop (unat n) (inp (s_chan s))"
  using assms by (rule accepted_upload)

lemma send_slices_calm:
  "calm c \<Longrightarrow> n \<le> length rest \<Longrightarrow> \<exists>c'. send_slices c rest n = (True, c') \<and> calm c'"
proof (induction n arbitrary: c rest rule: less_induct)
  case (less n)
  show ?case
  proof (cases "0 < n")
    case False
    with less.prems show ?thesis by (simp add: send_slices.simps)
  next
    case True
    let ?k = "min kIoBufferSize n"
    have k: "n - ?k < n" "?k \<le> length rest" using True less.prems(2) by (simp_all add: kIoBufferSize_def)
    obtain c1 where c1: "ch_send c (take ?k rest) = (True, c1)" "calm c1" using ch_send_calm [OF less.prems(1)] by blast
    have "n - ?k \<le> length (drop ?k rest)" using less.prems(2) by simp
    from less.IH [OF k(1) c1(2) this] c1 k(2) True less.prems(2) show ?thesis
      by (subst send_slices.simps) (auto simp: Let_def min_absorb2)
  qed
qed

lemma stored_path:
  assumes "stored d root u n = Some c"
  obtains p where "file_path root u n = Some p" "fs_read d p = Some c"
    "\<exists>tag. file_info d root u n = Some (length c, tag)"
proof -
  from assms obtain p where p: "file_path root u n = Some p" "fs_read d p = Some c"
    by (cases "file_path root u n") (auto simp: stored_def)
  with read_some [OF p(2)] that show thesis by (auto simp: file_info_def)
qed

lemma stored_file_served:
  assumes "calm (s_chan s)" and "s_logged_in s" and "stored (s_disk s) (cfg_root cfg) (s_user s) name = Some c"
    and "hd name \<noteq> space"
  shows "\<exists>s'. handle E cfg (kGetFile @ space # name) s = (True, s') \<and>
    outp (s_chan s') = outp (s_chan s) @ (kData @ '' '' @ to_dec (length c) @ [newline]) @ c \<and>
    inp (s_chan s') = inp (s_chan s) \<and> s_disk s' = s_disk s"
proof -
  obtain p tag where p: "file_path (cfg_root cfg) (s_user s) name = Some p" "fs_read (s_disk s) p = Some c"
    and info: "file_info (s_disk s) (cfg_root cfg) (s_user s) name = Some (length c, tag)"
    using stored_path [OF assms(3)] by metis
  have ne: "name \<noteq> []" using p(1) is_safe_name_nonempty by (auto simp: file_path_eq split: if_splits)
  have word: "is_word kGetFile" by (simp add: is_word_def kGetFile_def)
  have f: "split_n (kGetFile @ space # name) 2 = [kGetFile, name]"
    using split_n_keeps_name [of "[kGetFile]" name] word ne assms(4) by (simp add: numeral_2_eq_2)
  obtain ws where cmd: "split (kGetFile @ space # name) = kGetFile # ws"
    using split_field [of kGetFile name] word by (simp add: is_word_def)
  note sent = say_calm [OF assms(1), of "kData @ '' '' @ to_dec (length c)"]
  obtain c2 where c2: "send_slices (s_chan (say (kData @ '' '' @ to_dec (length c)) s)) c (length c) = (True, c2)"
    using send_slices_calm sent by blast
  have "do_get_file cfg (kGetFile @ space # name) s = (True, server_log cfg (''served '' @ s_user s @ ''/'' @ name @
      '' ('' @ to_dec (length c) @ '' bytes)'') (say (kData @ '' '' @ to_dec (length c)) s\<lparr>s_chan := c2\<rparr>))"
    using f p info c2 by (simp add: do_get_file_def Let_def send_from_file_def)
  moreover have "handle E cfg (kGetFile @ space # name) s = do_get_file cfg (kGetFile @ space # name) s"
    unfolding handle_def Let_def cmd using assms(2) by (simp add: vocabulary is_chunk_command_def)
  ultimately show ?thesis using sent send_slices_spec [OF c2] by simp
qed

section \<open>What the protocol cannot do\<close>

lemma password_with_space_is_refused:
  assumes "list_all is_word [u, a, b]"
  shows "handle E cfg (join_words [kLogin, u, a @ space # b]) s = fail ''malformed-login'' s"
proof -
  have "is_word kLogin" by (simp add: is_word_def kLogin_def)
  with assms have "split (join_words [kLogin, u, a, b]) = [kLogin, u, a, b]"
    by (intro split_join_words) simp
  then have "split (join_words [kLogin, u, a @ space # b]) = [kLogin, u, a, b]" by simp
  then show ?thesis unfolding handle_def Let_def by (simp add: do_login_def vocabulary)
qed

lemma refused_upload_leaves_body:
  assumes "do_put_file cfg line s = (ok, s')"
    and "parse_size (split_n line 4 ! 1) kMaxTransferSize = None \<or>
      file_path (cfg_root cfg) (s_user s) (split_n line 4 ! 3) = None"
  shows "ok \<and> inp (s_chan s') = inp (s_chan s) \<and> s_disk s' = s_disk s"
  using assms say_result by (auto simp: do_put_file_def Let_def dest!: fail_fields split: if_splits option.splits)

section \<open>Examples\<close>

definition example_config :: config where
  "example_config = \<lparr>cfg_root = example_root, cfg_page = [], cfg_token = ''secret'', cfg_port = 9000\<rparr>"

definition example_world :: world where
  "example_world = \<lparr>w_disk = example_store, w_pool = replicate 64 7, w_users = new_user_store [''srv'', ''users.txt''],
     w_sessions = [], w_clock = 0, w_log = []\<rparr>"

definition example_session :: "string \<Rightarrow> session" where
  "example_session i = \<lparr>s_chan = \<lparr>inp = i, outp = [], read_script = [], write_script = []\<rparr>,
     s_world = example_world, s_user = ''ann'', s_logged_in = True, s_trusted = False\<rparr>"

lemma example_session_simps [simp]:
  "inp (s_chan (example_session i)) = i" "outp (s_chan (example_session i)) = []"
  "s_disk (example_session i) = example_store" "s_user (example_session i) = ''ann''"
  "s_logged_in (example_session i)" "calm (s_chan (example_session i))" "cfg_root example_config = example_root"
  by (simp_all add: example_session_def example_world_def example_config_def calm_def)

lemma stored_file_served_witness:
  "\<exists>s'. handle mini_openssl example_config (kGetFile @ space # ''notes'') (example_session []) = (True, s') \<and>
     outp (s_chan s') = (kData @ '' '' @ to_dec (length ''hello'') @ [newline]) @ ''hello''"
proof -
  have "stored (s_disk (example_session [])) (cfg_root example_config) (s_user (example_session [])) ''notes'' = Some ''hello''"
    using example_stored by simp
  from stored_file_served [OF _ _ this, of mini_openssl] show ?thesis by fastforce
qed

lemma password_with_space_is_refused_witness:
  "handle mini_openssl example_config ''LOGIN ann open sesame'' (example_session []) =
     fail ''malformed-login'' (example_session [])"
  using password_with_space_is_refused [of "''ann''" "''open''" "''sesame''" mini_openssl example_config "example_session []"]
  by (simp add: is_word_def kLogin_def)

lemma refused_upload_leaves_body_witness:
  "inp (s_chan (snd (do_put_file example_config ''PUTFILE 3 t /etc'' (example_session ''QUIT'')))) = ''QUIT''"
proof -
  obtain ok s' where r: "do_put_file example_config ''PUTFILE 3 t /etc'' (example_session ''QUIT'') = (ok, s')"
    by fastforce
  have "split_n ''PUTFILE 3 t /etc'' 4 = [''PUTFILE'', ''3'', ''t'', ''/etc'']" by code_simp
  then have "file_path (cfg_root example_config) (s_user (example_session ''QUIT'')) (split_n ''PUTFILE 3 t /etc'' 4 ! 3) = None"
    by (simp add: file_path_eq is_safe_name_def forbidden_char_def)
  from refused_upload_leaves_body [OF r disjI2 [OF this]] r show ?thesis by simp
qed

lemma example_deletion:
  "split ''DELFILE notes'' = [''DELFILE'', ''notes'']" "split_n ''DELFILE notes'' 2 = [''DELFILE'', ''notes'']"
  by code_simp+

lemma handle_authorised_witness:
  "stored (s_disk (snd (handle mini_openssl example_config ''DELFILE notes'' (example_session []))))
     example_root ''ann'' ''notes'' = None \<and> asks_delete_file ''DELFILE notes'' ''notes''"
proof -
  obtain ok s' where r: "handle mini_openssl example_config ''DELFILE notes'' (example_session []) = (ok, s')"
    by fastforce
  have "handle mini_openssl example_config ''DELFILE notes'' (example_session []) =
      do_del_file example_config ''DELFILE notes'' (example_session [])"
    unfolding handle_def Let_def example_deletion(1)
    by (simp add: vocabulary is_chunk_command_def)
  with r obtain ex where "remove_file example_store example_root ''ann'' ''notes'' = (ex, s_disk s')"
    by (auto simp: do_del_file_def Let_def example_deletion(2) split: prod.splits if_splits)
  from remove_file_spec [OF this] have gone: "stored (s_disk s') example_root ''ann'' ''notes'' = None" by simp
  with handle_authorised [OF r, where v = "''ann''" and m = "''notes''"] r example_stored show ?thesis
    by (auto simp: asks_delete_file_def example_deletion vocabulary)
qed

lemma signed_in_by_password_witness:
  "\<exists>m line c. converses mini_openssl example_config (new_session (example_channel (''AUTH secret'' @ [newline]) []) example_world) m \<and>
     ch_read_line (s_chan m) = (Some line, c) \<and> split line = [kAuth, ''secret'']"
proof -
  let ?s = "new_session (example_channel (''AUTH secret'' @ [newline]) []) example_world"
  obtain c where c: "ch_read_line (s_chan ?s) = (Some ''AUTH secret'', c)"
    by (simp add: new_session_def ch_read_line_def read_line_loop.simps ssl_read_def example_channel_def kMaxLineLen_def)
  have words: "split ''AUTH secret'' = [''AUTH'', ''secret'']" by code_simp
  have "handle mini_openssl example_config ''AUTH secret'' (?s\<lparr>s_chan := c\<rparr>) =
      (True, say kOk (?s\<lparr>s_chan := c, s_trusted := True\<rparr>))"
    unfolding handle_def Let_def words by (simp add: vocabulary do_auth_def secure_equal_iff example_config_def)
  from converses.handled [OF converses.start c this]
  have r: "converses mini_openssl example_config ?s (say kOk (?s\<lparr>s_chan := c, s_trusted := True\<rparr>))" .
  from signed_in_by_password [OF r] show ?thesis by (auto simp: example_config_def)
qed

lemma example_put_line: "split_n ''PUTFILE 3 t1 notes'' 4 = [''PUTFILE'', ''3'', ''t1'', ''notes'']" 
  by code_simp
lemma example_put_size: "parse_size ''3'' kMaxTransferSize = Some 3"
  by (simp add: parse_size_spec is_digit_code dec_value_def digit_val_def kMaxTransferSize_def)

definition example_temp :: string where
  "example_temp = to_hex (replicate 16 7) @ ''.part''"

lemma example_put_temp: "temp_path example_root (replicate 64 7) = ([''srv'', ''tmp'', example_temp], replicate 48 7)"
  by (simp add: temp_path_def random_bytes_def store_tmp_def example_temp_def path_join_component slash_not_hex)

lemma example_receive:
  "\<exists>c. receive_to_file \<lparr>inp = ''abc'', outp = [], read_script = [], write_script = []\<rparr> example_store
     [''srv'', ''tmp'', example_temp] 3 = (None, c, put example_store [''srv'', ''tmp'', example_temp] ''abc'') \<and> outp c = [] \<and> calm c"
  by (simp add: receive_to_file_def create_ok receive_loop.simps kIoBufferSize_def ch_recv_def
     recv_loop.simps ssl_read_def kInt32Max_def append_ok flush_ok fs_simps calm_def)


lemma accepted_upload_is_stored_witness:
  "\<exists>ok s'. do_put_file example_config ''PUTFILE 3 t1 notes'' (example_session ''abc'') = (ok, s') \<and>
     stored (s_disk s') example_root ''ann'' ''notes'' = Some ''abc''"
proof -
  obtain ok s' where r: "do_put_file example_config ''PUTFILE 3 t1 notes'' (example_session ''abc'') = (ok, s')"
    by fastforce
  obtain c where rec: "receive_to_file \<lparr>inp = ''abc'', outp = [], read_script = [], write_script = []\<rparr> example_store
     [''srv'', ''tmp'', example_temp] 3 = (None, c, put example_store [''srv'', ''tmp'', example_temp] ''abc'')"
     and c: "outp c = []" "calm c" using example_receive by blast
  have final: "file_path example_root ''ann'' ''notes'' = Some [''srv'', ''users'', ''ann'', ''files'', ''notes'']"
    by (simp add: file_path_eq example_names)
  have "\<exists>d. commit_upload (put example_store [''srv'', ''tmp'', example_temp] ''abc'') [''srv'', ''tmp'', example_temp]
    [''srv'', ''users'', ''ann'', ''files'', ''notes''] = (True, d)"
    by (simp add: commit_upload_def rename_ok fs_simps)
  then obtain d where co: "commit_upload (put example_store [''srv'', ''tmp'', example_temp] ''abc'') [''srv'', ''tmp'', example_temp]
    [''srv'', ''users'', ''ann'', ''files'', ''notes''] = (True, d)" ..
  have "outp (s_chan s') = kOk @ [newline]"
    using r say_calm [of "with_disk x (example_session ''abc''\<lparr>s_world := y, s_chan := c\<rparr>)" kOk for x y] c 
    by (auto simp: do_put_file_def Let_def example_put_line example_put_size final example_world_def example_session_def
     example_config_def example_put_temp rec co split: prod.splits)
  with accepted_upload_is_stored [OF r] r example_put_size show ?thesis
    by (auto simp: example_put_line)
qed

lemma lost_tag_is_not_reported:
  "\<exists>s s'. do_put_file example_config ''PUTFILE 3 t1 notes'' s = (True, s') \<and>
     outp (s_chan s') = outp (s_chan s) @ kOk @ [newline] \<and>
     file_info (s_disk s) example_root ''ann'' ''notes'' = Some (5, ''t0'') \<and>
     stored (s_disk s') example_root ''ann'' ''notes'' = Some ''abc'' \<and>
     file_info (s_disk s') example_root ''ann'' ''notes'' = Some (3, ''t0'')"
proof -
  let ?old = "[CHR ''t'', CHR ''0'', newline]"
  let ?tag = "[''srv'', ''users'', ''ann'', ''meta'', ''notes.tag'']" and ?temp = "[''srv'', ''tmp'', example_temp]"
  let ?final = "[''srv'', ''users'', ''ann'', ''files'', ''notes'']"
  let ?d = "\<lambda>fs. put example_store ?tag ?old\<lparr>faults := fs\<rparr>"
  let ?c = "\<lparr>inp = ''abc'', outp = [], read_script = [], write_script = []\<rparr>"
  let ?s = "example_session ''abc''\<lparr>s_world := example_world\<lparr>w_disk := ?d [None, None, None, None, Some 0]\<rparr>\<rparr>"
  obtain c where rec: "receive_to_file ?c (?d [None, None, None, None, Some 0]) ?temp 3 =
      (None, c, put (?d [None, Some 0]) ?temp ''abc'')" and c: "outp c = []" "calm c"
    by (simp add: receive_to_file_def fs_create_def fs_append_def fs_flush_def pop_fault_def receive_loop.simps kIoBufferSize_def ch_recv_def
       recv_loop.simps ssl_read_def kInt32Max_def fs_simps calm_def)
  have final: "file_path example_root ''ann'' ''notes'' = Some ?final"
    by (simp add: file_path_eq example_names)
  define e where "e = put (put example_store ?tag ?old) ?temp ''abc''"
  have e: "lookup e ?temp = Some \<lparr>content = ''abc'', mtime = now example_store\<rparr>"
    "dirs e = dirs example_store" "fs_read e ?tag = Some ?old" "fs_read e ?temp = Some ''abc''"
    by (simp_all add: e_def fs_simps)
  have "fs_rename (e\<lparr>faults := [None, Some 0]\<rparr>) ?temp ?final = (True,
      (e\<lparr>files := AList.update ?final \<lparr>content = ''abc'', mtime = now example_store\<rparr> (AList.delete ?temp (files e))\<rparr>)
        \<lparr>faults := [Some 0]\<rparr>)"
    using e(1,2) by (simp add: fs_rename_def pop_fault_def fs_simps)
  then obtain d where rn: "fs_rename (e\<lparr>faults := [None, Some 0]\<rparr>) ?temp ?final = (True, d\<lparr>faults := [Some 0]\<rparr>)" ..
  then have d: "fs_read d ?final = Some ''abc''" "fs_read d ?tag = Some ?old"
    using rename_effect [OF rn] touches_read [OF touches_rename [OF rn], of ?tag] e(3,4) by (simp_all add: fs_simps)
  have co: "commit_upload (put (?d [None, Some 0]) ?temp ''abc'') ?temp ?final = (True, d\<lparr>faults := [Some 0]\<rparr>)"
    using rn by (simp add: commit_upload_def e_def fs_simps)
  have tag: "tag_path [''srv'', ''users'', ''ann''] ''notes'' = ?tag" by (simp add: tag_path_eq example_names)
  have wt: "write_tag (d\<lparr>faults := [Some 0]\<rparr>) example_root ''ann'' ''notes'' ''t1'' = (False, d\<lparr>faults := []\<rparr>)"
    by (simp add: write_tag_def account_dir_eq example_names tag fs_create_def pop_fault_def)
  have said: "outp (s_chan (say kOk x)) = kOk @ [newline]" if "s_chan x = c" for x
    using say_calm [of x kOk] that c by simp
  obtain s' where r: "do_put_file example_config ''PUTFILE 3 t1 notes'' ?s = (True, s')"
    and s': "s_disk s' = d\<lparr>faults := []\<rparr>" "outp (s_chan s') = kOk @ [newline]"
    using said
    by (simp add: do_put_file_def Let_def example_put_line example_put_size final example_world_def example_session_def
     example_config_def example_put_temp rec co wt)
  have info: "file_info x example_root ''ann'' ''notes'' = Some (length b, ''t0'')"
    if "fs_read x ?final = Some b" "fs_read x ?tag = Some ?old" for x b
    using that read_some [OF that(1)] first_line_single [of x ?tag "''t0''"]
    by (simp add: file_info_def final account_dir_eq example_names tag)
  show ?thesis
  proof (intro exI conjI)
    show "do_put_file example_config ''PUTFILE 3 t1 notes'' ?s = (True, s')" by (rule r)
    show "outp (s_chan s') = outp (s_chan ?s) @ kOk @ [newline]" using s' by (simp add: example_session_def)
    show "file_info (s_disk ?s) example_root ''ann'' ''notes'' = Some (5, ''t0'')"
      using info [of "?d [None, None, None, None, Some 0]" "''hello''"] by (simp add: fs_simps)
    show "stored (s_disk s') example_root ''ann'' ''notes'' = Some ''abc''"
      using s' d by (simp add: stored_def final fs_simps)
    show "file_info (s_disk s') example_root ''ann'' ''notes'' = Some (3, ''t0'')"
      using info [of "s_disk s'" "''abc''"] s' d by (simp add: fs_simps)
  qed
qed

end
