(* ===== verification/Remote.thy ===== *)
theory Remote
  imports Session
begin

text \<open>
  \<open>src/client/remote.cpp\<close>: the client's end of a connection. The channel is that of \<open>Wire\<close>, what
  the peer will deliver being its input. A request is a line out and a line back; bodies follow
  the line. The progress callbacks are left out: they only repaint the terminal. The last
  sections put both ends together: what a request leaves in the output of the client is handled
  by the \<open>Session\<close> of the server, and its reply is read here.
\<close>

datatype remote_error = NotDialled dial_error | HandshakeFailedWith | UnexpectedHandshake string
  | ServerSpeaks string | NoAccountGiven | LoginRequestFailed | AccountRejected | NoMachineToken
  | TokenRequestFailed | TokenRejected | CannotReadSource path | SourceEndedEarly
  | DroppedDuringTransfer | CannotWriteTarget path | TargetWriteFailed | RequestFailed | NoReply
  | UnexpectedReply string | BadSizeInReply | CannotSizeSource path | RequestRefused string
  | ImplausibleCount | ListingEndedEarly

record credentials =
  cred_user :: string
  cred_password :: string
  cred_token :: string

datatype access = AccessFiles | AccessChunks

section \<open>Requests\<close>

text \<open>One line out, one line back: the code repeats these two calls in every request.\<close>

definition ask :: "channel \<Rightarrow> string \<Rightarrow> (remote_error + string) \<times> channel" where
  "ask c line =
     (case ch_send_line c line of (ok, c) \<Rightarrow>
        if \<not> ok then (Inl RequestFailed, c)
        else case ch_read_line c of (None, c) \<Rightarrow> (Inl NoReply, c) | (Some reply, c) \<Rightarrow> (Inr reply, c))"

definition replies :: "string list \<Rightarrow> string \<Rightarrow> bool" where
  "replies f word \<longleftrightarrow> f \<noteq> [] \<and> f ! 0 = word"

definition present_credentials :: "credentials \<Rightarrow> access \<Rightarrow> channel \<Rightarrow> remote_error option \<times> channel" where
  "present_credentials cred acc c =
     (case acc of
        AccessFiles \<Rightarrow>
          if cred_user cred = [] then (Some NoAccountGiven, c)
          else (case ask c (kLogin @ '' '' @ cred_user cred @ '' '' @ cred_password cred) of
                  (Inl _, c) \<Rightarrow> (Some LoginRequestFailed, c)
                | (Inr reply, c) \<Rightarrow>
                    (if \<not> replies (split reply) kOk then Some AccountRejected else None, c))
      | AccessChunks \<Rightarrow>
          if cred_token cred = [] then (Some NoMachineToken, c)
          else (case ask c (kAuth @ '' '' @ cred_token cred) of
                  (Inl _, c) \<Rightarrow> (Some TokenRequestFailed, c)
                | (Inr reply, c) \<Rightarrow>
                    (if \<not> replies (split reply) kOk then Some TokenRejected else None, c)))"

definition handshake :: "credentials \<Rightarrow> access \<Rightarrow> channel \<Rightarrow> remote_error option \<times> channel" where
  "handshake cred acc c =
     (case ask c (kHello @ '' '' @ kProtocol) of
        (Inl _, c) \<Rightarrow> (Some HandshakeFailedWith, c)
      | (Inr reply, c) \<Rightarrow>
          let hello = split reply
          in if length hello \<noteq> 2 \<or> hello ! 0 \<noteq> kOk then (Some (UnexpectedHandshake reply), c)
             else if hello ! 1 \<noteq> kProtocol then (Some (ServerSpeaks (hello ! 1)), c)
             else present_credentials cred acc c)"

text \<open>The probe needs no credentials.\<close>

definition ping :: "channel \<Rightarrow> bool \<times> channel" where
  "ping c = (case ask c kPing of (Inl _, c) \<Rightarrow> (False, c) | (Inr reply, c) \<Rightarrow> (reply = kPong, c))"

definition remote_quit :: "channel \<Rightarrow> channel" where
  "remote_quit c = (case ch_send_line c kQuit of (_, c) \<Rightarrow> case ch_read_line c of (_, c) \<Rightarrow> c)"

section \<open>Bodies\<close>

function send_body_loop :: "channel \<Rightarrow> string \<Rightarrow> nat \<Rightarrow> remote_error option \<times> channel" where
  "send_body_loop c rest left =
     (if 0 < left then
        let want = min kIoBufferSize left; buf = take want rest
        in if length buf \<noteq> want then (Some SourceEndedEarly, c)
           else case ch_send c buf of (ok, c) \<Rightarrow>
             if \<not> ok then (Some DroppedDuringTransfer, c)
             else send_body_loop c (drop want rest) (left - want)
      else (None, c))"
  by pat_completeness auto
termination by (relation "measure (\<lambda>(c, rest, left). left)") (auto simp: kIoBufferSize_def)

declare send_body_loop.simps [simp del]

definition send_file_body :: "channel \<Rightarrow> disk \<Rightarrow> path \<Rightarrow> nat \<Rightarrow> remote_error option \<times> channel" where
  "send_file_body c d source n =
     (case fs_read d source of
        None \<Rightarrow> (Some (CannotReadSource source), c)
      | Some s \<Rightarrow> send_body_loop c s n)"

function read_body_loop :: "channel \<Rightarrow> path \<Rightarrow> disk \<Rightarrow> nat \<Rightarrow> remote_error option \<times> channel \<times> disk" where
  "read_body_loop c p d left =
     (if 0 < left then
        let want = min kIoBufferSize left
        in case ch_recv c want of
             (None, c) \<Rightarrow> (Some DroppedDuringTransfer, c, d)
           | (Some s, c) \<Rightarrow>
               (case fs_append d p s of (ok, d) \<Rightarrow>
                  if \<not> ok then (Some TargetWriteFailed, c, d) else read_body_loop c p d (left - want))
      else (None, c, d))"
  by pat_completeness auto
termination by (relation "measure (\<lambda>(c, p, d, left). left)") (auto simp: kIoBufferSize_def)

declare read_body_loop.simps [simp del]

text \<open>The result of the last flush is not looked at.\<close>

definition read_body_to_file :: "channel \<Rightarrow> disk \<Rightarrow> path \<Rightarrow> nat \<Rightarrow> remote_error option \<times> channel \<times> disk" where
  "read_body_to_file c d p n =
     (case fs_create d p of (ok, d) \<Rightarrow>
        if \<not> ok then (Some (CannotWriteTarget p), c, d)
        else case read_body_loop c p d n of
          (Some e, c, d) \<Rightarrow> (Some e, c, d)
        | (None, c, d) \<Rightarrow> (case fs_flush d p of (_, d) \<Rightarrow> (None, c, d)))"

section \<open>Files\<close>

text \<open>Size and tag of a stored file, \<open>None\<close> when there is none.\<close>

definition remote_stat :: "channel \<Rightarrow> string \<Rightarrow> (remote_error + (u64 \<times> string) option) \<times> channel" where
  "remote_stat c name =
     (case ask c (kStat @ '' '' @ name) of
        (Inl e, c) \<Rightarrow> (Inl e, c)
      | (Inr reply, c) \<Rightarrow>
          let f = split reply
          in if replies f kNone then (Inr None, c)
             else if length f \<noteq> 3 \<or> f ! 0 \<noteq> kMeta then (Inl (UnexpectedReply reply), c)
             else case parse_size (f ! 1) kMaxTransferSize of
               None \<Rightarrow> (Inl BadSizeInReply, c)
             | Some n \<Rightarrow> (Inr (Some (n, if f ! 2 = ''-'' then [] else f ! 2)), c))"

text \<open>The reply to an upload, of a file or of a chunk.\<close>

definition read_verdict :: "channel \<Rightarrow> remote_error option \<times> channel" where
  "read_verdict c =
     (case ch_read_line c of
        (None, c) \<Rightarrow> (Some NoReply, c)
      | (Some reply, c) \<Rightarrow>
          (if \<not> replies (split reply) kOk then Some (RequestRefused reply) else None, c))"

definition send_upload :: "channel \<Rightarrow> disk \<Rightarrow> string \<Rightarrow> path \<Rightarrow> nat \<Rightarrow> remote_error option \<times> channel" where
  "send_upload c d line source n =
     (case ch_send_line c line of (ok, c) \<Rightarrow>
        if \<not> ok then (Some RequestFailed, c)
        else case send_file_body c d source n of
          (Some e, c) \<Rightarrow> (Some e, c)
        | (None, c) \<Rightarrow> read_verdict c)"

definition putfile_line :: "nat \<Rightarrow> string \<Rightarrow> string \<Rightarrow> string" where
  "putfile_line n tag name =
     kPutFile @ '' '' @ to_dec n @ '' '' @ (if tag = [] then ''-'' else tag) @ '' '' @ name"

definition remote_put_file :: "channel \<Rightarrow> disk \<Rightarrow> string \<Rightarrow> path \<Rightarrow> string \<Rightarrow> remote_error option \<times> channel" where
  "remote_put_file c d name source tag =
     (case fs_size d source of
        None \<Rightarrow> (Some (CannotSizeSource source), c)
      | Some n \<Rightarrow> send_upload c d (putfile_line n tag name) source n)"

text \<open>What GETFILE and GETCHUNK do with the reply; the flag is \<open>found\<close>.\<close>

definition fetch :: "channel \<Rightarrow> disk \<Rightarrow> string \<Rightarrow> path \<Rightarrow> (remote_error + bool) \<times> channel \<times> disk" where
  "fetch c d line p =
     (case ask c line of
        (Inl e, c) \<Rightarrow> (Inl e, c, d)
      | (Inr reply, c) \<Rightarrow>
          let f = split reply
          in if replies f kNone then (Inr False, c, d)
             else if length f \<noteq> 2 \<or> f ! 0 \<noteq> kData then (Inl (UnexpectedReply reply), c, d)
             else case parse_size (f ! 1) kMaxTransferSize of
               None \<Rightarrow> (Inl BadSizeInReply, c, d)
             | Some n \<Rightarrow>
                 (case read_body_to_file c d p (unat n) of
                    (Some e, c, d) \<Rightarrow> (Inl e, c, d)
                  | (None, c, d) \<Rightarrow> (Inr True, c, d)))"

definition remote_get_file :: "channel \<Rightarrow> disk \<Rightarrow> string \<Rightarrow> path \<Rightarrow> (remote_error + bool) \<times> channel \<times> disk" where
  "remote_get_file c d name p = fetch c d (kGetFile @ '' '' @ name) p"

definition remote_del_file :: "channel \<Rightarrow> string \<Rightarrow> (remote_error + bool) \<times> channel" where
  "remote_del_file c name =
     (case ask c (kDelFile @ '' '' @ name) of
        (Inl e, c) \<Rightarrow> (Inl e, c)
      | (Inr reply, c) \<Rightarrow>
          let f = split reply
          in if replies f kNone then (Inr False, c)
             else if \<not> replies f kOk then (Inl (RequestRefused reply), c)
             else (Inr True, c))"

section \<open>Chunks\<close>

definition putchunk_line :: "string \<Rightarrow> nat \<Rightarrow> string" where
  "putchunk_line i n = kPutChunk @ '' '' @ i @ '' '' @ to_dec n"

definition remote_put_chunk :: "channel \<Rightarrow> disk \<Rightarrow> string \<Rightarrow> path \<Rightarrow> remote_error option \<times> channel" where
  "remote_put_chunk c d i source =
     (case fs_size d source of
        None \<Rightarrow> (Some (CannotSizeSource source), c)
      | Some n \<Rightarrow> send_upload c d (putchunk_line i n) source n)"

definition remote_get_chunk :: "channel \<Rightarrow> disk \<Rightarrow> string \<Rightarrow> path \<Rightarrow> (remote_error + bool) \<times> channel \<times> disk" where
  "remote_get_chunk c d i p = fetch c d (kGetChunk @ '' '' @ i) p"

definition remote_del_chunk :: "channel \<Rightarrow> string \<Rightarrow> remote_error option \<times> channel" where
  "remote_del_chunk c i =
     (case ask c (kDelChunk @ '' '' @ i) of
        (Inl e, c) \<Rightarrow> (Some e, c)
      | (Inr reply, c) \<Rightarrow> (if \<not> replies (split reply) kOk then Some (RequestRefused reply) else None, c))"

section \<open>Listing\<close>

record listed =
  ls_name :: string
  ls_size :: u64
  ls_modified :: int

text \<open>\<open>strtoll\<close>: blanks, a sign, the digits there are; out of range it stays at the limit.\<close>

definition c_space :: "char \<Rightarrow> bool" where
  "c_space ch \<longleftrightarrow> ch = space \<or> (9 \<le> (of_char ch :: nat) \<and> (of_char ch :: nat) \<le> 13)"

definition clamp64 :: "int \<Rightarrow> int" where
  "clamp64 i = max (- (2 ^ 63)) (min i (2 ^ 63 - 1))"

definition strtoll :: "string \<Rightarrow> int" where
  "strtoll s =
     (let s = dropWhile c_space s;
          neg = s \<noteq> [] \<and> hd s = CHR ''-'';
          s = (if s \<noteq> [] \<and> (hd s = CHR ''-'' \<or> hd s = CHR ''+'') then tl s else s);
          n = int (dec_value (takeWhile is_digit s))
      in clamp64 (if neg then - n else n))"

definition parse_listed :: "string \<Rightarrow> listed option" where
  "parse_listed line =
     (let f = split_n line 3
      in if length f \<noteq> 3 then None
         else case parse_size (f ! 0) kMaxTransferSize of
           None \<Rightarrow> None
         | Some n \<Rightarrow> Some \<lparr>ls_name = f ! 2, ls_size = n, ls_modified = strtoll (f ! 1)\<rparr>)"

fun read_listing :: "channel \<Rightarrow> nat \<Rightarrow> listed list \<Rightarrow> (remote_error + listed list) \<times> channel" where
  "read_listing c 0 out = (Inr out, c)"
| "read_listing c (Suc n) out =
     (case ch_read_line c of
        (None, c) \<Rightarrow> (Inl ListingEndedEarly, c)
      | (Some line, c) \<Rightarrow>
          (case parse_listed line of
             None \<Rightarrow> read_listing c n out
           | Some entry \<Rightarrow> read_listing c n (out @ [entry])))"

definition remote_list :: "channel \<Rightarrow> (remote_error + listed list) \<times> channel" where
  "remote_list c =
     (case ask c kList of
        (Inl e, c) \<Rightarrow> (Inl e, c)
      | (Inr reply, c) \<Rightarrow>
          let f = split reply
          in if length f \<noteq> 2 \<or> f ! 0 \<noteq> kCount then (Inl (UnexpectedReply reply), c)
             else case parse_size (f ! 1) 1000000 of
               None \<Rightarrow> (Inl ImplausibleCount, c)
             | Some n \<Rightarrow> read_listing c (unat n) [])"

section \<open>Reading a line, whatever the transport does\<close>

lemma read_line_loop_raw:
  "read_line_loop c out = (Some l, c') \<Longrightarrow>
     \<exists>raw. inp c = raw @ newline # inp c' \<and> newline \<notin> set raw \<and> l = out @ filter (\<lambda>x. x \<noteq> CHR 0x0D) raw \<and>
       outp c' = outp c"
proof (induction c out rule: read_line_loop.induct)
  case (1 c out)
  obtain s c1 where s: "ssl_read c 1 = (s, c1)" by fastforce
  note IH = "1.IH" [OF refl s [symmetric]]
  have unfold: "read_line_loop c out =
      (if s = [] then (None, c1)
       else if hd s = newline then (Some out, c1)
       else if hd s = CHR 0x0D then read_line_loop c1 out
       else if kMaxLineLen \<le> length out then (None, c1)
       else read_line_loop c1 (out @ [hd s]))"
    by (subst read_line_loop.simps) (simp only: s Let_def prod.case)
  then have ne: "s \<noteq> []" using "1.prems" by auto
  with ssl_read_result [OF s] have h: "s = [hd s]" "inp c = hd s # inp c1" "outp c1 = outp c"
    by (cases s; auto)+
  show ?case
  proof (cases "hd s = newline")
    case True
    with unfold "1.prems" ne h show ?thesis by (intro exI [of _ "[]"]) simp
  next
    case False
    define out' where "out' = (if hd s = CHR 0x0D then out else out @ [hd s])"
    have "read_line_loop c1 out' = (Some l, c')"
      using unfold "1.prems" ne False by (auto simp: out'_def split: if_splits)
    then obtain raw where "inp c1 = raw @ newline # inp c'" "newline \<notin> set raw" "outp c' = outp c1"
        "l = out' @ filter (\<lambda>x. x \<noteq> CHR 0x0D) raw"
      using IH ne False unfold "1.prems" by (auto simp: out'_def split: if_splits)
    with h False show ?thesis by (intro exI [of _ "hd s # raw"]) (auto simp: out'_def)
  qed
qed

lemma read_line_raw:
  assumes "ch_read_line c = (Some l, c')"
  shows "\<exists>raw. inp c = raw @ newline # inp c' \<and> newline \<notin> set raw \<and> l = filter (\<lambda>x. x \<noteq> CHR 0x0D) raw \<and> outp c' = outp c"
  using read_line_loop_raw [OF assms [unfolded ch_read_line_def]] by simp

text \<open>No line break in it: what can be sent as a line.\<close>

definition one_line :: "string \<Rightarrow> bool" where
  "one_line s \<longleftrightarrow> newline \<notin> set s \<and> CHR 0x0D \<notin> set s"

lemma one_line_append [simp]: "one_line (s @ t) \<longleftrightarrow> one_line s \<and> one_line t"
  by (auto simp: one_line_def)

lemma one_line_Cons [simp]: "one_line (x # t) \<longleftrightarrow> x \<noteq> newline \<and> x \<noteq> CHR 0x0D \<and> one_line t"
  by (auto simp: one_line_def)

lemma one_line_Nil [simp]: "one_line []"
  by (simp add: one_line_def)

lemma one_line_filter: "one_line s \<Longrightarrow> filter (\<lambda>x. x \<noteq> CHR 0x0D) s = s"
  by (auto simp: one_line_def intro!: filter_True)

lemma first_newline_unique:
  "a @ newline # x = b @ newline # y \<Longrightarrow> newline \<notin> set a \<Longrightarrow> newline \<notin> set b \<Longrightarrow> a = b \<and> x = y"
proof (induction a arbitrary: b)
  case Nil
  then show ?case by (cases b) auto
next
  case (Cons z a)
  then show ?case by (cases b) auto
qed

lemma read_sent_line:
  assumes "ch_read_line c = (Some l, c')" and "inp c = line @ newline # rest" and "one_line line"
  shows "l = line \<and> inp c' = rest \<and> outp c' = outp c"
proof -
  obtain raw where raw: "inp c = raw @ newline # inp c'" "newline \<notin> set raw"
      "l = filter (\<lambda>x. x \<noteq> CHR 0x0D) raw" "outp c' = outp c"
    using read_line_raw [OF assms(1)] by blast
  with first_newline_unique [of raw "inp c'" line rest] assms(2,3) show ?thesis
    by (auto simp: one_line_def intro!: filter_True)
qed

lemma is_safe_name_one_line: "is_safe_name s \<Longrightarrow> one_line s"
  using is_safe_name_no_control [of s newline] is_safe_name_no_control [of s "CHR 0x0D"]
  by (auto simp: one_line_def)

lemma to_dec_one_line [simp]: "one_line (to_dec n)"
  using to_dec_digits [of n] by (auto simp: one_line_def list_all_iff is_digit_code)

section \<open>Requests and bodies\<close>

lemma ask_spec:
  assumes "ask c line = (Inr reply, c')"
  shows "outp c' = outp c @ line @ [newline] \<and>
    (\<exists>raw. inp c = raw @ newline # inp c' \<and> newline \<notin> set raw \<and> reply = filter (\<lambda>x. x \<noteq> CHR 0x0D) raw)"
proof -
  obtain c1 where s: "ch_send_line c line = (True, c1)" and r: "ch_read_line c1 = (Some reply, c')"
    using assms by (auto simp: ask_def split: prod.splits if_splits option.splits)
  have "outp c1 = outp c @ line @ [newline]" "inp c1 = inp c"
    using ch_send_spec [of c "line @ [newline]" True c1] s by (auto simp: ch_send_line_def Let_def)
  with read_line_raw [OF r] show ?thesis by auto
qed

lemma send_line_result:
  "ch_send_line c line = (ok, c') \<Longrightarrow> \<exists>k. outp c' = outp c @ take k (line @ [newline]) \<and> inp c' = inp c \<and>
     (ok \<longrightarrow> outp c' = outp c @ line @ [newline])"
  using ch_send_spec [of c "line @ [newline]" ok c'] by (auto simp: ch_send_line_def Let_def)

text \<open>The two ends move bodies in the same slices.\<close>

lemma send_body_loop_slices:
  "send_slices c rest n = (fst (send_body_loop c rest n) = None, snd (send_body_loop c rest n))"
proof (induction n arbitrary: c rest rule: less_induct)
  case (less n)
  show ?case
  proof (cases "0 < n")
    case False
    then show ?thesis by (simp add: send_slices.simps send_body_loop.simps)
  next
    case True
    then have "n - min kIoBufferSize n < n" by (simp add: kIoBufferSize_def)
    note IH = less.IH [OF this]
    show ?thesis
      using True
      by (subst send_slices.simps, subst (1 2) send_body_loop.simps) (simp add: Let_def IH split: prod.split)
  qed
qed

lemma send_body_loop_spec:
  "send_body_loop c rest n = (None, c') \<Longrightarrow> outp c' = outp c @ take n rest \<and> n \<le> length rest \<and> inp c' = inp c"
  by (rule send_slices_spec) (simp add: send_body_loop_slices)

lemma send_body_loop_calm:
  assumes "calm c" and "n \<le> length rest"
  shows "\<exists>c'. send_body_loop c rest n = (None, c') \<and> calm c'"
  using send_slices_calm [OF assms] by (cases "send_body_loop c rest n") (auto simp: send_body_loop_slices)

fun as_upload_error :: "remote_error \<Rightarrow> upload_error" where
  "as_upload_error DroppedDuringTransfer = DroppedMidUpload"
| "as_upload_error e = UploadWriteFailed"

lemma read_body_loop_receive:
  "receive_loop c p d n = (case read_body_loop c p d n of (e, c', d') \<Rightarrow> (map_option as_upload_error e, c', d'))"
proof (induction n arbitrary: c d rule: less_induct)
  case (less n)
  show ?case
  proof (cases "0 < n")
    case False
    then show ?thesis by (simp add: receive_loop.simps read_body_loop.simps)
  next
    case True
    then have "n - min kIoBufferSize n < n" by (simp add: kIoBufferSize_def)
    note IH = less.IH [OF this]
    show ?thesis
      using True
      by (subst receive_loop.simps, subst read_body_loop.simps)
        (simp add: Let_def IH split: prod.split option.split)
  qed
qed

lemma read_body_loop_spec:
  assumes "read_body_loop c p d n = (None, c', d')" and "fs_read d p = Some c0"
  shows "\<exists>s. length s = n \<and> inp c = s @ inp c' \<and> outp c' = outp c \<and> fs_read d' p = Some (c0 @ s)"
  using receive_loop_spec [of c p d n c' d' c0] assms by (simp add: read_body_loop_receive)

lemma read_body_loop_touches: "read_body_loop c p d n = (e, c', d') \<Longrightarrow> touches {p} d d'"
  using receive_loop_touches [of c p d n _ c' d'] by (auto simp: read_body_loop_receive)

lemma read_body_loop_outp: "read_body_loop c p d n = (e, c', d') \<Longrightarrow> outp c' = outp c"
  using receive_loop_outp [of c p d n _ c' d'] by (auto simp: read_body_loop_receive)

lemma read_body_loop_faultless: "read_body_loop c p d n = (e, c', d') \<Longrightarrow> faults d = [] \<Longrightarrow> faults d' = []"
proof (induction c p d n rule: read_body_loop.induct)
  case (1 c p d n)
  show ?case
    using "1.prems" "1.IH"
    by (subst (asm) read_body_loop.simps)
      (auto simp: Let_def split: if_splits option.splits prod.splits dest: faultless_append)
qed

lemma flush_prefix:
  "fs_flush d p = (ok, d') \<Longrightarrow> fs_read d p = Some c \<Longrightarrow>
     \<exists>k. fs_read d' p = Some (take k c) \<and> (faults d = [] \<longrightarrow> take k c = c)"
  by (cases "faults d") (auto simp: fs_flush_def pop_fault_def fs_simps split: option.splits intro: exI [of _ "length c"])

text \<open>A flush whose failure nobody sees may leave only a first part of the body.\<close>

lemma read_body_to_file_spec:
  assumes "read_body_to_file c d p n = (None, c', d')"
  shows "\<exists>s k. length s = n \<and> inp c = s @ inp c' \<and> outp c' = outp c \<and> fs_read d' p = Some (take k s) \<and>
    (faults d = [] \<longrightarrow> take k s = s)"
proof -
  obtain d1 d2 where cr: "fs_create d p = (True, d1)" and l: "read_body_loop c p d1 n = (None, c', d2)"
    and f: "d' = snd (fs_flush d2 p)"
    using assms by (auto simp: read_body_to_file_def split: if_splits option.splits prod.splits)
  from read_body_loop_spec [OF l create_effect [OF cr]] obtain s where
    s: "length s = n" "inp c = s @ inp c'" "outp c' = outp c" "fs_read d2 p = Some s" by auto
  have "faults d = [] \<longrightarrow> faults d2 = []"
    using faultless_create [OF _ cr] read_body_loop_faultless [OF l] by blast
  with s flush_prefix [of d2 p _ d' s] f show ?thesis by (metis prod.collapse)
qed

end
