(* ===== verification/Container.thy ===== *)
theory Container
  imports Crypto
begin

text \<open>
  \<open>src/core/stream.cpp\<close>: the encrypted container a file is sealed into, block by block. The
  header and the lengths are little-endian; every block is sealed under its own random
  initialisation vector with the whole header and the block's index as additional data.
\<close>

section \<open>Little-endian integers\<close>

definition put_u32 :: "bytes \<Rightarrow> u32 \<Rightarrow> bytes" where
  "put_u32 out value = foldl (\<lambda>out i. out @ [ucast (drop_bit (8 * i) value AND 0xFF)]) out [0..<4]"

definition put_u64 :: "bytes \<Rightarrow> u64 \<Rightarrow> bytes" where
  "put_u64 out value = foldl (\<lambda>out i. out @ [ucast (drop_bit (8 * i) value AND 0xFF)]) out [0..<8]"

definition get_u32 :: "bytes \<Rightarrow> u32" where
  "get_u32 p = foldl (\<lambda>v i. v OR push_bit (8 * i) (ucast (p ! i))) 0 [0..<4]"

definition get_u64 :: "bytes \<Rightarrow> u64" where
  "get_u64 p = foldl (\<lambda>v i. v OR push_bit (8 * i) (ucast (p ! i))) 0 [0..<8]"

text \<open>
  What the container relies on of a fixed-width encoding: it appends \<open>width\<close> bytes, and reading
  and writing are inverse to each other.
\<close>

locale fixed_codec =
  fixes enc :: "bytes \<Rightarrow> 'a \<Rightarrow> bytes"
    and dec :: "bytes \<Rightarrow> 'a"
    and width :: nat
  assumes appends: "enc out v = out @ enc [] v"
    and width: "length (enc [] v) = width"
    and dec_prefix: "dec (enc [] v @ rest) = v"
    and enc_dec: "length p = width \<Longrightarrow> enc [] (dec p) = p"
begin

lemma dec_enc [simp]: "dec (enc [] v) = v"
  using dec_prefix [of v "[]"] by simp

lemma enc_inj: "enc [] v = enc [] w \<longleftrightarrow> v = w"
  by (metis dec_enc)

lemma length_enc [simp]: "length (enc out v) = length out + width"
  by (subst appends) (simp add: width)

lemma enc_dec_drop:
  "length p = n + width + m \<Longrightarrow> (\<And>q. length q = width \<Longrightarrow> dec (q @ drop (n + width) p) = dec q) \<Longrightarrow>
     enc [] (dec (drop n p)) = take width (drop n p)"
proof -
  assume len: "length p = n + width + m"
    and dec: "\<And>q. length q = width \<Longrightarrow> dec (q @ drop (n + width) p) = dec q"
  have "drop n p = take width (drop n p) @ drop (n + width) p"
    by (metis append_take_drop_id drop_drop add.commute)
  with len dec [of "take width (drop n p)"] enc_dec [of "take width (drop n p)"] show ?thesis
    by simp
qed

end

lemma foldl_snoc_map: "foldl (\<lambda>out i. out @ [f i]) out xs = out @ map f xs"
  by (induction xs arbitrary: out) simp_all

lemma ucast_and_ff: "ucast (x AND 0xFF) = (ucast x :: byte)" for x :: "'a::len word"
proof -
  have "(0xFF :: 'a word) = mask 8" by (simp add: mask_eq_exp_minus_1)
  then have "ucast (x AND 0xFF) = (ucast (x AND mask 8) :: byte)" by simp
  also have "\<dots> = ucast x" by (rule bit_word_eqI) (auto simp: bit_simps dest: bit_imp_le_length)
  finally show ?thesis .
qed

lemma bit_byte_less: "bit (b :: byte) m \<Longrightarrow> m < 8"
  using bit_imp_le_length [of b m] by simp

lemma bit_gather:
  "bit (foldl (\<lambda>v i. v OR push_bit (8 * i) (ucast (p ! i :: byte))) 0 [0..<k] :: 'a::len word) n \<longleftrightarrow>
     n < LENGTH('a) \<and> n div 8 < k \<and> bit (p ! (n div 8)) (n mod 8)"
proof (induction k)
  case (Suc k)
  have "bit (push_bit (8 * k) (ucast (p ! k)) :: 'a word) n \<longleftrightarrow>
      n < LENGTH('a) \<and> n div 8 = k \<and> bit (p ! (n div 8)) (n mod 8)"
  proof (cases "n div 8 = k")
    case True
    then have "n = 8 * k + n mod 8" using div_mult_mod_eq [of n 8] by (simp add: mult.commute)
    then have "8 * k \<le> n" "n - 8 * k = n mod 8" by linarith+
    with True show ?thesis by (auto simp: bit_simps)
  next
    case False
    then have "8 * k \<le> n \<longrightarrow> \<not> n - 8 * k < 8" by linarith
    with False show ?thesis by (auto simp: bit_simps dest: bit_byte_less)
  qed
  with Suc.IH show ?case by (auto simp: bit_or_iff less_Suc_eq)
qed simp

lemma gather_scatter:
  assumes "LENGTH('a::len) \<le> 8 * k"
  shows "foldl (\<lambda>w i. w OR push_bit (8 * i)
      (ucast ((map (\<lambda>i. ucast (drop_bit (8 * i) v)) [0..<k] @ rest) ! i :: byte))) 0 [0..<k] = (v :: 'a word)"
proof (rule bit_word_eqI)
  fix n assume n: "n < LENGTH('a)"
  with assms have "n div 8 < k" by simp
  moreover have "n mod 8 < 8" by simp
  ultimately show "bit (foldl (\<lambda>w i. w OR push_bit (8 * i)
      (ucast ((map (\<lambda>i. ucast (drop_bit (8 * i) v)) [0..<k] @ rest) ! i :: byte))) 0 [0..<k] :: 'a word) n
      = bit v n"
    using n by (subst bit_gather) (simp add: nth_append bit_simps)
qed

lemma scatter_gather:
  assumes "length p = k" and "LENGTH('a::len) = 8 * k"
  shows "map (\<lambda>i. ucast (drop_bit (8 * i)
      (foldl (\<lambda>v i. v OR push_bit (8 * i) (ucast (p ! i))) 0 [0..<k] :: 'a word))) [0..<k] = (p :: bytes)"
proof (rule nth_equalityI)
  fix i assume "i < length (map (\<lambda>i. ucast (drop_bit (8 * i)
      (foldl (\<lambda>v i. v OR push_bit (8 * i) (ucast (p ! i))) 0 [0..<k] :: 'a word)) :: byte) [0..<k])"
  then have i: "i < k" by simp
  have "ucast (drop_bit (8 * i)
      (foldl (\<lambda>v i. v OR push_bit (8 * i) (ucast (p ! i))) 0 [0..<k] :: 'a word)) = p ! i"
    (is "?w = _")
  proof (rule bit_word_eqI)
    fix n assume "n < LENGTH(8)"
    then have n: "n < 8" by simp
    then have "(8 * i + n) div 8 = i" "(8 * i + n) mod 8 = n" by simp_all
    with i n assms show "bit ?w n = bit (p ! i) n" by (simp add: bit_simps bit_gather)
  qed
  with i show "map (\<lambda>i. ucast (drop_bit (8 * i)
      (foldl (\<lambda>v i. v OR push_bit (8 * i) (ucast (p ! i))) 0 [0..<k] :: 'a word)) :: byte) [0..<k] ! i = p ! i"
    by simp
qed (simp add: assms)

lemma put_u32_eq: "put_u32 out v = out @ map (\<lambda>i. ucast (drop_bit (8 * i) v)) [0..<4]"
  by (simp add: put_u32_def foldl_snoc_map ucast_and_ff)

lemma put_u64_eq: "put_u64 out v = out @ map (\<lambda>i. ucast (drop_bit (8 * i) v)) [0..<8]"
  by (simp add: put_u64_def foldl_snoc_map ucast_and_ff)

interpretation u32: fixed_codec put_u32 get_u32 4
proof unfold_locales
  show "put_u32 out v = out @ put_u32 [] v" for out v by (simp add: put_u32_eq)
  show "length (put_u32 [] v) = 4" for v by (simp add: put_u32_eq)
  show "get_u32 (put_u32 [] v @ rest) = v" for v rest
    unfolding put_u32_eq get_u32_def append_Nil by (rule gather_scatter) simp
  show "put_u32 [] (get_u32 p) = p" if "length p = 4" for p
    unfolding put_u32_eq get_u32_def append_Nil using that by (rule scatter_gather) simp
qed

interpretation u64: fixed_codec put_u64 get_u64 8
proof unfold_locales
  show "put_u64 out v = out @ put_u64 [] v" for out v by (simp add: put_u64_eq)
  show "length (put_u64 [] v) = 8" for v by (simp add: put_u64_eq)
  show "get_u64 (put_u64 [] v @ rest) = v" for v rest
    unfolding put_u64_eq get_u64_def append_Nil by (rule gather_scatter) simp
  show "put_u64 [] (get_u64 p) = p" if "length p = 8" for p
    unfolding put_u64_eq get_u64_def append_Nil using that by (rule scatter_gather) simp
qed

section \<open>The header\<close>

record stream_header =
  iterations :: u32
  salt :: bytes
  block_size :: u32
  plain_size :: u64

definition kStreamVersion :: byte where "kStreamVersion = 1"
definition kStreamMagic :: bytes where "kStreamMagic = bytes_of ''PCS1''"
definition kBlockSize :: u32 where "kBlockSize = push_bit 20 1"

definition kHeaderLen :: nat where
  "kHeaderLen = 4 + 1 + 4 + kSaltLen + 4 + 8"

datatype stream_error =
    NotAFile path | UnknownFileSize | CannotOpenFile path | NoEntropyForSalt | KeyDerivationFailed
  | CannotWriteFile path | ShortRead | EncryptionFailed | DiskFull | FlushFailed
  | TooShortForHeader | TruncatedHeader | BadMagic | UnsupportedVersion | ImplausibleBlockSize
  | InvalidIterations | EndsInsideBlock | BlockTooLarge | AuthenticationFailed | SizeMismatch

definition build_header :: "stream_header \<Rightarrow> bytes" where
  "build_header h =
     (let out = [];
          out = out @ kStreamMagic;
          out = out @ [kStreamVersion];
          out = put_u32 out (iterations h);
          out = out @ salt h;
          out = put_u32 out (block_size h);
          out = put_u64 out (plain_size h)
      in out)"

definition parse_header :: "bytes \<Rightarrow> stream_error + stream_header" where
  "parse_header raw =
     (if length raw \<noteq> kHeaderLen then Inl TruncatedHeader
      else if take 4 raw \<noteq> kStreamMagic then Inl BadMagic
      else if raw ! 4 \<noteq> kStreamVersion then Inl UnsupportedVersion
      else
        let out = \<lparr>iterations = get_u32 (drop 5 raw),
                   salt = take kSaltLen (drop 9 raw),
                   block_size = get_u32 (drop (9 + kSaltLen) raw),
                   plain_size = get_u64 (drop (13 + kSaltLen) raw)\<rparr>
        in if block_size out = 0 \<or> block_size out > 64 * 1024 * 1024 then Inl ImplausibleBlockSize
           else if iterations out = 0 then Inl InvalidIterations
           else Inr out)"

definition block_aad :: "bytes \<Rightarrow> u64 \<Rightarrow> bytes" where
  "block_aad header index = (let aad = header in put_u64 aad index)"

definition block_count :: "u64 \<Rightarrow> u32 \<Rightarrow> u64" where
  "block_count plain block =
     (if plain = 0 then 0 else (plain + ucast block - 1) div ucast block)"

section \<open>File streams\<close>

text \<open>
  An input stream is its state bit and what is left to read; a read that comes up short leaves
  it failed, and a failed stream reads nothing. An output stream likewise ignores every write
  after a failed one.
\<close>

type_synonym instream = "bool \<times> string"

definition in_read :: "nat \<Rightarrow> instream \<Rightarrow> bytes \<times> instream" where
  "in_read n s =
     (case s of (good, rest) \<Rightarrow>
        if good then (bytes_of (take n rest), (n \<le> length rest, drop n rest))
        else ([], (False, rest)))"

definition out_write :: "path \<Rightarrow> bytes \<Rightarrow> bool \<times> disk \<Rightarrow> bool \<times> disk" where
  "out_write p bs s = (case s of (good, d) \<Rightarrow> if good then fs_append d p (string_of bs) else (False, d))"

section \<open>Sealing\<close>

function seal_loop ::
  "'x openssl \<Rightarrow> bytes \<Rightarrow> bytes \<Rightarrow> nat \<Rightarrow> path \<Rightarrow> instream \<Rightarrow> nat \<Rightarrow> u64 \<Rightarrow> hmac_state \<Rightarrow> bytes \<Rightarrow>
     bool \<times> disk \<Rightarrow> (stream_error + hmac_state) \<times> bytes \<times> (bool \<times> disk)"
where
  "seal_loop E key raw_header plain sp inp done index tagger pool out =
     (if done < plain then
        let want = min (unat kBlockSize) (plain - done);
            (block, inp) = in_read want inp
        in if length block \<noteq> want then (Inl ShortRead, pool, out)
           else
             let tagger = hmac_update tagger block;
                 (iv, pool) = random_bytes kIvLen pool
             in case aes_gcm_seal E key iv (block_aad raw_header index) block of
                  None \<Rightarrow> (Inl EncryptionFailed, pool, out)
                | Some (cipher, tag) \<Rightarrow>
                    let length_le = put_u32 [] (of_nat (length cipher));
                        out = out_write sp iv out;
                        out = out_write sp length_le out;
                        out = out_write sp cipher out;
                        out = out_write sp tag out
                    in if \<not> fst out then (Inl DiskFull, pool, out)
                       else seal_loop E key raw_header plain sp inp (done + want) (index + 1)
                              tagger pool out
      else (Inr tagger, pool, out))"
  by pat_completeness auto
termination
  by (relation "measure (\<lambda>(E, key, h, plain, sp, inp, done, i, t, pool, out). plain - done)")
    (auto simp: kBlockSize_def)

declare seal_loop.simps [simp del]

definition seal_file ::
  "'x openssl \<Rightarrow> disk \<Rightarrow> bytes \<Rightarrow> path \<Rightarrow> path \<Rightarrow> string \<Rightarrow> (stream_error + string) \<times> bytes \<times> disk" where
  "seal_file E d pool plain_path stream_path passphrase =
     (if \<not> fs_exists d plain_path \<or> \<not> fs_is_regular d plain_path
      then (Inl (NotAFile plain_path), pool, d)
      else case fs_size d plain_path of
        None \<Rightarrow> (Inl UnknownFileSize, pool, d)
      | Some n \<Rightarrow>
      case fs_read d plain_path of
        None \<Rightarrow> (Inl (CannotOpenFile plain_path), pool, d)
      | Some c \<Rightarrow>
      let (s, pool) = random_bytes kSaltLen pool;
          header = \<lparr>iterations = kKdfIterations, salt = s, block_size = kBlockSize,
                    plain_size = of_nat n\<rparr>
      in if length (salt header) \<noteq> kSaltLen then (Inl NoEntropyForSalt, pool, d)
      else
      let key = derive_key E passphrase (salt header) kContentKeyLabel (iterations header)
      in if length key \<noteq> kKeyLen then (Inl KeyDerivationFailed, pool, d)
      else case fs_create d stream_path of (ok, d) \<Rightarrow>
      if \<not> ok then (Inl (CannotWriteFile stream_path), pool, d)
      else
      let raw_header = build_header header;
          out = out_write stream_path raw_header (True, d);
          tagger = hmac_new E (derive_dedup_key E passphrase)
      in case seal_loop E key raw_header n stream_path (True, c) 0 0 tagger pool out of
           (Inl e, pool, out) \<Rightarrow> (Inl e, pool, snd out)
         | (Inr tagger, pool, out) \<Rightarrow>
             let out = out_flush stream_path out
             in if \<not> fst out then (Inl FlushFailed, pool, snd out)
                else (Inr (to_hex (hmac_finish E tagger)), pool, snd out))"

section \<open>Opening\<close>

text \<open>One turn of the loop: the block's plain text, or the reason to stop.\<close>

definition read_block ::
  "'x openssl \<Rightarrow> bytes \<Rightarrow> bytes \<Rightarrow> u32 \<Rightarrow> u64 \<Rightarrow> instream \<Rightarrow> (stream_error + bytes) \<times> instream" where
  "read_block E key raw_header block index inp =
     (let (iv, inp) = in_read kIvLen inp;
          (length_le, inp) = in_read 4 inp
      in if \<not> fst inp then (Inl EndsInsideBlock, inp)
      else
      let cipher_len = get_u32 length_le
      in if cipher_len > block then (Inl BlockTooLarge, inp)
      else
      let (cipher, inp) = in_read (unat cipher_len) inp;
          (tag, inp) = in_read kTagLen inp
      in if \<not> fst inp then (Inl EndsInsideBlock, inp)
      else case aes_gcm_open E key iv (block_aad raw_header index) cipher tag of
             None \<Rightarrow> (Inl AuthenticationFailed, inp)
           | Some plain \<Rightarrow> (Inr plain, inp))"

function open_loop ::
  "'x openssl \<Rightarrow> bytes \<Rightarrow> bytes \<Rightarrow> u32 \<Rightarrow> nat \<Rightarrow> path \<Rightarrow> instream \<Rightarrow> nat \<Rightarrow> nat \<Rightarrow> bool \<times> disk \<Rightarrow>
     stream_error option \<times> nat \<times> (bool \<times> disk)"
where
  "open_loop E key raw_header block blocks pp inp index done out =
     (if index < blocks then
        case read_block E key raw_header block (of_nat index) inp of
          (Inl e, inp) \<Rightarrow> (Some e, done, out)
        | (Inr plain, inp) \<Rightarrow>
            let out = out_write pp plain out
            in if \<not> fst out then (Some DiskFull, done, out)
               else open_loop E key raw_header block blocks pp inp (index + 1)
                      (done + length plain) out
      else (None, done, out))"
  by pat_completeness auto
termination
  by (relation "measure (\<lambda>(E, key, h, b, blocks, pp, inp, index, done, out). blocks - index)") auto

declare open_loop.simps [simp del]

definition open_file ::
  "'x openssl \<Rightarrow> disk \<Rightarrow> path \<Rightarrow> path \<Rightarrow> string \<Rightarrow> (stream_error + unit) \<times> disk" where
  "open_file E d stream_path plain_path passphrase =
     (case fs_read d stream_path of
        None \<Rightarrow> (Inl (CannotOpenFile stream_path), d)
      | Some c \<Rightarrow>
      let (raw_header, inp) = in_read kHeaderLen (True, c)
      in if length raw_header \<noteq> kHeaderLen then (Inl TooShortForHeader, d)
      else case parse_header raw_header of
        Inl e \<Rightarrow> (Inl e, d)
      | Inr header \<Rightarrow>
      let key = derive_key E passphrase (salt header) kContentKeyLabel (iterations header)
      in if length key \<noteq> kKeyLen then (Inl KeyDerivationFailed, d)
      else case fs_create d plain_path of (ok, d) \<Rightarrow>
      if \<not> ok then (Inl (CannotWriteFile plain_path), d)
      else
      let blocks = unat (block_count (plain_size header) (block_size header));
          (err, done, out) =
            open_loop E key raw_header (block_size header) blocks plain_path inp 0 0 (True, d);
          err = (if err = None \<and> done \<noteq> unat (plain_size header) then Some SizeMismatch else err);
          out = out_flush plain_path out
      in case err of
           Some e \<Rightarrow> (case fs_remove (snd out) plain_path of (_, d) \<Rightarrow> (Inl e, d))
         | None \<Rightarrow> (Inr (), snd out))"

definition read_header :: "disk \<Rightarrow> path \<Rightarrow> stream_error + stream_header" where
  "read_header d stream_path =
     (case fs_read d stream_path of
        None \<Rightarrow> Inl (CannotOpenFile stream_path)
      | Some c \<Rightarrow>
      let (raw, inp) = in_read kHeaderLen (True, c)
      in if length raw \<noteq> kHeaderLen then Inl TooShortForHeader else parse_header raw)"

definition dedup_tag_for_file :: "'x openssl \<Rightarrow> disk \<Rightarrow> path \<Rightarrow> string \<Rightarrow> string" where
  "dedup_tag_for_file E d plain_path passphrase =
     (case fs_read d plain_path of
        None \<Rightarrow> []
      | Some c \<Rightarrow>
          let tagger = hmac_new E (derive_dedup_key E passphrase)
          in to_hex (hmac_finish E (feed_buffers kIoBufferSize hmac_update tagger c)))"

section \<open>Header round trip\<close>

definition header_ok :: "stream_header \<Rightarrow> bool" where
  "header_ok h \<longleftrightarrow> length (salt h) = kSaltLen \<and> iterations h \<noteq> 0 \<and> block_size h \<noteq> 0 \<and>
     block_size h \<le> 64 * 1024 * 1024"

lemma length_magic: "length kStreamMagic = 4"
  by (simp add: kStreamMagic_def)

lemma build_header_eq:
  "build_header h = kStreamMagic @ [kStreamVersion] @ put_u32 [] (iterations h) @ salt h @
     put_u32 [] (block_size h) @ put_u64 [] (plain_size h)"
  by (simp add: build_header_def Let_def u32.appends [of "_ @ _"] u64.appends [of "put_u32 _ _"]
      u32.appends [of "_ # _"])

lemma length_build_header: "header_ok h \<Longrightarrow> length (build_header h) = kHeaderLen"
  by (simp add: build_header_def Let_def header_ok_def kHeaderLen_def length_magic)

lemma parse_build_header: "header_ok h \<Longrightarrow> parse_header (build_header h) = Inr h"
proof -
  assume h: "header_ok h"
  then have s: "length (salt h) = 16" by (simp add: header_ok_def kSaltLen_def)
  note lens = length_magic u32.width u64.width
  have "drop 5 (build_header h) = put_u32 [] (iterations h) @ salt h @ put_u32 [] (block_size h) @
      put_u64 [] (plain_size h)"
    and "drop 9 (build_header h) = salt h @ put_u32 [] (block_size h) @ put_u64 [] (plain_size h)"
    and "drop 25 (build_header h) = put_u32 [] (block_size h) @ put_u64 [] (plain_size h)"
    and "drop 29 (build_header h) = put_u64 [] (plain_size h)"
    and "take 4 (build_header h) = kStreamMagic" and "build_header h ! 4 = kStreamVersion"
    by (simp_all add: build_header_eq lens s nth_append)
  with h show ?thesis
    by (simp add: parse_header_def length_build_header Let_def s kSaltLen_def u32.dec_prefix
        header_ok_def not_less)
qed

lemma get_u32_prefix: "length q = 4 \<Longrightarrow> get_u32 (q @ r) = get_u32 q"
  by (simp add: get_u32_def upt_rec nth_append)

lemma header_fields:
  assumes len: "length raw = 37" and magic: "take 4 raw = kStreamMagic" "raw ! 4 = kStreamVersion"
  shows "build_header \<lparr>iterations = get_u32 (drop 5 raw), salt = take 16 (drop 9 raw),
        block_size = get_u32 (drop 25 raw), plain_size = get_u64 (drop 29 raw)\<rparr> = raw"
proof -
  have cut: "drop n raw = take k (drop n raw) @ drop (n + k) raw" for n k
    by (metis append_take_drop_id drop_drop add.commute)
  have "raw = take 4 raw @ drop 4 raw" by simp
  moreover have "drop 4 raw = raw ! 4 # drop 5 raw" 
    using len Cons_nth_drop_Suc [of 4 raw] by simp
  moreover have "put_u32 [] (get_u32 (drop 5 raw)) = take 4 (drop 5 raw)"
    using len cut [of 5 4] by (intro u32.enc_dec_drop [where m = 28]) (simp_all add: get_u32_prefix)
  moreover have "put_u32 [] (get_u32 (drop 25 raw)) = take 4 (drop 25 raw)"
    using len by (intro u32.enc_dec_drop [where m = 8]) (simp_all add: get_u32_prefix)
  moreover have "put_u64 [] (get_u64 (drop 29 raw)) = drop 29 raw" using len by (simp add: u64.enc_dec)
  ultimately show ?thesis
    using magic cut [of 5 4] cut [of 9 16] cut [of 25 4] by (simp add: build_header_eq)
qed

lemma parse_header_ok: "parse_header raw = Inr h \<Longrightarrow> header_ok h \<and> build_header h = raw"
proof
  assume p: "parse_header raw = Inr h"
  then have len: "length raw = 37" and magic: "take 4 raw = kStreamMagic" "raw ! 4 = kStreamVersion"
    and h: "h = \<lparr>iterations = get_u32 (drop 5 raw), salt = take 16 (drop 9 raw),
        block_size = get_u32 (drop 25 raw), plain_size = get_u64 (drop 29 raw)\<rparr>"
    by (auto simp: parse_header_def Let_def kHeaderLen_def kSaltLen_def split: if_splits)
  from p len show "header_ok h"
    by (auto simp: parse_header_def Let_def header_ok_def kSaltLen_def kHeaderLen_def not_less
        split: if_splits)
  show "build_header h = raw" unfolding h using len magic by (rule header_fields)
qed

section \<open>Well-formed streams\<close>

text \<open>
  The blocks of a stream that is the sealing of the pieces \<open>ps\<close>, each under its own index
  counted from \<open>i\<close>.
\<close>

fun sealed :: "'x openssl \<Rightarrow> bytes \<Rightarrow> bytes \<Rightarrow> nat \<Rightarrow> bytes list \<Rightarrow> bytes \<Rightarrow> bool" where
  "sealed E key header i [] s \<longleftrightarrow> s = []"
| "sealed E key header i (p # ps) s \<longleftrightarrow>
     (\<exists>iv c t rest. length iv = kIvLen \<and>
        aes_gcm_seal E key iv (block_aad header (of_nat i)) p = Some (c, t) \<and>
        s = iv @ put_u32 [] (of_nat (length c)) @ c @ t @ rest \<and>
        sealed E key header (Suc i) ps rest)"

function pieces :: "nat \<Rightarrow> string \<Rightarrow> bytes list" where
  "pieces n s = (if s = [] \<or> n = 0 then [] else bytes_of (take n s) # pieces n (drop n s))"
  by pat_completeness auto
termination by (relation "measure (\<lambda>(n, s). length s)") auto

declare pieces.simps [simp del]

lemma concat_pieces: "0 < n \<Longrightarrow> concat (pieces n s) = bytes_of s"
proof (induction n s rule: pieces.induct)
  case (1 n s)
  then show ?case
    by (subst pieces.simps) (auto simp: bytes_of_append [symmetric] simp del: bytes_of_append)
qed

lemma pieces_bound: "p \<in> set (pieces n s) \<Longrightarrow> length p \<le> n"
proof (induction n s rule: pieces.induct)
  case (1 n s)
  then show ?case by (subst (asm) (2) pieces.simps) (auto split: if_splits)
qed

lemma length_pieces: "0 < n \<Longrightarrow> length (pieces n s) = (length s + n - 1) div n"
proof (induction n s rule: pieces.induct)
  case (1 n s)
  show ?case
  proof (cases "s = []")
    case False
    then have "length (pieces n s) = Suc ((length (drop n s) + n - 1) div n)"
      using 1 by (subst pieces.simps) simp
    also have "\<dots> = (length s + n - 1) div n"
    proof (cases "length s \<le> n")
      case True
      have "length s + n - 1 = n + (length s - 1)" using False by (cases s) simp_all
      then have "(length s + n - 1) div n = Suc ((length s - 1) div n)"
        using "1.prems" by (simp only: div_add_self1)
      also have "(length s - 1) div n = 0" using True False "1.prems" by (cases s) simp_all
      finally show ?thesis using True "1.prems" by simp
    next
      case False
      then have "length s + n - 1 = n + (length (drop n s) + n - 1)" using "1.prems" by simp
      then have "(length s + n - 1) div n = Suc ((length (drop n s) + n - 1) div n)"
        using "1.prems" by (simp only: div_add_self1)
      then show ?thesis by (rule sym)
    qed
    finally show ?thesis .
  qed (simp add: pieces.simps "1.prems")
qed

section \<open>What sealing writes\<close>

lemma hmac_update_update: "hmac_update (hmac_update h a) b = hmac_update h (a @ b)"
  by (auto simp: hmac_update_def split: option.splits)

lemma hmac_update_Nil [simp]: "hmac_update h [] = h"
  by (auto simp: hmac_update_def split: option.splits)

lemma out_write_success:
  assumes "out_write p bs out = (True, d')"
  obtains d where "out = (True, d)" and "fs_append d p (string_of bs) = (True, d')"
  using assms by (cases out) (auto simp: out_write_def split: if_splits)

lemma out_write_read:
  assumes "out_write p bs out = (True, d')" and "out = (True, d)" and "fs_read d p = Some c"
  shows "fs_read d' p = Some (c @ string_of bs)"
  using assms by (auto simp: out_write_def dest: append_effect)

lemma out_write_other:
  "out_write p bs (g, d) = (g', d') \<Longrightarrow> q \<noteq> p \<Longrightarrow> fs_read d' q = fs_read d q"
  by (auto simp: out_write_def dest: touches_append touches_read split: if_splits)

definition grown :: "path \<Rightarrow> bytes \<Rightarrow> disk \<Rightarrow> disk \<Rightarrow> bool" where
  "grown p bs d d' \<longleftrightarrow> (\<forall>c. fs_read d p = Some c \<longrightarrow> fs_read d' p = Some (c @ string_of bs)) \<and>
     (\<forall>q. q \<noteq> p \<longrightarrow> fs_read d' q = fs_read d q) \<and> (faults d = [] \<longrightarrow> faults d' = [])"

lemma grown_Nil [simp]: "grown p [] d d"
  by (simp add: grown_def)

lemma grown_trans: "grown p a d d' \<Longrightarrow> grown p b d' d'' \<Longrightarrow> grown p (a @ b) d d''"
  by (auto simp: grown_def string_of_append)

lemma out_write_grown:
  assumes "out_write p bs out = (True, d')"
  shows "\<exists>d. out = (True, d) \<and> grown p bs d d'"
proof -
  from assms obtain d where d: "out = (True, d)" by (rule out_write_success)
  with assms out_write_read [OF assms d] out_write_other [of p bs True d True d'] show ?thesis
    by (auto simp: grown_def out_write_def dest: faultless_append)
qed

lemma four_writes_grown:
  assumes "out_write p w (out_write p z (out_write p y (out_write p x out))) = (True, d')"
  shows "\<exists>d. out = (True, d) \<and> grown p (x @ y @ z @ w) d d'"
proof -
  obtain c where c: "out_write p z (out_write p y (out_write p x out)) = (True, c)" "grown p w c d'"
    using out_write_grown [OF assms] by blast
  obtain b where b: "out_write p y (out_write p x out) = (True, b)" "grown p z b c"
    using out_write_grown [OF c(1)] by blast
  obtain a where a: "out_write p x out = (True, a)" "grown p y a b"
    using out_write_grown [OF b(1)] by blast
  obtain d where "out = (True, d)" "grown p x d a" using out_write_grown [OF a(1)] by blast
  with grown_trans [OF _ grown_trans [OF a(2) grown_trans [OF b(2) c(2)]]] show ?thesis by blast
qed

lemma aes_gcm_seal_iv: "aes_gcm_seal E key iv aad p = Some r \<Longrightarrow> length iv = kIvLen"
  by (auto simp: aes_gcm_seal_def split: if_splits)

lemma seal_loop_success:
  assumes "seal_loop E key hdr plain sp (True, s) done (of_nat i) tagger pool out = (Inr tg, pool', (True, d'))"
    and "length s = plain - done"
  shows "\<exists>d bl. out = (True, d) \<and> grown sp bl d d' \<and>
           sealed E key hdr i (pieces (unat kBlockSize) s) bl \<and> tg = hmac_update tagger (bytes_of s)"
  using assms
proof (induction "plain - done" arbitrary: s "done" i tagger pool out rule: less_induct)
  case less
  show ?case
  proof (cases "done < plain")
    case False
    with less.prems show ?thesis by (auto simp: seal_loop.simps pieces.simps intro: exI [of _ "[]"])
  next
    case True
    define want where "want = min (unat kBlockSize) (plain - done)"
    have want: "0 < want" "want \<le> length s" "want = min (unat kBlockSize) (length s)"
      using True less.prems(2) by (simp_all add: want_def kBlockSize_def)
    define b where "b = bytes_of (take want s)"
    obtain iv pool2 where iv: "random_bytes kIvLen pool = (iv, pool2)" by fastforce
    have read: "in_read want (True, s) = (b, (True, drop want s))"
      using want by (simp add: in_read_def b_def)
    have len: "length b = want" using want by (simp add: b_def)
    obtain c t where ct: "aes_gcm_seal E key iv (block_aad hdr (of_nat i)) b = Some (c, t)"
      using less.prems(1) True read len iv
      by (subst (asm) seal_loop.simps) (auto simp: want_def [symmetric] split: option.splits)
    let ?out = "out_write sp t (out_write sp c (out_write sp (put_u32 [] (of_nat (length c)))
      (out_write sp iv out)))"
    have rest: "fst ?out \<and> seal_loop E key hdr plain sp (True, drop want s) (done + want) (of_nat (Suc i))
        (hmac_update tagger b) pool2 ?out = (Inr tg, pool', (True, d'))"
      using less.prems(1) True read len iv ct
      by (subst (asm) seal_loop.simps) (simp add: want_def [symmetric] Let_def add.commute split: if_splits)
    have "plain - (done + want) < plain - done" "length (drop want s) = plain - (done + want)"
      using True want less.prems(2) by simp_all
    from less.hyps [OF this(1) conjunct2 [OF rest] this(2)]
    obtain e bl where e: "?out = (True, e)" "grown sp bl e d'"
      and bl: "sealed E key hdr (Suc i) (pieces (unat kBlockSize) (drop want s)) bl"
      and tg: "tg = hmac_update (hmac_update tagger b) (bytes_of (drop want s))"
      by blast
    obtain d where d: "out = (True, d)" "grown sp (iv @ put_u32 [] (of_nat (length c)) @ c @ t) d e"
      using four_writes_grown [OF e(1)] by blast
    have "take want s = take (unat kBlockSize) s" "drop want s = drop (unat kBlockSize) s"
      using want(3) by (simp_all add: min_def)
    then have "pieces (unat kBlockSize) s = b # pieces (unat kBlockSize) (drop want s)"
      using want by (subst pieces.simps) (auto simp: b_def kBlockSize_def)
    then have "sealed E key hdr i (pieces (unat kBlockSize) s)
        (iv @ put_u32 [] (of_nat (length c)) @ c @ t @ bl)"
      using bl ct aes_gcm_seal_iv [OF ct] by auto
    moreover have "tg = hmac_update tagger (bytes_of s)"
      unfolding tg hmac_update_update b_def by (simp flip: bytes_of_append)
    ultimately show ?thesis using d grown_trans [OF d(2) e(2)] by auto
  qed
qed

lemma random_salt: "random_bytes kSaltLen pool = (s, pool') \<Longrightarrow> length s = kSaltLen \<Longrightarrow> s = take kSaltLen pool"
  by (auto simp: random_bytes_def split: if_splits)

definition sealed_header :: "bytes \<Rightarrow> nat \<Rightarrow> stream_header" where
  "sealed_header s n =
     \<lparr>iterations = kKdfIterations, salt = s, block_size = kBlockSize, plain_size = of_nat n\<rparr>"

lemma sealed_header_ok: "length s = kSaltLen \<Longrightarrow> header_ok (sealed_header s n)"
  by (simp add: header_ok_def sealed_header_def kKdfIterations_def kBlockSize_def)

definition plain_tag :: "'x openssl \<Rightarrow> string \<Rightarrow> string \<Rightarrow> string" where
  "plain_tag E passphrase c =
     to_hex (hmac_finish E (hmac_update (hmac_new E (derive_dedup_key E passphrase)) (bytes_of c)))"

lemma seal_file_success:
  assumes "seal_file E d pool pp sp passphrase = (Inr tag, pool', d')" and "fs_read d pp = Some c"
  shows "\<exists>s bl. length s = kSaltLen \<and>
           length (derive_key E passphrase s kContentKeyLabel kKdfIterations) = kKeyLen \<and>
           sealed E (derive_key E passphrase s kContentKeyLabel kKdfIterations)
             (build_header (sealed_header s (length c))) 0 (pieces (unat kBlockSize) c) bl \<and>
           fs_read d' sp = Some (string_of (build_header (sealed_header s (length c)) @ bl)) \<and>
           tag = plain_tag E passphrase c \<and> (\<forall>q. q \<noteq> sp \<longrightarrow> fs_read d' q = fs_read d q)"
proof -
  have size: "fs_size d pp = Some (length c)" using assms(2) by (simp add: fs_size_def)
  obtain s pool1 where s: "random_bytes kSaltLen pool = (s, pool1)" by fastforce
  let ?key = "derive_key E passphrase s kContentKeyLabel kKdfIterations"
  let ?h = "build_header (sealed_header s (length c))"
  let ?t = "hmac_new E (derive_dedup_key E passphrase)"
  from assms size s have len: "length s = kSaltLen" "length ?key = kKeyLen"
    by (auto simp: seal_file_def Let_def split: if_splits)
  obtain d1 where d1: "fs_create d sp = (True, d1)"
    using assms size s len by (auto simp: seal_file_def Let_def split: if_splits prod.splits)
  let ?run = "seal_loop E ?key ?h (length c) sp (True, c) 0 0 ?t pool1 (out_write sp ?h (True, d1))"
  obtain tg out2 where run: "?run = (Inr tg, pool', out2)" and "fst (out_flush sp out2)" "d' = snd (out_flush sp out2)"
    and tag: "tag = to_hex (hmac_finish E tg)"
    using assms size s len d1
    by (cases ?run; cases "fst ?run")
      (auto simp: seal_file_def Let_def sealed_header_def split: if_splits prod.splits sum.splits)
  then have flush: "out_flush sp out2 = (True, d')" by (simp add: prod_eq_iff)
  then obtain d2 where d2: "out2 = (True, d2)" and fl: "fs_flush d2 sp = (True, d')"
    by (cases out2) (auto simp: out_flush_def split: if_splits)
  obtain e bl where e: "out_write sp ?h (True, d1) = (True, e)" "grown sp bl e d2"
    and bl: "sealed E ?key ?h 0 (pieces (unat kBlockSize) c) bl"
    and tg: "tg = hmac_update ?t (bytes_of c)"
  proof -
    have "seal_loop E ?key ?h (length c) sp (True, c) 0 (of_nat 0) ?t pool1 (out_write sp ?h (True, d1)) =
        (Inr tg, pool', (True, d2))"
      using run d2 by simp
    from seal_loop_success [OF this] that show thesis by auto
  qed
  have "grown sp (?h @ bl) d1 d2" using grown_trans [OF _ e(2)] out_write_grown [OF e(1)] by auto
  moreover have "fs_read d1 q = (if q = sp then Some [] else fs_read d q)" for q
    using d1 by (rule create_success)
  ultimately have "fs_read d2 sp = Some (string_of (?h @ bl))" "q \<noteq> sp \<Longrightarrow> fs_read d2 q = fs_read d q" for q
    by (simp_all add: grown_def)
  with flush_effect [OF fl] len bl show ?thesis
    by (auto simp: tag tg plain_tag_def)
qed

section \<open>What opening accepts\<close>

lemma in_read_ok: "length bs = n \<Longrightarrow> in_read n (True, string_of (bs @ rest)) = (bs, (True, string_of rest))"
  by (simp add: in_read_def string_of_append)

lemma in_read_good:
  assumes "in_read n (g, s) = (bs, (True, s'))"
  shows "g \<and> length bs = n \<and> s = string_of bs @ s'"
  using assms by (auto simp: in_read_def split: if_splits)

text \<open>A block is accepted exactly when it is the sealing of its plain text.\<close>

lemma read_block_accepts:
  assumes "openssl_ok E" and "length iv = kIvLen"
    and "aes_gcm_seal E key iv (block_aad hdr i) p = Some (c, t)" and "length p \<le> unat block"
  shows "read_block E key hdr block i (True, string_of (iv @ put_u32 [] (of_nat (length c)) @ c @ t @ rest)) =
           (Inr p, (True, string_of rest))"
proof -
  have c: "length c = length p" "length t = kTagLen"
    and dec: "aes_gcm_open E key iv (block_aad hdr i) c t = Some p"
    using assms(1,3) by (auto simp: openssl_ok_def)
  have "unat block < 2 ^ LENGTH(32)" by (rule unsigned_less)
  then have n: "unat (of_nat (length c) :: u32) = length c"
    using assms(4) c by (simp add: unat_of_nat)
  then have "\<not> of_nat (length c) > block" using assms(4) c by (simp add: word_less_nat_alt)
  with n dec c assms(2) show ?thesis
    unfolding read_block_def append_assoc
    by (simp add: in_read_ok u32.width append_assoc [symmetric] del: append_assoc)
      (simp add: in_read_ok)
qed

lemma read_block_success:
  assumes "openssl_ok E" and "read_block E key hdr block i (True, s) = (Inr p, inp')"
  shows "\<exists>iv c t s'. inp' = (True, s') \<and> length iv = kIvLen \<and> length p \<le> unat block \<and>
           aes_gcm_seal E key iv (block_aad hdr i) p = Some (c, t) \<and>
           s = string_of (iv @ put_u32 [] (of_nat (length c)) @ c @ t) @ s'"
proof -
  obtain iv s1 where 1: "in_read kIvLen (True, s) = (iv, s1)" by (meson surj_pair)
  obtain le s2 where 2: "in_read 4 s1 = (le, s2)" by (meson surj_pair)
  obtain c s3 where 3: "in_read (unat (get_u32 le)) s2 = (c, s3)" by (meson surj_pair)
  obtain t s4 where 4: "in_read kTagLen s3 = (t, s4)" by (meson surj_pair)
  from assms(2) 1 2 3 4 have good: "fst s2" "fst s4" and small: "\<not> get_u32 le > block"
    and dec: "aes_gcm_open E key iv (block_aad hdr i) c t = Some p" and inp: "inp' = s4"
    by (auto simp: read_block_def Let_def split: if_splits option.splits)
  obtain r where r4: "s4 = (True, r)" using good by (cases s4) auto
  obtain g3 r3 where s3: "s3 = (g3, r3)" by (meson surj_pair)
  obtain g2 r2 where s2: "s2 = (g2, r2)" by (meson surj_pair)
  obtain g1 r1 where s1: "s1 = (g1, r1)" by (meson surj_pair)
  have t: "g3" "r3 = string_of t @ r" using in_read_good 4 r4 s3 by blast+
  have c: "length c = unat (get_u32 le)" "g2" "r2 = string_of c @ r3"
    using in_read_good [of _ g2 r2 c r3] 3 s2 s3 t by auto
  have le: "length le = 4" "g1" "r1 = string_of le @ r2"
    using in_read_good [of 4 g1 r1 le r2] 2 s1 s2 c by auto
  have iv: "length iv = kIvLen" "s = string_of iv @ r1"
    using in_read_good [of kIvLen True s iv r1] 1 s1 le by auto
  have seal: "aes_gcm_seal E key iv (block_aad hdr i) p = Some (c, t)" "length c = length p"
    using assms(1) dec by (auto simp: openssl_ok_def)
  have "le = put_u32 [] (of_nat (length c))" using c le by (simp add: u32.enc_dec)
  moreover have "length p \<le> unat block" using small c seal by (simp add: word_less_nat_alt)
  ultimately show ?thesis
    using inp r4 t c le iv seal by (intro exI [of _ iv] exI [of _ c] exI [of _ t] exI [of _ r])
      (simp add: string_of_append)
qed

lemma open_loop_accepts:
  assumes "openssl_ok E" and "faults d = []"
    and "sealed E key hdr i ps bl" and "\<forall>p\<in>set ps. length p \<le> unat block"
  shows "open_loop E key hdr block (i + length ps) pp (True, string_of (bl @ rest)) i done (True, put d pp c0) =
           (None, done + length (concat ps), (True, put d pp (c0 @ string_of (concat ps))))"
  using assms(3,4)
proof (induction ps arbitrary: i bl "done" c0)
  case Nil
  then show ?case by (simp add: open_loop.simps)
next
  case (Cons p ps)
  then obtain iv c t bl' where b: "length iv = kIvLen"
    "aes_gcm_seal E key iv (block_aad hdr (of_nat i)) p = Some (c, t)"
    "bl = iv @ put_u32 [] (of_nat (length c)) @ c @ t @ bl'" "sealed E key hdr (Suc i) ps bl'"
    by auto
  have "read_block E key hdr block (of_nat i) (True, string_of (bl @ rest)) =
      (Inr p, (True, string_of (bl' @ rest)))"
    using read_block_accepts [OF assms(1) b(1,2), of block "bl' @ rest"] Cons.prems(2) b(3) by simp
  moreover have "out_write pp p (True, put d pp c0) = (True, put d pp (c0 @ string_of p))"
    using assms(2) by (simp add: out_write_def append_ok fs_simps)
  ultimately show ?case
    using Cons.IH [OF b(4), of "done + length p" "c0 @ string_of p"] Cons.prems(2)
    by (subst open_loop.simps) (simp add: string_of_append add.assoc)
qed

lemma open_loop_success:
  assumes "openssl_ok E"
    and "open_loop E key hdr block blocks pp (True, s) i done (True, d) = (None, done', out')"
    and "i \<le> blocks"
  shows "\<exists>ps bl s' d'. out' = (True, d') \<and> grown pp (concat ps) d d' \<and> length ps = blocks - i \<and>
           sealed E key hdr i ps bl \<and> s = string_of bl @ s' \<and> done' = done + length (concat ps) \<and>
           (\<forall>p\<in>set ps. length p \<le> unat block)"
  using assms(2,3)
proof (induction "blocks - i" arbitrary: s i "done" d)
  case 0
  then show ?case
    by (intro exI [of _ "[] :: bytes list"] exI [of _ "[] :: bytes"] exI [of _ s] exI [of _ d])
      (auto simp: open_loop.simps)
next
  case (Suc k)
  then have i: "i < blocks" by simp
  obtain r inp where r: "read_block E key hdr block (of_nat i) (True, s) = (r, inp)" by (meson surj_pair)
  obtain p where p: "r = Inr p" and out: "fst (out_write pp p (True, d))"
    and run: "open_loop E key hdr block blocks pp inp (Suc i) (done + length p) (out_write pp p (True, d)) =
      (None, done', out')"
    using Suc.prems(1) i r
    by (subst (asm) open_loop.simps) (auto simp: Let_def split: sum.splits if_splits)
  obtain iv c t s1 where b: "inp = (True, s1)" "length iv = kIvLen" "length p \<le> unat block"
    "aes_gcm_seal E key iv (block_aad hdr (of_nat i)) p = Some (c, t)"
    "s = string_of (iv @ put_u32 [] (of_nat (length c)) @ c @ t) @ s1"
    using read_block_success [OF assms(1) r [unfolded p]] by blast
  obtain e where e: "out_write pp p (True, d) = (True, e)" using out by (cases "out_write pp p (True, d)") auto
  have k: "k = blocks - Suc i" "Suc i \<le> blocks" using Suc.hyps(2) i by simp_all
  from Suc.hyps(1) [OF k(1) run [unfolded b(1) e] k(2)] obtain ps bl s' d' where IH: "out' = (True, d')"
    "grown pp (concat ps) e d'" "length ps = blocks - Suc i" "sealed E key hdr (Suc i) ps bl"
    "s1 = string_of bl @ s'" "done' = done + length p + length (concat ps)"
    "\<forall>p\<in>set ps. length p \<le> unat block"
    by blast
  have "grown pp p d e" using out_write_grown [OF e] by simp
  from grown_trans [OF this IH(2)] have "grown pp (concat (p # ps)) d d'" by simp
  moreover have "sealed E key hdr i (p # ps) (iv @ put_u32 [] (of_nat (length c)) @ c @ t @ bl)"
    using b IH(4) by auto
  ultimately show ?case
    using IH b i by (intro exI [of _ "p # ps"] exI [of _ "iv @ put_u32 [] (of_nat (length c)) @ c @ t @ bl"]
      exI [of _ s'] exI [of _ d']) (auto simp: string_of_append)
qed

lemma block_count_eq:
  assumes "unat n + unat b \<le> 2 ^ 63 + 2 ^ 32" and "0 < unat b"
  shows "unat (block_count n b) = (unat n + unat b - 1) div unat b"
proof (cases "n = 0")
  case True
  with assms(2) show ?thesis by (simp add: block_count_def)
next
  case False
  then have n: "0 < unat n" by (simp add: unat_gt_0)
  have b32: "unat b < 2 ^ LENGTH(32)" by (rule unsigned_less)
  then have b: "unat (ucast b :: u64) = unat b"
    by (simp add: unsigned_ucast_eq take_bit_nat_eq_self_iff)
  have sum: "unat (n + ucast b) = unat n + unat b"
    using assms(1) b by (subst unat_plus_simple [THEN iffD1]) (simp_all add: word_le_nat_alt unat_word_ariths)
  have "1 \<le> n + ucast b" using sum n by (simp add: word_le_nat_alt)
  then have "unat (n + ucast b - 1) = unat n + unat b - 1" using sum by (simp add: unat_sub)
  with False b show ?thesis by (simp add: block_count_def unat_div)
qed

lemma unat_kBlockSize: "unat kBlockSize = 1048576"
  by (simp add: kBlockSize_def)

lemma block_count_sealed:
  "length c < 2 ^ 63 \<Longrightarrow> unat (block_count (of_nat (length c)) kBlockSize) = length (pieces (unat kBlockSize) c)"
  by (subst block_count_eq) (simp_all add: unat_of_nat unat_kBlockSize length_pieces)

lemma open_file_run:
  assumes "fs_read e sp = Some (string_of (build_header h @ body))" and "header_ok h"
    and "length (derive_key E pw (salt h) kContentKeyLabel (iterations h)) = kKeyLen"
  shows "open_file E e sp out pw =
    (case fs_create e out of (ok, e) \<Rightarrow>
      if \<not> ok then (Inl (CannotWriteFile out), e)
      else case open_loop E (derive_key E pw (salt h) kContentKeyLabel (iterations h)) (build_header h)
          (block_size h) (unat (block_count (plain_size h) (block_size h))) out (True, string_of body) 0 0
          (True, e) of (err, done, outs) \<Rightarrow>
        case (if err = None \<and> done \<noteq> unat (plain_size h) then Some SizeMismatch else err) of
          Some x \<Rightarrow> (case fs_remove (snd (out_flush out outs)) out of (_, d) \<Rightarrow> (Inl x, d))
        | None \<Rightarrow> (Inr (), snd (out_flush out outs)))"
  using assms parse_build_header [OF assms(2)] length_build_header [OF assms(2)]
  by (simp add: open_file_def in_read_ok Let_def split: prod.split option.split)

lemma open_file_stream:
  assumes "open_file E d sp out pw = (Inr (), d')" and "fs_read d sp = Some s"
  shows "\<exists>h body. header_ok h \<and> s = string_of (build_header h @ body) \<and>
     length (derive_key E pw (salt h) kContentKeyLabel (iterations h)) = kKeyLen"
proof -
  let ?raw = "bytes_of (take kHeaderLen s)"
  from assms obtain h where p: "parse_header ?raw = Inr h"
    and key: "length (derive_key E pw (salt h) kContentKeyLabel (iterations h)) = kKeyLen"
    by (auto simp: open_file_def in_read_def Let_def split: if_splits sum.splits)
  from parse_header_ok [OF p] have h: "header_ok h" "build_header h = ?raw" by simp_all
  then have "s = string_of (build_header h @ bytes_of (drop kHeaderLen s))"
    by (simp add: string_of_append)
  with h key show ?thesis by blast
qed

section \<open>Properties\<close>

lemma open_file_stream_sealed:
  assumes "openssl_ok E" and "length s = kSaltLen"
    and key: "length (derive_key E pw s kContentKeyLabel kKdfIterations) = kKeyLen"
    and bl: "sealed E (derive_key E pw s kContentKeyLabel kKdfIterations)
             (build_header (sealed_header s (length c))) 0 (pieces (unat kBlockSize) c) bl"
    and stream: "fs_read e q = Some (string_of (build_header (sealed_header s (length c)) @ bl))"
    and "length c < 2 ^ 63" and "faults e = []" and "writable e out"
  shows "open_file E e q out pw = (Inr (), put e out c)"
proof -
  define h where "h = sealed_header s (length c)"
  have h: "salt h = s" "iterations h = kKdfIterations" "block_size h = kBlockSize"
    "plain_size h = of_nat (length c)" "header_ok h"
    using sealed_header_ok [OF assms(2)] by (simp_all add: h_def sealed_header_def)
  note pieces = concat_pieces [of "unat kBlockSize" c, unfolded unat_kBlockSize, simplified]
  have len: "length (concat (pieces (unat kBlockSize) c)) = length c"
    by (simp add: unat_kBlockSize pieces)
  have "open_loop E (derive_key E pw s kContentKeyLabel kKdfIterations) (build_header h) kBlockSize
      (length (pieces (unat kBlockSize) c)) out (True, string_of bl) 0 0 (True, put e out []) =
      (None, length c, (True, put e out c))"
    using open_loop_accepts [OF assms(1,7) bl, of kBlockSize out "[]" 0 "[]"] pieces_bound len
    by (auto simp: h_def unat_kBlockSize pieces)
  moreover have "fs_create e out = (True, put e out [])" using assms(7,8) by (simp add: create_ok writable_def)
  moreover have "unat (of_nat (length c) :: u64) = length c" using assms(6) by (simp add: unat_of_nat)
  ultimately show ?thesis
    using open_file_run [OF stream [folded h_def] h(5), of E pw out] key assms(6,7)
    by (simp add: h block_count_sealed out_flush_def fault_free fs_simps)
qed

lemma open_file_sealed:
  assumes "openssl_ok E" and "seal_file E d pool pp sp pw = (Inr tag, pool', d')"
    and "fs_read d pp = Some c" and "length c < 2 ^ 63"
    and "faults e = []" and "fs_read e q = fs_read d' sp" and "writable e out"
  shows "open_file E e q out pw = (Inr (), put e out c)"
proof -
  obtain s bl where s: "length s = kSaltLen"
    "length (derive_key E pw s kContentKeyLabel kKdfIterations) = kKeyLen"
    "sealed E (derive_key E pw s kContentKeyLabel kKdfIterations)
       (build_header (sealed_header s (length c))) 0 (pieces (unat kBlockSize) c) bl"
    "fs_read e q = Some (string_of (build_header (sealed_header s (length c)) @ bl))"
    using seal_file_success [OF assms(2,3)] assms(6) by auto
  show ?thesis using assms(1) s assms(4,5,7) by (rule open_file_stream_sealed)
qed

text \<open>C10: sealing and opening.\<close>

theorem open_file_seal_file:
  assumes "openssl_ok E" and "seal_file E d pool pp sp pw = (Inr tag, pool', d')"
    and "fs_read d pp = Some c" and "length c < 2 ^ 63"
    and "faults e = []" and "fs_read e q = fs_read d' sp" and "writable e out"
  shows "open_file E e q out pw = (Inr (), put e out c)"
  using assms by (rule open_file_sealed)

lemma open_file_accepts:
  assumes "openssl_ok E" and "open_file E d sp out pw = (Inr (), d')" and "fs_read d sp = Some s"
  shows "\<exists>h ps bl rest. header_ok h \<and> s = string_of (build_header h @ bl @ rest) \<and>
           sealed E (derive_key E pw (salt h) kContentKeyLabel (iterations h)) (build_header h) 0 ps bl \<and>
           length ps = unat (block_count (plain_size h) (block_size h)) \<and>
           length (concat ps) = unat (plain_size h) \<and>
           (\<forall>p\<in>set ps. length p \<le> unat (block_size h)) \<and>
           (faults d = [] \<longrightarrow> fs_read d' out = Some (string_of (concat ps)))"
proof -
  obtain h body where h: "header_ok h" "s = string_of (build_header h @ body)"
    and key: "length (derive_key E pw (salt h) kContentKeyLabel (iterations h)) = kKeyLen"
    using open_file_stream [OF assms(2,3)] by blast
  let ?k = "derive_key E pw (salt h) kContentKeyLabel (iterations h)"
  let ?n = "unat (block_count (plain_size h) (block_size h))"
  note run = open_file_run [OF assms(3) [unfolded h(2)] h(1) key, of out]
  obtain e where e: "fs_create d out = (True, e)" using assms(2) run by (auto split: prod.splits if_splits)
  obtain n outs where loop: "open_loop E ?k (build_header h) (block_size h) ?n out (True, string_of body) 0 0
      (True, e) = (None, n, outs)" and n: "n = unat (plain_size h)" and d': "d' = snd (out_flush out outs)"
    using assms(2) run e by (auto split: prod.splits if_splits option.splits)
  obtain ps bl s' f where ps: "outs = (True, f)" "grown out (concat ps) e f" "length ps = ?n"
    "sealed E ?k (build_header h) 0 ps bl" "string_of body = string_of bl @ s'" "n = length (concat ps)"
    "\<forall>p\<in>set ps. length p \<le> unat (block_size h)"
    using open_loop_success [OF assms(1) loop] by auto
  have "body = bl @ bytes_of s'" using ps(5) by (metis bytes_of_string_of bytes_of_append)
  moreover have "fs_read d' out = Some (string_of (concat ps))" if "faults d = []"
  proof -
    have "fs_read e out = Some []" using e by (rule create_effect)
    then have f: "fs_read f out = Some (string_of (concat ps))" using ps(2) by (simp add: grown_def)
    have "faults e = []" using faultless_create [OF that e] .
    then have "faults f = []" using ps(2) by (simp add: grown_def)
    then show ?thesis using f by (simp add: d' ps(1) out_flush_def flush_ok)
  qed
  ultimately show ?thesis using h ps n by blast
qed


text \<open>Blocks delimit themselves: two well-formed runs of as many blocks cannot differ.\<close>

lemma sealed_unique:
  assumes "openssl_ok E" and "length ps = length qs" and "a @ x = b @ y"
    and "sealed E key hdr i ps a" and "sealed E key hdr i qs b"
    and "\<forall>p\<in>set ps \<union> set qs. length p < 2 ^ 32"
  shows "ps = qs \<and> a = b"
  using assms(2-6)
proof (induction ps qs arbitrary: a b i rule: list_induct2)
  case (Cons p ps q qs)
  obtain iv c t a' where a: "length iv = kIvLen"
    "aes_gcm_seal E key iv (block_aad hdr (of_nat i)) p = Some (c, t)"
    "a = iv @ put_u32 [] (of_nat (length c)) @ c @ t @ a'" "sealed E key hdr (Suc i) ps a'"
    using Cons.prems(2) by auto
  obtain iv' c' t' b' where b: "length iv' = kIvLen"
    "aes_gcm_seal E key iv' (block_aad hdr (of_nat i)) q = Some (c', t')"
    "b = iv' @ put_u32 [] (of_nat (length c')) @ c' @ t' @ b'" "sealed E key hdr (Suc i) qs b'"
    using Cons.prems(3) by auto
  have len: "length c = length p" "length c' = length q" "length t = length t'"
    using a(2) b(2) assms(1) by (auto simp: openssl_ok_def)
  have iv: "iv = iv'" and rest: "put_u32 [] (of_nat (length c)) @ c @ t @ a' @ x =
      put_u32 [] (of_nat (length c')) @ c' @ t' @ b' @ y"
    using Cons.prems(1) a(1,3) b(1,3) by (auto simp: append_eq_append_conv)
  then have "(of_nat (length c) :: u32) = of_nat (length c')" and rest': "c @ t @ a' @ x = c' @ t' @ b' @ y"
    by (auto simp: append_eq_append_conv u32.width u32.enc_inj)
  then have "unat (of_nat (length c) :: u32) = unat (of_nat (length c') :: u32)" by simp
  then have "length c = length c'" using Cons.prems(4) len by (simp add: unat_of_nat)
  with rest' len have ct: "c = c'" "t = t'" "a' @ x = b' @ y" by (auto simp: append_eq_append_conv)
  have "aes_gcm_open E key iv (block_aad hdr (of_nat i)) c t = Some p"
    "aes_gcm_open E key iv (block_aad hdr (of_nat i)) c t = Some q"
    using a(2) b(2) iv ct assms(1) by (auto simp: openssl_ok_def)
  then have "p = q" by simp
  moreover have "ps = qs \<and> a' = b'"
    by (rule Cons.IH [OF ct(3) a(4) b(4)]) (use Cons.prems(4) in auto)
  ultimately show ?case unfolding a(3) b(3) iv ct(1,2) by simp
qed simp

text \<open>C28: truncation.\<close>

theorem open_file_refuses_truncation:
  assumes "openssl_ok E" and "seal_file E d pool pp sp pw = (Inr tag, pool', d')"
    and "fs_read d pp = Some c" and "length c < 2 ^ 63"
    and "fs_read d' sp = Some s" and "k < length s" and "fs_read e sp = Some (take k s)"
  shows "\<exists>x e'. open_file E e sp out pw = (Inl x, e')"
proof (rule ccontr)
  assume no: "\<not> ?thesis"
  obtain r e' where r: "open_file E e sp out pw = (r, e')" by (meson surj_pair)
  with no have "r = Inr ()" by (cases r) auto
  with r have opened: "open_file E e sp out pw = (Inr (), e')" by simp
  obtain st bl where st: "length st = kSaltLen" and bl: "sealed E (derive_key E pw st kContentKeyLabel kKdfIterations)
      (build_header (sealed_header st (length c))) 0 (pieces (unat kBlockSize) c) bl"
    and s: "s = string_of (build_header (sealed_header st (length c)) @ bl)"
    using seal_file_success [OF assms(2,3)] assms(5) by auto
  define h where "h = sealed_header st (length c)"
  have h: "salt h = st" "iterations h = kKdfIterations" "block_size h = kBlockSize"
    "plain_size h = of_nat (length c)" "header_ok h"
    using sealed_header_ok [OF st] by (simp_all add: h_def sealed_header_def)
  obtain g ps bl' rest where g: "header_ok g" "take k s = string_of (build_header g @ bl' @ rest)"
    "sealed E (derive_key E pw (salt g) kContentKeyLabel (iterations g)) (build_header g) 0 ps bl'"
    "length ps = unat (block_count (plain_size g) (block_size g))"
    "\<forall>p\<in>set ps. length p \<le> unat (block_size g)"
    using open_file_accepts [OF assms(1) opened assms(7)] by blast
  have "string_of (build_header h @ bl) = string_of (build_header g @ bl' @ rest @ bytes_of (drop k s))"
    using g(2) s by (metis append_assoc append_take_drop_id h_def string_of_append string_of_bytes_of)
  then have eq: "build_header h @ bl = build_header g @ bl' @ rest @ bytes_of (drop k s)" by simp
  then have hdr: "build_header h = build_header g" "bl = bl' @ rest @ bytes_of (drop k s)"
    using length_build_header h(5) g(1) by (auto simp: append_eq_append_conv)
  have "Inr g = (Inr h :: stream_error + stream_header)"
    using parse_build_header [OF h(5)] parse_build_header [OF g(1)] unfolding hdr(1) by (rule trans [OF sym, rotated])
  then have gh: "g = h" by (rule sum.inject(2) [THEN iffD1])
  have count: "length ps = length (pieces (unat kBlockSize) c)"
    using g(4) by (simp add: gh h block_count_sealed [OF assms(4)])
  have "length p < 2 ^ 32" if "p \<in> set ps \<union> set (pieces (unat kBlockSize) c)" for p
    using that g(5) pieces_bound [of p "unat kBlockSize" c] by (auto simp: gh h unat_kBlockSize)
  then have "bl' = bl"
    using sealed_unique [OF assms(1) count, of bl' "rest @ bytes_of (drop k s)" bl "[]"] g(3) bl hdr(2)
    by (simp add: gh h flip: h_def)
  with hdr(2) have "bytes_of (drop k s) = []" by simp
  then have "length (drop k s) = 0" by (metis length_bytes_of list.size(3))
  with assms(6) show False by simp
qed

text \<open>The tag a client asks the server about is the one sealing reports.\<close>

lemma feed_buffers_hmac:
  "0 < n \<Longrightarrow> feed_buffers n hmac_update h c = hmac_update h (bytes_of c)"
proof (induction n hmac_update h c rule: feed_buffers.induct)
  case (1 n h c)
  show ?case
  proof (cases "c = []")
    case True
    then show ?thesis by (simp add: feed_buffers.simps)
  next
    case False
    with 1 show ?thesis
      by (subst feed_buffers.simps) (simp add: hmac_update_update flip: bytes_of_append)
  qed
qed

lemma dedup_tag_agrees:
  assumes "seal_file E d pool pp sp pw = (Inr tag, pool', d')" and "fs_read d pp = Some c"
  shows "dedup_tag_for_file E d pp pw = tag"
  using seal_file_success [OF assms] assms(2)
  by (auto simp: dedup_tag_for_file_def plain_tag_def feed_buffers_hmac kIoBufferSize_def)

lemma out_write_faultless: "faults (snd out) = [] \<Longrightarrow> faults (snd (out_write p bs out)) = []"
  by (auto simp: out_write_def split: prod.split) (metis faultless_append prod.collapse)

lemma open_loop_faultless:
  "open_loop E key hdr block blocks pp inp i done out = (err, n, out') \<Longrightarrow> faults (snd out) = [] \<Longrightarrow>
     faults (snd out') = []"
proof (induction "blocks - i" arbitrary: i inp "done" out)
  case 0
  then show ?case by (simp add: open_loop.simps)
next
  case (Suc k)
  then have i: "i < blocks" by simp
  obtain r inp' where r: "read_block E key hdr block (of_nat i) inp = (r, inp')" by (meson surj_pair)
  show ?case
  proof (cases r)
    case (Inl e)
    with Suc.prems i r show ?thesis by (simp add: open_loop.simps)
  next
    case (Inr p)
    have f: "faults (snd (out_write pp p out)) = []" using Suc.prems(2) by (rule out_write_faultless)
    have k: "k = blocks - Suc i" using Suc.hyps(2) by simp
    show ?thesis
      using Suc.prems(1) i r Inr f Suc.hyps(1) [OF k _ f]
      by (subst (asm) open_loop.simps) (auto simp: Let_def split: if_splits)
  qed
qed

lemma open_file_failure:
  assumes "open_file E d sp out pw = (Inl x, d')" and "faults d = []"
  shows "fs_read d' out = None \<or> d' = d"
proof (cases "\<exists>s h body. fs_read d sp = Some s \<and> header_ok h \<and> s = string_of (build_header h @ body) \<and>
    length (derive_key E pw (salt h) kContentKeyLabel (iterations h)) = kKeyLen")
  case True
  then obtain h body where h: "fs_read d sp = Some (string_of (build_header h @ body))" "header_ok h"
    "length (derive_key E pw (salt h) kContentKeyLabel (iterations h)) = kKeyLen"
    by blast
  obtain ok e where e: "fs_create d out = (ok, e)" by fastforce
  show ?thesis
  proof (cases ok)
    case False
    with e have "e = d" using assms(2) by (auto simp: fs_create_def fs_simps split: if_splits)
    with e False assms(1) open_file_run [OF h, of out] show ?thesis by simp
  next
    case True
    have fe: "faults e = []" using faultless_create [OF assms(2) e] .
    obtain err n outs where run: "open_loop E (derive_key E pw (salt h) kContentKeyLabel (iterations h))
        (build_header h) (block_size h) (unat (block_count (plain_size h) (block_size h))) out
        (True, string_of body) 0 0 (True, e) = (err, n, outs)"
      by (cases rule: prod_cases3)
    have "faults (snd outs) = []" using open_loop_faultless [OF run] fe by simp
    then have f: "faults (snd (out_flush out outs)) = []"
      by (auto simp: out_flush_def flush_ok split: prod.split)
    obtain g rm where rm: "fs_remove (snd (out_flush out outs)) out = (rm, g)" by fastforce
    then have "fs_read g out = None" by (rule remove_gone [OF f])
    with e True run rm assms(1) open_file_run [OF h, of out] show ?thesis
      by (auto split: option.splits if_splits)
  qed
next
  case False
  show ?thesis
  proof (cases "fs_read d sp")
    case None
    with assms show ?thesis by (simp add: open_file_def)
  next
    case (Some s)
    have "header_ok h \<Longrightarrow> build_header h = bytes_of (take kHeaderLen s) \<Longrightarrow>
        length (derive_key E pw (salt h) kContentKeyLabel (iterations h)) \<noteq> kKeyLen" for h
    proof
      assume h: "header_ok h" "build_header h = bytes_of (take kHeaderLen s)"
        "length (derive_key E pw (salt h) kContentKeyLabel (iterations h)) = kKeyLen"
      then have "s = string_of (build_header h @ bytes_of (drop kHeaderLen s))"
        by (simp add: string_of_append)
      with False Some h show False by blast
    qed
    with Some assms show ?thesis
      by (auto simp: open_file_def in_read_def Let_def dest: parse_header_ok split: if_splits sum.splits)
  qed
qed

section \<open>Sealing succeeds\<close>

text \<open>Nothing but a failing call stops the sealing: with entropy for every block it comes to an end.\<close>

definition openssl_works :: "'x openssl \<Rightarrow> bool" where
  "openssl_works E \<longleftrightarrow> (\<forall>p s i n. pbkdf2_hmac_sha256 E p s i n \<noteq> None) \<and>
     (\<forall>key iv aad p. length key = kKeyLen \<longrightarrow> length iv = kIvLen \<longrightarrow> aes_gcm_seal E key iv aad p \<noteq> None)"

lemma mini_openssl_works: "openssl_works mini_openssl"
  by (simp add: openssl_works_def mini_seal kKeyLen_def kIvLen_def) (simp add: mini_openssl_def)

lemma out_write_ok:
  "faults d = [] \<Longrightarrow> fs_read d p = Some c \<Longrightarrow> out_write p bs (True, d) = (True, put d p (c @ string_of bs))"
  by (simp add: out_write_def append_ok)

lemma seal_loop_succeeds:
  assumes "openssl_works E" and "length key = kKeyLen" and "faults d = []"
  shows "done \<le> plain \<Longrightarrow> length rest = plain - done \<Longrightarrow> kIvLen * (plain - done) \<le> length pool \<Longrightarrow>
    \<exists>t pool' s'. seal_loop E key hdr plain sp (True, rest) done i t0 pool (True, put d sp s) =
      (Inr t, pool', (True, put d sp s'))"
proof (induction "plain - done" arbitrary: "done" rest i t0 pool s rule: less_induct)
  case less
  show ?case
  proof (cases "done < plain")
    case False
    with less.prems show ?thesis by (auto simp: seal_loop.simps)
  next
    case True
    define n where "n = min (unat kBlockSize) (plain - done)"
    have n: "0 < n" "n \<le> plain - done" using True by (simp_all add: n_def unat_kBlockSize)
    have pool: "kIvLen \<le> length pool" "kIvLen * (plain - (done + n)) \<le> length (drop kIvLen pool)"
    proof -
      have "kIvLen * (plain - (done + n)) + kIvLen \<le> kIvLen * (plain - done)"
        using n by (cases n) (simp_all add: kIvLen_def)
      with less.prems(3) show "kIvLen \<le> length pool" "kIvLen * (plain - (done + n)) \<le> length (drop kIvLen pool)"
        by simp_all
    qed
    obtain c t where ct: "aes_gcm_seal E key (take kIvLen pool) (block_aad hdr i) (bytes_of (take n rest)) = Some (c, t)"
      using assms pool(1) unfolding openssl_works_def by (metis length_take min.absorb2 not_None_eq surj_pair)
    let ?s = "(((s @ string_of (take kIvLen pool)) @ string_of (put_u32 [] (of_nat (length c)))) @
        string_of c) @ string_of t"
    have "\<exists>x pool' s'. seal_loop E key hdr plain sp (True, drop n rest) (done + n) (i + 1)
        (hmac_update t0 (bytes_of (take n rest))) (drop kIvLen pool) (True, put d sp ?s) =
        (Inr x, pool', (True, put d sp s'))"
      using n pool less.prems by (intro less.hyps) simp_all
    with True n less.prems pool ct assms(3) show ?thesis
      by (subst seal_loop.simps)
        (simp add: n_def [symmetric] in_read_def random_bytes_def out_write_ok fs_simps)
  qed
qed

lemma seal_file_succeeds:
  assumes "openssl_ok E" and "openssl_works E" and "fs_read d pp = Some c" and "faults d = []"
    and "writable d sp" and "kSaltLen + kIvLen * length c \<le> length pool"
  shows "\<exists>tag pool' s. seal_file E d pool pp sp pw = (Inr tag, pool', put d sp s)"
proof -
  let ?h = "\<lparr>iterations = kKdfIterations, salt = take kSaltLen pool, block_size = kBlockSize,
      plain_size = of_nat (length c)\<rparr>"
  let ?key = "derive_key E pw (take kSaltLen pool) kContentKeyLabel kKdfIterations"
  obtain k where "pbkdf2_hmac_sha256 E pw (bytes_of kContentKeyLabel @ take kSaltLen pool) kKdfIterations kKeyLen = Some k"
    using assms(2) unfolding openssl_works_def by blast
  then have key: "length ?key = kKeyLen"
    using assms(1) by (simp add: derive_key_def openssl_ok_def)
  have salt: "length (take kSaltLen pool) = kSaltLen" using assms(6) by simp
  have "kIvLen * length c \<le> length pool - kSaltLen" using assms(6) by linarith
  then obtain t pool' s where loop: "seal_loop E ?key (build_header ?h) (length c) sp (True, c) 0 0
      (hmac_new E (derive_dedup_key E pw)) (drop kSaltLen pool) (True, put d sp (string_of (build_header ?h))) =
      (Inr t, pool', (True, put d sp s))"
    using seal_loop_succeeds [OF assms(2) key assms(4), of 0 "length c" c "drop kSaltLen pool"
        "build_header ?h" sp 0 "hmac_new E (derive_dedup_key E pw)" "string_of (build_header ?h)"]
    by auto
  have ex: "fs_exists d pp" "fs_is_regular d pp"
    using assms(3) by (auto simp: fs_exists_def fs_is_regular_def fs_read_def)
  show ?thesis
    using assms key salt loop ex
    by (auto simp: seal_file_def random_bytes_def Let_def create_ok writable_def fs_size_def out_write_ok
        fs_simps out_flush_def flush_ok)
qed

section \<open>Examples\<close>

definition example_disk :: disk where "example_disk = put (empty_disk [[]]) [''a''] ''hi''"

lemma example_disk_simps [simp]:
  "fs_read example_disk [''a''] = Some ''hi''" "faults example_disk = []" "dirs example_disk = [[]]"
  by (simp_all add: example_disk_def fs_simps)

lemma example_sealed:
  "\<exists>tag pool' s. seal_file mini_openssl example_disk (replicate 64 5) [''a''] [''b''] ''pw'' =
     (Inr tag, pool', put example_disk [''b''] s)"
  by (rule seal_file_succeeds [OF mini_openssl_ok mini_openssl_works, of _ _ "''hi''"])
    (simp_all add: writable_def kSaltLen_def kIvLen_def)

lemma open_file_seal_file_witness:
  "\<exists>s. open_file mini_openssl (put example_disk [''b''] s) [''b''] [''c''] ''pw'' =
     (Inr (), put (put example_disk [''b''] s) [''c''] ''hi'')"
proof -
  from example_sealed obtain tag pool' s where s: "seal_file mini_openssl example_disk
      (replicate 64 5) [''a''] [''b''] ''pw'' = (Inr tag, pool', put example_disk [''b''] s)" by blast
  show ?thesis
    using open_file_seal_file [OF mini_openssl_ok s, of "''hi''" "put example_disk [''b''] s" "[''b'']" "[''c'']"]
    by (auto simp: fs_simps writable_def)
qed


lemma open_file_refuses_truncation_witness:
  "\<exists>s x e. 5 < length s \<and>
     open_file mini_openssl (put example_disk [''b''] (take 5 s)) [''b''] [''c''] ''pw'' = (Inl x, e)"
proof -
  from example_sealed obtain tag pool' s where s: "seal_file mini_openssl example_disk
      (replicate 64 5) [''a''] [''b''] ''pw'' = (Inr tag, pool', put example_disk [''b''] s)" by blast
  have "5 < length s"
    using seal_file_success [OF s, of "''hi''"]
    by (auto simp: fs_simps sealed_header_def length_build_header kHeaderLen_def kSaltLen_def build_header_def
        kStreamMagic_def)
  with open_file_refuses_truncation [OF mini_openssl_ok s, of "''hi''" s 5 "put example_disk [''b''] (take 5 s)"]
  show ?thesis by (fastforce simp: fs_simps)
qed

lemma dedup_tag_agrees_witness:
  "\<exists>tag pool' d'. seal_file mini_openssl example_disk (replicate 64 5) [''a''] [''b''] ''pw'' = (Inr tag, pool', d') \<and>
     dedup_tag_for_file mini_openssl example_disk [''a''] ''pw'' = tag"
proof -
  from example_sealed obtain tag pool' s where s: "seal_file mini_openssl example_disk
      (replicate 64 5) [''a''] [''b''] ''pw'' = (Inr tag, pool', put example_disk [''b''] s)" by blast
  from dedup_tag_agrees [OF s] s show ?thesis by auto
qed

lemma open_file_failure_witness:
  "fs_read (snd (open_file mini_openssl example_disk [''a''] [''c''] ''pw'')) [''c''] = None"
proof -
  have "open_file mini_openssl example_disk [''a''] [''c''] ''pw'' = (Inl TooShortForHeader, example_disk)"
    by (simp add: open_file_def in_read_def kHeaderLen_def kSaltLen_def)
  from open_file_failure [OF this] show ?thesis
    by (auto simp: example_disk_def fs_simps open_file_def in_read_def kHeaderLen_def kSaltLen_def)
qed

end
