(* ===== verification/Gf256.thy ===== *)
theory Gf256
  imports Prelude
begin

text \<open>
  \<open>src/core/gf256.cpp\<close>: arithmetic in GF(2^8) with the AES polynomial. The loops are
  translated as they stand; the reference below is the carry-less product of two
  polynomials followed by a reduction modulo \<open>x^8 + x^4 + x^3 + x + 1\<close>.
\<close>

section \<open>The code\<close>

definition xtime :: "byte \<Rightarrow> byte" where
  "xtime a = (let carry = a AND 0x80 \<noteq> 0; a' = push_bit 1 a
              in if carry then a' XOR 0x1B else a')"

lemma drop_bit_1_less: "b \<noteq> 0 \<Longrightarrow> unat (drop_bit 1 b) < unat b" for b :: byte
proof -
  assume "b \<noteq> 0"
  then have "0 < unat b" by (simp add: word_greater_zero_iff unat_gt_0)
  then show ?thesis
    unfolding unat_drop_bit_eq drop_bit_eq_div [of 1 "unat b"] by simp
qed

function gf_mul_loop :: "byte \<Rightarrow> byte \<Rightarrow> byte \<Rightarrow> byte" where
  "gf_mul_loop a b result =
     (if b = 0 then result
      else gf_mul_loop (xtime a) (drop_bit 1 b)
             (if b AND 1 \<noteq> 0 then result XOR a else result))"
  by pat_completeness auto

termination
  by (relation "measure (\<lambda>(a, b, r). unat b)") (use drop_bit_1_less in auto)

declare gf_mul_loop.simps [simp del]

definition gf_mul :: "byte \<Rightarrow> byte \<Rightarrow> byte" where
  "gf_mul a b = gf_mul_loop a b 0"

function gf_inv_search :: "byte \<Rightarrow> nat \<Rightarrow> byte" where
  "gf_inv_search x candidate =
     (if candidate < 256
      then if gf_mul x (word_of_nat candidate) = 1 then word_of_nat candidate
           else gf_inv_search x (Suc candidate)
      else 0)"
  by pat_completeness auto
termination
  by (relation "measure (\<lambda>(x, c). 256 - c)") auto

declare gf_inv_search.simps [simp del]

definition gf_inv :: "byte \<Rightarrow> byte" where
  "gf_inv x = (if x = 0 then 0 else gf_inv_search x 1)"

definition gf_scale :: "bytes \<Rightarrow> byte \<Rightarrow> bytes" where
  "gf_scale buf coeff = map (\<lambda>x. gf_mul x coeff) buf"

definition xor_into :: "bytes \<Rightarrow> bytes \<Rightarrow> bytes" where
  "xor_into a b = map2 (XOR) a b"

definition xor_buf :: "bytes \<Rightarrow> bytes \<Rightarrow> bytes" where
  "xor_buf a b = (let n = (if length a < length b then length a else length b)
                  in xor_into (take n a) (take n b))"

section \<open>The reference: polynomials over GF(2)\<close>

definition clmul :: "byte \<Rightarrow> byte \<Rightarrow> 16 word" where
  "clmul a b = foldr (\<lambda>i acc. (if bit b i then push_bit i (ucast a) else 0) XOR acc) [0..<8] 0"

definition poly_reduce :: "16 word \<Rightarrow> byte" where
  "poly_reduce p =
     ucast (fold (\<lambda>k q. if bit q k then q XOR push_bit (k - 8) 0x11B else q) (rev [8..<16]) p)"

definition gf_mul_ref :: "byte \<Rightarrow> byte \<Rightarrow> byte" where
  "gf_mul_ref a b = poly_reduce (clmul a b)"

section \<open>Linearity\<close>

lemma bit_and_80: "(a AND 0x80 \<noteq> 0) = bit a 7" for a :: byte
proof -
  have "(0x80::byte) = 2 ^ 7" by simp
  then show ?thesis by (simp only: and_exp_eq_0_iff_not_bit) simp
qed

lemma xtime_eq: "xtime a = push_bit 1 a XOR (if bit a 7 then 0x1B else 0)"
  unfolding xtime_def bit_and_80 Let_def by simp

lemma xtime_xor: "xtime (a XOR b) = xtime a XOR xtime b"
  by (simp add: xtime_eq bit_xor_iff xor.assoc xor.left_commute)

lemma xtime_0 [simp]: "xtime 0 = 0"
  by (simp add: xtime_eq)

lemma gf_mul_loop_acc: "gf_mul_loop a b (r XOR s) = r XOR gf_mul_loop a b s"
proof (induction a b s arbitrary: r rule: gf_mul_loop.induct)
  case (1 a b s)
  show ?case
  proof (cases "b = 0")
    case False
    from "1.IH" [OF this, of r] show ?thesis
      by (subst (1 2) gf_mul_loop.simps) (simp add: False xor.assoc split: if_splits)
  qed (simp add: gf_mul_loop.simps)
qed

text \<open>One round of the loop, as a recurrence of the product.\<close>

lemma gf_mul_0_right [simp]: "gf_mul a 0 = 0"
  by (simp add: gf_mul_def gf_mul_loop.simps)

lemma gf_mul_step: "gf_mul a b = (if bit b 0 then a else 0) XOR gf_mul (xtime a) (drop_bit 1 b)"
proof (cases "b = 0")
  case False
  have one: "b AND 1 \<noteq> 0 \<longleftrightarrow> bit b 0"
    by (simp add: and_one_eq bit_0 odd_iff_mod_2_eq_one)
  show ?thesis
    using gf_mul_loop_acc [of "xtime a" "drop_bit 1 b" a 0]
    by (simp add: gf_mul_def gf_mul_loop.simps [of a b] False one)
qed simp

text \<open>The product as the sum of the shifted multiplicands the bits of \<open>b\<close> select.\<close>

fun gf_terms :: "nat \<Rightarrow> byte \<Rightarrow> byte \<Rightarrow> nat \<Rightarrow> byte" where
  "gf_terms 0 a b i = 0"
| "gf_terms (Suc k) a b i = (if bit b i then a else 0) XOR gf_terms k (xtime a) b (Suc i)"

lemma gf_mul_terms_aux:
  "i + k = 8 \<Longrightarrow> gf_mul a (drop_bit i b) = gf_terms k a b i"
proof (induction k arbitrary: a i)
  case 0
  have "drop_bit 8 b = 0" by (rule bit_word_eqI) (simp add: bit_drop_bit_eq)
  with 0 show ?case by simp
next
  case (Suc k)
  then show ?case
    by (subst gf_mul_step) (simp add: bit_drop_bit_eq)
qed

lemma gf_mul_terms: "gf_mul a b = gf_terms 8 a b 0"
  using gf_mul_terms_aux [of 0 8 a b] by simp

lemma gf_terms_xor_left: "gf_terms k (a XOR a') b i = gf_terms k a b i XOR gf_terms k a' b i"
  by (induction k arbitrary: a a' i) (simp_all add: xtime_xor xor.assoc xor.left_commute)

lemma gf_terms_xor_right: "gf_terms k a (b XOR b') i = gf_terms k a b i XOR gf_terms k a b' i"
  by (induction k arbitrary: a i)
    (simp_all add: bit_xor_iff xor.assoc xor.left_commute)

lemma gf_mul_xor_left: "gf_mul (a XOR a') b = gf_mul a b XOR gf_mul a' b"
  by (simp add: gf_mul_terms gf_terms_xor_left)

lemma gf_mul_xor_right: "gf_mul a (b XOR b') = gf_mul a b XOR gf_mul a b'"
  by (simp add: gf_mul_terms gf_terms_xor_right)

lemma gf_mul_xtime_left: "gf_mul (xtime a) b = xtime (gf_mul a b)"
proof -
  have "gf_terms k (xtime a) b i = xtime (gf_terms k a b i)" for k i
    by (induction k arbitrary: a i) (simp_all add: xtime_xor)
  then show ?thesis by (simp add: gf_mul_terms)
qed

section \<open>Additive functions are determined by the bits\<close>

definition additive :: "(byte \<Rightarrow> 'b::len word) \<Rightarrow> bool" where
  "additive f \<longleftrightarrow> (\<forall>a b. f (a XOR b) = f a XOR f b)"

lemma additive_0: "additive f \<Longrightarrow> f 0 = 0"
  unfolding additive_def by (metis xor_self_eq)

lemma take_bit_Suc_xor:
  "take_bit (Suc n) b = (if bit b n then push_bit n 1 else 0) XOR take_bit n b" for b :: byte
  by (rule bit_word_eqI) (auto simp: bit_simps less_Suc_eq)

lemma additive_eqI:
  assumes f: "additive f" and g: "additive g"
    and base: "list_all (\<lambda>i. f (push_bit i 1) = g (push_bit i 1)) [0..<8]"
  shows "f b = g b"
proof -
  have "f (take_bit n b) = g (take_bit n b)" if "n \<le> 8" for n
    using that
  proof (induction n)
    case 0
    then show ?case using additive_0 [OF f] additive_0 [OF g] by simp
  next
    case (Suc n)
    moreover have "f (push_bit n 1) = g (push_bit n 1)"
      using base Suc.prems by (auto simp: list_all_iff)
    ultimately show ?case
      using f g additive_0 [OF f] additive_0 [OF g]
      unfolding additive_def take_bit_Suc_xor by simp
  qed
  from this [of 8] show ?thesis by (simp add: take_bit_word_eq_self)
qed

lemma additive_gf_mul_left: "additive (\<lambda>a. gf_mul a b)"
  by (simp add: additive_def gf_mul_xor_left)

lemma additive_gf_mul_right: "additive (gf_mul a)"
  by (simp add: additive_def gf_mul_xor_right)

text \<open>Two bilinear functions agree when they agree on the 64 pairs of powers of two.\<close>

lemma bilinear_eqI:
  assumes "\<And>b. additive (\<lambda>a. f a b)" "\<And>a. additive (f a)"
    and "\<And>b. additive (\<lambda>a. g a b)" "\<And>a. additive (g a)"
    and base: "list_all (\<lambda>i. list_all (\<lambda>j. f (push_bit i 1) (push_bit j 1) =
                  g (push_bit i 1) (push_bit j 1)) [0..<8]) [0..<8]"
  shows "f a b = g a b"
proof (rule additive_eqI [where f = "\<lambda>a. f a b" and g = "\<lambda>a. g a b"])
  show "list_all (\<lambda>i. f (push_bit i 1) b = g (push_bit i 1) b) [0..<8]"
    unfolding list_all_iff
  proof
    fix i assume "i \<in> set [0..<8]"
    with base have "list_all (\<lambda>j. f (push_bit i 1) (push_bit j 1) = g (push_bit i 1) (push_bit j 1)) [0..<8]"
      by (simp add: list_all_iff)
    then show "f (push_bit i 1) b = g (push_bit i 1) b"
      by (rule additive_eqI [OF assms(2) assms(4)])
  qed
qed (rule assms)+

section \<open>A commutative ring\<close>

lemma upt_8: "[0..<8] = [0, 1, 2, 3, 4, 5, 6, 7]"
  by (simp add: upt_rec)

lemma gf_mul_basis_commute:
  "list_all (\<lambda>i. list_all (\<lambda>j. gf_mul (push_bit i 1) (push_bit j 1) =
     gf_mul (push_bit j 1) (push_bit i 1)) [0..<8]) [0..<8]"
  unfolding upt_8 list.pred_inject
  by (simp add: gf_mul_def gf_mul_loop.simps xtime_def)

lemma gf_mul_commute: "gf_mul a b = gf_mul b a"
  by (rule bilinear_eqI [where f = gf_mul and g = "\<lambda>a b. gf_mul b a"])
    (simp_all only: additive_gf_mul_left additive_gf_mul_right gf_mul_basis_commute)

lemma gf_mul_xtime_right: "gf_mul a (xtime b) = xtime (gf_mul a b)"
  by (metis gf_mul_commute gf_mul_xtime_left)

lemma gf_mul_assoc: "gf_mul (gf_mul a b) c = gf_mul a (gf_mul b c)"
proof -
  have "gf_terms k (gf_mul a b) c i = gf_mul a (gf_terms k b c i)" for k i
    by (induction k arbitrary: b i)
      (simp_all add: gf_mul_xor_right flip: gf_mul_xtime_right)
  then show ?thesis by (simp add: gf_mul_terms)
qed

lemma gf_mul_1_right [simp]: "gf_mul a 1 = a"
  by (subst gf_mul_step) simp

lemma gf_mul_1_left [simp]: "gf_mul 1 a = a"
  by (metis gf_mul_commute gf_mul_1_right)

lemma gf_mul_0_left [simp]: "gf_mul 0 a = 0"
  by (metis gf_mul_commute gf_mul_0_right)

section \<open>Agreement with the reference\<close>

lemma foldr_xor_additive:
  "(\<And>i. f i (a XOR b) = f i a XOR f i b) \<Longrightarrow>
     foldr (\<lambda>i acc. f i (a XOR b) XOR acc) xs 0 =
     foldr (\<lambda>i acc. f i a XOR acc) xs 0 XOR foldr (\<lambda>i acc. f i b XOR acc) xs 0"
  for f :: "nat \<Rightarrow> 'a::len word \<Rightarrow> 'b::len word"
  by (induction xs) (simp_all add: xor.assoc xor.left_commute)

lemma clmul_xor_left: "clmul (a XOR a') b = clmul a b XOR clmul a' b"
  unfolding clmul_def
  by (rule foldr_xor_additive [where f = "\<lambda>i a. if bit b i then push_bit i (ucast a) else 0"])
    (simp add: unsigned_xor_eq)

lemma clmul_xor_right: "clmul a (b XOR b') = clmul a b XOR clmul a b'"
  unfolding clmul_def
  by (rule foldr_xor_additive [where f = "\<lambda>i b. if bit b i then push_bit i (ucast a) else 0"])
    (auto simp: bit_xor_iff)

lemma reduce_step_xor:
  "(if bit (p XOR q) k then (p XOR q) XOR c else p XOR q) =
     (if bit p k then p XOR c else p) XOR (if bit q k then q XOR c else q)" for p :: "'a::len word"
  by (rule bit_word_eqI) (auto simp: bit_xor_iff)

lemma poly_reduce_xor: "poly_reduce (p XOR q) = poly_reduce p XOR poly_reduce q"
proof -
  let ?step = "\<lambda>k q. if bit q k then q XOR push_bit (k - 8) 0x11B else q"
  have "fold ?step ks (p XOR q) = fold ?step ks p XOR fold ?step ks q" for ks and p q :: "16 word"
    by (induction ks arbitrary: p q) (simp_all only: fold_simps reduce_step_xor)
  then show ?thesis by (simp only: poly_reduce_def unsigned_xor_eq)
qed

lemma gf_mul_ref_basis:
  "list_all (\<lambda>i. list_all (\<lambda>j. gf_mul (push_bit i 1) (push_bit j 1) =
     gf_mul_ref (push_bit i 1) (push_bit j 1)) [0..<8]) [0..<8]"
  unfolding upt_8 list.pred_inject
  by (simp add: gf_mul_def gf_mul_loop.simps xtime_def gf_mul_ref_def clmul_def poly_reduce_def
      upt_rec)

lemma gf_mul_eq_ref: "gf_mul a b = gf_mul_ref a b"
  by (rule bilinear_eqI [where f = gf_mul and g = gf_mul_ref])
    (simp_all only: additive_gf_mul_left additive_gf_mul_right gf_mul_ref_basis,
     simp_all add: additive_def gf_mul_ref_def clmul_xor_left clmul_xor_right poly_reduce_xor)

section \<open>Inverses\<close>

text \<open>Witnesses that every nonzero element has an inverse: entry \<open>x - 1\<close> is that of \<open>x\<close>.\<close>

definition inv_table :: "byte list" where
  "inv_table =
    [1, 141, 246, 203, 82, 123, 209, 232, 79, 41, 192, 176, 225, 229, 199,
     116, 180, 170, 75, 153, 43, 96, 95, 88, 63, 253, 204, 255, 64, 238,
     178, 58, 110, 90, 241, 85, 77, 168, 201, 193, 10, 152, 21, 48, 68,
     162, 194, 44, 69, 146, 108, 243, 57, 102, 66, 242, 53, 32, 111, 119,
     187, 89, 25, 29, 254, 55, 103, 45, 49, 245, 105, 167, 100, 171, 19,
     84, 37, 233, 9, 237, 92, 5, 202, 76, 36, 135, 191, 24, 62, 34,
     240, 81, 236, 97, 23, 22, 94, 175, 211, 73, 166, 54, 67, 244, 71,
     145, 223, 51, 147, 33, 59, 121, 183, 151, 133, 16, 181, 186, 60, 182,
     112, 208, 6, 161, 250, 129, 130, 131, 126, 127, 128, 150, 115, 190, 86,
     155, 158, 149, 217, 247, 2, 185, 164, 222, 106, 50, 109, 216, 138, 132,
     114, 42, 20, 159, 136, 249, 220, 137, 154, 251, 124, 46, 195, 143, 184,
     101, 72, 38, 200, 18, 74, 206, 231, 210, 98, 12, 224, 31, 239, 17,
     117, 120, 113, 165, 142, 118, 61, 189, 188, 134, 87, 11, 40, 47, 163,
     218, 212, 228, 15, 169, 39, 83, 4, 27, 252, 172, 230, 122, 7, 174,
     99, 197, 219, 226, 234, 148, 139, 196, 213, 157, 248, 144, 107, 177, 13,
     214, 235, 198, 14, 207, 173, 8, 78, 215, 227, 93, 80, 30, 179, 91,
     35, 56, 52, 104, 70, 3, 140, 221, 156, 125, 160, 205, 26, 65, 28]"

fun check_inverses :: "byte \<Rightarrow> byte list \<Rightarrow> bool" where
  "check_inverses k [] = True"
| "check_inverses k (c # cs) = (gf_mul k c = 1 \<and> check_inverses (k + 1) cs)"

lemma check_inverses_nth:
  "check_inverses k cs \<Longrightarrow> i < length cs \<Longrightarrow> gf_mul (k + word_of_nat i) (cs ! i) = 1"
proof (induction k cs arbitrary: i rule: check_inverses.induct)
  case (2 k c cs)
  then show ?case by (cases i) (simp_all add: ac_simps)
qed simp

lemma check_inverses_table: "check_inverses 1 inv_table"
  by (simp add: inv_table_def gf_mul_def gf_mul_loop.simps xtime_def)

lemma length_inv_table: "length inv_table = 255"
  by (simp add: inv_table_def)

lemma gf_inverse_exists: "x \<noteq> 0 \<Longrightarrow> \<exists>c<256. gf_mul x (word_of_nat c) = 1"
proof -
  assume x: "x \<noteq> 0"
  have "unat x < 2 ^ LENGTH(8)" by (rule unsigned_less)
  moreover from x have "0 < unat x" by (simp add: unat_gt_0)
  ultimately have i: "unat x - 1 < length inv_table" by (simp add: length_inv_table)
  have "1 + word_of_nat (unat x - 1) = x"
  proof -
    have "(1::byte) + word_of_nat (unat x - 1) = word_of_nat (Suc (unat x - 1))" by simp
    also have "\<dots> = x" using \<open>0 < unat x\<close> by (simp only: Suc_diff_1) simp
    finally show ?thesis .
  qed
  with check_inverses_nth [OF check_inverses_table i]
  have "gf_mul x (inv_table ! (unat x - 1)) = 1" by simp
  moreover have "unat (inv_table ! (unat x - 1)) < 2 ^ LENGTH(8)" by (rule unsigned_less)
  ultimately show ?thesis
    by (intro exI [of _ "unat (inv_table ! (unat x - 1))"]) simp
qed

lemma gf_inv_search_found:
  "from \<le> c \<Longrightarrow> c < 256 \<Longrightarrow> gf_mul x (word_of_nat c) = 1 \<Longrightarrow>
     gf_mul x (gf_inv_search x from) = 1"
proof (induction x "from" rule: gf_inv_search.induct)
  case (1 x candidate)
  show ?case
  proof (cases "gf_mul x (word_of_nat candidate) = 1")
    case True
    with "1.prems" show ?thesis by (simp add: gf_inv_search.simps [of x candidate])
  next
    case False
    with "1.prems" have "candidate < 256" "Suc candidate \<le> c"
      by (auto simp: le_less Suc_le_eq)
    with "1.IH" [OF _ False] "1.prems" False show ?thesis
      by (simp add: gf_inv_search.simps [of x candidate])
  qed
qed

lemma gf_mul_gf_inv: "x \<noteq> 0 \<Longrightarrow> gf_mul x (gf_inv x) = 1"
proof -
  assume x: "x \<noteq> 0"
  then obtain c where c: "c < 256" "gf_mul x (word_of_nat c) = 1"
    using gf_inverse_exists by blast
  with x have "c \<noteq> 0" by (auto intro: ccontr)
  with c x show ?thesis by (simp add: gf_inv_def gf_inv_search_found [where c = c])
qed

section \<open>The field the erasure code relies on\<close>

text \<open>
  What \<open>erasure.cpp\<close> uses of this component: a multiplication that distributes over XOR,
  with inverses. The rules that solve for a lost byte are proved from these laws alone.
\<close>

locale gf_field =
  fixes mul :: "byte \<Rightarrow> byte \<Rightarrow> byte" and inv :: "byte \<Rightarrow> byte"
  assumes xor_left: "mul (a XOR b) c = mul a c XOR mul b c"
    and assoc: "mul (mul a b) c = mul a (mul b c)"
    and commute: "mul a b = mul b a"
    and one: "mul a 1 = a"
    and inverse: "a \<noteq> 0 \<Longrightarrow> mul a (inv a) = 1"
begin

lemma xor_right: "mul c (a XOR b) = mul c a XOR mul c b"
  by (metis commute xor_left)

lemma zero_left: "mul 0 a = 0"
  using xor_left [of a a a] by (metis xor_left xor_self_eq)

lemma divide: "c \<noteq> 0 \<Longrightarrow> mul (mul x c) (inv c) = x"
  by (simp add: assoc inverse one)

lemma no_zero_divisors: "mul a b = 0 \<Longrightarrow> a = 0 \<or> b = 0"
  by (metis commute divide zero_left)

lemma inverse_unique: "mul a b = 1 \<Longrightarrow> inv a = b"
  by (metis assoc commute inverse one zero_left zero_neq_one)

text \<open>One unknown: \<open>p = m.x XOR n.y\<close> gives \<open>y\<close> from \<open>x\<close> and \<open>p\<close>.\<close>

lemma solve_second:
  "n \<noteq> 0 \<Longrightarrow> mul ((mul x m XOR mul y n) XOR mul x m) (inv n) = y"
  using divide [of n y] by (simp add: xor_ac)

lemma solve_first:
  "m \<noteq> 0 \<Longrightarrow> mul ((mul x m XOR mul y n) XOR mul y n) (inv m) = x"
  using divide [of m x] by (simp add: xor_ac)

text \<open>Two unknowns, for coefficients that differ by one: \<open>p XOR m.(x XOR y)\<close> is \<open>y\<close>.\<close>

lemma solve_both: "(mul x m XOR mul y (m XOR 1)) XOR mul (x XOR y) m = y"
  by (simp add: xor_left xor_right one xor_ac)

end

interpretation gf: gf_field gf_mul gf_inv
  by unfold_locales
    (simp_all add: gf_mul_xor_left gf_mul_assoc gf_mul_gf_inv, rule gf_mul_commute)

text \<open>C30: the shift-and-add loop multiplies in the field.\<close>

theorem gf_mul_is_field_product:
  "gf_mul a b = gf_mul_ref a b \<and> gf_mul a (gf_inv a) = (if a = 0 then 0 else 1)"
  by (intro conjI, rule gf_mul_eq_ref, simp add: gf_mul_gf_inv)

end
