(* ===== verification/Erasure.thy ===== *)
theory Erasure
  imports Gf256
begin

text \<open>
  \<open>src/core/erasure.cpp\<close>: two data shards, two parity shards, and the six ways back from
  any two of them. A pointer with a length \<open>n\<close> is a byte list of which the first \<open>n\<close> count.
\<close>

section \<open>Shards\<close>

datatype shard = D0 | D1 | P0 | P1

fun shard_index :: "shard \<Rightarrow> nat" where
  "shard_index D0 = 0"
| "shard_index D1 = 1"
| "shard_index P0 = 2"
| "shard_index P1 = 3"

fun shard_name :: "shard \<Rightarrow> string" where
  "shard_name D0 = ''d0''"
| "shard_name D1 = ''d1''"
| "shard_name P0 = ''p0''"
| "shard_name P1 = ''p1''"

lemma shard_index_inj: "shard_index s = shard_index t \<longleftrightarrow> s = t"
  by (cases s; cases t) simp_all

lemma shard_index_less: "shard_index s < 4"
  by (cases s) simp_all

text \<open>Shards are ordered as the enumeration numbers them.\<close>

instantiation shard :: linorder
begin

definition less_eq_shard :: "shard \<Rightarrow> shard \<Rightarrow> bool" where
  "less_eq_shard s t \<longleftrightarrow> shard_index s \<le> shard_index t"

definition less_shard :: "shard \<Rightarrow> shard \<Rightarrow> bool" where
  "less_shard s t \<longleftrightarrow> shard_index s < shard_index t"

instance
  by standard (auto simp: less_eq_shard_def less_shard_def shard_index_inj)

end

section \<open>Parity\<close>

definition make_parity0 :: "bytes \<Rightarrow> bytes \<Rightarrow> nat \<Rightarrow> bytes" where
  "make_parity0 d0 d1 n = xor_into (take n d0) (take n d1)"

definition make_parity1 :: "bytes \<Rightarrow> bytes \<Rightarrow> nat \<Rightarrow> bytes" where
  "make_parity1 d0 d1 n =
     map2 (\<lambda>a b. gf_mul a 2 XOR gf_mul b 3) (take n d0) (take n d1)"

section \<open>Choosing the pair to recover from\<close>

definition kOrder :: "(shard \<times> shard) list" where
  "kOrder = [(D0, D1), (D0, P0), (D1, P0), (D0, P1), (D1, P1), (P0, P1)]"

definition choose_pair :: "bool list \<Rightarrow> (shard \<times> shard) option" where
  "choose_pair present =
     find (\<lambda>(a, b). present ! shard_index a \<and> present ! shard_index b) kOrder"

section \<open>Recovery\<close>

definition reconstruct :: "shard \<times> shard \<Rightarrow> bytes \<Rightarrow> bytes \<Rightarrow> nat \<Rightarrow> (bytes \<times> bytes) option" where
  "reconstruct pair a b n =
     (let x = fst pair; y = snd pair; a = take n a; b = take n b in
      if x = D0 \<and> y = D1 then Some (a, b)
      else if x = D0 \<and> y = P0 then Some (a, xor_into a b)
      else if x = D1 \<and> y = P0 then Some (xor_into a b, a)
      else if x = D0 \<and> y = P1 then
        let inv3 = gf_inv 3
        in Some (a, map2 (\<lambda>u v. let t = v XOR gf_mul u 2 in gf_mul t inv3) a b)
      else if x = D1 \<and> y = P1 then
        let inv2 = gf_inv 2
        in Some (map2 (\<lambda>u v. let t = v XOR gf_mul u 3 in gf_mul t inv2) a b, a)
      else if x = P0 \<and> y = P1 then
        let d1 = map2 (\<lambda>u v. v XOR gf_mul u 2) a b
        in Some (map2 (XOR) a d1, d1)
      else None)"

text \<open>The four shards of a pair of halves.\<close>

fun shard_of :: "bytes \<Rightarrow> bytes \<Rightarrow> shard \<Rightarrow> bytes" where
  "shard_of d0 d1 D0 = d0"
| "shard_of d0 d1 D1 = d1"
| "shard_of d0 d1 P0 = make_parity0 d0 d1 (length d0)"
| "shard_of d0 d1 P1 = make_parity1 d0 d1 (length d0)"

section \<open>Pointwise recovery rules\<close>

text \<open>Each is an instance of the field laws at the coefficients 2 and 3.\<close>

lemma three_is_two_xor_one: "(3::byte) = 2 XOR 1"
  by simp

lemma byte_from_p0: "a XOR (a XOR b) = b" "b XOR (a XOR b) = a" for a b :: byte
  by (simp_all add: xor_ac)

lemma byte_d1_from_p1: "gf_mul ((gf_mul a 2 XOR gf_mul b 3) XOR gf_mul a 2) (gf_inv 3) = b"
  by (rule gf.solve_second) simp

lemma byte_d0_from_p1: "gf_mul ((gf_mul a 2 XOR gf_mul b 3) XOR gf_mul b 3) (gf_inv 2) = a"
  by (rule gf.solve_first) simp

lemma byte_d1_from_parities: "(gf_mul a 2 XOR gf_mul b 3) XOR gf_mul (a XOR b) 2 = b"
  unfolding three_is_two_xor_one by (rule gf.solve_both)

lemma map2_map2_left:
  "length xs = length ys \<Longrightarrow> map2 f xs (map2 g xs ys) = map2 (\<lambda>a b. f a (g a b)) xs ys"
  by (induction xs ys rule: list_induct2) simp_all

lemma map2_map2_right:
  "length xs = length ys \<Longrightarrow> map2 f ys (map2 g xs ys) = map2 (\<lambda>a b. f b (g a b)) xs ys"
  by (induction xs ys rule: list_induct2) simp_all

lemma map2_map2_both:
  "length xs = length ys \<Longrightarrow>
     map2 f (map2 g xs ys) (map2 h xs ys) = map2 (\<lambda>a b. f (g a b) (h a b)) xs ys"
  by (induction xs ys rule: list_induct2) simp_all

lemma map2_fst: "length xs = length ys \<Longrightarrow> map2 (\<lambda>a b. a) xs ys = xs"
  by (induction xs ys rule: list_induct2) simp_all

lemma map2_snd: "length xs = length ys \<Longrightarrow> map2 (\<lambda>a b. b) xs ys = ys"
  by (induction xs ys rule: list_induct2) simp_all

lemma map2_xor_cancel: "length xs = length ys \<Longrightarrow> map2 (XOR) (map2 (XOR) xs ys) ys = xs"
  for xs :: bytes
  by (induction xs ys rule: list_induct2) (simp_all add: xor.assoc)

lemmas map2_collapse = map2_xor_cancel map2_map2_left map2_map2_right map2_map2_both map2_fst map2_snd

section \<open>Every chosen pair recovers both halves\<close>

lemma length_shard_of:
  "length d0 = length d1 \<Longrightarrow> length (shard_of d0 d1 s) = length d0"
  by (cases s) (simp_all add: make_parity0_def make_parity1_def xor_into_def)

lemma reconstruct_shards:
  assumes "(x, y) \<in> set kOrder" and "length d0 = n" and "length d1 = n"
  shows "reconstruct (x, y) (shard_of d0 d1 x) (shard_of d0 d1 y) n = Some (d0, d1)"
  using assms
  by (auto simp: kOrder_def reconstruct_def make_parity0_def make_parity1_def xor_into_def Let_def
      map2_collapse byte_from_p0 byte_d1_from_p1 byte_d0_from_p1 byte_d1_from_parities)

lemma reconstruct_None_iff: "reconstruct pair a b n = None \<longleftrightarrow> pair \<notin> set kOrder"
  by (cases pair; cases "fst pair"; cases "snd pair")
    (simp_all add: reconstruct_def kOrder_def Let_def)

lemma reconstruct_lengths:
  assumes "reconstruct pair a b n = Some (d0, d1)" and "n \<le> length a" and "n \<le> length b"
  shows "length d0 = n \<and> length d1 = n"
  using assms by (auto simp: reconstruct_def Let_def xor_into_def split: if_splits)

section \<open>The choice\<close>

lemma choose_pair_in_order: "choose_pair present = Some p \<Longrightarrow> p \<in> set kOrder"
  unfolding choose_pair_def find_Some_iff using nth_mem by blast

lemma choose_pair_present:
  "choose_pair present = Some (x, y) \<Longrightarrow> present ! shard_index x \<and> present ! shard_index y \<and> x < y"
  by (auto simp: choose_pair_def kOrder_def less_shard_def split: if_splits)

lemma four_bools: "length present = 4 \<Longrightarrow> \<exists>a b c d. present = [a, b, c, d]"
  by (auto simp: numeral_eq_Suc length_Suc_conv)

lemma choose_pair_defined_iff:
  assumes "length present = 4"
  shows "choose_pair present \<noteq> None \<longleftrightarrow> 2 \<le> length (filter id present)"
proof -
  obtain a b c d where p: "present = [a, b, c, d]" using four_bools [OF assms] by blast
  show ?thesis
    unfolding p choose_pair_def kOrder_def
    by (cases a; cases b; cases c; cases d) simp_all
qed

section \<open>Byte-wise: slices of a stream give the same result\<close>

lemma take_append_length: "length a = n \<Longrightarrow> take (n + m) (a @ b) = a @ take m b"
  by simp

lemma make_parity0_append:
  "length a = n \<Longrightarrow> length b = n \<Longrightarrow>
     make_parity0 (a @ a') (b @ b') (n + m) = make_parity0 a b n @ make_parity0 a' b' m"
  by (simp add: make_parity0_def xor_into_def)

lemma make_parity1_append:
  "length a = n \<Longrightarrow> length b = n \<Longrightarrow>
     make_parity1 (a @ a') (b @ b') (n + m) = make_parity1 a b n @ make_parity1 a' b' m"
  by (simp add: make_parity1_def)

text \<open>C29: any two shards are enough.\<close>

theorem any_two_shards_recover:
  assumes "length present = 4" and "length d0 = n" and "length d1 = n"
  shows "case choose_pair present of
      None \<Rightarrow> length (filter id present) < 2
    | Some (x, y) \<Rightarrow> present ! shard_index x \<and> present ! shard_index y \<and> x \<noteq> y \<and>
        reconstruct (x, y) (shard_of d0 d1 x) (shard_of d0 d1 y) n = Some (d0, d1)"
proof (cases "choose_pair present")
  case None
  with choose_pair_defined_iff [OF assms(1)] show ?thesis by simp
next
  case (Some p)
  then obtain x y where p: "choose_pair present = Some (x, y)" by (cases p) auto
  with choose_pair_present [OF p] reconstruct_shards [OF choose_pair_in_order [OF p] assms(2,3)]
  show ?thesis by (auto simp: less_shard_def)
qed

lemma any_two_shards_recover_witness:
  "reconstruct (D1, P1) [3] (make_parity1 [7] [3] 1) 1 = Some ([7], [3])"
proof -
  have "choose_pair [False, True, False, True] = Some (D1, P1)"
    by (simp add: choose_pair_def kOrder_def)
  with any_two_shards_recover [of "[False, True, False, True]" "[7]" 1 "[3]"] show ?thesis by simp
qed

end
