(* ===== verification/Shardfile.thy ===== *)
theory Shardfile
  imports Erasure Filesys
begin

text \<open>
  \<open>src/core/shardfile.cpp\<close>: a sealed stream on disk is cut into four shard files slice by
  slice, and rebuilt from any two of them. Streams are read through a reader, here the part of
  the content it has not delivered yet.
\<close>

datatype shard_error =
    CannotSize | CannotReadStream | CannotWriteShard path | ShardWriteFailed path
  | ShardFlushFailed path | NeedTwoShards | CannotReadSelected | CannotWriteStream
  | ShardEndedEarly | NoRecoveryRule | RebuildWriteFailed | CannotTrim

section \<open>Splitting\<close>

text \<open>Reads exactly \<open>want\<close> bytes, zero-filling whatever lies past the end of the file.\<close>

definition read_padded :: "string \<Rightarrow> nat \<Rightarrow> bytes \<times> string" where
  "read_padded input want =
     (let got = take want input
      in (bytes_of got @ replicate (want - length got) 0, drop want input))"

text \<open>The loops over the four output streams: the first failing path, if any.\<close>

fun open_all :: "disk \<Rightarrow> path list \<Rightarrow> path option \<times> disk" where
  "open_all d [] = (None, d)"
| "open_all d (p # ps) =
     (case fs_create d p of (ok, d) \<Rightarrow> if \<not> ok then (Some p, d) else open_all d ps)"

fun write_all :: "disk \<Rightarrow> (path \<times> bytes) list \<Rightarrow> path option \<times> disk" where
  "write_all d [] = (None, d)"
| "write_all d ((p, b) # ps) =
     (case fs_append d p (string_of b) of (ok, d) \<Rightarrow>
        if \<not> ok then (Some p, d) else write_all d ps)"

fun flush_all :: "disk \<Rightarrow> path list \<Rightarrow> path option \<times> disk" where
  "flush_all d [] = (None, d)"
| "flush_all d (p # ps) =
     (case fs_flush d p of (ok, d) \<Rightarrow> if \<not> ok then (Some p, d) else flush_all d ps)"

function split_loop ::
  "path list \<Rightarrow> nat \<Rightarrow> string \<Rightarrow> string \<Rightarrow> nat \<Rightarrow> disk \<Rightarrow> path option \<times> disk" where
  "split_loop paths half a b done d =
     (if done < half then
        let n = min kIoBufferSize (half - done);
            (d0, a) = read_padded a n;
            (d1, b) = read_padded b n;
            p0 = make_parity0 d0 d1 n;
            p1 = make_parity1 d0 d1 n
        in case write_all d (zip paths [d0, d1, p0, p1]) of
             (Some p, d) \<Rightarrow> (Some p, d)
           | (None, d) \<Rightarrow> split_loop paths half a b (done + n) d
      else (None, d))"
  by pat_completeness auto
termination
  by (relation "measure (\<lambda>(paths, half, a, b, done, d). half - done)")
    (auto simp: kIoBufferSize_def)

declare split_loop.simps [simp del]

definition split_stream :: "disk \<Rightarrow> path \<Rightarrow> path list \<Rightarrow> (shard_error + nat) \<times> disk" where
  "split_stream d stream_path shard_paths =
     (case fs_size d stream_path of
        None \<Rightarrow> (Inl CannotSize, d)
      | Some stream_size \<Rightarrow>
          let half = (stream_size + 1) div 2 in
          case fs_read d stream_path of
            None \<Rightarrow> (Inl CannotReadStream, d)
          | Some c \<Rightarrow>
              let a = c; b = drop half c in
              case open_all d shard_paths of
                (Some p, d) \<Rightarrow> (Inl (CannotWriteShard p), d)
              | (None, d) \<Rightarrow>
                  case split_loop shard_paths half a b 0 d of
                    (Some p, d) \<Rightarrow> (Inl (ShardWriteFailed p), d)
                  | (None, d) \<Rightarrow>
                      case flush_all d shard_paths of
                        (Some p, d) \<Rightarrow> (Inl (ShardFlushFailed p), d)
                      | (None, d) \<Rightarrow> (Inr half, d))"

section \<open>Joining\<close>

text \<open>An empty path, here \<open>None\<close>, is a lost shard; so is a file of the wrong size.\<close>

definition shard_present :: "disk \<Rightarrow> nat \<Rightarrow> path option \<Rightarrow> bool" where
  "shard_present d shard_size p =
     (case p of None \<Rightarrow> False | Some p \<Rightarrow> fs_exists d p \<and> fs_size d p = Some shard_size)"

function join_loop ::
  "shard \<times> shard \<Rightarrow> nat \<Rightarrow> path \<Rightarrow> string \<Rightarrow> string \<Rightarrow> nat \<Rightarrow> disk \<Rightarrow> shard_error option \<times> disk"
where
  "join_loop pair shard_size out in_a in_b done d =
     (if done < shard_size then
        let n = min kIoBufferSize (shard_size - done);
            buf_a = take n in_a;
            buf_b = take n in_b
        in if length buf_a \<noteq> n \<or> length buf_b \<noteq> n then (Some ShardEndedEarly, d)
           else case reconstruct pair (bytes_of buf_a) (bytes_of buf_b) n of
               None \<Rightarrow> (Some NoRecoveryRule, d)
             | Some (d0, d1) \<Rightarrow>
                 case fs_write_at d out done (string_of d0) of (ok0, d) \<Rightarrow>
                   if \<not> ok0 then (Some RebuildWriteFailed, d)
                   else case fs_write_at d out (shard_size + done) (string_of d1) of (ok1, d) \<Rightarrow>
                     if \<not> ok1 then (Some RebuildWriteFailed, d)
                     else join_loop pair shard_size out (drop n in_a) (drop n in_b) (done + n) d
      else (None, d))"
  by pat_completeness auto
termination
  by (relation "measure (\<lambda>(pair, shard_size, out, a, b, done, d). shard_size - done)")
    (auto simp: kIoBufferSize_def)

declare join_loop.simps [simp del]

text \<open>
  The result of closing the output is not looked at by the code, so the model drops it too;
  the trim that follows works on whatever reached the disk.
\<close>

definition join_shards ::
  "disk \<Rightarrow> path option list \<Rightarrow> nat \<Rightarrow> nat \<Rightarrow> path \<Rightarrow> (shard_error + unit) \<times> disk" where
  "join_shards d shard_paths shard_size stream_size stream_path =
     (case choose_pair (map (shard_present d shard_size) shard_paths) of
        None \<Rightarrow> (Inl NeedTwoShards, d)
      | Some pair \<Rightarrow>
          case (Option.bind (shard_paths ! shard_index (fst pair)) (fs_read d),
                Option.bind (shard_paths ! shard_index (snd pair)) (fs_read d)) of
            (Some in_a, Some in_b) \<Rightarrow>
              (case fs_create d stream_path of (ok, d) \<Rightarrow>
                 if \<not> ok then (Inl CannotWriteStream, d)
                 else case join_loop pair shard_size stream_path in_a in_b 0 d of
                     (Some e, d) \<Rightarrow> (Inl e, d)
                   | (None, d) \<Rightarrow>
                       case fs_flush d stream_path of (_, d) \<Rightarrow>
                         case fs_resize d stream_path stream_size of (trimmed, d) \<Rightarrow>
                           if \<not> trimmed then (Inl CannotTrim, d) else (Inr (), d))
          | _ \<Rightarrow> (Inl CannotReadSelected, d))"

section \<open>Slices\<close>

definition pad :: "nat \<Rightarrow> string \<Rightarrow> bytes" where
  "pad n s = bytes_of (take n s) @ replicate (n - length s) 0"

lemma length_pad [simp]: "length (pad n s) = n"
  by (simp add: pad_def)

lemma read_padded_eq: "read_padded s n = (pad n s, drop n s)"
  by (auto simp: read_padded_def pad_def Let_def)

lemma pad_add: "pad (n + m) s = pad n s @ pad m (drop n s)"
proof (cases "n \<le> length s")
  case True
  then show ?thesis by (simp add: pad_def take_add bytes_of_append)
next
  case False
  then have "n + m - length s = (n - length s) + m" by simp
  then have "replicate (n + m - length s) (0::byte) = replicate (n - length s) 0 @ replicate m 0"
    by (simp only: replicate_add)
  with False show ?thesis by (simp add: pad_def)
qed

lemma shard_of_append:
  "length d0 = n \<Longrightarrow> length d1 = n \<Longrightarrow> length e0 = m \<Longrightarrow> length e1 = m \<Longrightarrow>
     shard_of (d0 @ e0) (d1 @ e1) s = shard_of d0 d1 s @ shard_of e0 e1 s"
  by (cases s) (simp_all add: make_parity0_append make_parity1_append)

lemma shard_of_Nil [simp]: "shard_of [] [] s = []"
  by (cases s) (simp_all add: make_parity0_def make_parity1_def xor_into_def)

section \<open>Splitting writes the four shards\<close>

definition four_paths :: "path list \<Rightarrow> bool" where
  "four_paths ps \<longleftrightarrow> length ps = 4 \<and> distinct ps"

lemma four_pathsE:
  assumes "four_paths ps"
  obtains p q r s where "ps = [p, q, r, s]" and "p \<noteq> q" and "p \<noteq> r" and "p \<noteq> s"
    and "q \<noteq> r" and "q \<noteq> s" and "r \<noteq> s"
proof -
  from assms obtain p q r s where "ps = [p, q, r, s]"
    by (auto simp: four_paths_def numeral_eq_Suc length_Suc_conv)
  with assms that show ?thesis by (simp add: four_paths_def)
qed

definition holds_shards :: "disk \<Rightarrow> path list \<Rightarrow> (shard \<Rightarrow> string) \<Rightarrow> bool" where
  "holds_shards d ps f \<longleftrightarrow> (\<forall>s. fs_read d (ps ! shard_index s) = Some (f s))"

lemma all_shards: "(\<forall>s. P s) \<longleftrightarrow> P D0 \<and> P D1 \<and> P P0 \<and> P P1"
  by (metis shard.exhaust)

definition same_elsewhere :: "path list \<Rightarrow> disk \<Rightarrow> disk \<Rightarrow> bool" where
  "same_elsewhere ps d d' \<longleftrightarrow>
     faults d' = faults d \<and> dirs d' = dirs d \<and> (\<forall>q. q \<notin> set ps \<longrightarrow> fs_read d' q = fs_read d q)"

lemma same_elsewhere_trans:
  "same_elsewhere ps d d' \<Longrightarrow> same_elsewhere ps d' d'' \<Longrightarrow> same_elsewhere ps d d''"
  by (auto simp: same_elsewhere_def)

lemma same_elsewhere_put: "p \<in> set ps \<Longrightarrow> same_elsewhere ps d (put d p s)"
  by (auto simp: same_elsewhere_def fs_simps)

lemma append_def_ok:
  "faults d = [] \<Longrightarrow> fs_append d p s =
     (True, put d p ((case fs_read d p of None \<Rightarrow> [] | Some c \<Rightarrow> c) @ s))"
  by (simp add: fs_append_def fs_simps)

lemma write_all_ok:
  assumes "four_paths ps" and "faults d = []" and "holds_shards d ps f"
  shows "\<exists>d'. write_all d (zip ps (map g [D0, D1, P0, P1])) = (None, d') \<and>
           same_elsewhere ps d d' \<and> holds_shards d' ps (\<lambda>s. f s @ string_of (g s))"
proof -
  obtain p q r t where ps: "ps = [p, q, r, t]" "p \<noteq> q" "p \<noteq> r" "p \<noteq> t"
    "q \<noteq> r" "q \<noteq> t" "r \<noteq> t"
    using four_pathsE [OF assms(1)] .
  with assms(2,3) show ?thesis
    by (simp add: holds_shards_def all_shards append_def_ok fs_simps same_elsewhere_def)
qed

lemma open_all_ok:
  assumes "four_paths ps" and "faults d = []"
    and "\<forall>p\<in>set ps. butlast p \<in> set (dirs d) \<and> p \<notin> set (dirs d)"
  shows "\<exists>d'. open_all d ps = (None, d') \<and> same_elsewhere ps d d' \<and> holds_shards d' ps (\<lambda>s. [])"
proof -
  obtain p q r t where ps: "ps = [p, q, r, t]" "p \<noteq> q" "p \<noteq> r" "p \<noteq> t"
    "q \<noteq> r" "q \<noteq> t" "r \<noteq> t"
    using four_pathsE [OF assms(1)] .
  with assms(2,3) show ?thesis
    by (simp add: holds_shards_def all_shards fault_free fs_simps same_elsewhere_def)
qed

lemma flush_all_ok: "faults d = [] \<Longrightarrow> flush_all d ps = (None, d)"
  by (induction ps) (simp_all add: fault_free)

lemma shard_of_pad_add:
  "shard_of (pad (n + m) a) (pad (n + m) b) s =
     shard_of (pad n a) (pad n b) s @ shard_of (pad m (drop n a)) (pad m (drop n b)) s"
  unfolding pad_add by (rule shard_of_append) simp_all

lemma split_loop_step:
  "done < half \<Longrightarrow> min kIoBufferSize (half - done) = n \<Longrightarrow>
     split_loop ps half a b done d =
       (case write_all d (zip ps (map (shard_of (pad n a) (pad n b)) [D0, D1, P0, P1])) of
          (Some p, d) \<Rightarrow> (Some p, d)
        | (None, d) \<Rightarrow> split_loop ps half (drop n a) (drop n b) (done + n) d)"
  by (subst split_loop.simps) (simp add: read_padded_eq Let_def)

lemma split_loop_ok:
  assumes "four_paths ps" and "faults d = []" and "holds_shards d ps f" and "done \<le> half"
  shows "\<exists>d'. split_loop ps half a b done d = (None, d') \<and> same_elsewhere ps d d' \<and>
           holds_shards d' ps
             (\<lambda>s. f s @ string_of (shard_of (pad (half - done) a) (pad (half - done) b) s))"
  using assms(2-4)
proof (induction "half - done" arbitrary: a b "done" d f rule: less_induct)
  case less
  show ?case
  proof (cases "done < half")
    case False
    then have "split_loop ps half a b done d = (None, d)" by (simp add: split_loop.simps)
    with False less.prems show ?thesis by (simp add: pad_def same_elsewhere_def)
  next
    case True
    define n where "n = min kIoBufferSize (half - done)"
    define m where "m = half - (done + n)"
    have n: "0 < n" "n \<le> half - done" using True by (simp_all add: n_def kIoBufferSize_def)
    then have m: "half - done = n + m" by (simp add: m_def)
    let ?g = "shard_of (pad n a) (pad n b)"
    obtain d' where d': "write_all d (zip ps (map ?g [D0, D1, P0, P1])) = (None, d')"
      and same: "same_elsewhere ps d d'" and holds: "holds_shards d' ps (\<lambda>s. f s @ string_of (?g s))"
      using write_all_ok [OF assms(1) less.prems(1,2), of ?g] by blast
    have "faults d' = []" using same less.prems(1) by (simp add: same_elsewhere_def)
    moreover have "half - (done + n) < half - done" "done + n \<le> half" using n True by simp_all
    ultimately obtain d'' where d'': "split_loop ps half (drop n a) (drop n b) (done + n) d' = (None, d'')"
      and same': "same_elsewhere ps d' d''"
      and holds': "holds_shards d'' ps (\<lambda>s. (f s @ string_of (?g s)) @
        string_of (shard_of (pad m (drop n a)) (pad m (drop n b)) s))"
      unfolding m_def using less.hyps [OF _ _ holds] by blast
    have "shard_of (pad (half - done) a) (pad (half - done) b) s =
        ?g s @ shard_of (pad m (drop n a)) (pad m (drop n b)) s" for s
      unfolding m by (rule shard_of_pad_add)
    with split_loop_step [OF True n_def [symmetric]] d' d'' holds' same_elsewhere_trans [OF same same']
    show ?thesis by (simp add: string_of_append)
  qed
qed

definition half_of :: "string \<Rightarrow> nat" where
  "half_of c = (length c + 1) div 2"

lemma half_of_Suc: "Suc (length c) div 2 = half_of c"
  by (simp add: half_of_def)

definition stream_shard :: "string \<Rightarrow> shard \<Rightarrow> string" where
  "stream_shard c s = string_of (shard_of (pad (half_of c) c) (pad (half_of c) (drop (half_of c) c)) s)"

lemma split_stream_ok:
  assumes "four_paths ps" and "faults d = []" and "list_all (writable d) ps"
    and "fs_read d sp = Some c"
  shows "\<exists>d'. split_stream d sp ps = (Inr (half_of c), d') \<and> same_elsewhere ps d d' \<and>
           holds_shards d' ps (stream_shard c)"
proof -
  have size: "fs_size d sp = Some (length c)" using assms(4) by (simp add: fs_size_def)
  obtain d1 where d1: "open_all d ps = (None, d1)" "same_elsewhere ps d d1" "holds_shards d1 ps (\<lambda>s. [])"
    using open_all_ok [OF assms(1,2)] assms(3) by (auto simp: list_all_iff writable_def)
  then have f1: "faults d1 = []" using assms(2) by (simp add: same_elsewhere_def)
  obtain d2 where d2: "split_loop ps (half_of c) c (drop (half_of c) c) 0 d1 = (None, d2)"
    "same_elsewhere ps d1 d2" "holds_shards d2 ps (stream_shard c)"
    using split_loop_ok [OF assms(1) f1 d1(3), of 0 "half_of c" c "drop (half_of c) c"]
    by (auto simp: stream_shard_def [abs_def])
  then have "faults d2 = []" using f1 by (simp add: same_elsewhere_def)
  then have "flush_all d2 ps = (None, d2)" by (rule flush_all_ok)
  with size d1 d2 assms(4) same_elsewhere_trans [OF d1(2) d2(2)] show ?thesis
    by (simp add: split_stream_def Let_def half_of_Suc)
qed

text \<open>
  Whatever the disk did meanwhile, a split that reports success has written all four shards:
  every write and flush it made succeeded.
\<close>

lemma write_all_success:
  assumes "four_paths ps" and "write_all d (zip ps (map g [D0, D1, P0, P1])) = (None, d')"
    and "holds_shards d ps f"
  shows "holds_shards d' ps (\<lambda>s. f s @ string_of (g s))"
proof -
  obtain p q r t where ps: "ps = [p, q, r, t]" "p \<noteq> q" "p \<noteq> r" "p \<noteq> t"
    "q \<noteq> r" "q \<noteq> t" "r \<noteq> t"
    using four_pathsE [OF assms(1)] .
  with assms(2) obtain a b c where
    "fs_append d p (string_of (g D0)) = (True, a)" "fs_append a q (string_of (g D1)) = (True, b)"
    "fs_append b r (string_of (g P0)) = (True, c)" "fs_append c t (string_of (g P1)) = (True, d')"
    by (auto split: prod.splits if_splits)
  from this [THEN append_success] ps assms(3) show ?thesis
    by (simp add: holds_shards_def all_shards)
qed

lemma open_all_success:
  assumes "four_paths ps" and "open_all d ps = (None, d')"
  shows "holds_shards d' ps (\<lambda>s. []) \<and> (\<forall>q. q \<notin> set ps \<longrightarrow> fs_read d' q = fs_read d q)"
proof -
  obtain p q r t where ps: "ps = [p, q, r, t]" "p \<noteq> q" "p \<noteq> r" "p \<noteq> t"
    "q \<noteq> r" "q \<noteq> t" "r \<noteq> t"
    using four_pathsE [OF assms(1)] .
  with assms(2) obtain a b c where "fs_create d p = (True, a)" "fs_create a q = (True, b)"
    "fs_create b r = (True, c)" "fs_create c t = (True, d')"
    by (auto split: prod.splits if_splits)
  from this [THEN create_success] ps show ?thesis
    by (simp add: holds_shards_def all_shards)
qed

lemma flush_all_success: "flush_all d ps = (None, d') \<Longrightarrow> fs_read d' q = fs_read d q"
  by (induction ps arbitrary: d) (auto split: prod.splits if_splits dest: flush_effect)

lemma split_loop_success:
  assumes "four_paths ps" and "split_loop ps half a b done d = (None, d')"
    and "holds_shards d ps f" and "done \<le> half"
  shows "holds_shards d' ps
           (\<lambda>s. f s @ string_of (shard_of (pad (half - done) a) (pad (half - done) b) s))"
  using assms(2-4)
proof (induction "half - done" arbitrary: a b "done" d f rule: less_induct)
  case less
  show ?case
  proof (cases "done < half")
    case False
    then have "split_loop ps half a b done d = (None, d)" by (simp add: split_loop.simps)
    with False less.prems show ?thesis by (simp add: pad_def)
  next
    case True
    define n where "n = min kIoBufferSize (half - done)"
    define m where "m = half - (done + n)"
    have n: "0 < n" "n \<le> half - done" using True by (simp_all add: n_def kIoBufferSize_def)
    then have m: "half - done = n + m" by (simp add: m_def)
    let ?g = "shard_of (pad n a) (pad n b)"
    obtain e where e: "write_all d (zip ps (map ?g [D0, D1, P0, P1])) = (None, e)"
      and rest: "split_loop ps half (drop n a) (drop n b) (done + n) e = (None, d')"
      using less.prems(1) split_loop_step [OF True n_def [symmetric]]
      by (auto split: prod.splits option.splits)
    have "half - (done + n) < half - done" "done + n \<le> half" using n True by simp_all
    with less.hyps [OF _ rest write_all_success [OF assms(1) e less.prems(2)]]
    have "holds_shards d' ps (\<lambda>s. (f s @ string_of (?g s)) @
        string_of (shard_of (pad m (drop n a)) (pad m (drop n b)) s))"
      unfolding m_def by blast
    moreover have "shard_of (pad (half - done) a) (pad (half - done) b) s =
        ?g s @ shard_of (pad m (drop n a)) (pad m (drop n b)) s" for s
      unfolding m by (rule shard_of_pad_add)
    ultimately show ?thesis by (simp add: string_of_append)
  qed
qed

lemma split_stream_success:
  assumes "four_paths ps" and "split_stream d sp ps = (Inr n, d')" and "fs_read d sp = Some c"
  shows "n = half_of c \<and> holds_shards d' ps (stream_shard c)"
proof -
  have size: "fs_size d sp = Some (length c)" using assms(3) by (simp add: fs_size_def)
  with assms obtain d1 d2 where n: "n = half_of c" and d1: "open_all d ps = (None, d1)"
    and d2: "split_loop ps (half_of c) c (drop (half_of c) c) 0 d1 = (None, d2)"
    and fl: "flush_all d2 ps = (None, d')"
    by (auto simp: split_stream_def Let_def half_of_Suc split: prod.splits option.splits)
  have "holds_shards d1 ps (\<lambda>s. [])" using open_all_success [OF assms(1) d1] by blast
  from split_loop_success [OF assms(1) d2 this] have "holds_shards d2 ps (stream_shard c)"
    by (simp add: stream_shard_def [abs_def])
  with n flush_all_success [OF fl] show ?thesis by (simp add: holds_shards_def)
qed

lemma length_stream_shard: "length (stream_shard c s) = half_of c"
  by (simp add: stream_shard_def length_shard_of)

section \<open>Joining rebuilds the stream\<close>

lemma take_drop_xor_into:
  "take n (drop k (xor_into a b)) = xor_into (take n (drop k a)) (take n (drop k b))"
  by (simp add: xor_into_def take_map drop_map take_zip drop_zip)

lemma shard_of_slice:
  assumes "length d0 = length d1" and "k + n \<le> length d0"
  shows "take n (drop k (shard_of d0 d1 s)) = shard_of (take n (drop k d0)) (take n (drop k d1)) s"
  using assms
  by (cases s) (simp_all add: make_parity0_def make_parity1_def take_drop_xor_into take_map drop_map
      take_zip drop_zip)

text \<open>The stream as the loop has filled it from both ends, \<open>k\<close> bytes of each half.\<close>

definition filled :: "nat \<Rightarrow> string \<Rightarrow> string \<Rightarrow> nat \<Rightarrow> string" where
  "filled sz a b k =
     (if k = 0 then [] else take k a @ replicate (sz - k) (char_of (0::nat)) @ take k b)"

lemma overwrite_filled:
  assumes "length a = sz" and "length b = sz" and "0 < n" and "k + n \<le> sz"
  shows "overwrite (overwrite (filled sz a b k) k (take n (drop k a))) (sz + k) (take n (drop k b)) =
           filled sz a b (k + n)"
proof (cases "k = 0")
  case True
  with assms show ?thesis by (simp add: filled_def overwrite_def)
next
  case False
  have "drop (k + n) (filled sz a b k) = replicate (sz - (k + n)) (char_of (0::nat)) @ take k b"
    using False assms by (simp add: filled_def drop_append)
  then have "overwrite (filled sz a b k) k (take n (drop k a)) =
      take (k + n) a @ replicate (sz - (k + n)) (char_of (0::nat)) @ take k b"
    using False assms by (simp add: overwrite_def filled_def take_add)
  with False assms show ?thesis by (simp add: overwrite_def filled_def take_add)
qed

lemma reconstruct_slice:
  assumes "pair \<in> set kOrder" and "length d0 = sz" and "length d1 = sz" and "k + n \<le> sz"
  shows "reconstruct pair (take n (drop k (shard_of d0 d1 (fst pair))))
           (take n (drop k (shard_of d0 d1 (snd pair)))) n = Some (take n (drop k d0), take n (drop k d1))"
  using assms reconstruct_shards [of "fst pair" "snd pair" "take n (drop k d0)" n "take n (drop k d1)"]
  by (simp add: shard_of_slice)

lemma string_of_take_drop: "string_of (take n (drop k b)) = take n (drop k (string_of b))"
  by (simp add: string_of_def take_map drop_map)

lemma bytes_of_take_drop_string: "bytes_of (take n (drop k (string_of b))) = take n (drop k b)"
  by (simp flip: string_of_take_drop)

lemma join_loop_ok:
  assumes "pair \<in> set kOrder" and "length d0 = sz" and "length d1 = sz" and "faults d = []"
    and "k \<le> sz"
  shows "join_loop pair sz out (drop k (string_of (shard_of d0 d1 (fst pair))))
           (drop k (string_of (shard_of d0 d1 (snd pair)))) k
           (put d out (filled sz (string_of d0) (string_of d1) k)) =
         (None, put d out (filled sz (string_of d0) (string_of d1) sz))"
  using assms(5)
proof (induction "sz - k" arbitrary: k rule: less_induct)
  case less
  show ?case
  proof (cases "k < sz")
    case False
    with less.prems show ?thesis by (simp add: join_loop.simps)
  next
    case True
    define n where "n = min kIoBufferSize (sz - k)"
    have n: "0 < n" "k + n \<le> sz" using True by (simp_all add: n_def kIoBufferSize_def)
    have len: "length (shard_of d0 d1 s) = sz" for s using assms(2,3) by (simp add: length_shard_of)
    have next_run: "join_loop pair sz out (drop (k + n) (string_of (shard_of d0 d1 (fst pair))))
           (drop (k + n) (string_of (shard_of d0 d1 (snd pair)))) (k + n)
           (put d out (filled sz (string_of d0) (string_of d1) (k + n))) =
         (None, put d out (filled sz (string_of d0) (string_of d1) sz))"
      using n True by (intro less.hyps) simp_all
    show ?thesis
      using True n assms len next_run reconstruct_slice [OF assms(1-3) n(2)]
        overwrite_filled [of "string_of d0" sz "string_of d1" n k]
      by (subst join_loop.simps)
        (simp add: n_def [symmetric] bytes_of_take_drop_string fault_free fs_simps string_of_take_drop
          add.commute)
  qed
qed

text \<open>
  The paths a join is given against the halves the shards were made of: a shard of the right
  size holds what the split wrote.
\<close>

definition intact :: "disk \<Rightarrow> path option list \<Rightarrow> nat \<Rightarrow> (shard \<Rightarrow> string) \<Rightarrow> bool" where
  "intact d qs n f \<longleftrightarrow> length qs = 4 \<and>
     (\<forall>s. shard_present d n (qs ! shard_index s) \<longrightarrow>
          Option.bind (qs ! shard_index s) (fs_read d) = Some (f s))"

definition present_count :: "disk \<Rightarrow> path option list \<Rightarrow> nat \<Rightarrow> nat" where
  "present_count d qs n = length (filter (shard_present d n) qs)"

lemma choose_present_iff:
  "length qs = 4 \<Longrightarrow> choose_pair (map (shard_present d n) qs) \<noteq> None \<longleftrightarrow> 2 \<le> present_count d qs n"
  by (subst choose_pair_defined_iff) (simp_all add: present_count_def filter_map comp_def)

lemma filled_all: "length a = n \<Longrightarrow> length b = n \<Longrightarrow> filled n a b n = a @ b"
  by (cases n) (simp_all add: filled_def)

lemma join_shards_ok:
  assumes "faults d = []" and "writable d out" and "length d0 = n" and "length d1 = n"
    and "intact d qs n (\<lambda>s. string_of (shard_of d0 d1 s))" and "2 \<le> present_count d qs n"
  shows "join_shards d qs n len out =
           (Inr (), put d out (resized len (string_of (d0 @ d1))))"
proof -
  from assms(5) have qs: "length qs = 4" by (simp add: intact_def)
  then obtain x y where pair: "choose_pair (map (shard_present d n) qs) = Some (x, y)"
    using choose_present_iff [OF qs] assms(6) by fastforce
  have "shard_index s < length qs" for s using qs shard_index_less [of s] by simp
  with choose_pair_present [OF pair]
  have "Option.bind (qs ! shard_index x) (fs_read d) = Some (string_of (shard_of d0 d1 x))"
    and "Option.bind (qs ! shard_index y) (fs_read d) = Some (string_of (shard_of d0 d1 y))"
    using assms(5) by (simp_all add: intact_def)
  moreover have "fs_create d out = (True, put d out [])"
    using assms(1,2) by (simp add: create_ok writable_def)
  moreover have "join_loop (x, y) n out (string_of (shard_of d0 d1 x)) (string_of (shard_of d0 d1 y)) 0
      (put d out []) = (None, put d out (string_of d0 @ string_of d1))"
    using join_loop_ok [OF choose_pair_in_order [OF pair] assms(3,4,1), of 0 out] assms(3,4)
    by (simp add: filled_all) (simp add: filled_def)
  ultimately show ?thesis
    using pair assms(1) by (simp add: join_shards_def fault_free fs_simps string_of_append)
qed

lemma join_shards_too_few:
  "length qs = 4 \<Longrightarrow> present_count d qs n < 2 \<Longrightarrow>
     join_shards d qs n len out = (Inl NeedTwoShards, d)"
  using choose_present_iff [of qs d n]
  by (cases "choose_pair (map (shard_present d n) qs)") (simp_all add: join_shards_def)

lemma pad_halves:
  "take (length c) (string_of (pad (half_of c) c @ pad (half_of c) (drop (half_of c) c))) = c"
proof -
  have "half_of c \<le> length c \<or> c = []" by (auto simp: half_of_def)
  then show ?thesis by (auto simp: pad_def string_of_append half_of_def)
qed

lemma resized_halves:
  "resized (length c) (string_of (pad (half_of c) c @ pad (half_of c) (drop (half_of c) c))) = c"
proof -
  have "length c \<le> half_of c + half_of c" by (simp add: half_of_def)
  then show ?thesis by (simp add: resized_def pad_halves)
qed


lemma join_ignores_failed_close:
  "\<exists>d qs n d'. choose_pair (map (shard_present d n) qs) = Some (D0, D1) \<and>
     intact d qs n (\<lambda>s. string_of (shard_of (bytes_of ''ab'') (bytes_of ''cd'') s)) \<and>
     join_shards d qs n 4 [''out''] = (Inr (), d') \<and>
     fs_read d' [''out''] = Some (''a'' @ replicate 3 (char_of (0::nat)))"
proof -
  let ?d = "\<lparr>files = [([''x''], \<lparr>content = ''ab'', mtime = 0\<rparr>), ([''y''], \<lparr>content = ''cd'', mtime = 0\<rparr>)],
     dirs = [[]], now = 0, faults = [None, None, None, Some 1]\<rparr>"
  let ?qs = "[Some [''x''], Some [''y''], None, None]"
  let ?e = "snd (join_shards ?d ?qs 2 4 [''out''])"
  have "choose_pair (map (shard_present ?d 2) ?qs) = Some (D0, D1)"
    by (simp add: choose_pair_def kOrder_def shard_present_def fs_exists_def fs_size_def fs_read_def
        lookup_def)
  moreover have "intact ?d ?qs 2 (\<lambda>s. string_of (shard_of (bytes_of ''ab'') (bytes_of ''cd'') s))"
    by (simp add: intact_def all_shards shard_present_def fs_read_def lookup_def)
  moreover have "join_shards ?d ?qs 2 4 [''out''] = (Inr (), ?e) \<and>
      fs_read ?e [''out''] = Some (''a'' @ replicate 3 (char_of (0::nat)))"
    by (simp add: join_shards_def choose_pair_def kOrder_def shard_present_def fs_exists_def fs_size_def
        fs_read_def lookup_def join_loop.simps kIoBufferSize_def reconstruct_def fs_create_def
        pop_fault_def put_def fs_write_at_def overwrite_def fs_flush_def fs_resize_def resized_def)
  ultimately show ?thesis by blast
qed


section \<open>Examples\<close>


end
