(* ===== verification/Manifest.thy ===== *)
theory Manifest
  imports Protocol Filesys
begin

text \<open>
  \<open>src/core/manifest.cpp\<close>: the text file that remembers where the shards of a file went while
  the server was down, one line per fact.
\<close>

definition kMagic :: string where "kMagic = ''pcs-manifest''"
definition kVersion :: nat where "kVersion = 2"

record shard_ref =
  ref_index :: nat
  ref_chunk_id :: string
  ref_peer :: string

record manifest =
  m_server :: string
  m_name :: string
  m_stream_size :: u64
  m_shard_size :: u64
  m_dedup_tag :: string
  m_data_shards :: nat
  m_parity_shards :: nat
  m_shards :: "shard_ref list"

definition empty_manifest :: manifest where
  "empty_manifest = \<lparr>m_server = [], m_name = [], m_stream_size = 0, m_shard_size = 0,
     m_dedup_tag = [], m_data_shards = 0, m_parity_shards = 0, m_shards = []\<rparr>"

datatype manifest_error =
    CannotWriteManifest path | ManifestWriteFailed path | CannotReadManifest path | ManifestEmpty
  | NotAManifest | UnsupportedManifest string | BadStreamSize | BadShardSize | BadLayout
  | ShardIndexOutOfRange | MalformedChunkId | NoUsableName | NoServerAddress

definition parse_int :: "string \<Rightarrow> nat \<Rightarrow> nat \<Rightarrow> nat option" where
  "parse_int txt low high =
     (case parse_size txt (of_nat high) of
        None \<Rightarrow> None
      | Some v \<Rightarrow> if unat v < low then None else Some (unat v))"

section \<open>Writing\<close>

definition shard_line :: "shard_ref \<Rightarrow> string" where
  "shard_line s = ''shard '' @ to_dec (ref_index s) @ '' '' @ ref_chunk_id s @ '' '' @ ref_peer s"

definition manifest_lines :: "manifest \<Rightarrow> string list" where
  "manifest_lines m =
     [kMagic @ '' '' @ to_dec kVersion,
      ''server '' @ m_server m,
      ''name '' @ m_name m,
      ''stream-size '' @ to_dec (unat (m_stream_size m)),
      ''shard-size '' @ to_dec (unat (m_shard_size m)),
      ''dedup-tag '' @ m_dedup_tag m,
      ''layout '' @ to_dec (m_data_shards m) @ '' '' @ to_dec (m_parity_shards m)]
     @ map shard_line (m_shards m)"

definition manifest_write :: "disk \<Rightarrow> manifest \<Rightarrow> path \<Rightarrow> (manifest_error + unit) \<times> disk" where
  "manifest_write d m p =
     (case fs_create d p of (ok, d) \<Rightarrow>
        if \<not> ok then (Inl (CannotWriteManifest p), d)
        else case out_flush p (out_lines p (manifest_lines m) (True, d)) of (good, d) \<Rightarrow>
          if \<not> good then (Inl (ManifestWriteFailed p), d) else (Inr (), d))"

section \<open>Reading\<close>

definition half_max :: u64 where
  "half_max = (- 1) div 2"

text \<open>One line after the first: the manifest with that fact, or the reason it is rejected.\<close>

definition read_fact :: "manifest \<Rightarrow> string \<Rightarrow> manifest_error + manifest" where
  "read_fact m line =
     (if line = [] then Inr m
      else let f = split line
      in if f = [] then Inr m
      else if f ! 0 = ''server'' \<and> length f = 2 then Inr (m\<lparr>m_server := f ! 1\<rparr>)
      else if f ! 0 = ''name'' then
        let pair = split_n line 2
        in if length pair = 2 then Inr (m\<lparr>m_name := pair ! 1\<rparr>) else Inr m
      else if f ! 0 = ''stream-size'' \<and> length f = 2 then
        (case parse_size (f ! 1) half_max of
           None \<Rightarrow> Inl BadStreamSize | Some v \<Rightarrow> Inr (m\<lparr>m_stream_size := v\<rparr>))
      else if f ! 0 = ''shard-size'' \<and> length f = 2 then
        (case parse_size (f ! 1) half_max of
           None \<Rightarrow> Inl BadShardSize | Some v \<Rightarrow> Inr (m\<lparr>m_shard_size := v\<rparr>))
      else if f ! 0 = ''dedup-tag'' \<and> length f = 2 then Inr (m\<lparr>m_dedup_tag := f ! 1\<rparr>)
      else if f ! 0 = ''layout'' \<and> length f = 3 then
        (case (parse_int (f ! 1) 1 16, parse_int (f ! 2) 0 16) of
           (Some a, Some b) \<Rightarrow> Inr (m\<lparr>m_data_shards := a, m_parity_shards := b\<rparr>)
         | _ \<Rightarrow> Inl BadLayout)
      else if f ! 0 = ''shard'' \<and> length f = 4 then
        (case parse_int (f ! 1) 0 3 of
           None \<Rightarrow> Inl ShardIndexOutOfRange
         | Some i \<Rightarrow>
             if \<not> is_safe_chunk_id (f ! 2) then Inl MalformedChunkId
             else Inr (m\<lparr>m_shards := m_shards m @
                    [\<lparr>ref_index = i, ref_chunk_id = f ! 2, ref_peer = f ! 3\<rparr>]\<rparr>))
      else Inr m)"

fun read_facts :: "manifest \<Rightarrow> string list \<Rightarrow> manifest_error + manifest" where
  "read_facts m [] = Inr m"
| "read_facts m (l # ls) =
     (case read_fact m l of Inl e \<Rightarrow> Inl e | Inr m \<Rightarrow> read_facts m ls)"

definition manifest_read :: "disk \<Rightarrow> path \<Rightarrow> manifest_error + manifest" where
  "manifest_read d p =
     (case fs_read d p of
        None \<Rightarrow> Inl (CannotReadManifest p)
      | Some c \<Rightarrow>
      case getlines c of
        [] \<Rightarrow> Inl ManifestEmpty
      | line # lines \<Rightarrow>
      let head = split line
      in if length head \<noteq> 2 \<or> head ! 0 \<noteq> kMagic then Inl NotAManifest
      else if head ! 1 \<noteq> to_dec kVersion then Inl (UnsupportedManifest (head ! 1))
      else case read_facts empty_manifest lines of
        Inl e \<Rightarrow> Inl e
      | Inr parsed \<Rightarrow>
          if m_name parsed = [] \<or> \<not> is_safe_name (m_name parsed) then Inl NoUsableName
          else if m_server parsed = [] then Inl NoServerAddress
          else Inr parsed)"

fun peek_loop :: "string list \<Rightarrow> string option" where
  "peek_loop [] = None"
| "peek_loop (line # lines) =
     (let f = split line
      in if length f = 2 \<and> f ! 0 = ''server'' then Some (f ! 1) else peek_loop lines)"

definition peek_manifest_server :: "disk \<Rightarrow> path \<Rightarrow> string option" where
  "peek_manifest_server d p =
     (case fs_read d p of None \<Rightarrow> None | Some c \<Rightarrow> peek_loop (tl (getlines c)))"

section \<open>What was written is read back\<close>

definition shard_ref_ok :: "shard_ref \<Rightarrow> bool" where
  "shard_ref_ok s \<longleftrightarrow> ref_index s \<le> 3 \<and> is_safe_chunk_id (ref_chunk_id s) \<and>
     is_word (ref_peer s) \<and> newline \<notin> set (ref_peer s)"

definition manifest_ok :: "manifest \<Rightarrow> bool" where
  "manifest_ok m \<longleftrightarrow>
     is_word (m_server m) \<and> newline \<notin> set (m_server m) \<and> is_safe_name (m_name m) \<and>
     is_safe_name (skip_spaces (m_name m)) \<and> m_stream_size m \<le> half_max \<and> m_shard_size m \<le> half_max \<and>
     space \<notin> set (m_dedup_tag m) \<and> newline \<notin> set (m_dedup_tag m) \<and>
     1 \<le> m_data_shards m \<and> m_data_shards m \<le> 16 \<and> m_parity_shards m \<le> 16 \<and>
     list_all shard_ref_ok (m_shards m)"

lemma parse_int_to_dec:
  "low \<le> n \<Longrightarrow> n \<le> high \<Longrightarrow> high < 2 ^ 64 \<Longrightarrow> parse_int (to_dec n) low high = Some n"
  by (simp add: parse_int_def parse_size_to_dec unat_of_nat)

lemma read_fact_server: "is_word s \<Longrightarrow> read_fact m (''server '' @ s) = Inr (m\<lparr>m_server := s\<rparr>)"
  using split_field [of "''server''" s] by (simp add: read_fact_def is_word_def split_word)

lemma read_fact_name:
  "skip_spaces s \<noteq> [] \<Longrightarrow> read_fact m (''name '' @ s) = Inr (m\<lparr>m_name := skip_spaces s\<rparr>)"
  using split_field [of "''name''" s] split_n_field [of "''name''" s 0]
  by (simp add: read_fact_def is_word_def split_n_last numeral_2_eq_2)

lemma size_words: "split (to_dec n) = [to_dec n]"
  using is_word_to_dec [of n] by (simp add: is_word_def split_word)

lemma read_fact_stream_size:
  "v \<le> half_max \<Longrightarrow> read_fact m (''stream-size '' @ to_dec (unat v)) = Inr (m\<lparr>m_stream_size := v\<rparr>)"
  using split_field [of "''stream-size''" "to_dec (unat v)"]
  by (simp add: read_fact_def size_words parse_size_to_dec word_le_nat_alt)

lemma read_fact_shard_size:
  "v \<le> half_max \<Longrightarrow> read_fact m (''shard-size '' @ to_dec (unat v)) = Inr (m\<lparr>m_shard_size := v\<rparr>)"
  using split_field [of "''shard-size''" "to_dec (unat v)"]
  by (simp add: read_fact_def size_words parse_size_to_dec word_le_nat_alt)

lemma read_fact_tag:
  "space \<notin> set s \<Longrightarrow> m_dedup_tag m = [] \<Longrightarrow> read_fact m (''dedup-tag '' @ s) = Inr (m\<lparr>m_dedup_tag := s\<rparr>)"
  using split_field [of "''dedup-tag''" s]
  by (cases "s = []") (simp_all add: read_fact_def split_word)

lemma read_fact_layout:
  "1 \<le> a \<Longrightarrow> a \<le> 16 \<Longrightarrow> b \<le> 16 \<Longrightarrow>
     read_fact m (''layout '' @ to_dec a @ '' '' @ to_dec b) =
       Inr (m\<lparr>m_data_shards := a, m_parity_shards := b\<rparr>)"
  using split_field [of "''layout''" "to_dec a @ '' '' @ to_dec b"]
    split_field [of "to_dec a" "to_dec b"] is_word_to_dec [of a]
  by (simp add: read_fact_def size_words parse_int_to_dec is_word_def)

lemma chunk_id_word: "is_safe_chunk_id i \<Longrightarrow> is_word i \<and> newline \<notin> set i"
  using is_safe_chunk_id_chars [of i space] is_safe_chunk_id_chars [of i newline]
  by (auto simp: is_word_def is_safe_chunk_id_def split: if_splits)

lemma read_fact_shard:
  "shard_ref_ok s \<Longrightarrow> read_fact m (shard_line s) = Inr (m\<lparr>m_shards := m_shards m @ [s]\<rparr>)"
  using split_field [of "''shard''" "to_dec (ref_index s) @ '' '' @ ref_chunk_id s @ '' '' @ ref_peer s"]
    split_field [of "to_dec (ref_index s)" "ref_chunk_id s @ '' '' @ ref_peer s"]
    split_field [of "ref_chunk_id s" "ref_peer s"] is_word_to_dec [of "ref_index s"]
    chunk_id_word [of "ref_chunk_id s"]
  by (simp add: read_fact_def shard_line_def size_words parse_int_to_dec is_word_def shard_ref_ok_def
      split_word)

lemma read_facts_shards:
  "list_all shard_ref_ok ss \<Longrightarrow>
     read_facts m (map shard_line ss) = Inr (m\<lparr>m_shards := m_shards m @ ss\<rparr>)"
  by (induction ss arbitrary: m) (simp_all add: read_fact_shard)

lemma manifest_lines_no_newline:
  "manifest_ok m \<Longrightarrow> \<forall>l\<in>set (manifest_lines m). newline \<notin> set l"
  using is_safe_name_no_newline [of "m_name m"] chunk_id_word
  by (auto simp: manifest_lines_def manifest_ok_def kMagic_def newline_code newline_not_digit shard_line_def
      shard_ref_ok_def list_all_iff)

lemma read_manifest_lines:
  assumes "manifest_ok m"
  shows "read_facts empty_manifest (tl (manifest_lines m)) = Inr (m\<lparr>m_name := skip_spaces (m_name m)\<rparr>)"
proof -
  have "skip_spaces (m_name m) \<noteq> []" using assms is_safe_name_nonempty by (auto simp: manifest_ok_def)
  moreover have "tl (manifest_lines m) =
      (''server '' @ m_server m) # (''name '' @ m_name m) #
      (''stream-size '' @ to_dec (unat (m_stream_size m))) #
      (''shard-size '' @ to_dec (unat (m_shard_size m))) #
      (''dedup-tag '' @ m_dedup_tag m) #
      (''layout '' @ to_dec (m_data_shards m) @ '' '' @ to_dec (m_parity_shards m)) #
      map shard_line (m_shards m)"
    by (simp add: manifest_lines_def)
  ultimately show ?thesis using assms
    by (simp add: manifest_ok_def read_fact_server read_fact_name read_fact_stream_size
        read_fact_shard_size read_fact_tag read_fact_layout read_facts_shards empty_manifest_def
        del: append_Cons)
qed

lemma manifest_write_success:
  "manifest_write d m p = (Inr (), d') \<Longrightarrow> fs_read d' p = Some (unlines (manifest_lines m))"
  by (auto simp: manifest_write_def out_flush_def dest!: out_lines_success create_effect
      flush_effect [of _ _ _ p] split: prod.splits if_splits)

lemma manifest_reads_back:
  assumes "manifest_ok m" and "manifest_write d m p = (Inr (), d')" and "fs_read e q = fs_read d' p"
  shows "manifest_read e q = Inr (m\<lparr>m_name := skip_spaces (m_name m)\<rparr>) \<and>
           peek_manifest_server e q = Some (m_server m)"
proof -
  have read: "fs_read e q = Some (unlines (manifest_lines m))"
    using manifest_write_success [OF assms(2)] assms(3) by simp
  have lines: "getlines (unlines (manifest_lines m)) =
      (kMagic @ '' '' @ to_dec kVersion) # tl (manifest_lines m)"
    using getlines_unlines [OF manifest_lines_no_newline [OF assms(1)]] by (simp add: manifest_lines_def)
  have head: "split (kMagic @ '' '' @ to_dec kVersion) = [kMagic, to_dec kVersion]"
    using split_field [of kMagic "to_dec kVersion"] by (simp add: size_words kMagic_def)
  have "split (''server '' @ m_server m) = [''server'', m_server m]"
    using split_field [of "''server''" "m_server m"] assms(1)
    by (simp add: split_word manifest_ok_def is_word_def)
  moreover have "m_server m \<noteq> []" "is_safe_name (skip_spaces (m_name m))"
    "skip_spaces (m_name m) \<noteq> []"
    using assms(1) is_safe_name_nonempty by (auto simp: manifest_ok_def is_word_def)
  ultimately show ?thesis
    using read lines head read_manifest_lines [OF assms(1)]
    by (simp add: manifest_read_def peek_manifest_server_def) (simp add: manifest_lines_def)
qed

text \<open>A manifest that is accepted names a safe file and holds only safe chunk ids.\<close>

lemma read_fact_shards_safe:
  "read_fact m l = Inr m' \<Longrightarrow> list_all (\<lambda>s. ref_index s \<le> 3 \<and> is_safe_chunk_id (ref_chunk_id s)) (m_shards m) \<Longrightarrow>
     list_all (\<lambda>s. ref_index s \<le> 3 \<and> is_safe_chunk_id (ref_chunk_id s)) (m_shards m')"
  by (auto simp: read_fact_def parse_int_def Let_def word_le_nat_alt dest!: parse_size_bound
      split: if_splits option.splits)

lemma read_facts_shards_safe:
  "read_facts m ls = Inr m' \<Longrightarrow> list_all (\<lambda>s. ref_index s \<le> 3 \<and> is_safe_chunk_id (ref_chunk_id s)) (m_shards m) \<Longrightarrow>
     list_all (\<lambda>s. ref_index s \<le> 3 \<and> is_safe_chunk_id (ref_chunk_id s)) (m_shards m')"
  by (induction ls arbitrary: m) (auto dest: read_fact_shards_safe split: sum.splits)

text \<open>C35: what an accepted manifest guarantees.\<close>

theorem manifest_read_safe:
  "manifest_read d p = Inr m \<Longrightarrow> is_safe_name (m_name m) \<and> m_server m \<noteq> [] \<and>
     (\<forall>s\<in>set (m_shards m). ref_index s \<le> 3 \<and> is_safe_chunk_id (ref_chunk_id s))"
  by (auto simp: manifest_read_def Let_def empty_manifest_def list_all_iff
      dest!: read_facts_shards_safe split: option.splits list.splits if_splits sum.splits)

text \<open>C34: what is written is read back.\<close>

theorem manifest_round_trip:
  assumes "manifest_ok m" and "manifest_write d m p = (Inr (), d')" and "fs_read e q = fs_read d' p"
  shows "manifest_read e q = Inr (m\<lparr>m_name := skip_spaces (m_name m)\<rparr>) \<and>
           peek_manifest_server e q = Some (m_server m)"
  using assms by (rule manifest_reads_back)

section \<open>Examples\<close>

definition example_manifest :: manifest where
  "example_manifest = empty_manifest\<lparr>m_server := ''nas:9000'', m_name := ''a b.txt'', m_data_shards := 2,
     m_parity_shards := 2, m_dedup_tag := ''t''\<rparr>"

lemma example_manifest_ok: "manifest_ok example_manifest"
  by (simp add: manifest_ok_def example_manifest_def empty_manifest_def is_word_def is_safe_name_def
      forbidden_char_def kBackslash_code half_max_def)

lemma example_written: "\<exists>d'. manifest_write (empty_disk [[]]) example_manifest [''m''] = (Inr (), d')"
  by (simp add: manifest_write_def create_ok out_lines_ok out_flush_def flush_ok fs_simps)

lemma manifest_round_trip_witness:
  "\<exists>d'. manifest_write (empty_disk [[]]) example_manifest [''m''] = (Inr (), d') \<and>
     manifest_read d' [''m''] = Inr example_manifest"
proof -
  from example_written obtain d' where
    d': "manifest_write (empty_disk [[]]) example_manifest [''m''] = (Inr (), d')" ..
  from manifest_round_trip [OF example_manifest_ok d', of d' "[''m'']"] d' show ?thesis
    by (simp add: example_manifest_def)
qed

lemma manifest_read_safe_witness: "is_safe_name (m_name example_manifest)"
proof -
  from example_written obtain d' where
    "manifest_write (empty_disk [[]]) example_manifest [''m''] = (Inr (), d')" ..
  from manifest_reads_back [OF example_manifest_ok this, of d' "[''m'']"]
  have "manifest_read d' [''m''] = Inr example_manifest" by (simp add: example_manifest_def)
  from manifest_read_safe [OF this] show ?thesis by blast
qed

end
