(* ===== verification/Frames.thy ===== *)
theory Frames
  imports Remote Container Shardfile Manifest
begin

text \<open>
  What the routines that write files may touch, whatever fails on the way, and that none of them
  invents a fault: the frame each client command is built from.
\<close>

definition confined :: "path set \<Rightarrow> disk \<Rightarrow> disk \<Rightarrow> bool" where
  "confined P d d' \<longleftrightarrow> touches P d d' \<and> (faults d = [] \<longrightarrow> faults d' = [])"

lemma confined_refl [simp]: "confined P d d"
  by (simp add: confined_def)

lemma confined_trans: "confined P d d' \<Longrightarrow> confined P d' d'' \<Longrightarrow> confined P d d''"
  by (auto simp: confined_def intro: touches_trans)

lemma confined_mono: "confined P d d' \<Longrightarrow> P \<subseteq> Q \<Longrightarrow> confined Q d d'"
  by (auto simp: confined_def intro: touches_mono)

lemma confined_lookup: "confined P d d' \<Longrightarrow> q \<notin> P \<Longrightarrow> lookup d' q = lookup d q"
  unfolding confined_def by (blast dest: touchesD)

lemma confined_read: "confined P d d' \<Longrightarrow> q \<notin> P \<Longrightarrow> fs_read d' q = fs_read d q"
  unfolding confined_def by (blast dest: touches_read)

section \<open>Single calls\<close>

lemma faultless_write_at: "faults d = [] \<Longrightarrow> fs_write_at d p k s = (ok, d') \<Longrightarrow> faults d' = []"
  by (auto simp: fs_write_at_def fs_simps)

lemma faultless_resize: "faults d = [] \<Longrightarrow> fs_resize d p n = (ok, d') \<Longrightarrow> faults d' = []"
  by (auto simp: fs_resize_def fs_simps split: if_splits option.splits)

lemma confined_create: "fs_create d p = (ok, d') \<Longrightarrow> confined {p} d d'"
  unfolding confined_def using touches_create faultless_create by blast

lemma confined_append: "fs_append d p s = (ok, d') \<Longrightarrow> confined {p} d d'"
  unfolding confined_def using touches_append faultless_append by blast

lemma confined_flush: "fs_flush d p = (ok, d') \<Longrightarrow> confined {p} d d'"
  unfolding confined_def using touches_flush faultless_flush by blast

lemma confined_write_at: "fs_write_at d p k s = (ok, d') \<Longrightarrow> confined {p} d d'"
  unfolding confined_def using touches_write_at faultless_write_at by blast

lemma confined_resize: "fs_resize d p n = (ok, d') \<Longrightarrow> confined {p} d d'"
  unfolding confined_def using touches_resize faultless_resize by blast

lemma confined_remove: "fs_remove d p = (ok, d') \<Longrightarrow> confined {p} d d'"
  unfolding confined_def using touches_remove faultless_remove by blast

lemma confined_mkdirs: "fs_mkdirs d p = (ok, d') \<Longrightarrow> confined {} d d'"
  unfolding confined_def using touches_mkdirs faultless_mkdirs by blast

lemmas confined_calls = confined_create confined_append confined_flush confined_write_at confined_resize
  confined_remove confined_mkdirs

lemma confined_out_write: "out_write p bs (g, d) = (g', d') \<Longrightarrow> confined {p} d d'"
  by (auto simp: out_write_def dest: confined_calls split: if_splits)

lemma confined_out_flush: "out_flush p (g, d) = (g', d') \<Longrightarrow> confined {p} d d'"
  by (auto simp: out_flush_def dest: confined_calls split: if_splits)

lemma confined_out_lines: "out_lines p ls (g, d) = (g', d') \<Longrightarrow> confined {p} d d'"
proof (induction ls arbitrary: g d)
  case (Cons l ls)
  obtain g1 d1 where o: "out_text p (l @ [newline]) (g, d) = (g1, d1)" by fastforce
  then have "confined {p} d d1" by (auto simp: out_text_def dest: confined_calls split: if_splits)
  moreover have "confined {p} d1 d'" using Cons o by (simp add: out_lines_Cons)
  ultimately show ?case by (rule confined_trans)
qed (simp add: out_lines_def)

section \<open>Sealing and opening\<close>

lemma confined_out_write_snd: "confined {p} (snd out) (snd (out_write p bs out))"
  using confined_out_write [of p bs "fst out" "snd out"] by (metis prod.collapse)

lemma confined_out_flush_snd: "confined {p} (snd out) (snd (out_flush p out))"
  using confined_out_flush [of p "fst out" "snd out"] by (metis prod.collapse)

lemma confined_four_writes:
  "confined {p} (snd out) (snd (out_write p z (out_write p y (out_write p x (out_write p v out)))))"
  by (meson confined_out_write_snd confined_trans)

lemma confined_seal_loop:
  "seal_loop E key hdr plain sp inps done i t pool out = (r, pool', outs) \<Longrightarrow> confined {sp} (snd out) (snd outs)"
proof (induction "plain - done" arbitrary: "done" inps i t pool out rule: less_induct)
  case less
  show ?case
  proof (cases "done < plain")
    case False
    with less.prems show ?thesis by (simp add: seal_loop.simps)
  next
    case True
    then have "plain - (done + min (unat kBlockSize) (plain - done)) < plain - done" by (simp add: unat_kBlockSize)
    note IH = less.hyps [OF this]
    show ?thesis
      using less.prems True
      by (subst (asm) seal_loop.simps)
        (auto simp: Let_def split: if_splits prod.splits option.splits
          dest!: IH intro: confined_four_writes confined_trans [OF confined_four_writes])
  qed
qed

lemma confined_after_write: "confined {p} (snd (out_write p bs (g, e))) d' \<Longrightarrow> confined {p} d e \<Longrightarrow> confined {p} d d'"
  using confined_out_write_snd [of p "(g, e)" bs] by (auto intro: confined_trans)

lemma confined_then_flush: "confined {p} d e \<Longrightarrow> confined {p} d (snd (out_flush p (g, e)))"
  using confined_out_flush_snd [of p "(g, e)"] by (auto intro: confined_trans)

lemma confined_seal_file:
  assumes "seal_file E d pool pp sp pw = (r, pool', d')"
  shows "confined {sp} d d'"
proof -
  have create: "confined {sp} d e" if "fs_create d sp = (ok, e)" for ok e using that by (rule confined_calls)
  show ?thesis
    using assms
    by (auto simp: seal_file_def Let_def split: if_splits prod.splits option.splits sum.splits
        dest!: confined_seal_loop create intro!: confined_then_flush elim!: confined_after_write)
qed

lemma confined_open_loop:
  "open_loop E key hdr block blocks pp inps i done out = (r, n, outs) \<Longrightarrow> confined {pp} (snd out) (snd outs)"
proof (induction "blocks - i" arbitrary: "done" inps i out rule: less_induct)
  case less
  show ?case
  proof (cases "i < blocks")
    case False
    with less.prems show ?thesis by (simp add: open_loop.simps)
  next
    case True
    then have "blocks - Suc i < blocks - i" by simp
    note IH = less.hyps [OF this]
    show ?thesis
      using less.prems True
      by (subst (asm) open_loop.simps)
        (auto simp: Let_def split: if_splits prod.splits sum.splits
          dest!: IH intro: confined_out_write_snd confined_trans [OF confined_out_write_snd])
  qed
qed

lemma confined_open_file:
  assumes "open_file E d sp out pw = (r, d')"
  shows "confined {out} d d'"
proof -
  have create: "confined {out} d e" if "fs_create d out = (ok, e)" for ok e using that by (rule confined_calls)
  have remove: "confined {out} d g" if "fs_remove (snd (out_flush out (b, f))) out = (ok, g)" "confined {out} e f" "confined {out} d e"
    for ok b e f g
    using that confined_remove [OF that(1)] confined_then_flush by (meson confined_trans)
  have flush: "confined {out} d (snd (out_flush out (b, f)))" if "confined {out} e f" "confined {out} d e" for b e f
    using that confined_then_flush by (meson confined_trans)
  show ?thesis
    using assms
    by (auto simp: open_file_def Let_def split: if_splits prod.splits option.splits sum.splits
        dest!: confined_open_loop create elim!: remove flush)
qed

section \<open>Shards\<close>

lemma confined_insert: "confined {p} d e \<Longrightarrow> confined A e d' \<Longrightarrow> confined (insert p A) d d'"
  by (rule confined_trans; erule confined_mono; blast)

lemma confined_one: "confined {p} d e \<Longrightarrow> confined (insert p A) d e"
  by (erule confined_mono) simp

lemma confined_open_all: "open_all d ps = (r, d') \<Longrightarrow> confined (set ps) d d'"
proof (induction d ps rule: open_all.induct)
  case (2 d p ps)
  then show ?case
    by (auto split: prod.splits if_splits dest!: confined_create intro: confined_insert confined_one)
qed simp

lemma confined_write_all: "write_all d ps = (r, d') \<Longrightarrow> confined (set (map fst ps)) d d'"
proof (induction d ps rule: write_all.induct)
  case (2 d p b ps)
  then show ?case
    by (auto split: prod.splits if_splits dest!: confined_append intro: confined_insert confined_one)
qed simp

lemma confined_flush_all: "flush_all d ps = (r, d') \<Longrightarrow> confined (set ps) d d'"
proof (induction d ps rule: flush_all.induct)
  case (2 d p ps)
  then show ?case
    by (auto split: prod.splits if_splits dest!: confined_flush intro: confined_insert confined_one)
qed simp

lemma confined_split_loop: "split_loop paths half a b done d = (r, d') \<Longrightarrow> confined (set paths) d d'"
proof (induction "half - done" arbitrary: a b "done" d rule: less_induct)
  case less
  have sub: "set (map fst (zip paths xs)) \<subseteq> set paths" for xs :: "bytes list" by (auto dest: set_zip_leftD)
  have wrote: "confined (set paths) d e" if "write_all d (zip paths xs) = (x, e)" for d xs x e
    using confined_mono [OF confined_write_all [OF that] sub] .
  show ?case
  proof (cases "done < half")
    case False
    with less.prems show ?thesis by (simp add: split_loop.simps)
  next
    case True
    then have "half - (done + min kIoBufferSize (half - done)) < half - done" by (simp add: kIoBufferSize_def)
    note IH = less.hyps [OF this]
    show ?thesis
      using less.prems True
      by (subst (asm) split_loop.simps)
        (auto simp: Let_def split: if_splits prod.splits option.splits dest!: IH wrote intro: confined_trans)
  qed
qed

lemma confined_split_stream: "split_stream d stream paths = (r, d') \<Longrightarrow> confined (set paths) d d'"
  by (auto simp: split_stream_def Let_def split: option.splits prod.splits
      dest!: confined_open_all confined_split_loop confined_flush_all intro: confined_trans)

lemma confined_join_loop: "join_loop pair n out a b done d = (r, d') \<Longrightarrow> confined {out} d d'"
proof (induction "n - done" arbitrary: a b "done" d rule: less_induct)
  case less
  show ?case
  proof (cases "done < n")
    case False
    with less.prems show ?thesis by (simp add: join_loop.simps)
  next
    case True
    let ?k = "min kIoBufferSize (n - done)"
    have "n - (done + ?k) < n - done" using True by (simp add: kIoBufferSize_def)
    note IH = less.hyps [OF this]
    let ?rec = "reconstruct pair (bytes_of (take ?k a)) (bytes_of (take ?k b)) ?k"
    show ?thesis
    proof (cases "length (take ?k a) = ?k \<and> length (take ?k b) = ?k \<and> ?rec \<noteq> None")
      case False
      with less.prems True show ?thesis
        by (subst (asm) join_loop.simps) (cases ?rec; auto simp: Let_def split: if_split_asm)
    next
      case full: True
      then obtain d0 d1 where rec: "?rec = Some (d0, d1)" by auto
      obtain ok0 e where w0: "fs_write_at d out done (string_of d0) = (ok0, e)" by fastforce
      obtain ok1 f where w1: "fs_write_at e out (n + done) (string_of d1) = (ok1, f)" by fastforce
      note step = less.prems [unfolded join_loop.simps [of pair n out a b "done" d] Let_def]
      have "confined {out} d e" "confined {out} d f"
        using confined_write_at [OF w0] confined_trans [OF confined_write_at [OF w0] confined_write_at [OF w1]] .
      with step True full rec w0 w1 IH show ?thesis by (auto split: if_split_asm intro: confined_trans)
    qed
  qed
qed

lemma confined_join_shards:
  assumes "join_shards d qs n len out = (r, d')"
  shows "confined {out} d d'"
proof -
  obtain ok e where c: "fs_create d out = (ok, e)" by fastforce
  note ce = confined_create [OF c]
  have tail: "confined {out} d f'" if j: "join_loop pair n out a b 0 e = (x, f)"
    and fl: "fs_flush f out = (y, g)" and rs: "fs_resize g out len = (z, f')" for pair a b x f y g z f'
    by (rule confined_trans [OF ce confined_trans [OF confined_join_loop [OF j]
        confined_trans [OF confined_flush [OF fl] confined_resize [OF rs]]]])
  have stopped: "confined {out} d f" if "join_loop pair n out a b 0 e = (x, f)" for pair a b x f
    by (rule confined_trans [OF ce confined_join_loop [OF that]])
  show ?thesis
    using assms ce
    by (auto simp: join_shards_def c split: option.splits prod.splits if_splits elim!: tail stopped)
qed

section \<open>Manifests and transfers\<close>

lemma confined_manifest_write: "manifest_write d m p = (r, d') \<Longrightarrow> confined {p} d d'"
proof -
  obtain ok e where c: "fs_create d p = (ok, e)" by fastforce
  obtain g f where l: "out_lines p (manifest_lines m) (True, e) = (g, f)" by fastforce
  have "confined {p} d f" using confined_create [OF c] confined_out_lines [OF l] by (rule confined_trans)
  moreover assume "manifest_write d m p = (r, d')"
  ultimately show ?thesis
    using confined_create [OF c]
    by (auto simp: manifest_write_def c l split: prod.splits if_splits dest!: confined_out_flush intro: confined_trans)
qed

lemma confined_read_body_loop: "read_body_loop c p d n = (e, c', d') \<Longrightarrow> confined {p} d d'"
  using read_body_loop_touches read_body_loop_faultless unfolding confined_def by blast

lemma confined_read_body: "read_body_to_file c d p n = (e, c', d') \<Longrightarrow> confined {p} d d'"
  by (auto simp: read_body_to_file_def split: prod.splits if_splits option.splits
      dest!: confined_create confined_read_body_loop confined_flush intro: confined_trans)

lemma confined_fetch: "fetch c d line p = (r, c', d') \<Longrightarrow> confined {p} d d'"
  by (auto simp: fetch_def Let_def split: sum.splits prod.splits if_splits option.splits dest!: confined_read_body)

end
