(* ===== verification/Keysource.thy ===== *)
theory Keysource
  imports Filesys
begin

text \<open>
  \<open>src/core/keysource.cpp\<close>: where the passphrase comes from. The process environment, whether
  somebody sits at the terminal, and the lines that can still be read from it are the record
  \<open>console\<close>; switching the echo off is the operating system's.
\<close>

record key_options =
  keyfile :: string
  allow_prompt :: bool

record console =
  con_env :: "string option"
  con_tty :: bool
  con_lines :: "string list"

datatype key_error = CannotReadKeyFile string | KeyFileEmpty string | NoPassphraseAvailable
  | NoPassphraseEntered | EntriesDiffer

section \<open>Sources\<close>

definition line_end :: "char \<Rightarrow> bool" where
  "line_end ch \<longleftrightarrow> ch = newline \<or> ch = CHR 0x0D"

definition strip_trailing_newline :: "string \<Rightarrow> string" where
  "strip_trailing_newline s = rev (dropWhile line_end (rev s))"

definition read_keyfile :: "disk \<Rightarrow> string \<Rightarrow> key_error + string" where
  "read_keyfile d p =
     (case fs_read d (components p) of
        None \<Rightarrow> Inl (CannotReadKeyFile p)
      | Some s \<Rightarrow>
          let line = strip_trailing_newline (case getlines s of [] \<Rightarrow> [] | l # _ \<Rightarrow> l)
          in if line = [] then Inl (KeyFileEmpty p) else Inr line)"

definition read_hidden_line :: "console \<Rightarrow> string option \<times> console" where
  "read_hidden_line con =
     (case con_lines con of
        [] \<Rightarrow> (None, con)
      | l # ls \<Rightarrow> (Some (strip_trailing_newline l), con\<lparr>con_lines := ls\<rparr>))"

section \<open>One passphrase\<close>

definition env_value :: "console \<Rightarrow> string" where
  "env_value con = (case con_env con of None \<Rightarrow> [] | Some v \<Rightarrow> strip_trailing_newline v)"

definition resolve_passphrase :: "disk \<Rightarrow> key_options \<Rightarrow> console \<Rightarrow> (key_error + string) \<times> console" where
  "resolve_passphrase d opts con =
     (if keyfile opts \<noteq> [] then (read_keyfile d (keyfile opts), con)
      else if env_value con \<noteq> [] then (Inr (env_value con), con)
      else if \<not> allow_prompt opts \<or> \<not> con_tty con then (Inl NoPassphraseAvailable, con)
      else case read_hidden_line con of
        (None, con) \<Rightarrow> (Inl NoPassphraseEntered, con)
      | (Some p, con) \<Rightarrow> if p = [] then (Inl NoPassphraseEntered, con) else (Inr p, con))"

definition confirm_passphrase :: "disk \<Rightarrow> key_options \<Rightarrow> console \<Rightarrow> (key_error + string) \<times> console" where
  "confirm_passphrase d opts con =
     (if keyfile opts \<noteq> [] \<or> con_env con \<noteq> None \<or> \<not> allow_prompt opts \<or> \<not> con_tty con
      then resolve_passphrase d opts con
      else case read_hidden_line con of
        (None, con) \<Rightarrow> (Inl NoPassphraseEntered, con)
      | (Some first, con) \<Rightarrow>
      if first = [] then (Inl NoPassphraseEntered, con)
      else case read_hidden_line con of
        (None, con) \<Rightarrow> (Inl NoPassphraseEntered, con)
      | (Some second, con) \<Rightarrow>
          if first \<noteq> second then (Inl EntriesDiffer, con) else (Inr first, con))"

section \<open>What a passphrase is like\<close>

lemma strip_trailing_newline_last: "strip_trailing_newline s \<noteq> [] \<Longrightarrow> \<not> line_end (last (strip_trailing_newline s))"
proof -
  assume "strip_trailing_newline s \<noteq> []"
  then have "dropWhile line_end (rev s) \<noteq> []" by (simp add: strip_trailing_newline_def)
  then have "\<not> line_end (hd (dropWhile line_end (rev s)))" by (rule hd_dropWhile)
  with \<open>dropWhile line_end (rev s) \<noteq> []\<close> show ?thesis by (simp add: strip_trailing_newline_def last_rev)
qed

lemma read_hidden_line_result:
  "read_hidden_line con = (Some p, con') \<Longrightarrow> p \<noteq> [] \<Longrightarrow> \<not> line_end (last p) \<and> length (con_lines con) = Suc (length (con_lines con'))"
  by (auto simp: read_hidden_line_def strip_trailing_newline_last split: list.splits)

lemma resolve_passphrase_result:
  "resolve_passphrase d opts con = (Inr p, con') \<Longrightarrow> p \<noteq> [] \<and> \<not> line_end (last p)"
  by (auto simp: resolve_passphrase_def read_keyfile_def env_value_def Let_def strip_trailing_newline_last
      dest: read_hidden_line_result split: if_splits option.splits prod.splits)

lemma confirm_passphrase_result:
  assumes "confirm_passphrase d opts con = (Inr p, con')"
  shows "p \<noteq> [] \<and> \<not> line_end (last p) \<and>
    (keyfile opts = [] \<and> con_env con = None \<longrightarrow>
       (\<exists>l1 l2 ls. con_lines con = l1 # l2 # ls \<and> strip_trailing_newline l1 = p \<and> strip_trailing_newline l2 = p))"
proof -
  have "p \<noteq> [] \<and> \<not> line_end (last p)"
    using assms by (auto simp: confirm_passphrase_def dest: resolve_passphrase_result read_hidden_line_result
        split: if_splits option.splits prod.splits)
  moreover have "\<exists>l1 l2 ls. con_lines con = l1 # l2 # ls \<and> strip_trailing_newline l1 = p \<and> strip_trailing_newline l2 = p"
    if "keyfile opts = []" "con_env con = None"
    using assms that
    by (auto simp: confirm_passphrase_def resolve_passphrase_def env_value_def read_hidden_line_def
        split: if_splits option.splits prod.splits list.splits)
  ultimately show ?thesis by blast
qed

lemma empty_variable_skips_confirmation:
  assumes "keyfile opts = []" and "allow_prompt opts" and "con_tty con"
    and "con_env con = Some v" and "strip_trailing_newline v = []"
    and "con_lines con = l # ls" and "strip_trailing_newline l \<noteq> []"
  shows "confirm_passphrase d opts con = (Inr (strip_trailing_newline l), con\<lparr>con_lines := ls\<rparr>)"
  using assms by (simp add: confirm_passphrase_def resolve_passphrase_def env_value_def read_hidden_line_def)

section \<open>Examples\<close>

definition example_console :: "string option \<Rightarrow> string list \<Rightarrow> console" where
  "example_console v ls = \<lparr>con_env = v, con_tty = True, con_lines = ls\<rparr>"

definition example_keys :: key_options where
  "example_keys = \<lparr>keyfile = [], allow_prompt = True\<rparr>"

lemma confirm_passphrase_result_witness:
  "confirm_passphrase (empty_disk []) example_keys (example_console None [''pw'', ''pw'']) =
     (Inr ''pw'', example_console None []) \<and> \<not> line_end (last ''pw'')"
proof -
  have r: "confirm_passphrase (empty_disk []) example_keys (example_console None [''pw'', ''pw'']) =
     (Inr ''pw'', example_console None [])"
    by (simp add: confirm_passphrase_def example_keys_def example_console_def read_hidden_line_def
        strip_trailing_newline_def line_end_def)
  with confirm_passphrase_result [OF r] show ?thesis by blast
qed

lemma empty_variable_skips_confirmation_witness:
  "confirm_passphrase (empty_disk []) example_keys (example_console (Some []) [''pv'']) =
     (Inr ''pv'', example_console (Some []) [])"
  using empty_variable_skips_confirmation [of example_keys "example_console (Some []) [''pv'']" "[]" "''pv''" "[]"]
  by (simp add: example_keys_def example_console_def strip_trailing_newline_def line_end_def)

end
