(* ===== verification/Workspace.thy ===== *)
theory Workspace
  imports Frames Keysource
begin

text \<open>
  \<open>src/client/workspace.cpp\<close> and the part of \<open>remote.cpp\<close> that opens connections. The record
  \<open>client\<close> is what a command of the client works on: the disk, the entropy, what the network
  answers, and what it printed, each message by its fixed words. The k-th attempt to reach an address meets the network
  \<open>net_at k\<close> and, once connected, a peer that will deliver \<open>link_at k address\<close>; \<open>cl_links\<close> keeps
  the channels of the connections that are closed. \<open>cl_stops\<close> holds what the looks at the stop flag
  of \<open>sync.cpp\<close> will find, \<open>cl_watch_stops\<close> those at the one of \<open>watch.cpp\<close>: a flag that is set stays
  set, and one whose list is used up is never set.
\<close>

record options =
  opt_cred :: credentials
  opt_trust :: tls_trust
  opt_server :: string
  opt_peers :: "string list"
  opt_key :: key_options
  opt_dir :: path
  opt_quiet :: bool

record 'a internet =
  net_at :: "nat \<Rightarrow> 'a network"
  link_at :: "nat \<Rightarrow> string \<Rightarrow> channel"

record client =
  cl_disk :: disk
  cl_pool :: bytes
  cl_con :: console
  cl_dials :: nat
  cl_links :: "(string \<times> channel) list"
  cl_out :: "string list"
  cl_stops :: "bool list"
  cl_watch_stops :: "bool list"

definition tell :: "string \<Rightarrow> client \<Rightarrow> client" where
  "tell m w = w\<lparr>cl_out := cl_out w @ [m]\<rparr>"

definition remark :: "bool \<Rightarrow> string \<Rightarrow> client \<Rightarrow> client" where
  "remark verbose m w = (if verbose then tell m w else w)"

definition on_disk :: "disk \<Rightarrow> client \<Rightarrow> client" where
  "on_disk d w = w\<lparr>cl_disk := d\<rparr>"

definition stop_requested :: "client \<Rightarrow> bool \<times> client" where
  "stop_requested w =
     (case cl_stops w of
        [] \<Rightarrow> (False, w)
      | b # bs \<Rightarrow> if b then (True, w) else (False, w\<lparr>cl_stops := bs\<rparr>))"

section \<open>Connections\<close>

definition dial_channel ::
  "('c, 'k) x509 \<Rightarrow> 'a internet \<Rightarrow> string \<Rightarrow> tls_trust \<Rightarrow> client \<Rightarrow> (dial_error + channel) \<times> client" where
  "dial_channel X I address trust w =
     (case fst (dial X (net_at I (cl_dials w)) address trust) of
        Inl e \<Rightarrow> (Inl e, w\<lparr>cl_dials := Suc (cl_dials w)\<rparr>)
      | Inr _ \<Rightarrow> (Inr (link_at I (cl_dials w) address), w\<lparr>cl_dials := Suc (cl_dials w)\<rparr>))"

definition hang_up :: "string \<Rightarrow> channel \<Rightarrow> client \<Rightarrow> client" where
  "hang_up address c w = w\<lparr>cl_links := cl_links w @ [(address, c)]\<rparr>"

definition remote_connect ::
  "('c, 'k) x509 \<Rightarrow> 'a internet \<Rightarrow> options \<Rightarrow> access \<Rightarrow> string \<Rightarrow> client \<Rightarrow> (remote_error + channel) \<times> client" where
  "remote_connect X I opt acc address w =
     (case dial_channel X I address (opt_trust opt) w of
        (Inl e, w) \<Rightarrow> (Inl (NotDialled e), w)
      | (Inr c, w) \<Rightarrow>
          (case handshake (opt_cred opt) acc c of
             (Some e, c) \<Rightarrow> (Inl e, hang_up address c w)
           | (None, c) \<Rightarrow> (Inr c, w)))"

definition remote_reachable ::
  "('c, 'k) x509 \<Rightarrow> 'a internet \<Rightarrow> string \<Rightarrow> tls_trust \<Rightarrow> client \<Rightarrow> bool \<times> client" where
  "remote_reachable X I address trust w =
     (case dial_channel X I address trust w of
        (Inl e, w) \<Rightarrow> (False, w)
      | (Inr c, w) \<Rightarrow> (case ping c of (ok, c) \<Rightarrow> (ok, hang_up address c w)))"

section \<open>The working directory\<close>

definition pending_dir :: "path \<Rightarrow> path" where
  "pending_dir root = path_join root ''pending''"

definition work_dir :: "path \<Rightarrow> path" where
  "work_dir root = path_join (pending_dir root) ''.work''"

definition workspace_init :: "path \<Rightarrow> client \<Rightarrow> bool \<times> client" where
  "workspace_init root w =
     (case fs_mkdirs (cl_disk w) (work_dir root) of (ok, d) \<Rightarrow> (ok, on_disk d w))"

definition kManifestExt :: string where "kManifestExt = ''.manifest''"

text \<open>The empty path of the code is \<open>None\<close>.\<close>

definition manifest_path :: "path \<Rightarrow> string \<Rightarrow> path option" where
  "manifest_path root name =
     (if \<not> is_safe_name name then None else Some (path_join (pending_dir root) (name @ kManifestExt)))"

text \<open>\<open>path::extension\<close> and \<open>path::stem\<close> of a file name: a leading dot starts no extension.\<close>

definition extension :: "string \<Rightarrow> string" where
  "extension name =
     (let tail = rev (takeWhile (\<lambda>ch. ch \<noteq> CHR ''.'') (rev name)); at = length name - length tail
      in if name = ''.'' \<or> name = ''..'' \<or> at \<le> 1 then [] else drop (at - 1) name)"

definition stem :: "string \<Rightarrow> string" where
  "stem name = take (length name - length (extension name)) name"

definition manifests :: "path \<Rightarrow> disk \<Rightarrow> path list" where
  "manifests root d =
     (if \<not> fs_exists d (pending_dir root) then []
      else sort (filter (\<lambda>p. extension (last p) = kManifestExt) (fs_list d (pending_dir root))))"

text \<open>
  A scratch file: its path is drawn here, and \<open>drop_temp\<close> is the destructor at the end of its
  scope. No caller keeps one.
\<close>

definition temp :: "path \<Rightarrow> string \<Rightarrow> client \<Rightarrow> path \<times> client" where
  "temp root kind w =
     (case random_bytes 12 (cl_pool w) of (bs, pool) \<Rightarrow>
        (path_join (work_dir root) (to_hex bs @ ''.'' @ kind), w\<lparr>cl_pool := pool\<rparr>))"

definition drop_temp :: "path \<Rightarrow> client \<Rightarrow> client" where
  "drop_temp p w = on_disk (snd (fs_remove (cl_disk w) p)) w"

definition temps :: "path \<Rightarrow> string \<Rightarrow> client \<Rightarrow> path list \<times> client" where
  "temps root kind w =
     (case temp root (kind @ ''0'') w of (a, w) \<Rightarrow>
      case temp root (kind @ ''1'') w of (b, w) \<Rightarrow>
      case temp root (kind @ ''2'') w of (c, w) \<Rightarrow>
      case temp root (kind @ ''3'') w of (d, w) \<Rightarrow> ([a, b, c, d], w))"

text \<open>Destructors run in the reverse order.\<close>

definition drop_temps :: "path list \<Rightarrow> client \<Rightarrow> client" where
  "drop_temps ps w = fold drop_temp (rev ps) w"

section \<open>Frames\<close>

lemma client_disk [simp]:
  "cl_disk (tell m w) = cl_disk w" "cl_disk (remark v m w) = cl_disk w" "cl_disk (on_disk d w) = d"
  "cl_disk (hang_up a c w) = cl_disk w"
  by (simp_all add: tell_def remark_def on_disk_def hang_up_def)

lemma client_pool [simp]:
  "cl_pool (tell m w) = cl_pool w" "cl_pool (remark v m w) = cl_pool w" "cl_pool (on_disk d w) = cl_pool w"
  "cl_pool (hang_up a c w) = cl_pool w"
  by (simp_all add: tell_def remark_def on_disk_def hang_up_def)

lemma dial_channel_disk: "dial_channel X I address trust w = (r, w') \<Longrightarrow> cl_disk w' = cl_disk w"
  by (auto simp: dial_channel_def split: sum.splits)

lemma remote_connect_disk: "remote_connect X I opt acc address w = (r, w') \<Longrightarrow> cl_disk w' = cl_disk w"
  by (auto simp: remote_connect_def split: sum.splits prod.splits option.splits dest: dial_channel_disk)

lemma remote_reachable_disk: "remote_reachable X I address trust w = (r, w') \<Longrightarrow> cl_disk w' = cl_disk w"
  by (auto simp: remote_reachable_def split: sum.splits prod.splits dest: dial_channel_disk)

lemma stop_requested_disk: "stop_requested w = (b, w') \<Longrightarrow> cl_disk w' = cl_disk w"
  by (auto simp: stop_requested_def split: list.splits if_splits)

lemmas same_disk = dial_channel_disk remote_connect_disk remote_reachable_disk stop_requested_disk

lemma work_dir_eq: "work_dir root = root @ [''pending'', ''.work'']"
  by (simp add: work_dir_def pending_dir_def path_join_component)

text \<open>Scratch files live in the work directory and tell each other apart by their kind.\<close>

definition scratch :: "path \<Rightarrow> path set" where
  "scratch root = {p. p \<noteq> [] \<and> butlast p = work_dir root}"

definition is_temp :: "path \<Rightarrow> string \<Rightarrow> path \<Rightarrow> bool" where
  "is_temp root kind p \<longleftrightarrow> (\<exists>bs. p = work_dir root @ [to_hex bs @ ''.'' @ kind])"

lemma temp_result:
  "temp root kind w = (p, w') \<Longrightarrow> CHR ''/'' \<notin> set kind \<Longrightarrow> is_temp root kind p \<and> cl_disk w' = cl_disk w"
  by (auto simp: temp_def is_temp_def path_join_component slash_not_hex split: prod.splits)

lemma is_temp_scratch: "is_temp root kind p \<Longrightarrow> p \<in> scratch root"
  by (auto simp: is_temp_def scratch_def)

lemma dot_not_hex: "CHR ''.'' \<notin> set (to_hex bs)"
  using to_hex_lower [of bs] by (auto simp: list_all_iff less_eq_char_def)

lemma hex_dot_unique: "to_hex a @ CHR ''.'' # k = to_hex b @ CHR ''.'' # l \<Longrightarrow> k = l"
proof -
  assume "to_hex a @ CHR ''.'' # k = to_hex b @ CHR ''.'' # l"
  then have "dropWhile (\<lambda>ch. ch \<noteq> CHR ''.'') (to_hex a @ CHR ''.'' # k) = dropWhile (\<lambda>ch. ch \<noteq> CHR ''.'') (to_hex b @ CHR ''.'' # l)"
    by simp
  moreover have "list_all (\<lambda>ch. ch \<noteq> CHR ''.'') (to_hex x)" for x
    using dot_not_hex [of x] by (auto simp: list_all_iff)
  ultimately show ?thesis by (simp add: dropWhile_append_stop)
qed

lemma temp_kinds_differ: "is_temp root k p \<Longrightarrow> is_temp root l p \<Longrightarrow> k = l"
  by (auto simp: is_temp_def dest: hex_dot_unique)

lemma temps_result:
  assumes "temps root kind w = (ps, w')" and "CHR ''/'' \<notin> set kind"
  shows "length ps = 4 \<and> distinct ps \<and> set ps \<subseteq> scratch root \<and> cl_disk w' = cl_disk w \<and>
    (\<forall>p\<in>set ps. \<exists>x. is_temp root (kind @ [x]) p)"
proof -
  from assms obtain a b c d w1 w2 w3 where t: "temp root (kind @ ''0'') w = (a, w1)" "temp root (kind @ ''1'') w1 = (b, w2)"
      "temp root (kind @ ''2'') w2 = (c, w3)" "temp root (kind @ ''3'') w3 = (d, w')" and ps: "ps = [a, b, c, d]"
    by (auto simp: temps_def split: prod.splits)
  note r = temp_result [OF t(1)] temp_result [OF t(2)] temp_result [OF t(3)] temp_result [OF t(4)]
  have i: "is_temp root (kind @ ''0'') a" "is_temp root (kind @ ''1'') b" "is_temp root (kind @ ''2'') c"
    "is_temp root (kind @ ''3'') d" and "cl_disk w' = cl_disk w"
    using r assms(2) by simp_all
  moreover have "x \<noteq> y" if "is_temp root (kind @ [p]) x" "is_temp root (kind @ [q]) y" "p \<noteq> q" for p q x y
    using that temp_kinds_differ by fastforce
  ultimately show ?thesis using is_temp_scratch unfolding ps by (auto 0 3)
qed

lemma drop_temp_confined: "confined {p} (cl_disk w) (cl_disk (drop_temp p w))"
  unfolding drop_temp_def client_disk by (metis confined_remove prod.collapse)

lemma drop_temp_gone: "faults (cl_disk w) = [] \<Longrightarrow> lookup (cl_disk (drop_temp p w)) p = None"
  unfolding drop_temp_def client_disk
  by (cases "fs_remove (cl_disk w) p") (auto dest: remove_gone simp: fs_read_def)

lemma drop_all_confined: "confined (set ps) (cl_disk w) (cl_disk (fold drop_temp ps w))"
proof (induction ps arbitrary: w)
  case (Cons p ps)
  have "confined {p} (cl_disk w) (cl_disk (drop_temp p w))" by (rule drop_temp_confined)
  from confined_insert [OF this Cons.IH [of "drop_temp p w"]] show ?case by simp
qed simp

lemma drop_temps_confined: "confined (set ps) (cl_disk w) (cl_disk (drop_temps ps w))"
  using drop_all_confined [of "rev ps" w] by (simp add: drop_temps_def)

lemma drop_all_gone:
  "faults (cl_disk w) = [] \<Longrightarrow> p \<in> set ps \<Longrightarrow> lookup (cl_disk (fold drop_temp ps w)) p = None"
proof (induction ps arbitrary: w)
  case (Cons q ps)
  have f: "faults (cl_disk (drop_temp q w)) = []"
    using drop_temp_confined [of q w] Cons.prems(1) by (simp add: confined_def)
  show ?case
  proof (cases "p \<in> set ps")
    case True
    with Cons.IH [OF f] show ?thesis by simp
  next
    case False
    with drop_all_confined [of ps "drop_temp q w"] drop_temp_gone [OF Cons.prems(1), of q] Cons.prems(2)
    show ?thesis by (auto dest: confined_lookup)
  qed
qed simp

lemma drop_temps_gone:
  "faults (cl_disk w) = [] \<Longrightarrow> p \<in> set ps \<Longrightarrow> lookup (cl_disk (drop_temps ps w)) p = None"
  using drop_all_gone [of w p "rev ps"] by (simp add: drop_temps_def)

text \<open>
  What a command does to the disk: it touches \<open>A\<close> and scratch files only, and, when no call
  fails, the only new scratch files are those of \<open>T\<close>.
\<close>

definition leaves :: "path \<Rightarrow> path set \<Rightarrow> path set \<Rightarrow> client \<Rightarrow> client \<Rightarrow> bool" where
  "leaves root T A w w' \<longleftrightarrow> confined (A \<union> scratch root) (cl_disk w) (cl_disk w') \<and>
     (faults (cl_disk w) = [] \<longrightarrow>
       (\<forall>q\<in>scratch root - T - A. lookup (cl_disk w) q = None \<longrightarrow> lookup (cl_disk w') q = None))"

lemma leaves_same: "cl_disk w' = cl_disk w \<Longrightarrow> leaves root T A w w'"
  by (simp add: leaves_def)

lemma leaves_trans: "leaves root T A w w1 \<Longrightarrow> leaves root T A w1 w2 \<Longrightarrow> leaves root T A w w2"
  unfolding leaves_def by (meson confined_def confined_trans)

lemma leaves_mono: "leaves root T A w w' \<Longrightarrow> T \<subseteq> U \<Longrightarrow> A \<subseteq> B \<Longrightarrow> leaves root U B w w'"
  unfolding leaves_def by (auto elim: confined_mono)

lemma leaves_confined:
  "confined P (cl_disk w) (cl_disk w') \<Longrightarrow> P \<subseteq> A \<union> T \<Longrightarrow> T \<subseteq> scratch root \<Longrightarrow> leaves root T A w w'"
proof -
  assume a: "confined P (cl_disk w) (cl_disk w')" "P \<subseteq> A \<union> T" "T \<subseteq> scratch root"
  then have "P \<subseteq> A \<union> scratch root" by blast
  from confined_mono [OF a(1) this] a show ?thesis unfolding leaves_def by (auto dest: confined_lookup)
qed

lemma leaves_drop:
  assumes "leaves root (insert p T) A w w'" and "p \<in> scratch root"
  shows "leaves root T A w (drop_temp p w')"
proof -
  have c: "confined {p} (cl_disk w') (cl_disk (drop_temp p w'))" by (rule drop_temp_confined)
  have "confined (A \<union> scratch root) (cl_disk w) (cl_disk (drop_temp p w'))"
    using assms confined_trans [OF _ confined_mono [OF c]] by (auto simp: leaves_def)
  moreover have "lookup (cl_disk (drop_temp p w')) q = None"
    if "faults (cl_disk w) = []" "q \<in> scratch root - T - A" "lookup (cl_disk w) q = None" for q
  proof (cases "q = p")
    case True
    with assms(1) that(1) drop_temp_gone [of w' p] show ?thesis by (simp add: leaves_def confined_def)
  next
    case False
    with assms(1) that confined_lookup [OF c, of q] show ?thesis by (auto simp: leaves_def)
  qed
  ultimately show ?thesis by (simp add: leaves_def)
qed

lemma leaves_drop_all:
  "leaves root (set ps \<union> T) A w w' \<Longrightarrow> set ps \<subseteq> scratch root \<Longrightarrow> leaves root T A w (fold drop_temp ps w')"
proof (induction ps arbitrary: w')
  case (Cons p ps)
  then have "leaves root (set ps \<union> T) A w (drop_temp p w')" by (intro leaves_drop) simp_all
  with Cons show ?case by simp
qed simp

lemma leaves_drop_temps:
  "leaves root (set ps \<union> T) A w w' \<Longrightarrow> set ps \<subseteq> scratch root \<Longrightarrow> leaves root T A w (drop_temps ps w')"
  using leaves_drop_all [of root "rev ps"] by (simp add: drop_temps_def)

end
