(* ===== verification/Upload.thy ===== *)
theory Upload
  imports Workspace
begin

text \<open>
  \<open>src/client/upload.cpp\<close>: sealing a file and sending it to the server, or its four shards to
  peers with a manifest left behind. A command returns its exit code. Progress bars are left
  out.
\<close>

section \<open>To the server\<close>

definition same_tag :: "remote_error + (u64 \<times> string) option \<Rightarrow> string \<Rightarrow> bool" where
  "same_tag st tag =
     (case st of Inr (Some (n, existing)) \<Rightarrow> tag \<noteq> [] \<and> existing = tag | _ \<Rightarrow> False)"

definition upload_to_server ::
  "('c, 'k) x509 \<Rightarrow> 'a internet \<Rightarrow> options \<Rightarrow> string \<Rightarrow> path \<Rightarrow> string \<Rightarrow> client \<Rightarrow> nat \<times> client" where
  "upload_to_server X I opt name stream tag w =
     (case remote_connect X I opt AccessFiles (opt_server opt) w of
        (Inl e, w) \<Rightarrow> (1, tell ''Cannot reach the server'' w)
      | (Inr c, w) \<Rightarrow>
      case remote_stat c name of (st, c) \<Rightarrow>
      if same_tag st tag then
        (0, hang_up (opt_server opt) (remote_quit c)
              (tell ''Server already holds identical content. Nothing to upload.'' w))
      else case remote_put_file c (cl_disk w) name stream tag of
        (Some e, c) \<Rightarrow> (1, hang_up (opt_server opt) c (tell ''Upload failed'' w))
      | (None, c) \<Rightarrow>
          (0, tell ''Stored on the server (encrypted).''
                (hang_up (opt_server opt) (remote_quit c) w)))"

section \<open>To peers\<close>

text \<open>
  The loop over the four shards: \<open>None\<close> when one cannot be hashed, otherwise the shards that a
  peer took.
\<close>

fun place_shards ::
  "('c, 'k) x509 \<Rightarrow> 'x openssl \<Rightarrow> 'a internet \<Rightarrow> options \<Rightarrow> (nat \<times> path \<times> string) list \<Rightarrow> shard_ref list \<Rightarrow>
     client \<Rightarrow> shard_ref list option \<times> client" where
  "place_shards X E I opt [] placed w = (Some placed, w)"
| "place_shards X E I opt ((i, p, address) # todo) placed w =
     (let chunk_id = sha256_file_hex E (cl_disk w) p
      in if chunk_id = [] then (None, tell ''Cannot hash shard'' w)
      else case remote_connect X I opt AccessChunks address w of
        (Inl e, w) \<Rightarrow> place_shards X E I opt todo placed (tell (address @ '' unavailable'') w)
      | (Inr c, w) \<Rightarrow>
      case remote_put_chunk c (cl_disk w) chunk_id p of
        (Some e, c) \<Rightarrow> place_shards X E I opt todo placed (hang_up address c (tell (address @ '' failed'') w))
      | (None, c) \<Rightarrow>
          place_shards X E I opt todo
            (placed @ [\<lparr>ref_index = i, ref_chunk_id = chunk_id, ref_peer = address\<rparr>])
            (tell (address @ '' ok'') (hang_up address (remote_quit c) w)))"

definition kDataShards :: nat where "kDataShards = 2"
definition kParityShards :: nat where "kParityShards = 2"
definition kTotalShards :: nat where "kTotalShards = kDataShards + kParityShards"

text \<open>What remains once the shard files exist.\<close>

definition distribute_shards ::
  "('c, 'k) x509 \<Rightarrow> 'x openssl \<Rightarrow> 'a internet \<Rightarrow> options \<Rightarrow> string \<Rightarrow> path \<Rightarrow> string \<Rightarrow> path list \<Rightarrow> client \<Rightarrow> nat \<times> client"
where
  "distribute_shards X E I opt name stream tag shard_paths w =
     (case split_stream (cl_disk w) stream shard_paths of
        (Inl e, d) \<Rightarrow> (1, tell ''Cannot split the file into shards'' (on_disk d w))
      | (Inr shard_size, d) \<Rightarrow>
      let w = on_disk d w;
          m = \<lparr>m_server = opt_server opt, m_name = name,
               m_stream_size = (case fs_size d stream of None \<Rightarrow> - 1 | Some n \<Rightarrow> of_nat n),
               m_shard_size = of_nat shard_size, m_dedup_tag = tag,
               m_data_shards = kDataShards, m_parity_shards = kParityShards, m_shards = []\<rparr>
      in case place_shards X E I opt (zip [0..<kTotalShards] (zip shard_paths (opt_peers opt))) [] w of
        (None, w) \<Rightarrow> (1, w)
      | (Some placed, w) \<Rightarrow>
      if length placed < kDataShards then (1, tell ''Nothing was recorded as pending.'' w)
      else case manifest_path (opt_dir opt) name of
        None \<Rightarrow> (1, tell ''Cannot record the pending file'' w)
      | Some mp \<Rightarrow>
      case manifest_write (cl_disk w) (m\<lparr>m_shards := placed\<rparr>) mp of
        (Inl e, d) \<Rightarrow> (1, tell ''Cannot record the pending file'' (on_disk d w))
      | (Inr _, d) \<Rightarrow> (0, tell ''shards distributed'' (on_disk d w)))"

definition distribute_to_peers ::
  "('c, 'k) x509 \<Rightarrow> 'x openssl \<Rightarrow> 'a internet \<Rightarrow> options \<Rightarrow> string \<Rightarrow> path \<Rightarrow> string \<Rightarrow> client \<Rightarrow> nat \<times> client" where
  "distribute_to_peers X E I opt name stream tag w =
     (if length (opt_peers opt) \<noteq> kTotalShards
      then (1, tell ''The server is offline, so the file has to go to peers.'' w)
      else case temps (opt_dir opt) ''shard'' w of (shard_paths, w) \<Rightarrow>
        case distribute_shards X E I opt name stream tag shard_paths w of (code, w) \<Rightarrow>
          (code, drop_temps shard_paths w))"

section \<open>The command\<close>

definition filename :: "path \<Rightarrow> string" where
  "filename p = (if p = [] then [] else last p)"

definition upload_with_passphrase ::
  "('c, 'k) x509 \<Rightarrow> 'x openssl \<Rightarrow> 'a internet \<Rightarrow> options \<Rightarrow> path \<Rightarrow> string \<Rightarrow> bool \<Rightarrow> client \<Rightarrow> nat \<times> client" where
  "upload_with_passphrase X E I opt source passphrase verbose w =
     (if \<not> fs_exists (cl_disk w) source \<or> \<not> fs_is_regular (cl_disk w) source
      then (1, remark verbose ''Not a readable file'' w)
      else
      let name = filename source
      in if \<not> is_safe_name name then (1, remark verbose ''That file name cannot be stored'' w)
      else case temp (opt_dir opt) ''stream'' w of (stream, w) \<Rightarrow>
      case seal_file E (cl_disk w) (cl_pool w) source stream passphrase of
        (Inl e, pool, d) \<Rightarrow>
          (1, drop_temp stream (remark verbose ''Encryption failed'' (w\<lparr>cl_disk := d, cl_pool := pool\<rparr>)))
      | (Inr tag, pool, d) \<Rightarrow>
      case remote_reachable X I (opt_server opt) (opt_trust opt) (w\<lparr>cl_disk := d, cl_pool := pool\<rparr>) of (up, w) \<Rightarrow>
      case (if up then upload_to_server X I opt name stream tag w
            else distribute_to_peers X E I opt name stream tag
                   (remark verbose ''Falling back to peers.'' w)) of (code, w) \<Rightarrow>
        (code, drop_temp stream w))"

definition cmd_upload ::
  "('c, 'k) x509 \<Rightarrow> 'x openssl \<Rightarrow> 'a internet \<Rightarrow> options \<Rightarrow> path \<Rightarrow> client \<Rightarrow> nat \<times> client" where
  "cmd_upload X E I opt source w =
     (if \<not> fs_exists (cl_disk w) source \<or> \<not> fs_is_regular (cl_disk w) source
      then (1, tell ''Not a readable file'' w)
      else case confirm_passphrase (cl_disk w) (opt_key opt) (cl_con w) of
        (Inl e, con) \<Rightarrow> (1, tell ''no passphrase'' (w\<lparr>cl_con := con\<rparr>))
      | (Inr passphrase, con) \<Rightarrow>
      case workspace_init (opt_dir opt) (w\<lparr>cl_con := con\<rparr>) of (ok, w) \<Rightarrow>
      if \<not> ok then (1, tell ''cannot create the working directory'' w)
      else upload_with_passphrase X E I opt source passphrase True w)"

section \<open>What an upload leaves behind\<close>

lemma upload_to_server_disk: "upload_to_server X I opt name stream tag w = (code, w') \<Longrightarrow> cl_disk w' = cl_disk w"
  by (auto simp: upload_to_server_def split: sum.splits prod.splits option.splits if_splits dest: same_disk)

lemma place_shards_disk: "place_shards X E I opt todo placed w = (r, w') \<Longrightarrow> cl_disk w' = cl_disk w"
proof (induction X E I opt todo placed w rule: place_shards.induct)
  case (2 X E I opt i p address todo placed w)
  then show ?case
    by (auto simp: Let_def split: if_splits sum.splits prod.splits option.splits dest: same_disk)
qed simp

lemma distribute_shards_leaves:
  assumes "distribute_shards X E I opt name stream tag ps w = (code, w')" and "set ps \<subseteq> scratch root"
  shows "leaves root (set ps) {mp. manifest_path (opt_dir opt) name = Some mp} w w'"
proof -
  obtain r d where s: "split_stream (cl_disk w) stream ps = (r, d)" by fastforce
  have split: "leaves root (set ps) A w v" if "cl_disk v = d" for v A
    by (rule leaves_confined [of "set ps"]) (use confined_split_stream [OF s] that assms(2) in auto)
  have "leaves root (set ps) {mp. manifest_path (opt_dir opt) name = Some mp} w w'"
    if "confined {mp} d (cl_disk w')" "manifest_path (opt_dir opt) name = Some mp" for mp
    by (rule leaves_trans [OF split [of "on_disk d w"] leaves_confined [of "{mp}"]]) (use that assms(2) in auto)
  with split assms(1) show ?thesis
    by (auto simp: distribute_shards_def Let_def s split: sum.splits prod.splits option.splits if_splits
        dest!: place_shards_disk confined_manifest_write)
qed

lemma distribute_to_peers_leaves:
  assumes "distribute_to_peers X E I opt name stream tag w = (code, w')"
  shows "leaves (opt_dir opt) {} {mp. manifest_path (opt_dir opt) name = Some mp} w w'"
proof (cases "length (opt_peers opt) = kTotalShards")
  case False
  with assms show ?thesis by (auto simp: distribute_to_peers_def intro: leaves_same)
next
  case True
  obtain ps w1 where t: "temps (opt_dir opt) ''shard'' w = (ps, w1)" by fastforce
  obtain c w2 where d: "distribute_shards X E I opt name stream tag ps w1 = (c, w2)" by fastforce
  have ps: "set ps \<subseteq> scratch (opt_dir opt)" "cl_disk w1 = cl_disk w" using temps_result [OF t] by simp_all
  have "leaves (opt_dir opt) (set ps \<union> {}) {mp. manifest_path (opt_dir opt) name = Some mp} w w2"
    using leaves_trans [OF leaves_same [OF ps(2)] distribute_shards_leaves [OF d ps(1)]] by simp
  from leaves_drop_temps [OF this ps(1)] assms True t d show ?thesis by (simp add: distribute_to_peers_def)
qed

lemma upload_leaves:
  assumes "upload_with_passphrase X E I opt source pw verbose w = (code, w')"
  shows "leaves (opt_dir opt) {} {mp. manifest_path (opt_dir opt) (filename source) = Some mp} w w'"
proof (cases "fs_exists (cl_disk w) source \<and> fs_is_regular (cl_disk w) source \<and> is_safe_name (filename source)")
  case False
  with assms show ?thesis by (auto simp: upload_with_passphrase_def intro!: leaves_same split: if_splits)
next
  case True
  let ?root = "opt_dir opt" and ?A = "{mp. manifest_path (opt_dir opt) (filename source) = Some mp}"
  obtain p w1 where t: "temp ?root ''stream'' w = (p, w1)" by fastforce
  have p: "p \<in> scratch ?root" "cl_disk w1 = cl_disk w" using temp_result [OF t] is_temp_scratch by auto
  obtain r pool d where s: "seal_file E (cl_disk w1) (cl_pool w1) source p pw = (r, pool, d)" by (rule prod_cases3)
  have sealed: "leaves ?root {p} ?A w v" if "cl_disk v = d" for v
    by (rule leaves_confined [of "{p}"]) (use confined_seal_file [OF s] that p in auto)
  have "leaves ?root {p} ?A w v" if "upload_to_server X I opt (filename source) p tag u = (c, v)" "cl_disk u = d" for v u tag c
    using upload_to_server_disk [OF that(1)] that(2) sealed by simp
  moreover have "leaves ?root {p} ?A w v"
    if "distribute_to_peers X E I opt (filename source) p tag u = (c, v)" "cl_disk u = d" for v u tag c
    by (rule leaves_trans [OF sealed [OF that(2)] leaves_mono [OF distribute_to_peers_leaves [OF that(1)]]]) simp_all
  ultimately have "\<exists>v. w' = drop_temp p v \<and> leaves ?root {p} ?A w v"
    using assms True t s sealed
    by (auto simp: upload_with_passphrase_def Let_def split: sum.splits prod.splits if_splits dest!: remote_reachable_disk)
  with leaves_drop [OF _ p(1), of "{}"] show ?thesis by auto
qed

end
