(* ===== verification/Exchange.thy ===== *)
theory Exchange
  imports Remote Container
begin

text \<open>
  The client of \<open>remote.cpp\<close> against the server of \<open>session.cpp\<close>: what one wrote is what the other
  reads. The theorems say what the client may conclude from the reply it got, whatever failed on
  either side.
\<close>

section \<open>One turn of the server\<close>

definition server_turn :: "'x openssl \<Rightarrow> config \<Rightarrow> session \<Rightarrow> bool \<times> session" where
  "server_turn E cfg s =
     (case ch_read_line (s_chan s) of
        (None, c) \<Rightarrow> (False, s\<lparr>s_chan := c\<rparr>)
      | (Some line, c) \<Rightarrow> handle E cfg line (s\<lparr>s_chan := c\<rparr>))"

lemma session_loop_turns:
  "session_loop E cfg s = (case server_turn E cfg s of (ok, s') \<Rightarrow> if ok then session_loop E cfg s' else s')"
  by (subst session_loop.simps) (simp add: server_turn_def split: prod.split option.split)

text \<open>What one side wrote since \<open>c\<close>.\<close>

definition written :: "channel \<Rightarrow> channel \<Rightarrow> string" where
  "written c c' = drop (length (outp c)) (outp c')"

lemma written_append [simp]: "outp c' = outp c @ x \<Longrightarrow> written c c' = x"
  by (simp add: written_def)

lemma turn_cases:
  assumes "server_turn E cfg s = (ok, s')" and "inp (s_chan s) = line @ newline # body" and "one_line line"
  obtains (unread) "outp (s_chan s') = outp (s_chan s)"
  | (handled) c where "inp c = body" "outp c = outp (s_chan s)" "handle E cfg line (s\<lparr>s_chan := c\<rparr>) = (ok, s')"
proof -
  obtain r c where r: "ch_read_line (s_chan s) = (r, c)" by fastforce
  show thesis
  proof (cases r)
    case None
    have "outp c = outp (s_chan s)"
      using read_line_loop_step [of "s_chan s" "[]" r c] r by (simp add: ch_read_line_def)
    with assms(1) r None show thesis by (intro unread) (auto simp: server_turn_def)
  next
    case (Some l)
    from read_sent_line [OF _ assms(2,3)] r Some have "l = line" "inp c = body" "outp c = outp (s_chan s)" by auto
    with assms(1) r Some show thesis by (intro handled [of c]) (auto simp: server_turn_def)
  qed
qed

lemma ssl_read_keeps_calm: "ssl_read c n = (s, c') \<Longrightarrow> calm c \<Longrightarrow> calm c'"
  by (auto simp: ssl_read_def calm_def Let_def dest: set_tl split: list.splits)

lemma read_line_loop_keeps_calm: "read_line_loop c out = (r, c') \<Longrightarrow> calm c \<Longrightarrow> calm c'"
proof (induction c out rule: read_line_loop.induct)
  case (1 c out)
  obtain s c1 where s: "ssl_read c 1 = (s, c1)" by fastforce
  note IH = "1.IH" [OF refl s [symmetric]]
  have "read_line_loop c out =
      (if s = [] then (None, c1)
       else if hd s = newline then (Some out, c1)
       else if hd s = CHR 0x0D then read_line_loop c1 out
       else if kMaxLineLen \<le> length out then (None, c1)
       else read_line_loop c1 (out @ [hd s]))"
    by (subst read_line_loop.simps) (simp only: s Let_def prod.case)
  with "1.prems" IH ssl_read_keeps_calm [OF s] show ?case by (auto split: if_splits)
qed

section \<open>Words of a reply\<close>

lemma first_word_start:
  assumes "split l \<noteq> []" and "l = x # xs" and "x \<noteq> space"
  shows "\<exists>w. split l ! 0 = x # w"
  using assms by (subst split.simps) (auto simp: Let_def skip_spaces_def field_def)

text \<open>A reply that begins with another letter is not taken for the expected word.\<close>

lemma reply_word_differs:
  assumes "raw @ newline # rest = take k (x # xs)" and "x \<notin> {space, newline, CHR 0x0D}" and "w \<noteq> []" and "hd w \<noteq> x"
  shows "\<not> replies (split (filter (\<lambda>c. c \<noteq> CHR 0x0D) raw)) w"
proof
  let ?l = "filter (\<lambda>c. c \<noteq> CHR 0x0D) raw"
  assume r: "replies (split ?l) w"
  from assms(1) have "\<exists>ys. raw @ newline # rest = x # ys" by (cases k) auto
  with assms(2) obtain raw' where "raw = x # raw'" by (cases raw) auto
  with assms(2) obtain ys where l: "?l = x # ys" by auto
  with first_word_start [of ?l x ys] r assms(2) obtain v where "split ?l ! 0 = x # v"
    by (auto simp: replies_def)
  with r assms(4) show False by (metis list.sel(1) replies_def)
qed

section \<open>Uploads\<close>

definition tag_word :: "string \<Rightarrow> bool" where
  "tag_word tag \<longleftrightarrow> space \<notin> set tag \<and> one_line tag"

lemma putfile_line_one_line: "is_safe_name name \<Longrightarrow> tag_word tag \<Longrightarrow> one_line (putfile_line n tag name)"
  by (simp add: putfile_line_def is_safe_name_one_line tag_word_def vocabulary)

lemma putfile_line_fields:
  assumes "tag_word tag" and "name \<noteq> []" and "hd name \<noteq> space"
  shows "split_n (putfile_line n tag name) 4 = [kPutFile, to_dec n, if tag = [] then ''-'' else tag, name]"
    and "\<exists>ws. split (putfile_line n tag name) = kPutFile # ws"
proof -
  let ?t = "if tag = [] then ''-'' else tag"
  have "is_word kPutFile" "is_word ?t" using assms(1) by (auto simp: is_word_def kPutFile_def tag_word_def)
  with split_n_keeps_name [of "[kPutFile, to_dec n, ?t]" name] is_word_to_dec [of n] assms(2,3)
  show "split_n (putfile_line n tag name) 4 = [kPutFile, to_dec n, ?t, name]"
    by (simp add: putfile_line_def numeral_eq_Suc)
  show "\<exists>ws. split (putfile_line n tag name) = kPutFile # ws"
    using \<open>is_word kPutFile\<close> split_field [of kPutFile] by (auto simp: putfile_line_def is_word_def)
qed

lemma handle_put_file:
  assumes "split line = kPutFile # ws" and "s_logged_in s"
  shows "handle E cfg line s = do_put_file cfg line s"
  unfolding handle_def Let_def assms(1) using assms(2) by (simp add: vocabulary is_chunk_command_def)

text \<open>What the server may answer to an upload: nothing, or some first part of one of two lines.\<close>

definition verdict :: "string \<Rightarrow> bool" where
  "verdict x \<longleftrightarrow> x = [] \<or> (\<exists>k. x = take k (kOk @ [newline])) \<or> (\<exists>k r. x = take k (kErr @ r))"

definition answers :: "string \<Rightarrow> channel \<Rightarrow> bool" where
  "answers said c \<longleftrightarrow> (\<exists>x. outp c = said @ x \<and> verdict x)"

lemma answers_nothing: "outp c = said \<Longrightarrow> answers said c"
  by (simp add: answers_def verdict_def)

lemma answers_ok: "outp (s_chan s) = said \<Longrightarrow> answers said (s_chan (say kOk s))"
  using say_result [of kOk s] by (auto simp: answers_def verdict_def)

lemma answers_fail: "fail r s = (ok, s') \<Longrightarrow> outp (s_chan s) = said \<Longrightarrow> answers said (s_chan s')"
  using say_result [of "kErr @ '' '' @ r" s] by (auto simp: fail_def answers_def verdict_def)

lemma do_put_file_verdict:
  "do_put_file cfg line s = (ok, s') \<Longrightarrow> answers (outp (s_chan s)) (s_chan s')"
  by (auto simp: do_put_file_def Let_def split: if_splits option.splits prod.splits
      intro: answers_nothing intro!: answers_ok elim!: answers_fail dest!: receive_to_file_outp)

lemma do_put_chunk_verdict:
  "do_put_chunk cfg f s = (ok, s') \<Longrightarrow> answers (outp (s_chan s)) (s_chan s')"
  by (auto simp: do_put_chunk_def Let_def split: if_splits option.splits prod.splits
      intro: answers_nothing intro!: answers_ok elim!: answers_fail dest!: receive_to_file_outp)

lemma verdict_ok:
  assumes "verdict x" and "read_verdict c = (None, c')" and "inp c = x"
  shows "x = kOk @ [newline] \<and> outp c' = outp c"
proof -
  obtain l where l: "ch_read_line c = (Some l, c')" "replies (split l) kOk"
    using assms(2) by (auto simp: read_verdict_def split: option.splits prod.splits if_splits)
  then obtain raw where raw: "x = raw @ newline # inp c'" "newline \<notin> set raw"
      "l = filter (\<lambda>c. c \<noteq> CHR 0x0D) raw" "outp c' = outp c"
    using read_line_raw [OF l(1)] assms(3) by auto
  consider k where "x = take k (kOk @ [newline])" | k r where "x = take k (kErr @ r)"
    using assms(1) raw(1) by (auto simp: verdict_def)
  then show ?thesis
  proof cases
    case 1
    with raw(1) have "newline \<in> set (take k (kOk @ [newline]))" by (metis in_set_conv_decomp)
    with 1 raw(4) show ?thesis by (auto simp: kOk_def take_Cons' split: if_splits)
  next
    case 2
    with reply_word_differs [of raw "inp c'" k "CHR ''E''" "''RR'' @ r" kOk] raw l(2) show ?thesis
      by (simp add: vocabulary)
  qed
qed

lemma send_upload_spec:
  assumes "send_upload c d line source n = (None, c')" and "fs_read d source = Some body" and "n = length body"
  shows "\<exists>c1. outp c' = outp c @ line @ newline # body \<and> inp c1 = inp c \<and> read_verdict c1 = (None, c')"
proof -
  obtain c0 c1 where s: "ch_send_line c line = (True, c0)" and b: "send_body_loop c0 body n = (None, c1)"
    and v: "read_verdict c1 = (None, c')"
    using assms by (auto simp: send_upload_def send_file_body_def split: prod.splits if_splits option.splits)
  have "outp c' = outp c1"
    using v read_line_loop_step [of c1 "[]"]
    by (auto simp: read_verdict_def ch_read_line_def split: option.splits prod.splits if_splits)
  with send_line_result [OF s] send_body_loop_spec [OF b] v assms(3) show ?thesis by (intro exI [of _ c1]) auto
qed

lemma upload_arrives:
  assumes "s_logged_in s" and "is_safe_name name" and "hd name \<noteq> space" and "tag_word tag"
    and "fs_read d source = Some body" and "length body \<le> unat kMaxTransferSize"
    and "remote_put_file c d name source tag = (None, c')" and "inp (s_chan s) = written c c'"
    and "server_turn E cfg s = (ok, s')" and "inp c = written (s_chan s) (s_chan s')"
  shows "stored (s_disk s') (cfg_root cfg) (s_user s) name = Some body"
proof -
  let ?n = "length body" and ?line = "putfile_line (length body) tag name"
  have "send_upload c d ?line source ?n = (None, c')"
    using assms(5,7) read_some [OF assms(5)] by (simp add: remote_put_file_def)
  from send_upload_spec [OF this assms(5) refl] obtain c1 where
    out: "outp c' = outp c @ ?line @ newline # body" and c1: "inp c1 = inp c" "read_verdict c1 = (None, c')" by blast
  have one: "one_line ?line" using putfile_line_one_line assms(2,4) by blast
  from out have inp: "inp (s_chan s) = ?line @ newline # body" using assms(8) by simp
  have ne: "name \<noteq> []" using assms(2) by (rule is_safe_name_nonempty)
  note fields = putfile_line_fields [OF assms(4) ne assms(3), of ?n]
  from assms(9) inp one show ?thesis
  proof (cases rule: turn_cases)
    case unread
    then have "inp c1 = []" using assms(10) c1(1) by (simp add: written_def)
    with verdict_ok [of "[]" c1 c'] c1 show ?thesis by (simp add: verdict_def)
  next
    case (handled c2)
    let ?s = "s\<lparr>s_chan := c2\<rparr>"
    from fields(2) obtain ws where "split ?line = kPutFile # ws" ..
    from handle_put_file [OF this, where s = ?s and cfg = cfg and E = E] handled(3) assms(1) have put: "do_put_file cfg ?line ?s = (ok, s')" by simp
    from do_put_file_verdict [OF this] obtain x where x: "outp (s_chan s') = outp c2 @ x" "verdict x" by (auto simp: answers_def)
    with assms(10) c1(1) handled(2) have "inp c1 = x" by simp
    from verdict_ok [OF x(2) c1(2) this] x(1) have "outp (s_chan s') = outp (s_chan ?s) @ kOk @ [newline]" by simp
    from accepted_upload [OF put this] fields(1) parse_size_to_dec [OF assms(6)] handled(1) assms(6) show ?thesis
      by (auto simp: unat_word_of_nat_64 kMaxTransferSize_def)
  qed
qed

section \<open>Downloads\<close>

lemma fetch_cases:
  assumes "fetch c d line p = (Inr found, c', d')"
  obtains raw where "outp c' = outp c @ line @ [newline]" "inp c = raw @ newline # inp c'" "newline \<notin> set raw"
      "\<not> found" "replies (split (filter (\<lambda>x. x \<noteq> CHR 0x0D) raw)) kNone"
  | raw c1 n where "outp c' = outp c @ line @ [newline]" "inp c = raw @ newline # inp c1" "newline \<notin> set raw" "found"
      "split (filter (\<lambda>x. x \<noteq> CHR 0x0D) raw) = [kData, n]" "parse_size n kMaxTransferSize \<noteq> None"
      "read_body_to_file c1 d p (unat (the (parse_size n kMaxTransferSize))) = (None, c', d')"
proof -
  obtain reply c1 where a: "ask c line = (Inr reply, c1)"
    using assms by (auto simp: fetch_def split: sum.splits prod.splits)
  from ask_spec [OF a] obtain raw where raw: "outp c1 = outp c @ line @ [newline]" "inp c = raw @ newline # inp c1"
      "newline \<notin> set raw" "reply = filter (\<lambda>x. x \<noteq> CHR 0x0D) raw" by blast
  show thesis
  proof (cases "replies (split reply) kNone")
    case True
    with assms a have "\<not> found" "c' = c1" by (auto simp: fetch_def)
    with raw True that(1) show thesis by auto
  next
    case False
    with assms a obtain m where m: "length (split reply) = 2" "split reply ! 0 = kData"
      "parse_size (split reply ! 1) kMaxTransferSize = Some m"
      and b: "read_body_to_file c1 d p (unat m) = (None, c', d')" and found
      by (auto simp: fetch_def Let_def split: if_splits option.splits prod.splits)
    have "outp c' = outp c1" using read_body_to_file_spec [OF b] by auto
    with raw m b \<open>found\<close> that(2) [of raw c1 "split reply ! 1"] list_of_length(1) [OF m(1)] show thesis by simp
  qed
qed

lemma fetch_none:
  assumes "fetch c d line p = (Inr found, c', d')" and "inp c = kNone @ [newline]"
  shows "\<not> found"
  using assms(1)
proof (cases rule: fetch_cases)
  case (2 raw c1 n)
  from first_newline_unique [of raw "inp c1" kNone "[]"] 2(2,3) assms(2) have "raw = kNone" by (simp add: kNone_def)
  with 2(5) split_word [of kNone] show ?thesis by (simp add: vocabulary)
qed

definition data_reply :: "string \<Rightarrow> string" where
  "data_reply b = kData @ '' '' @ to_dec (length b) @ newline # b"

lemma fetch_data:
  assumes "fetch c d line p = (Inr found, c', d')" and "inp c = data_reply b"
  shows "found \<and> (\<exists>k. fs_read d' p = Some (take k b) \<and> (faults d = [] \<longrightarrow> take k b = b))"
proof -
  let ?head = "kData @ '' '' @ to_dec (length b)"
  have one: "one_line ?head" by (simp add: kData_def)
  have words: "split ?head = [kData, to_dec (length b)]"
    using split_join_words [of "[kData, to_dec (length b)]"] is_word_to_dec [of "length b"]
    by (simp add: is_word_def kData_def)
  have raw_is: "raw = ?head" "filter (\<lambda>x. x \<noteq> CHR 0x0D) raw = ?head" "x = b"
    if "inp c = raw @ newline # x" "newline \<notin> set raw" for raw x
    using first_newline_unique [of raw x ?head b] one that assms(2)
    using one_line_filter [OF one] by (auto simp: one_line_def data_reply_def)
  from assms(1) show ?thesis
  proof (cases rule: fetch_cases)
    case (1 raw)
    with raw_is [OF 1(2,3)] words show ?thesis by (simp add: replies_def vocabulary)
  next
    case (2 raw c1 n)
    note r = raw_is [OF 2(2,3)]
    with 2(5) words have n: "n = to_dec (length b)" by simp
    with 2(6) have "length b \<le> unat kMaxTransferSize"
      by (auto simp: parse_size_spec split: if_splits)
    with n parse_size_to_dec [OF this] have "unat (the (parse_size n kMaxTransferSize)) = length b"
      by (simp add: unat_word_of_nat_64 kMaxTransferSize_def)
    with read_body_to_file_spec [OF 2(7)] obtain t k where t: "length t = length b" "inp c1 = t @ inp c'"
        "fs_read d' p = Some (take k t)" "faults d = [] \<longrightarrow> take k t = t" by metis
    with r(3) have "t = b" by (metis append_eq_conv_conj take_all_iff order_refl)
    with t 2(4) show ?thesis by blast
  qed
qed

text \<open>What the server says to a request for a file, or for a chunk.\<close>

lemma missing_file_answer:
  assumes "calm (s_chan s)" and "s_logged_in s" and "stored (s_disk s) (cfg_root cfg) (s_user s) name = None"
    and "name \<noteq> []" and "hd name \<noteq> space"
  shows "handle E cfg (kGetFile @ space # name) s = (True, say kNone s)"
proof -
  have word: "is_word kGetFile" by (simp add: is_word_def kGetFile_def)
  have f: "split_n (kGetFile @ space # name) 2 = [kGetFile, name]"
    using split_n_keeps_name [of "[kGetFile]" name] word assms(4,5) by (simp add: numeral_2_eq_2)
  obtain ws where cmd: "split (kGetFile @ space # name) = kGetFile # ws"
    using split_field [of kGetFile name] word by (simp add: is_word_def)
  have "file_path (cfg_root cfg) (s_user s) name = None \<or> file_info (s_disk s) (cfg_root cfg) (s_user s) name = None"
    using assms(3) by (auto simp: stored_def file_info_def fs_size_def split: option.splits)
  then have "do_get_file cfg (kGetFile @ space # name) s = (True, say kNone s)"
    using f by (auto simp: do_get_file_def Let_def split: option.splits)
  moreover have "handle E cfg (kGetFile @ space # name) s = do_get_file cfg (kGetFile @ space # name) s"
    unfolding handle_def Let_def cmd using assms(2) by (simp add: vocabulary is_chunk_command_def)
  ultimately show ?thesis by simp
qed

definition file_answer :: "string option \<Rightarrow> string" where
  "file_answer b = (case b of None \<Rightarrow> kNone @ [newline] | Some b \<Rightarrow> data_reply b)"

lemma get_file_answer:
  assumes "calm (s_chan s)" and "s_logged_in s" and "name \<noteq> []" and "hd name \<noteq> space"
  shows "\<exists>s'. handle E cfg (kGetFile @ space # name) s = (True, s') \<and> s_disk s' = s_disk s \<and>
    outp (s_chan s') = outp (s_chan s) @ file_answer (stored (s_disk s) (cfg_root cfg) (s_user s) name)"
proof (cases "stored (s_disk s) (cfg_root cfg) (s_user s) name")
  case None
  with missing_file_answer [OF assms(1,2) None assms(3,4), of E] say_calm [OF assms(1), of kNone] show ?thesis
    by (simp add: file_answer_def)
next
  case (Some b)
  from stored_file_served [OF assms(1,2) Some assms(4), of E] Some show ?thesis
    by (auto simp: file_answer_def data_reply_def)
qed

text \<open>A calm server reads the line it was sent and answers it.\<close>

lemma calm_turn:
  assumes "calm (s_chan s)" and "inp (s_chan s) = line @ newline # rest" and "one_line line" and "length line \<le> kMaxLineLen"
  obtains c where "inp c = rest" "outp c = outp (s_chan s)" "calm c"
    "server_turn E cfg s = handle E cfg line (s\<lparr>s_chan := c\<rparr>)"
proof -
  from read_line_loop_calm [of "s_chan s" line rest "[]"] assms obtain c where
    "ch_read_line (s_chan s) = (Some line, c)" "inp c = rest" "outp c = outp (s_chan s)" "calm c"
    by (auto simp: one_line_def ch_read_line_def)
  with that [of c] show thesis by (simp add: server_turn_def)
qed

lemma short_line: "is_safe_name name \<Longrightarrow> length (kGetFile @ space # name) \<le> kMaxLineLen"
  using is_safe_name_length [of name] by (simp add: kGetFile_def kMaxLineLen_def)

lemma download_arrives:
  assumes "calm (s_chan s)" and "s_logged_in s" and "is_safe_name name" and "hd name \<noteq> space"
    and "remote_get_file c d name p = (Inr found, c', d')" and "inp (s_chan s) = written c c'"
    and "server_turn E cfg s = (ok, s')" and "inp c = written (s_chan s) (s_chan s')"
  shows "case stored (s_disk s) (cfg_root cfg) (s_user s) name of
      None \<Rightarrow> \<not> found
    | Some b \<Rightarrow> found \<and> (\<exists>k. fs_read d' p = Some (take k b) \<and> (faults d = [] \<longrightarrow> take k b = b))"
proof -
  let ?line = "kGetFile @ space # name"
  have f: "fetch c d ?line p = (Inr found, c', d')" using assms(5) by (simp add: remote_get_file_def)
  then have "outp c' = outp c @ ?line @ [newline]" by (cases rule: fetch_cases) simp_all
  with assms(6) have "inp (s_chan s) = ?line @ newline # []" by simp
  moreover have "one_line ?line" using is_safe_name_one_line [OF assms(3)] by (simp add: kGetFile_def)
  ultimately obtain c1 where c1: "outp c1 = outp (s_chan s)" "calm c1"
      "server_turn E cfg s = handle E cfg ?line (s\<lparr>s_chan := c1\<rparr>)"
    using calm_turn [OF assms(1)] short_line [OF assms(3)] by metis
  have "name \<noteq> []" using assms(3) by (rule is_safe_name_nonempty)
  from get_file_answer [of "s\<lparr>s_chan := c1\<rparr>" name E cfg] this c1 assms(2,4,7)
  have "outp (s_chan s') = outp (s_chan s) @ file_answer (stored (s_disk s) (cfg_root cfg) (s_user s) name)"
    by auto
  then have "inp c = file_answer (stored (s_disk s) (cfg_root cfg) (s_user s) name)" using assms(8) by simp
  with fetch_none [OF f] fetch_data [OF f] show ?thesis by (auto simp: file_answer_def split: option.split)
qed

section \<open>When nothing fails\<close>

lemma recv_loop_calm:
  "calm c \<Longrightarrow> length got \<le> n \<Longrightarrow> inp c = b @ r \<Longrightarrow> length got + length b = n \<Longrightarrow>
     \<exists>c'. recv_loop c n got = (Some (got @ b), c') \<and> calm c' \<and> inp c' = r \<and> outp c' = outp c"
proof (induction "length b" arbitrary: c got b rule: less_induct)
  case less
  show ?case
  proof (cases "b = []")
    case True
    with less.prems show ?thesis by (simp add: recv_loop.simps)
  next
    case False
    let ?want = "min (n - length got) kInt32Max"
    have want: "0 < ?want" "?want \<le> length b" using False less.prems by (auto simp: kInt32Max_def)
    obtain x c1 where x: "ssl_read c ?want = (x, c1)" by fastforce
    have ne: "inp c \<noteq> []" using False less.prems(3) by simp
    note r = ssl_read_result [OF x]
    have "x @ inp c1 = b @ r" "length x \<le> length b" using r less.prems(3) want(2) by auto
    then obtain b' where "b = x @ b'" "inp c1 = b' @ r"
      by (metis append_eq_append_conv_if append_take_drop_id)
    with ssl_read_calm [OF less.prems(1) ne want(1) x] r
    have b': "x \<noteq> []" "calm c1" "b = x @ b'" "inp c1 = b' @ r" "outp c1 = outp c" by auto
    have "\<exists>c'. recv_loop c1 n (got @ x) = (Some ((got @ x) @ b'), c') \<and> calm c' \<and> inp c' = r \<and> outp c' = outp c1"
      using b' less.prems by (intro less.hyps) auto
    with b' x less.prems False show ?thesis by (subst recv_loop.simps) auto
  qed
qed

lemma ch_recv_calm:
  assumes "calm c" and "inp c = b @ r"
  shows "\<exists>c'. ch_recv c (length b) = (Some b, c') \<and> calm c' \<and> inp c' = r \<and> outp c' = outp c"
  using recv_loop_calm [OF assms(1) _ assms(2), of "[]" "length b"] by (simp add: ch_recv_def)

lemma receive_loop_ok:
  "calm c \<Longrightarrow> inp c = b @ r \<Longrightarrow> faults d = [] \<Longrightarrow>
     \<exists>c'. receive_loop c p (put d p x) (length b) = (None, c', put d p (x @ b)) \<and> calm c' \<and> inp c' = r \<and> outp c' = outp c"
proof (induction "length b" arbitrary: c b x rule: less_induct)
  case less
  show ?case
  proof (cases "b = []")
    case True
    with less.prems show ?thesis by (simp add: receive_loop.simps)
  next
    case False
    define u v where "u = take kIoBufferSize b" and "v = drop kIoBufferSize b"
    have uv: "b = u @ v" "length v < length b" "min kIoBufferSize (length b) = length u" "length b - length u = length v"
      using False by (simp_all add: u_def v_def kIoBufferSize_def)
    obtain c1 where c1: "ch_recv c (length u) = (Some u, c1)" "calm c1" "inp c1 = v @ r" "outp c1 = outp c"
      using ch_recv_calm [of c u "v @ r"] less.prems uv(1) by auto
    from less.hyps [OF uv(2) c1(2,3) less.prems(3), of "x @ u"] c1 uv False less.prems(3) show ?thesis
      by (subst receive_loop.simps) (auto simp: append_ok fs_simps)
  qed
qed

lemma receive_to_file_ok:
  assumes "calm c" and "inp c = b @ r" and "faults d = []" and "writable d p"
  shows "\<exists>c'. receive_to_file c d p (length b) = (None, c', put d p b) \<and> calm c' \<and> inp c' = r \<and> outp c' = outp c"
  using receive_loop_ok [OF assms(1-3), of p "[]"] assms(3,4)
  by (auto simp: receive_to_file_def writable_def create_ok flush_ok fs_simps)

lemma commit_ok:
  assumes "faults d = []" and "writable d q"
  shows "\<exists>e. commit_upload (put d p b) p q = (True, e)"
  using assms rename_ok [of "put d p b" p "\<lparr>content = b, mtime = now d\<rparr>" q]
  by (simp add: commit_upload_def writable_def fs_simps)

text \<open>The disk of a server whose account \<open>u\<close> can take the file \<open>name\<close>.\<close>

definition accepts_file :: "disk \<Rightarrow> store \<Rightarrow> string \<Rightarrow> string \<Rightarrow> bool" where
  "accepts_file d root u name \<longleftrightarrow> faults d = [] \<and> is_valid_username u \<and> is_safe_name name \<and>
     writable d (root @ [''users'', u, ''files'', name]) \<and>
     (\<forall>pool. writable d (fst (temp_path root pool)))"

lemma do_put_file_ok:
  assumes "calm (s_chan s)" and "accepts_file (s_disk s) (cfg_root cfg) (s_user s) name"
    and "split_n line 4 = [w, to_dec (length b), t, name]" and "length b \<le> unat kMaxTransferSize"
    and "inp (s_chan s) = b @ r"
  shows "\<exists>s'. do_put_file cfg line s = (True, s') \<and> outp (s_chan s') = outp (s_chan s) @ kOk @ [newline] \<and>
    calm (s_chan s')"
proof -
  let ?root = "cfg_root cfg"
  note acc = assms(2) [unfolded accepts_file_def]
  let ?final = "?root @ [''users'', s_user s, ''files'', name]"
  have final: "file_path ?root (s_user s) name = Some ?final" using acc by (simp add: file_path_eq)
  obtain temp pool where temp: "temp_path ?root (w_pool (s_world s)) = (temp, pool)" by fastforce
  have wt: "writable (s_disk s) temp" using acc temp by (metis fst_conv)
  have n: "unat (word_of_nat (length b) :: u64) = length b"
    using assms(4) by (simp add: unat_word_of_nat_64 kMaxTransferSize_def)
  obtain c1 where rf: "receive_to_file (s_chan s) (s_disk s) temp (length b) = (None, c1, put (s_disk s) temp b)"
    and c1: "calm c1" "outp c1 = outp (s_chan s)"
    using receive_to_file_ok [OF assms(1,5) _ wt] acc by blast
  obtain e where co: "commit_upload (put (s_disk s) temp b) temp ?final = (True, e)"
    using commit_ok acc by blast
  obtain x f where tg: "write_tag e ?root (s_user s) name t = (x, f)" by fastforce
  let ?s = "with_disk f (s\<lparr>s_world := (s_world s)\<lparr>w_pool := pool\<rparr>, s_chan := c1\<rparr>)"
  from say_calm [of ?s kOk] c1 show ?thesis
    using assms(3) parse_size_to_dec [OF assms(4)] final temp rf co tg n
    by (simp add: do_put_file_def Let_def)
qed

lemma read_verdict_calm:
  assumes "calm c" and "inp c = kOk @ newline # r"
  shows "\<exists>c'. read_verdict c = (None, c') \<and> inp c' = r \<and> outp c' = outp c \<and> calm c'"
proof -
  from read_line_loop_calm [OF assms, of "[]"] obtain c' where
    "ch_read_line c = (Some kOk, c')" "inp c' = r" "outp c' = outp c" "calm c'"
    by (auto simp: kOk_def kMaxLineLen_def ch_read_line_def)
  with split_word [of kOk] show ?thesis by (simp add: read_verdict_def replies_def kOk_def)
qed

lemma ch_send_line_calm:
  assumes "calm c"
  shows "\<exists>c'. ch_send_line c l = (True, c') \<and> calm c' \<and> outp c' = outp c @ l @ [newline] \<and> inp c' = inp c"
  using ch_send_calm [OF assms, of "l @ [newline]"] ch_send_spec [of c "l @ [newline]" True]
  by (fastforce simp: ch_send_line_def Let_def)

lemma send_upload_calm:
  assumes "calm c" and "fs_read d source = Some b" and "inp c = kOk @ newline # r"
  shows "\<exists>c'. send_upload c d line source (length b) = (None, c') \<and> outp c' = outp c @ line @ newline # b"
proof -
  obtain c0 where c0: "ch_send_line c line = (True, c0)" "calm c0" "outp c0 = outp c @ line @ [newline]" "inp c0 = inp c"
    using ch_send_line_calm [OF assms(1)] by blast
  obtain c1 where c1: "send_body_loop c0 b (length b) = (None, c1)" "calm c1"
    using send_body_loop_calm [OF c0(2)] by blast
  from send_body_loop_spec [OF c1(1)] have o1: "outp c1 = outp c0 @ b" "inp c1 = inp c0" by simp_all
  from read_verdict_calm [OF c1(2), of r] o1 c0 assms(3) obtain c' where
    "read_verdict c1 = (None, c')" "outp c' = outp c1" by auto
  with c0 c1 o1 assms(2) show ?thesis by (simp add: send_upload_def send_file_body_def)
qed

lemma putfile_line_short:
  assumes "is_safe_name name" and "length tag \<le> 64" and "n \<le> unat kMaxTransferSize"
  shows "length (putfile_line n tag name) \<le> kMaxLineLen"
proof -
  have "length (to_dec n) \<le> 20" using assms(3) by (intro to_dec_length) (simp_all add: kMaxTransferSize_def)
  with is_safe_name_length [OF assms(1)] assms(2) show ?thesis
    by (simp add: putfile_line_def kPutFile_def kMaxLineLen_def)
qed

lemma upload_runs:
  assumes "calm c" and "calm (s_chan s)" and "s_logged_in s"
    and "accepts_file (s_disk s) (cfg_root cfg) (s_user s) name" and "hd name \<noteq> space"
    and "tag_word tag" and "length tag \<le> 64"
    and "fs_read d source = Some b" and "length b \<le> unat kMaxTransferSize"
    and "inp (s_chan s) = putfile_line (length b) tag name @ newline # b"
  shows "\<exists>s' c'. server_turn E cfg s = (True, s') \<and>
    remote_put_file (c\<lparr>inp := written (s_chan s) (s_chan s')\<rparr>) d name source tag = (None, c') \<and>
    written c c' = inp (s_chan s)"
proof -
  let ?line = "putfile_line (length b) tag name"
  have name: "is_safe_name name" "name \<noteq> []" using assms(4) is_safe_name_nonempty by (auto simp: accepts_file_def)
  note fields = putfile_line_fields [OF assms(6) name(2) assms(5), of "length b"]
  from calm_turn [OF assms(2,10) putfile_line_one_line [OF name(1) assms(6)] putfile_line_short [OF name(1) assms(7,9)]]
  obtain c1 where c1: "inp c1 = b" "outp c1 = outp (s_chan s)" "calm c1"
      "server_turn E cfg s = handle E cfg ?line (s\<lparr>s_chan := c1\<rparr>)" by blast
  from fields(2) obtain ws where "split ?line = kPutFile # ws" ..
  with handle_put_file [of ?line ws "s\<lparr>s_chan := c1\<rparr>" E cfg] c1(4) assms(3)
  have turn: "server_turn E cfg s = do_put_file cfg ?line (s\<lparr>s_chan := c1\<rparr>)" by simp
  obtain s' where s': "do_put_file cfg ?line (s\<lparr>s_chan := c1\<rparr>) = (True, s')"
      "outp (s_chan s') = outp (s_chan s) @ kOk @ [newline]"
    using do_put_file_ok [of "s\<lparr>s_chan := c1\<rparr>" cfg name ?line kPutFile b _ "[]"] c1 assms(4,9) fields(1) by auto
  let ?c = "c\<lparr>inp := written (s_chan s) (s_chan s')\<rparr>"
  have "calm ?c" "inp ?c = kOk @ newline # []" using assms(1) s'(2) by (simp_all add: calm_def)
  from send_upload_calm [OF this(1) assms(8) this(2), of ?line] obtain c' where
    "send_upload ?c d ?line source (length b) = (None, c')" "outp c' = outp c @ ?line @ newline # b" by auto
  with turn s' assms(10) read_some [OF assms(8)] show ?thesis by (auto simp: remote_put_file_def)
qed

lemma fetch_ok:
  assumes "calm c" and "inp c = data_reply b" and "length b \<le> unat kMaxTransferSize" and "faults d = []" and "writable d p"
  shows "\<exists>c'. fetch c d line p = (Inr True, c', put d p b) \<and> outp c' = outp c @ line @ [newline]"
proof -
  let ?head = "kData @ '' '' @ to_dec (length b)"
  obtain c0 where c0: "ch_send_line c line = (True, c0)" "calm c0" "outp c0 = outp c @ line @ [newline]" "inp c0 = inp c"
    using ch_send_line_calm [OF assms(1)] by blast
  have "length (to_dec (length b)) \<le> 20"
    using assms(3) by (intro to_dec_length) (simp_all add: kMaxTransferSize_def)
  moreover have "one_line ?head" by (simp add: kData_def)
  ultimately obtain c1 where c1: "ch_read_line c0 = (Some ?head, c1)" "inp c1 = b" "outp c1 = outp c0" "calm c1"
    using read_line_loop_calm [OF c0(2), of ?head b "[]"] assms(2) c0(4)
    by (auto simp: data_reply_def kData_def kMaxLineLen_def one_line_def ch_read_line_def)
  have words: "split ?head = [kData, to_dec (length b)]"
    using split_join_words [of "[kData, to_dec (length b)]"] is_word_to_dec [of "length b"]
    by (simp add: is_word_def kData_def)
  have "inp c1 = b @ []" using c1(2) by simp
  from receive_loop_ok [OF c1(4) this assms(4), of p "[]"] obtain c2 where
    c2: "receive_loop c1 p (put d p []) (length b) = (None, c2, put d p b)" "outp c2 = outp c1" by auto
  then have "read_body_loop c1 p (put d p []) (length b) = (None, c2, put d p b)"
    by (auto simp: read_body_loop_receive split: prod.splits)
  then have "read_body_to_file c1 d p (length b) = (None, c2, put d p b)"
    using assms(4,5) by (simp add: read_body_to_file_def writable_def create_ok flush_ok fs_simps)
  moreover have "unat (word_of_nat (length b) :: u64) = length b"
    using assms(3) by (simp add: unat_word_of_nat_64 kMaxTransferSize_def)
  ultimately show ?thesis
    using c0 c1 c2(2) words parse_size_to_dec [OF assms(3)]
    by (simp add: fetch_def ask_def replies_def vocabulary)
qed

section \<open>There and back\<close>

lemma to_hex_tag_word: "tag_word (to_hex bs)"
proof -
  have "x \<noteq> space \<and> x \<noteq> newline \<and> x \<noteq> CHR 0x0D" if "x \<in> set (to_hex bs)" for x
    using to_hex_lower [of bs] that by (auto simp: list_all_iff less_eq_char_def)
  then show ?thesis by (auto simp: tag_word_def one_line_def)
qed

lemma read_body_to_file_faultless:
  assumes "read_body_to_file c d p n = (None, c', d')" and "faults d = []"
  shows "faults d' = []"
proof -
  obtain d1 d2 where cr: "fs_create d p = (True, d1)" and l: "read_body_loop c p d1 n = (None, c', d2)"
    and f: "d' = snd (fs_flush d2 p)"
    using assms(1) by (auto simp: read_body_to_file_def split: if_splits option.splits prod.splits)
  have "faults d2 = []" using read_body_loop_faultless [OF l faultless_create [OF assms(2) cr]] .
  with f show ?thesis by (simp add: flush_ok)
qed

lemma fetch_faultless: "fetch c d line p = (Inr True, c', d') \<Longrightarrow> faults d = [] \<Longrightarrow> faults d' = []"
  by (erule fetch_cases) (auto dest: read_body_to_file_faultless)

text \<open>The download counterpart of \<open>upload_runs\<close>.\<close>

lemma download_runs:
  assumes "calm c" and "calm (s_chan s)" and "s_logged_in s" and "is_safe_name name" and "hd name \<noteq> space"
    and "stored (s_disk s) (cfg_root cfg) (s_user s) name = Some b" and "length b \<le> unat kMaxTransferSize"
    and "faults d = []" and "writable d p" and "inp (s_chan s) = kGetFile @ space # name @ [newline]"
  shows "\<exists>s' c'. server_turn E cfg s = (True, s') \<and>
    remote_get_file (c\<lparr>inp := written (s_chan s) (s_chan s')\<rparr>) d name p = (Inr True, c', put d p b) \<and>
    written c c' = inp (s_chan s)"
proof -
  let ?line = "kGetFile @ space # name"
  have "inp (s_chan s) = ?line @ newline # []" using assms(10) by simp
  moreover have "one_line ?line" using is_safe_name_one_line [OF assms(4)] by (simp add: kGetFile_def)
  ultimately obtain c1 where c1: "outp c1 = outp (s_chan s)" "calm c1"
      "server_turn E cfg s = handle E cfg ?line (s\<lparr>s_chan := c1\<rparr>)"
    using calm_turn [OF assms(2)] short_line [OF assms(4)] by metis
  have "name \<noteq> []" using assms(4) by (rule is_safe_name_nonempty)
  from get_file_answer [of "s\<lparr>s_chan := c1\<rparr>" name E cfg] this c1 assms(3,5,6)
  obtain s' where s': "server_turn E cfg s = (True, s')" "outp (s_chan s') = outp (s_chan s) @ data_reply b"
    by (auto simp: file_answer_def)
  let ?c = "c\<lparr>inp := written (s_chan s) (s_chan s')\<rparr>"
  have "calm ?c" "inp ?c = data_reply b" using assms(1) s'(2) by (simp_all add: calm_def)
  from fetch_ok [OF this assms(7-9), of ?line] s' assms(10) show ?thesis by (auto simp: remote_get_file_def)
qed

text \<open>Sealing adds the header, and 32 bytes to every block.\<close>

lemma sealed_length:
  "openssl_ok E \<Longrightarrow> sealed E key hdr i ps s \<Longrightarrow> length s = sum_list (map (\<lambda>p. length p + 32) ps)"
proof (induction ps arbitrary: i s)
  case (Cons p ps)
  from Cons.prems(2) obtain iv c t rest where s: "s = iv @ put_u32 [] (of_nat (length c)) @ c @ t @ rest"
      "length iv = kIvLen" "aes_gcm_seal E key iv (block_aad hdr (of_nat i)) p = Some (c, t)"
      "sealed E key hdr (Suc i) ps rest" by auto
  have "length c = length p" "length t = kTagLen" using Cons.prems(1) s(3) by (auto simp: openssl_ok_def)
  with Cons.IH [OF Cons.prems(1) s(4)] s(1,2) show ?case by (simp add: kIvLen_def kTagLen_def)
qed simp

lemma sum_list_plus: "sum_list (map (\<lambda>p. length p + k) ps) = length (concat ps) + k * length ps" for ps :: "'b list list"
  by (induction ps) simp_all

lemma sealed_stream_length:
  assumes "openssl_ok E" and "seal_file E d pool pp sp pw = (Inr tag, pool', d')" and "fs_read d pp = Some c"
    and "fs_read d' sp = Some b"
  shows "length b = kHeaderLen + length c + 32 * ((length c + unat kBlockSize - 1) div unat kBlockSize)"
proof -
  from seal_file_success [OF assms(2,3)] assms(4) obtain s bl where s: "length s = kSaltLen"
      and bl: "sealed E (derive_key E pw s kContentKeyLabel kKdfIterations)
             (build_header (sealed_header s (length c))) 0 (pieces (unat kBlockSize) c) bl"
      and b: "b = string_of (build_header (sealed_header s (length c)) @ bl)" by auto
  have "0 < unat kBlockSize" by (simp add: unat_kBlockSize)
  with sealed_length [OF assms(1) bl] length_build_header [OF sealed_header_ok [OF s, of "length c"]] b show ?thesis
    by (simp add: sum_list_plus concat_pieces length_pieces)
qed

text \<open>C3: what is sealed and uploaded on one machine, another one downloads and opens.\<close>

theorem stored_and_retrieved:
  assumes "openssl_ok E" and "seal_file E d pool plain sealed_path pw = (Inr tag, pool', d1)"
    and "fs_read d plain = Some txt" and "length txt < 2 ^ 63"
    and "fs_read d1 sealed_path = Some b" and "length b \<le> unat kMaxTransferSize"
    and "is_safe_name name" and "hd name \<noteq> space"
    \<comment> \<open>the upload, which the client was told has succeeded\<close>
    and "s_logged_in s" and "remote_put_file c d1 name sealed_path tag = (None, c')"
    and "inp (s_chan s) = written c c'" and "server_turn E cfg s = (ok, s')" and "inp c = written (s_chan s) (s_chan s')"
    \<comment> \<open>later, another connection of the same account; nobody has changed that file\<close>
    and "s_logged_in t" and "calm (s_chan t)"
    and "stored (s_disk t) (cfg_root cfg) (s_user t) name = stored (s_disk s') (cfg_root cfg) (s_user s) name"
    \<comment> \<open>the download, and the opening\<close>
    and "remote_get_file g e name q = (Inr found, g', e')" and "faults e = []"
    and "inp (s_chan t) = written g g'" and "server_turn E cfg t = (ok2, t')" and "inp g = written (s_chan t) (s_chan t')"
    and "writable e' out"
  shows "found \<and> open_file E e' q out pw = (Inr (), put e' out txt)"
proof -
  have "tag_word tag" using seal_file_success [OF assms(2,3)] to_hex_tag_word by (auto simp: plain_tag_def)
  note up = upload_arrives [OF assms(9,7,8) this assms(5,6,10,11,12,13)]
  have "stored (s_disk t) (cfg_root cfg) (s_user t) name = Some b" using assms(16) up by simp
  with download_arrives [OF assms(15,14,7,8,17,19,20,21)] assms(18) have found "fs_read e' q = Some b" by auto
  have "faults e' = []" using fetch_faultless assms(17,18) \<open>found\<close> by (simp add: remote_get_file_def)
  with \<open>found\<close> \<open>fs_read e' q = Some b\<close> open_file_sealed [OF assms(1-4), of e' q out] assms(5,22) show ?thesis
    by simp
qed

section \<open>Examples\<close>

definition quiet :: "string \<Rightarrow> channel" where
  "quiet i = \<lparr>inp = i, outp = [], read_script = [], write_script = []\<rparr>"

lemma quiet_simps [simp]: "calm (quiet i)" "inp (quiet i) = i" "outp (quiet i) = []" "(quiet i)\<lparr>inp := j\<rparr> = quiet j"
  by (simp_all add: quiet_def calm_def)

lemma example_accepts: "accepts_file example_store example_root ''ann'' ''notes''"
proof -
  have "writable example_store (fst (temp_path example_root pool))" for pool
    using temp_path_eq [of example_root pool "fst (temp_path example_root pool)" "snd (temp_path example_root pool)"]
    by (auto simp: writable_def)
  then show ?thesis by (simp add: accepts_file_def example_names writable_def)
qed

definition example_put :: "string \<Rightarrow> string \<Rightarrow> string" where
  "example_put tag b = putfile_line (length b) tag ''notes'' @ newline # b"

lemma example_upload:
  assumes "tag_word tag" and "length tag \<le> 64" and "fs_read d source = Some b" and "length b \<le> unat kMaxTransferSize"
  shows "\<exists>s' c'. server_turn mini_openssl example_config (example_session (example_put tag b)) = (True, s') \<and>
    remote_put_file (quiet (outp (s_chan s'))) d ''notes'' source tag = (None, c') \<and> outp c' = example_put tag b"
proof -
  let ?s = "example_session (example_put tag b)"
  have "accepts_file (s_disk ?s) (cfg_root example_config) (s_user ?s) ''notes''" using example_accepts by simp
  from upload_runs [of "quiet []" ?s example_config "''notes''" tag d source b mini_openssl, OF _ _ _ this]
  show ?thesis using assms by (auto simp: example_put_def written_def)
qed

lemma upload_runs_witness:
  "\<exists>s'. server_turn mini_openssl example_config (example_session (example_put ''t1'' ''hi'')) = (True, s')"
proof -
  let ?s = "example_session (example_put ''t1'' ''hi'')"
  have "accepts_file (s_disk ?s) (cfg_root example_config) (s_user ?s) ''notes''" using example_accepts by simp
  from upload_runs [of "quiet []" ?s example_config "''notes''" "''t1''" example_disk "[''a'']" "''hi''" mini_openssl, OF _ _ _ this]
  show ?thesis by (auto simp: example_put_def tag_word_def kMaxTransferSize_def)
qed

lemma upload_arrives_witness:
  "\<exists>s'. server_turn mini_openssl example_config (example_session (example_put ''t1'' ''hi'')) = (True, s') \<and>
     stored (s_disk s') example_root ''ann'' ''notes'' = Some ''hi''"
proof -
  let ?s = "example_session (example_put ''t1'' ''hi'')"
  have tag: "tag_word ''t1''" by (simp add: tag_word_def)
  obtain s' c' where s': "server_turn mini_openssl example_config ?s = (True, s')"
      and c': "remote_put_file (quiet (outp (s_chan s'))) example_disk ''notes'' [''a''] ''t1'' = (None, c')"
      "outp c' = example_put ''t1'' ''hi''"
    using example_upload [of "''t1''" example_disk "[''a'']" "''hi''"] tag by (auto simp: kMaxTransferSize_def)
  from upload_arrives [OF _ _ _ tag _ _ c'(1) _ s', where body = "''hi''"] c'(2) s' show ?thesis
    by (auto simp: example_names written_def kMaxTransferSize_def)
qed

lemma example_download:
  assumes "stored (w_disk w) example_root ''ann'' ''notes'' = Some b" and "length b \<le> unat kMaxTransferSize"
    and "faults e = []" and "writable e p"
  defines "t \<equiv> example_session (kGetFile @ space # ''notes'' @ [newline])\<lparr>s_world := w\<rparr>"
  shows "\<exists>t' g'. server_turn mini_openssl example_config t = (True, t') \<and>
    remote_get_file (quiet (outp (s_chan t'))) e ''notes'' p = (Inr True, g', put e p b) \<and>
    outp g' = inp (s_chan t)"
proof -
  have t: "calm (s_chan t)" "s_logged_in t" "outp (s_chan t) = []" "inp (s_chan t) = kGetFile @ space # ''notes'' @ [newline]"
    "stored (s_disk t) (cfg_root example_config) (s_user t) ''notes'' = Some b"
    using assms(1) by (simp_all add: t_def example_session_def example_config_def calm_def)
  from download_runs [of "quiet []" t "''notes''" example_config b e p mini_openssl] t example_names assms(2-4)
  show ?thesis by (auto simp: written_def)
qed

lemma download_arrives_witness:
  "\<exists>reply c' d'. remote_get_file (quiet reply) example_disk ''notes'' [''b''] = (Inr True, c', d') \<and>
     fs_read d' [''b''] = Some ''hello''"
proof -
  let ?t = "example_session (kGetFile @ space # ''notes'' @ [newline])\<lparr>s_world := example_world\<rparr>"
  have st: "stored (w_disk example_world) example_root ''ann'' ''notes'' = Some ''hello''"
    using example_stored by (simp add: example_world_def)
  obtain t' g' where t': "server_turn mini_openssl example_config ?t = (True, t')"
      and g': "remote_get_file (quiet (outp (s_chan t'))) example_disk ''notes'' [''b''] = (Inr True, g', put example_disk [''b''] ''hello'')"
      "outp g' = inp (s_chan ?t)"
    using example_download [OF st, of example_disk "[''b'']"] by (auto simp: kMaxTransferSize_def writable_def)
  have "stored (s_disk ?t) (cfg_root example_config) (s_user ?t) ''notes'' = Some ''hello''"
    using st by (simp add: example_session_def example_config_def)
  with download_arrives [OF _ _ example_names(2) _ g'(1) _ t'] g'(2)
  have "fs_read (put example_disk [''b''] ''hello'') [''b''] = Some ''hello''"
    by (auto simp: written_def example_session_def calm_def)
  with g'(1) show ?thesis by blast
qed

lemma stored_and_retrieved_witness:
  "\<exists>e. open_file mini_openssl e [''c''] [''d''] ''pw'' = (Inr (), put e [''d''] ''hi'')"
proof -
  from example_sealed obtain tag pool' b where s: "seal_file mini_openssl example_disk
      (replicate 64 5) [''a''] [''b''] ''pw'' = (Inr tag, pool', put example_disk [''b''] b)" by blast
  let ?d1 = "put example_disk [''b''] b" and ?e = "empty_disk [[]]"
  have rd: "fs_read ?d1 [''b''] = Some b" by (simp add: fs_simps)
  have len: "length b \<le> unat kMaxTransferSize"
    using sealed_stream_length [OF mini_openssl_ok s _ rd] by (simp add: kHeaderLen_def kSaltLen_def unat_kBlockSize kMaxTransferSize_def)
  have tag: "tag = plain_tag mini_openssl ''pw'' ''hi''" using seal_file_success [OF s] by auto
  have "length tag \<le> 64" using mini_openssl_ok tag
    by (auto simp: plain_tag_def openssl_ok_def hmac_finish_def split: option.split)
  moreover have "tag_word tag" using tag to_hex_tag_word by (simp add: plain_tag_def)
  ultimately obtain s' c' where s': "server_turn mini_openssl example_config (example_session (example_put tag b)) = (True, s')"
      and c': "remote_put_file (quiet (outp (s_chan s'))) ?d1 ''notes'' [''b''] tag = (None, c')" "outp c' = example_put tag b"
    using example_upload [of tag ?d1 "[''b'']" b] rd len by blast
  from upload_arrives [OF _ _ _ \<open>tag_word tag\<close> rd len c'(1) _ s'] c'(2)
  have st: "stored (w_disk (s_world s')) example_root ''ann'' ''notes'' = Some b"
    by (auto simp: example_names written_def)
  let ?t = "example_session (kGetFile @ space # ''notes'' @ [newline])\<lparr>s_world := s_world s'\<rparr>"
  obtain t' g' where t': "server_turn mini_openssl example_config ?t = (True, t')"
      and g': "remote_get_file (quiet (outp (s_chan t'))) ?e ''notes'' [''c''] = (Inr True, g', put ?e [''c''] b)"
      "outp g' = inp (s_chan ?t)"
    using example_download [OF st len, of ?e "[''c'']"] by (auto simp: writable_def)
  have t: "s_logged_in ?t" "calm (s_chan ?t)" "outp (s_chan ?t) = []"
    "stored (s_disk ?t) (cfg_root example_config) (s_user ?t) ''notes'' =
     stored (s_disk s') (cfg_root example_config) (s_user (example_session (example_put tag b))) ''notes''"
    by (simp_all add: example_session_def calm_def)
  have "open_file mini_openssl (put ?e [''c''] b) [''c''] [''d''] ''pw'' = (Inr (), put (put ?e [''c''] b) [''d''] ''hi'')"
    by (rule stored_and_retrieved [OF mini_openssl_ok s _ _ rd len example_names(2) _ _ c'(1) _ s' _ t(1,2,4) g'(1) _ _ t', THEN conjunct2])
      (use t(3) c'(2) g'(2) in \<open>simp_all add: written_def fs_simps writable_def\<close>)
  then show ?thesis by blast
qed

end
