(* ===== verification/Recover.thy ===== *)
theory Recover
  imports Upload Exchange
begin

text \<open>
  \<open>src/client/recover.cpp\<close>, \<open>src/client/download.cpp\<close> and \<open>src/client/local.cpp\<close>: rebuilding a
  sealed stream from the shards a manifest points at, fetching a file from the server or, when
  that fails, from the peers, and sealing or opening without a server.
\<close>

section \<open>Rebuilding\<close>

text \<open>
  One shard: the path of its file when it was fetched and its hash is the recorded one. The
  holders are the four scratch files.
\<close>

definition recover_shard ::
  "('c, 'k) x509 \<Rightarrow> 'x openssl \<Rightarrow> 'a internet \<Rightarrow> options \<Rightarrow> bool \<Rightarrow> path list \<Rightarrow> shard_ref \<Rightarrow> client \<Rightarrow> path option \<times> client"
where
  "recover_shard X E I opt verbose holders ref w =
     (case remote_connect X I opt AccessChunks (ref_peer ref) w of
        (Inl e, w) \<Rightarrow> (None, remark verbose ''unreachable'' w)
      | (Inr c, w) \<Rightarrow>
      let destination = holders ! ref_index ref
      in case remote_get_chunk c (cl_disk w) (ref_chunk_id ref) destination of (r, c, d) \<Rightarrow>
      let w = on_disk d w
      in if r \<noteq> Inr True then (None, hang_up (ref_peer ref) c (remark verbose ''missing'' w))
         else
         let w = hang_up (ref_peer ref) (remote_quit c) w
         in if sha256_file_hex E (cl_disk w) destination \<noteq> ref_chunk_id ref
            then (None, remark verbose ''integrity check failed, discarded'' w)
            else (Some destination, remark verbose ''verified'' w))"

fun recover_shards ::
  "('c, 'k) x509 \<Rightarrow> 'x openssl \<Rightarrow> 'a internet \<Rightarrow> options \<Rightarrow> bool \<Rightarrow> path list \<Rightarrow> shard_ref list \<Rightarrow> path option list \<Rightarrow> nat \<Rightarrow>
     client \<Rightarrow> path option list \<times> nat \<times> client" where
  "recover_shards X E I opt verbose holders [] usable recovered w = (usable, recovered, w)"
| "recover_shards X E I opt verbose holders (ref # refs) usable recovered w =
     (if kTotalShards \<le> ref_index ref then recover_shards X E I opt verbose holders refs usable recovered w
      else case recover_shard X E I opt verbose holders ref w of
        (None, w) \<Rightarrow> recover_shards X E I opt verbose holders refs usable recovered w
      | (Some p, w) \<Rightarrow>
          recover_shards X E I opt verbose holders refs (usable[ref_index ref := Some p]) (Suc recovered) w)"

definition rebuild_stream ::
  "('c, 'k) x509 \<Rightarrow> 'x openssl \<Rightarrow> 'a internet \<Rightarrow> options \<Rightarrow> bool \<Rightarrow> manifest \<Rightarrow> path \<Rightarrow> client \<Rightarrow> bool \<times> client" where
  "rebuild_stream X E I opt verbose m out w =
     (case temps (opt_dir opt) ''recover'' w of (holders, w) \<Rightarrow>
      case recover_shards X E I opt verbose holders (m_shards m) [None, None, None, None] 0 w of (usable, recovered, w) \<Rightarrow>
      if recovered < kDataShards then (False, drop_temps holders w)
      else case join_shards (cl_disk w) usable (unat (m_shard_size m)) (unat (m_stream_size m)) out of (r, d) \<Rightarrow>
        (r = Inr (), drop_temps holders (on_disk d w)))"

fun release_shards ::
  "('c, 'k) x509 \<Rightarrow> 'a internet \<Rightarrow> options \<Rightarrow> bool \<Rightarrow> shard_ref list \<Rightarrow> client \<Rightarrow> client" where
  "release_shards X I opt verbose [] w = w"
| "release_shards X I opt verbose (ref # refs) w =
     (case remote_connect X I opt AccessChunks (ref_peer ref) w of
        (Inl e, w) \<Rightarrow> release_shards X I opt verbose refs (remark verbose ''could not reach'' w)
      | (Inr c, w) \<Rightarrow>
      case remote_del_chunk c (ref_chunk_id ref) of (r, c) \<Rightarrow>
        release_shards X I opt verbose refs
          (hang_up (ref_peer ref) (remote_quit c) (remark (verbose \<and> r \<noteq> None) ''refused the cleanup'' w)))"

section \<open>Downloading\<close>

definition unseal_to :: "'x openssl \<Rightarrow> options \<Rightarrow> path \<Rightarrow> path \<Rightarrow> client \<Rightarrow> nat \<times> client" where
  "unseal_to E opt stream destination w =
     (case resolve_passphrase (cl_disk w) (opt_key opt) (cl_con w) of
        (Inl e, con) \<Rightarrow> (1, tell ''no passphrase'' (w\<lparr>cl_con := con\<rparr>))
      | (Inr passphrase, con) \<Rightarrow>
      case open_file E (cl_disk w) stream destination passphrase of (r, d) \<Rightarrow>
      let w = on_disk d (w\<lparr>cl_con := con\<rparr>)
      in if r \<noteq> Inr () then (1, tell ''Could not decrypt'' w) else (0, tell ''Wrote'' w))"

definition recover_from_peers ::
  "('c, 'k) x509 \<Rightarrow> 'x openssl \<Rightarrow> 'a internet \<Rightarrow> options \<Rightarrow> string \<Rightarrow> path \<Rightarrow> client \<Rightarrow> nat \<times> client" where
  "recover_from_peers X E I opt name destination w =
     (case manifest_path (opt_dir opt) name of
        None \<Rightarrow> (1, tell ''No pending record'' w)
      | Some mp \<Rightarrow>
      if \<not> fs_exists (cl_disk w) mp then (1, tell ''No pending record'' w)
      else case manifest_read (cl_disk w) mp of
        Inl e \<Rightarrow> (1, tell ''Cannot read the pending record'' w)
      | Inr m \<Rightarrow>
      case temp (opt_dir opt) ''stream'' (tell ''Rebuilding from peers'' w) of (stream, w) \<Rightarrow>
      case rebuild_stream X E I opt True m stream w of (ok, w) \<Rightarrow>
      if \<not> ok then (1, drop_temp stream (tell ''Rebuild failed'' w))
      else case unseal_to E opt stream destination w of (code, w) \<Rightarrow> (code, drop_temp stream w))"

definition cmd_download ::
  "('c, 'k) x509 \<Rightarrow> 'x openssl \<Rightarrow> 'a internet \<Rightarrow> options \<Rightarrow> string \<Rightarrow> path \<Rightarrow> client \<Rightarrow> nat \<times> client" where
  "cmd_download X E I opt name destination w =
     (if \<not> is_safe_name name then (1, tell ''Not a valid stored name'' w)
      else case workspace_init (opt_dir opt) w of (ok, w) \<Rightarrow>
      if \<not> ok then (1, tell ''cannot create the working directory'' w)
      else case remote_reachable X I (opt_server opt) (opt_trust opt) w of (up, w) \<Rightarrow>
      if \<not> up then recover_from_peers X E I opt name destination (tell ''Trying peers.'' w)
      else case remote_connect X I opt AccessFiles (opt_server opt) w of
        (Inl e, w) \<Rightarrow> (1, tell ''Cannot reach the server'' w)
      | (Inr c, w) \<Rightarrow>
      case temp (opt_dir opt) ''stream'' w of (stream, w) \<Rightarrow>
      case remote_get_file c (cl_disk w) name stream of (r, c, d) \<Rightarrow>
      let w = hang_up (opt_server opt) (remote_quit c) (on_disk d w)
      in case (case r of
           Inl e \<Rightarrow> (1, tell ''Download failed'' w)
         | Inr False \<Rightarrow> recover_from_peers X E I opt name destination (tell ''The server does not have it.'' w)
         | Inr True \<Rightarrow> unseal_to E opt stream destination w) of (code, w) \<Rightarrow>
        (code, drop_temp stream w))"

section \<open>Without a server\<close>

definition cmd_seal :: "'x openssl \<Rightarrow> options \<Rightarrow> path \<Rightarrow> path \<Rightarrow> client \<Rightarrow> nat \<times> client" where
  "cmd_seal E opt inp_path out_path w =
     (case confirm_passphrase (cl_disk w) (opt_key opt) (cl_con w) of
        (Inl e, con) \<Rightarrow> (1, tell ''no passphrase'' (w\<lparr>cl_con := con\<rparr>))
      | (Inr passphrase, con) \<Rightarrow>
      case seal_file E (cl_disk w) (cl_pool w) inp_path out_path passphrase of
        (Inl e, pool, d) \<Rightarrow> (1, tell ''Encryption failed'' (w\<lparr>cl_con := con, cl_pool := pool, cl_disk := d\<rparr>))
      | (Inr tag, pool, d) \<Rightarrow> (0, tell ''Wrote'' (w\<lparr>cl_con := con, cl_pool := pool, cl_disk := d\<rparr>)))"

definition cmd_open :: "'x openssl \<Rightarrow> options \<Rightarrow> path \<Rightarrow> path \<Rightarrow> client \<Rightarrow> nat \<times> client" where
  "cmd_open E opt inp_path out_path w = unseal_to E opt inp_path out_path w"

section \<open>What a rebuilt stream is\<close>

text \<open>
  The shard of a stream under its index, the hash that names it, and a manifest that describes
  the stream. The peers may deliver anything, except other content with the hash of one of the
  shards.
\<close>

definition shard_at :: "nat \<Rightarrow> shard" where
  "shard_at i = (if i = 0 then D0 else if i = 1 then D1 else if i = 2 then P0 else P1)"

lemma shard_at_index [simp]: "shard_at (shard_index s) = s"
  by (cases s) (simp_all add: shard_at_def)

definition file_hash :: "'x openssl \<Rightarrow> string \<Rightarrow> string" where
  "file_hash E s = to_hex (sha_finish E (feed_buffers kIoBufferSize sha_update (sha_new E) s))"

lemma sha256_file_hex_hash: "fs_read d p = Some s \<Longrightarrow> sha256_file_hex E d p = file_hash E s"
  by (simp add: sha256_file_hex_def file_hash_def)

definition refs_describe :: "'x openssl \<Rightarrow> shard_ref list \<Rightarrow> string \<Rightarrow> bool" where
  "refs_describe E refs c \<longleftrightarrow> distinct (map ref_index refs) \<and>
     (\<forall>ref\<in>set refs. ref_index ref < 4 \<longrightarrow> ref_chunk_id ref = file_hash E (stream_shard c (shard_at (ref_index ref))))"

definition describes :: "'x openssl \<Rightarrow> manifest \<Rightarrow> string \<Rightarrow> bool" where
  "describes E m c \<longleftrightarrow> refs_describe E (m_shards m) c \<and> length c < 2 ^ 63 \<and>
     m_stream_size m = of_nat (length c) \<and> m_shard_size m = of_nat (half_of c)"

definition no_forgery :: "'x openssl \<Rightarrow> 'a internet \<Rightarrow> string \<Rightarrow> bool" where
  "no_forgery E I c \<longleftrightarrow> (\<forall>k a u x v s. inp (link_at I k a) = u @ x @ v \<longrightarrow>
     file_hash E x = file_hash E (stream_shard c s) \<longrightarrow> x = stream_shard c s)"

text \<open>Everything a connection delivers was in its input.\<close>

lemma ask_step: "ask c line = (r, c') \<Longrightarrow> chan_step c c'"
  by (auto simp: ask_def split: prod.splits option.splits if_splits dest!: send_line_step dest: read_line_step
      intro: chan_step_trans)

lemma handshake_step: "handshake cred acc c = (r, c') \<Longrightarrow> chan_step c c'"
  by (auto simp: handshake_def present_credentials_def Let_def split: sum.splits prod.splits if_splits access.splits
      dest!: ask_step intro: chan_step_trans)

lemma remote_connect_delivers:
  assumes "remote_connect X I opt acc address w = (Inr c, w')"
  shows "\<exists>k u. inp (link_at I k address) = u @ inp c"
proof -
  obtain c0 w0 where d: "dial_channel X I address (opt_trust opt) w = (Inr c0, w0)"
    and h: "handshake (opt_cred opt) acc c0 = (None, c)"
    using assms by (auto simp: remote_connect_def split: sum.splits prod.splits option.splits)
  have "c0 = link_at I (cl_dials w) address" using d by (auto simp: dial_channel_def split: sum.splits)
  with handshake_step [OF h] show ?thesis by (auto simp: chan_step_def suffix_def)
qed

lemma fetch_delivers:
  assumes "fetch c d line p = (Inr True, c', d')" and "faults d = []"
  shows "\<exists>u x v. inp c = u @ x @ v \<and> fs_read d' p = Some x"
  using assms(1)
proof (cases rule: fetch_cases)
  case (2 raw c1 n)
  from read_body_to_file_spec [OF 2(7)] assms(2) obtain x where "inp c1 = x @ inp c'" "fs_read d' p = Some x" by auto
  with 2(2) have "inp c = (raw @ [newline]) @ x @ inp c'" by simp
  with \<open>fs_read d' p = Some x\<close> show ?thesis by blast
qed simp

lemma recover_shard_confined:
  assumes "recover_shard X E I opt v holders ref w = (r, w')"
  shows "confined {holders ! ref_index ref} (cl_disk w) (cl_disk w')"
  using assms
  by (auto simp: recover_shard_def Let_def remote_get_chunk_def split: sum.splits prod.splits if_splits
      dest!: remote_connect_disk confined_fetch)

lemma recover_shard_verified:
  assumes "recover_shard X E I opt v holders ref w = (Some p, w')" and "faults (cl_disk w) = []"
  shows "p = holders ! ref_index ref \<and>
    (\<exists>k u x y. inp (link_at I k (ref_peer ref)) = u @ x @ y \<and> fs_read (cl_disk w') p = Some x \<and>
       file_hash E x = ref_chunk_id ref)"
proof -
  let ?p = "holders ! ref_index ref"
  obtain r1 w1 where con: "remote_connect X I opt AccessChunks (ref_peer ref) w = (r1, w1)" by fastforce
  then obtain c where r1: "r1 = Inr c" using assms(1) by (cases r1) (simp_all add: recover_shard_def)
  note con = con [unfolded r1]
  obtain r2 c' d' where f: "remote_get_chunk c (cl_disk w1) (ref_chunk_id ref) ?p = (r2, c', d')" by (rule prod_cases3)
  have r2: "r2 = Inr True" using assms(1) con f by (simp add: recover_shard_def Let_def split: if_split_asm)
  note f = f [unfolded r2 remote_get_chunk_def]
  have h: "sha256_file_hex E d' ?p = ref_chunk_id ref" and r: "p = ?p" "cl_disk w' = d'"
    using assms(1) con f by (auto simp: recover_shard_def remote_get_chunk_def Let_def split: if_split_asm)
  have "faults (cl_disk w1) = []" using remote_connect_disk [OF con] assms(2) by simp
  from fetch_delivers [OF f this] obtain u x y where x: "inp c = u @ x @ y" "fs_read d' ?p = Some x" by blast
  obtain k z where "inp (link_at I k (ref_peer ref)) = z @ inp c" using remote_connect_delivers [OF con] by blast
  with x(1) have "inp (link_at I k (ref_peer ref)) = (z @ u) @ x @ y" by simp
  moreover have "file_hash E x = ref_chunk_id ref" using h sha256_file_hex_hash [OF x(2), of E] by simp
  moreover have "fs_read (cl_disk w') ?p = Some x" using r x(2) by simp
  ultimately show ?thesis using r(1) by blast
qed

text \<open>The loop keeps: a usable shard is in its holder and is the right one.\<close>

definition usable_ok :: "string \<Rightarrow> path list \<Rightarrow> path option list \<Rightarrow> client \<Rightarrow> bool" where
  "usable_ok c holders usable w \<longleftrightarrow> length usable = 4 \<and>
     (\<forall>i<4. \<forall>p. usable ! i = Some p \<longrightarrow> p = holders ! i \<and> fs_read (cl_disk w) p = Some (stream_shard c (shard_at i)))"

lemma recover_shards_ok:
  assumes "length holders = 4" and "distinct holders" and "no_forgery E I c"
  shows "recover_shards X E I opt v holders refs usable n w = (usable', n', w') \<Longrightarrow>
    faults (cl_disk w) = [] \<Longrightarrow> refs_describe E refs c \<Longrightarrow> usable_ok c holders usable w \<Longrightarrow>
    (\<forall>i<4. i \<in> ref_index ` set refs \<longrightarrow> usable ! i = None) \<Longrightarrow>
    usable_ok c holders usable' w' \<and> confined (set holders) (cl_disk w) (cl_disk w')"
proof (induction refs arbitrary: usable n w)
  case (Cons ref refs)
  let ?i = "ref_index ref"
  have rest: "refs_describe E refs c" "?i \<notin> ref_index ` set refs" using Cons.prems(3) by (auto simp: refs_describe_def)
  show ?case
  proof (cases "kTotalShards \<le> ?i")
    case True
    with Cons rest show ?thesis by simp
  next
    case False
    then have i: "?i < 4" by (simp add: kTotalShards_def kDataShards_def kParityShards_def)
    obtain r w1 where r: "recover_shard X E I opt v holders ref w = (r, w1)" by fastforce
    note conf = recover_shard_confined [OF r]
    have f1: "faults (cl_disk w1) = []" using conf Cons.prems(2) by (simp add: confined_def)
    have none: "usable ! ?i = None" using Cons.prems(5) i by auto
    have other: "fs_read (cl_disk w1) (holders ! j) = fs_read (cl_disk w) (holders ! j)" if "j < 4" "j \<noteq> ?i" for j
      using confined_read [OF conf, of "holders ! j"] that i assms(1,2) by (auto simp: nth_eq_iff_index_eq)
    have keep: "usable_ok c holders usable w1"
      using Cons.prems(4) other none unfolding usable_ok_def by (metis option.distinct(1))
    have in_holders: "confined (set holders) (cl_disk w) (cl_disk w1)"
      by (rule confined_mono [OF conf]) (use i assms(1) in simp)
    have done_: "usable_ok c holders usable' w' \<and> confined (set holders) (cl_disk w) (cl_disk w')"
      if "recover_shards X E I opt v holders refs us k w1 = (usable', n', w')" "usable_ok c holders us w1"
        "\<forall>i<4. i \<in> ref_index ` set refs \<longrightarrow> us ! i = None" for us k
      using Cons.IH [OF that(1) f1 rest(1) that(2,3)] in_holders by (auto intro: confined_trans)
    show ?thesis
    proof (cases r)
      case None
      with Cons.prems r False keep done_ show ?thesis by simp
    next
      case (Some p)
      obtain k u x y where p: "p = holders ! ?i" "inp (link_at I k (ref_peer ref)) = u @ x @ y"
          "fs_read (cl_disk w1) p = Some x" "file_hash E x = ref_chunk_id ref"
        using recover_shard_verified [OF r [unfolded Some] Cons.prems(2)] by blast
      have "ref_chunk_id ref = file_hash E (stream_shard c (shard_at ?i))"
        using Cons.prems(3) i by (auto simp: refs_describe_def)
      then have "x = stream_shard c (shard_at ?i)"
        using assms(3) p(2,4) unfolding no_forgery_def by (metis append.assoc)
      with keep p(1,3) i have "usable_ok c holders (usable[?i := Some p]) w1"
        by (auto simp: usable_ok_def nth_list_update)
      moreover have "usable[?i := Some p] ! j = None" if "j < 4" "j \<in> ref_index ` set refs" for j
        using Cons.prems(5) rest(2) that by (metis imageE image_eqI list.set_intros(2) nth_list_update_neq)
      ultimately show ?thesis using Cons.prems(1) r Some False done_ by simp
    qed
  qed
qed simp

text \<open>Receiving a chunk makes no directory, so the holders stay writable.\<close>

lemma append_dirs: "fs_append d p s = (ok, d') \<Longrightarrow> dirs d' = dirs d"
  by (auto simp: fs_append_def Let_def pop_fault_def put_fields split: prod.splits option.splits list.splits)

lemma create_dirs: "fs_create d p = (ok, d') \<Longrightarrow> dirs d' = dirs d"
  by (auto simp: fs_create_def pop_fault_def put_fields split: prod.splits if_splits list.splits)

lemma flush_dirs: "fs_flush d p = (ok, d') \<Longrightarrow> dirs d' = dirs d"
  by (auto simp: fs_flush_def pop_fault_def put_fields split: prod.splits option.splits list.splits)

lemma read_body_loop_dirs: "read_body_loop c p d n = (e, c', d') \<Longrightarrow> dirs d' = dirs d"
proof (induction c p d n rule: read_body_loop.induct)
  case (1 c p d n)
  show ?case
    using "1.prems" "1.IH"
    by (subst (asm) read_body_loop.simps)
      (auto simp: Let_def split: if_splits option.splits prod.splits dest: append_dirs)
qed

lemma fetch_dirs: "fetch c d line p = (r, c', d') \<Longrightarrow> dirs d' = dirs d"
  by (auto simp: fetch_def read_body_to_file_def Let_def split: sum.splits prod.splits if_splits option.splits
      dest!: read_body_loop_dirs create_dirs flush_dirs)

lemma recover_shard_dirs: "recover_shard X E I opt v holders ref w = (r, w') \<Longrightarrow> dirs (cl_disk w') = dirs (cl_disk w)"
  by (auto simp: recover_shard_def Let_def remote_get_chunk_def split: sum.splits prod.splits if_splits
      dest!: remote_connect_disk fetch_dirs)

lemma recover_shards_dirs:
  "recover_shards X E I opt v holders refs usable n w = (usable', n', w') \<Longrightarrow> dirs (cl_disk w') = dirs (cl_disk w)"
proof (induction refs arbitrary: usable n w)
  case (Cons ref refs)
  obtain r w1 where r: "recover_shard X E I opt v holders ref w = (r, w1)" by (rule prod.exhaust)
  with Cons recover_shard_dirs [OF r] show ?case by (auto split: if_splits option.splits)
qed simp

lemma drop_temp_dirs: "dirs (cl_disk (drop_temp p w)) = dirs (cl_disk w)"
  by (auto simp: drop_temp_def fs_remove_def pop_fault_def split: prod.splits option.splits list.splits)

lemma drop_temps_dirs: "dirs (cl_disk (drop_temps ps w)) = dirs (cl_disk w)"
proof -
  have "dirs (cl_disk (fold drop_temp qs w)) = dirs (cl_disk w)" for qs
    by (induction qs arbitrary: w) (simp_all add: drop_temp_dirs)
  then show ?thesis by (simp add: drop_temps_def)
qed

lemma join_of_stream:
  assumes "join_shards d qs (half_of c) (length c) out = (Inr (), d')" and "faults d = []" and "length qs = 4"
    and "\<And>s p. qs ! shard_index s = Some p \<Longrightarrow> fs_read d p = Some (stream_shard c s)"
  shows "d' = put d out c"
proof -
  have "intact d qs (half_of c) (\<lambda>s. string_of (shard_of (pad (half_of c) c) (pad (half_of c) (drop (half_of c) c)) s))"
    using assms(3,4) by (auto simp: intact_def shard_present_def stream_shard_def split: option.splits)
  moreover have enough: "2 \<le> present_count d qs (half_of c)"
    using join_shards_too_few [OF assms(3), of d "half_of c"] assms(1) by fastforce
  moreover have "writable d out"
    using assms(1,2) by (auto simp: join_shards_def writable_def fs_create_def fs_simps split: option.splits prod.splits if_splits)
  ultimately show ?thesis
    using join_shards_ok [OF assms(2), of out "pad (half_of c) c" "half_of c" "pad (half_of c) (drop (half_of c) c)" qs "length c"]
      assms(1) by (simp add: resized_halves)
qed

lemma half_of_bound: "length c < 2 ^ 63 \<Longrightarrow> unat (of_nat (half_of c) :: u64) = half_of c \<and> unat (of_nat (length c) :: u64) = length c"
  by (simp add: unat_of_nat half_of_def)

lemma rebuilt_stream:
  assumes "rebuild_stream X E I opt v m out w = (True, w')" and "describes E m c" and "no_forgery E I c"
    and "faults (cl_disk w) = []" and "is_temp (opt_dir opt) ''stream'' out"
  shows "fs_read (cl_disk w') out = Some c \<and> faults (cl_disk w') = [] \<and> dirs (cl_disk w') = dirs (cl_disk w)"
proof -
  obtain hs w1 where t: "temps (opt_dir opt) ''recover'' w = (hs, w1)"
    by (cases "temps (opt_dir opt) ''recover'' w")
  obtain us n w2 where r: "recover_shards X E I opt v hs (m_shards m) [None, None, None, None] 0 w1 = (us, n, w2)"
    by (rule prod_cases3)
  obtain j d where j: "join_shards (cl_disk w2) us (unat (m_shard_size m)) (unat (m_stream_size m)) out = (j, d)"
    by (cases "join_shards (cl_disk w2) us (unat (m_shard_size m)) (unat (m_stream_size m)) out")
  have h: "length hs = 4" "distinct hs" "cl_disk w1 = cl_disk w" "\<forall>p\<in>set hs. \<exists>x. is_temp (opt_dir opt) (''recover'' @ [x]) p"
    using temps_result [OF t] by simp_all
  have f1: "faults (cl_disk w1) = []" using h(3) assms(4) by simp
  have "usable_ok c hs [None, None, None, None] w1" by (simp add: usable_ok_def less_Suc_eq numeral_eq_Suc)
  moreover have "\<forall>i<4. i \<in> ref_index ` set (m_shards m) \<longrightarrow> [None, None, None, None] ! i = (None :: path option)"
    by (simp add: less_Suc_eq numeral_eq_Suc)
  ultimately have us: "usable_ok c hs us w2" and conf: "confined (set hs) (cl_disk w1) (cl_disk w2)"
    using recover_shards_ok [OF h(1,2) assms(3) r f1] assms(2) by (simp_all add: describes_def)
  have f2: "faults (cl_disk w2) = []" using conf f1 by (simp add: confined_def)
  have w': "j = Inr ()" "w' = drop_temps hs (on_disk d w2)"
    using assms(1) t r j by (auto simp: rebuild_stream_def split: if_splits)
  have "d = put (cl_disk w2) out c"
  proof (rule join_of_stream)
    show "join_shards (cl_disk w2) us (half_of c) (length c) out = (Inr (), d)"
      using j w'(1) assms(2) half_of_bound [of c] by (simp add: describes_def)
    show "fs_read (cl_disk w2) p = Some (stream_shard c s)" if "us ! shard_index s = Some p" for s p
      using us that shard_index_less [of s] unfolding usable_ok_def by (metis shard_at_index)
  qed (use us f2 in \<open>simp_all add: usable_ok_def\<close>)
  moreover have "out \<notin> set hs"
    using h(4) assms(5) temp_kinds_differ [OF assms(5)] by fastforce
  ultimately show ?thesis
    using confined_read [OF drop_temps_confined [of hs "on_disk d w2"]] drop_temps_confined [of hs "on_disk d w2"] f2 w'(2)
      recover_shards_dirs [OF r] h(3)
    by (auto simp: fs_simps confined_def drop_temps_dirs)
qed


end
