(* ===== verification/Sync.thy ===== *)
theory Sync
  imports Recover
begin

text \<open>
  \<open>src/client/sync.cpp\<close> and \<open>src/client/list.cpp\<close>: forwarding the pending files to their servers,
  and the two commands that only talk to the server. Waiting between two passes of \<open>autosync\<close>
  is a sequence of looks at the stop flag; \<open>cl_stops\<close> runs out eventually, so the loop carries the
  number of passes that may still be made.
\<close>

section \<open>One pending file\<close>

definition sync_one ::
  "('c, 'k) x509 \<Rightarrow> 'x openssl \<Rightarrow> 'a internet \<Rightarrow> options \<Rightarrow> bool \<Rightarrow> path \<Rightarrow> client \<Rightarrow> bool \<times> client" where
  "sync_one X E I opt verbose mp w =
     (case manifest_read (cl_disk w) mp of
        Inl e \<Rightarrow> (False, w)
      | Inr m \<Rightarrow>
      let routed = opt\<lparr>opt_server := m_server m\<rparr>
      in case temp (opt_dir opt) ''stream'' w of (stream, w) \<Rightarrow>
      case rebuild_stream X E I routed verbose m stream w of (ok, w) \<Rightarrow>
      if \<not> ok then (False, drop_temp stream w)
      else case remote_connect X I opt AccessFiles (m_server m) w of
        (Inl e, w) \<Rightarrow> (False, drop_temp stream w)
      | (Inr c, w) \<Rightarrow>
      case remote_stat c (m_name m) of (st, c) \<Rightarrow>
      case (if same_tag st (m_dedup_tag m) then (None, c)
            else remote_put_file c (cl_disk w) (m_name m) stream (m_dedup_tag m)) of
        (Some e, c) \<Rightarrow> (False, drop_temp stream (hang_up (m_server m) c w))
      | (None, c) \<Rightarrow>
          let w = hang_up (m_server m) (remote_quit c)
                    (remark (verbose \<and> same_tag st (m_dedup_tag m)) ''the server already holds identical content'' w);
              w = release_shards X I routed verbose (m_shards m) w
          in case fs_remove (cl_disk w) mp of (_, d) \<Rightarrow> (True, drop_temp stream (on_disk d w)))"

section \<open>A pass over all of them\<close>

record sync_result =
  synced :: nat
  waiting :: nat
  failed :: nat

fun sync_each ::
  "('c, 'k) x509 \<Rightarrow> 'x openssl \<Rightarrow> 'a internet \<Rightarrow> options \<Rightarrow> bool \<Rightarrow> path list \<Rightarrow> sync_result \<Rightarrow> client \<Rightarrow>
     sync_result \<times> client" where
  "sync_each X E I opt verbose [] r w = (r, w)"
| "sync_each X E I opt verbose (mp # todo) r w =
     (case stop_requested w of (stop, w) \<Rightarrow>
      if stop then (r, w)
      else case peek_manifest_server (cl_disk w) mp of
        None \<Rightarrow> sync_each X E I opt verbose todo (r\<lparr>failed := Suc (failed r)\<rparr>) (remark verbose ''unreadable, skipping'' w)
      | Some server \<Rightarrow>
      case remote_reachable X I server (opt_trust opt) w of (up, w) \<Rightarrow>
      if \<not> up then sync_each X E I opt verbose todo (r\<lparr>waiting := Suc (waiting r)\<rparr>) (remark verbose ''still offline'' w)
      else case sync_one X E I opt verbose mp (remark verbose ''is back, forwarding'' w) of (ok, w) \<Rightarrow>
        if ok then sync_each X E I opt verbose todo (r\<lparr>synced := Suc (synced r)\<rparr>) (tell ''synced'' w)
        else sync_each X E I opt verbose todo (r\<lparr>failed := Suc (failed r)\<rparr>) (tell ''failed'' w))"

definition sync_once ::
  "('c, 'k) x509 \<Rightarrow> 'x openssl \<Rightarrow> 'a internet \<Rightarrow> options \<Rightarrow> bool \<Rightarrow> client \<Rightarrow> sync_result \<times> client" where
  "sync_once X E I opt verbose w =
     sync_each X E I opt verbose (manifests (opt_dir opt) (cl_disk w)) \<lparr>synced = 0, waiting = 0, failed = 0\<rparr> w"

definition sync_pass ::
  "('c, 'k) x509 \<Rightarrow> 'x openssl \<Rightarrow> 'a internet \<Rightarrow> options \<Rightarrow> bool \<Rightarrow> client \<Rightarrow> nat \<times> client" where
  "sync_pass X E I opt verbose w = (case sync_once X E I opt verbose w of (r, w) \<Rightarrow> (synced r, w))"

section \<open>The commands\<close>

definition cmd_sync ::
  "('c, 'k) x509 \<Rightarrow> 'x openssl \<Rightarrow> 'a internet \<Rightarrow> options \<Rightarrow> client \<Rightarrow> nat \<times> client" where
  "cmd_sync X E I opt w =
     (case workspace_init (opt_dir opt) w of (ok, w) \<Rightarrow>
      if \<not> ok then (1, tell ''cannot create the working directory'' w)
      else if manifests (opt_dir opt) (cl_disk w) = [] then (0, tell ''Nothing is pending.'' w)
      else case sync_once X E I opt True w of (r, w) \<Rightarrow> (if 0 < failed r then 1 else 0, tell ''synced, waiting, failed'' w))"

text \<open>Sleeping second by second, as long as nobody asks to stop.\<close>

fun sleep_loop :: "nat \<Rightarrow> client \<Rightarrow> client" where
  "sleep_loop 0 w = w"
| "sleep_loop (Suc k) w =
     (case stop_requested w of (stop, w) \<Rightarrow> if stop then w else sleep_loop k w)"

fun autosync_loop ::
  "nat \<Rightarrow> ('c, 'k) x509 \<Rightarrow> 'x openssl \<Rightarrow> 'a internet \<Rightarrow> options \<Rightarrow> nat \<Rightarrow> nat \<Rightarrow> client \<Rightarrow> (nat \<times> client) option" where
  "autosync_loop 0 X E I opt interval moved w = None"
| "autosync_loop (Suc fuel) X E I opt interval moved w =
     (case stop_requested w of (stop, w) \<Rightarrow>
      if stop then Some (moved, w)
      else case sync_once X E I opt False w of (r, w) \<Rightarrow>
      let moved = moved + synced r
      in case stop_requested w of (stop, w) \<Rightarrow>
      if stop then Some (moved, w)
      else autosync_loop fuel X E I opt interval moved (sleep_loop interval w))"

definition cmd_autosync ::
  "nat \<Rightarrow> ('c, 'k) x509 \<Rightarrow> 'x openssl \<Rightarrow> 'a internet \<Rightarrow> options \<Rightarrow> nat \<Rightarrow> client \<Rightarrow> (nat \<times> client) option" where
  "cmd_autosync fuel X E I opt interval w =
     (case workspace_init (opt_dir opt) w of (ok, w) \<Rightarrow>
      if \<not> ok then Some (1, tell ''cannot create the working directory'' w)
      else map_option (\<lambda>(moved, w). (0, tell ''Auto-sync stopped.'' w))
             (autosync_loop fuel X E I opt interval 0 (tell ''Auto-sync running'' w)))"

definition cmd_list :: "('c, 'k) x509 \<Rightarrow> 'a internet \<Rightarrow> options \<Rightarrow> client \<Rightarrow> nat \<times> client" where
  "cmd_list X I opt w =
     (case remote_connect X I opt AccessFiles (opt_server opt) w of
        (Inl e, w) \<Rightarrow> (1, tell ''Cannot reach the server'' w)
      | (Inr c, w) \<Rightarrow>
      case remote_list c of
        (Inl e, c) \<Rightarrow> (1, hang_up (opt_server opt) c (tell ''Listing failed'' w))
      | (Inr entries, c) \<Rightarrow>
      let w = hang_up (opt_server opt) (remote_quit c) w
      in if entries = [] then (0, tell ''The server has no files yet.'' w)
         else (0, fold (\<lambda>e. tell (ls_name e)) entries (tell ''Files on the server'' w)))"

definition cmd_delete :: "('c, 'k) x509 \<Rightarrow> 'a internet \<Rightarrow> options \<Rightarrow> string \<Rightarrow> client \<Rightarrow> nat \<times> client" where
  "cmd_delete X I opt name w =
     (if \<not> is_safe_name name then (1, tell ''Not a valid stored name'' w)
      else case remote_connect X I opt AccessFiles (opt_server opt) w of
        (Inl e, w) \<Rightarrow> (1, tell ''Cannot reach the server'' w)
      | (Inr c, w) \<Rightarrow>
      case remote_del_file c name of
        (Inl e, c) \<Rightarrow> (1, hang_up (opt_server opt) c (tell ''Delete failed'' w))
      | (Inr found, c) \<Rightarrow>
      let w = hang_up (opt_server opt) (remote_quit c) w
      in if \<not> found then (1, tell ''There is no such file to delete.'' w)
         else (0, tell ''Deleted'' w))"

end
