(* ===== verification/Flags.thy ===== *)
theory Flags
  imports Sync
begin

text \<open>
  What a command of the client leaves alone besides the disk: the terminal it reads passphrases
  from, and the two stop flags. Only a prompt and a look at a flag use them up.
\<close>

definition flags :: "client \<Rightarrow> console \<times> bool list \<times> bool list" where
  "flags w = (cl_con w, cl_stops w, cl_watch_stops w)"

lemma client_flags [simp]:
  "flags (tell m w) = flags w" "flags (remark v m w) = flags w" "flags (on_disk d w) = flags w"
  "flags (hang_up a c w) = flags w" "flags (drop_temp p w) = flags w" "flags (w\<lparr>cl_pool := pool\<rparr>) = flags w"
  "flags (w\<lparr>cl_dials := k\<rparr>) = flags w" "flags (w\<lparr>cl_disk := d\<rparr>) = flags w"
  by (simp_all add: flags_def tell_def remark_def on_disk_def hang_up_def drop_temp_def)

lemma drop_temps_flags [simp]: "flags (drop_temps ps w) = flags w"
proof -
  have "flags (fold drop_temp qs w) = flags w" for qs by (induction qs arbitrary: w) simp_all
  then show ?thesis by (simp add: drop_temps_def)
qed

lemma temp_flags: "temp root kind w = (p, w') \<Longrightarrow> flags w' = flags w"
  by (auto simp: temp_def split: prod.splits)

lemma temps_flags: "temps root kind w = (ps, w') \<Longrightarrow> flags w' = flags w"
  by (auto simp: temps_def dest!: temp_flags split: prod.splits)

lemma workspace_init_flags: "workspace_init root w = (ok, w') \<Longrightarrow> flags w' = flags w"
  by (auto simp: workspace_init_def split: prod.splits)

lemma dial_channel_flags: "dial_channel X I a trust w = (r, w') \<Longrightarrow> flags w' = flags w"
  by (auto simp: dial_channel_def split: sum.splits)

lemma remote_connect_flags: "remote_connect X I opt acc a w = (r, w') \<Longrightarrow> flags w' = flags w"
  by (auto simp: remote_connect_def split: sum.splits prod.splits option.splits dest: dial_channel_flags)

lemma remote_reachable_flags: "remote_reachable X I a trust w = (r, w') \<Longrightarrow> flags w' = flags w"
  by (auto simp: remote_reachable_def split: sum.splits prod.splits dest: dial_channel_flags)

section \<open>Uploading\<close>

lemma upload_to_server_flags: "upload_to_server X I opt name stream tag w = (code, w') \<Longrightarrow> flags w' = flags w"
  by (auto simp: upload_to_server_def split: sum.splits prod.splits option.splits if_splits dest: remote_connect_flags)

lemma place_shards_flags: "place_shards X E I opt todo placed w = (r, w') \<Longrightarrow> flags w' = flags w"
proof (induction X E I opt todo placed w rule: place_shards.induct)
  case (2 X E I opt i p address todo placed w)
  then show ?case
    by (auto simp: Let_def split: if_splits sum.splits prod.splits option.splits dest: remote_connect_flags)
qed simp

lemma distribute_shards_flags: "distribute_shards X E I opt name stream tag ps w = (code, w') \<Longrightarrow> flags w' = flags w"
  by (auto simp: distribute_shards_def Let_def split: sum.splits prod.splits option.splits if_splits
      dest!: place_shards_flags)

lemma distribute_to_peers_flags: "distribute_to_peers X E I opt name stream tag w = (code, w') \<Longrightarrow> flags w' = flags w"
  by (auto simp: distribute_to_peers_def split: prod.splits if_splits dest!: temps_flags distribute_shards_flags)

lemma upload_flags: "upload_with_passphrase X E I opt source pw v w = (code, w') \<Longrightarrow> flags w' = flags w"
  by (auto simp: upload_with_passphrase_def Let_def split: sum.splits prod.splits if_splits
      dest!: temp_flags remote_reachable_flags upload_to_server_flags distribute_to_peers_flags)

section \<open>Rebuilding and forwarding\<close>

lemma recover_shard_flags: "recover_shard X E I opt v holders ref w = (r, w') \<Longrightarrow> flags w' = flags w"
  by (auto simp: recover_shard_def Let_def split: sum.splits prod.splits if_splits dest!: remote_connect_flags)

lemma recover_shards_flags:
  "recover_shards X E I opt v holders refs usable n w = (usable', n', w') \<Longrightarrow> flags w' = flags w"
proof (induction refs arbitrary: usable n w)
  case (Cons ref refs)
  obtain r w1 where r: "recover_shard X E I opt v holders ref w = (r, w1)" by (rule prod.exhaust)
  with Cons recover_shard_flags [OF r] show ?case by (auto split: if_splits option.splits)
qed simp

lemma rebuild_stream_flags: "rebuild_stream X E I opt v m out w = (ok, w') \<Longrightarrow> flags w' = flags w"
  by (auto simp: rebuild_stream_def split: prod.splits if_splits dest!: temps_flags recover_shards_flags)

lemma release_shards_flags [simp]: "flags (release_shards X I opt v refs w) = flags w"
proof (induction refs arbitrary: w)
  case (Cons ref refs)
  obtain r w1 where c: "remote_connect X I opt AccessChunks (ref_peer ref) w = (r, w1)" by (rule prod.exhaust)
  with Cons remote_connect_flags [OF c] show ?case by (simp split: sum.split prod.split)
qed simp

lemma sync_one_flags: "sync_one X E I opt v mp w = (ok, w') \<Longrightarrow> flags w' = flags w"
  by (auto simp: sync_one_def Let_def split: sum.splits prod.splits if_splits option.splits
      dest!: temp_flags rebuild_stream_flags remote_connect_flags)

section \<open>Looking at a flag\<close>

text \<open>
  The flag of \<open>sync.cpp\<close> will be seen set after \<open>looks bs\<close> looks that find it clear. Whatever happens in between,
  a list of looks only gets shorter.
\<close>

definition looks :: "bool list \<Rightarrow> nat" where
  "looks bs = length (takeWhile Not bs)"

definition fewer :: "bool list \<Rightarrow> bool list \<Rightarrow> bool" where
  "fewer bs bs' \<longleftrightarrow> (True \<in> set bs \<longrightarrow> True \<in> set bs') \<and> looks bs' \<le> looks bs"

lemma fewer_refl [simp]: "fewer bs bs"
  by (simp add: fewer_def)

lemma fewer_trans: "fewer a b \<Longrightarrow> fewer b c \<Longrightarrow> fewer a c"
  by (auto simp: fewer_def)

lemma stop_requested_fewer:
  "stop_requested w = (b, w') \<Longrightarrow> fewer (cl_stops w) (cl_stops w') \<and> cl_watch_stops w' = cl_watch_stops w \<and> cl_con w' = cl_con w \<and>
     (\<not> b \<longrightarrow> True \<in> set (cl_stops w) \<longrightarrow> looks (cl_stops w') < looks (cl_stops w))"
  by (auto simp: stop_requested_def fewer_def looks_def split: list.splits if_splits)

lemma sync_each_fewer:
  "sync_each X E I opt v todo r w = (r', w') \<Longrightarrow>
     fewer (cl_stops w) (cl_stops w') \<and> cl_watch_stops w' = cl_watch_stops w \<and> cl_con w' = cl_con w"
proof (induction todo arbitrary: r w)
  case (Cons mp todo)
  obtain stop w1 where s: "stop_requested w = (stop, w1)" by (rule prod.exhaust)
  note w1 = stop_requested_fewer [OF s]
  have rest: ?case if "sync_each X E I opt v todo r1 w2 = (r', w')" "flags w2 = flags w1" for r1 w2
    using Cons.IH [OF that(1)] that(2) w1 by (auto simp: flags_def intro: fewer_trans)
  show ?case
  proof (cases "stop \<or> peek_manifest_server (cl_disk w1) mp = None")
    case True
    then consider "stop" | "\<not> stop" "peek_manifest_server (cl_disk w1) mp = None" by (cases stop) auto
    then show ?thesis
    proof cases
      case 1
      with Cons.prems s w1 show ?thesis by simp
    next
      case 2
      then show ?thesis
        using Cons.prems s rest [of "r\<lparr>failed := Suc (failed r)\<rparr>" "remark v ''unreadable, skipping'' w1"] by simp
    qed
  next
    case False
    then obtain server where server: "peek_manifest_server (cl_disk w1) mp = Some server" "\<not> stop" by auto
    obtain up w2 where u: "remote_reachable X I server (opt_trust opt) w1 = (up, w2)" by (rule prod.exhaust)
    obtain ok w3 where o: "sync_one X E I opt v mp (remark v ''is back, forwarding'' w2) = (ok, w3)" by (rule prod.exhaust)
    have f: "flags w2 = flags w1" "flags w3 = flags w1" using remote_reachable_flags [OF u] sync_one_flags [OF o] by simp_all
    consider "\<not> up" | "up" "ok" | "up" "\<not> ok" by (cases up; cases ok) auto
    then show ?thesis
    proof cases
      case 1
      with Cons.prems s server u f rest [of "r\<lparr>waiting := Suc (waiting r)\<rparr>" "remark v ''still offline'' w2"] show ?thesis by simp
    next
      case 2
      with Cons.prems s server u o f rest [of "r\<lparr>synced := Suc (synced r)\<rparr>" "tell ''synced'' w3"] show ?thesis by simp
    next
      case 3
      with Cons.prems s server u o f rest [of "r\<lparr>failed := Suc (failed r)\<rparr>" "tell ''failed'' w3"] show ?thesis by simp
    qed
  qed
qed simp

lemma sync_once_fewer:
  "sync_once X E I opt v w = (r, w') \<Longrightarrow>
     fewer (cl_stops w) (cl_stops w') \<and> cl_watch_stops w' = cl_watch_stops w \<and> cl_con w' = cl_con w"
  unfolding sync_once_def by (rule sync_each_fewer)

lemma sleep_loop_fewer: "fewer (cl_stops w) (cl_stops (sleep_loop k w))"
proof (induction k arbitrary: w)
  case (Suc k)
  obtain stop w1 where s: "stop_requested w = (stop, w1)" by (rule prod.exhaust)
  with stop_requested_fewer [OF s] Suc [of w1] show ?case by (auto intro: fewer_trans)
qed simp

lemma autosync_loop_ends:
  "True \<in> set (cl_stops w) \<Longrightarrow> looks (cl_stops w) < fuel \<Longrightarrow> autosync_loop fuel X E I opt interval moved w \<noteq> None"
proof (induction fuel arbitrary: moved w)
  case (Suc fuel)
  obtain stop w1 where s: "stop_requested w = (stop, w1)" by (rule prod.exhaust)
  obtain r w2 where o: "sync_once X E I opt False w1 = (r, w2)" by (rule prod.exhaust)
  obtain stop2 w3 where s2: "stop_requested w2 = (stop2, w3)" by (rule prod.exhaust)
  let ?w = "sleep_loop interval w3"
  have "True \<in> set (cl_stops ?w)" and "looks (cl_stops ?w) < fuel" if "\<not> stop"
    using stop_requested_fewer [OF s] sync_once_fewer [OF o] stop_requested_fewer [OF s2] sleep_loop_fewer [of w3 interval]
      that Suc.prems by (auto simp: fewer_def)
  with Suc.IH s o s2 show ?case by (auto simp: Let_def)
qed simp

lemma cmd_autosync_ends:
  assumes "True \<in> set (cl_stops w)" and "looks (cl_stops w) < fuel"
  shows "cmd_autosync fuel X E I opt interval w \<noteq> None"
proof -
  obtain ok w1 where i: "workspace_init (opt_dir opt) w = (ok, w1)" by (rule prod.exhaust)
  have "cl_stops (tell ''Auto-sync running'' w1) = cl_stops w"
    using workspace_init_flags [OF i] by (simp add: flags_def tell_def)
  then have "autosync_loop fuel X E I opt interval 0 (tell ''Auto-sync running'' w1) \<noteq> None"
    using autosync_loop_ends assms by metis
  with i show ?thesis by (cases ok) (auto simp: cmd_autosync_def)
qed

end
