(* ===== verification/Peers.thy ===== *)
theory Peers
  imports Flags
begin

text \<open>
  A pending file and its peers: rebuilding succeeds when two of the recorded peers still hold
  their shards, what \<open>distribute_to_peers\<close> records describes the stream it split, and a pass of
  \<open>sync\<close> forwards that stream or keeps the record.
\<close>

section \<open>Two honest peers are enough\<close>

lemma ask_ok:
  assumes "calm c" and "inp c = reply @ newline # rest" and "one_line reply" and "length reply \<le> kMaxLineLen"
  obtains c' where "ask c line = (Inr reply, c')" "calm c'" "inp c' = rest" "outp c' = outp c @ line @ [newline]"
proof -
  obtain c0 where c0: "ch_send_line c line = (True, c0)" "calm c0" "outp c0 = outp c @ line @ [newline]" "inp c0 = inp c"
    using ch_send_line_calm [OF assms(1)] by blast
  moreover obtain c1 where "ch_read_line c0 = (Some reply, c1)" "inp c1 = rest" "outp c1 = outp c0" "calm c1"
    using read_line_loop_calm [OF c0(2), of reply rest "[]"] assms(2-4) c0(4)
    by (auto simp: one_line_def ch_read_line_def)
  ultimately show thesis using that [of c1] by (simp add: ask_def)
qed

text \<open>What a peer that holds a chunk answers to the handshake and to the request for it.\<close>

definition greeting :: string where
  "greeting = kOk @ '' '' @ kProtocol @ newline # kOk @ [newline]"

definition presentable :: "credentials \<Rightarrow> access \<Rightarrow> bool" where
  "presentable cred acc \<longleftrightarrow> (case acc of AccessFiles \<Rightarrow> cred_user cred \<noteq> [] | AccessChunks \<Rightarrow> cred_token cred \<noteq> [])"

lemma handshake_ok:
  assumes "calm c" and "inp c = greeting @ rest" and "presentable cred acc"
  obtains c' where "handshake cred acc c = (None, c')" "calm c'" "inp c' = rest"
proof -
  have words: "split (kOk @ '' '' @ kProtocol) = [kOk, kProtocol]" "split kOk = [kOk]"
    using split_join_words [of "[kOk, kProtocol]"] split_word [of kOk] by (simp_all add: is_word_def vocabulary kProtocol_def)
  have line: "one_line (kOk @ '' '' @ kProtocol)" "one_line kOk" by (simp_all add: vocabulary kProtocol_def)
  obtain c1 where c1: "ask c (kHello @ '' '' @ kProtocol) = (Inr (kOk @ '' '' @ kProtocol), c1)" "calm c1"
      "inp c1 = kOk @ newline # rest"
    by (rule ask_ok [OF assms(1), of "kOk @ '' '' @ kProtocol" "kOk @ newline # rest" "kHello @ '' '' @ kProtocol"])
      (use assms(2) line in \<open>auto simp: greeting_def vocabulary kProtocol_def kMaxLineLen_def\<close>)
  let ?login = "case acc of AccessFiles \<Rightarrow> kLogin @ '' '' @ cred_user cred @ '' '' @ cred_password cred
    | AccessChunks \<Rightarrow> kAuth @ '' '' @ cred_token cred"
  obtain c2 where "ask c1 ?login = (Inr kOk, c2)" "calm c2" "inp c2 = rest"
    by (rule ask_ok [OF c1(2,3) line(2), of ?login]) (auto simp: vocabulary kMaxLineLen_def)
  with c1(1) words assms(3) that [of c2] show thesis
    by (cases acc) (simp_all add: handshake_def present_credentials_def replies_def presentable_def)
qed

definition dials :: "('c, 'k) x509 \<Rightarrow> 'a internet \<Rightarrow> string \<Rightarrow> tls_trust \<Rightarrow> bool" where
  "dials X I address trust \<longleftrightarrow> (\<forall>k. \<exists>v. fst (dial X (net_at I k) address trust) = Inr v)"

definition welcomes :: "('c, 'k) x509 \<Rightarrow> 'a internet \<Rightarrow> options \<Rightarrow> string \<Rightarrow> string \<Rightarrow> bool" where
  "welcomes X I opt address rest \<longleftrightarrow> dials X I address (opt_trust opt) \<and>
     (\<forall>k. calm (link_at I k address) \<and> inp (link_at I k address) = greeting @ rest)"

definition keeps_chunk :: "('c, 'k) x509 \<Rightarrow> 'a internet \<Rightarrow> options \<Rightarrow> string \<Rightarrow> string \<Rightarrow> bool" where
  "keeps_chunk X I opt address b \<longleftrightarrow> welcomes X I opt address (data_reply b)"

lemma remote_connect_ok:
  assumes "welcomes X I opt address rest" and "presentable (opt_cred opt) acc"
  obtains c w' where "remote_connect X I opt acc address w = (Inr c, w')" "calm c" "inp c = rest"
    "cl_disk w' = cl_disk w"
proof -
  let ?c = "link_at I (cl_dials w) address"
  have link: "calm ?c" "inp ?c = greeting @ rest" using assms(1) by (simp_all add: welcomes_def)
  obtain v where "fst (dial X (net_at I (cl_dials w)) address (opt_trust opt)) = Inr v"
    using assms(1) by (auto simp: welcomes_def dials_def)
  then have "dial_channel X I address (opt_trust opt) w = (Inr ?c, w\<lparr>cl_dials := Suc (cl_dials w)\<rparr>)"
    by (simp add: dial_channel_def)
  with that show thesis
    by (rule_tac handshake_ok [OF link assms(2)]) (simp add: remote_connect_def)
qed

lemma recover_shard_ok:
  assumes "keeps_chunk X I opt (ref_peer ref) b" and "presentable (opt_cred opt) AccessChunks"
    and "ref_chunk_id ref = file_hash E b" and "length b \<le> unat kMaxTransferSize"
    and "faults (cl_disk w) = []" and "writable (cl_disk w) (holders ! ref_index ref)"
  shows "fst (recover_shard X E I opt v holders ref w) = Some (holders ! ref_index ref)"
proof -
  let ?p = "holders ! ref_index ref"
  obtain c w1 where con: "remote_connect X I opt AccessChunks (ref_peer ref) w = (Inr c, w1)" "calm c"
      "inp c = data_reply b" "cl_disk w1 = cl_disk w"
    by (rule remote_connect_ok [OF assms(1) [unfolded keeps_chunk_def] assms(2), of w])
  obtain c' where "fetch c (cl_disk w1) (kGetChunk @ '' '' @ ref_chunk_id ref) ?p = (Inr True, c', put (cl_disk w1) ?p b)"
    using fetch_ok [OF con(2,3) assms(4), of "cl_disk w1" ?p] assms(5,6) con(4) by auto
  with con(1) assms(3) show ?thesis
    by (simp add: recover_shard_def remote_get_chunk_def Let_def sha256_file_hex_hash fs_simps)
qed


definition gives_back ::
  "('c, 'k) x509 \<Rightarrow> 'x openssl \<Rightarrow> 'a internet \<Rightarrow> options \<Rightarrow> string \<Rightarrow> shard_ref \<Rightarrow> bool" where
  "gives_back X E I opt c ref \<longleftrightarrow>
     ref_index ref < 4 \<and> keeps_chunk X I opt (ref_peer ref) (stream_shard c (shard_at (ref_index ref)))"

text \<open>Counting: every shard of a peer that gives it back is recovered.\<close>

lemma recover_shards_counts:
  assumes "presentable (opt_cred opt) AccessChunks" and "half_of c \<le> unat kMaxTransferSize"
    and "\<forall>ref\<in>set refs0. ref_index ref < 4 \<longrightarrow> ref_chunk_id ref = file_hash E (stream_shard c (shard_at (ref_index ref)))"
  shows "recover_shards X E I opt v holders refs usable n w = (usable', n', w') \<Longrightarrow> set refs \<subseteq> set refs0 \<Longrightarrow>
    faults (cl_disk w) = [] \<Longrightarrow> \<forall>i<4. writable (cl_disk w) (holders ! i) \<Longrightarrow> length usable = 4 \<Longrightarrow>
    n + length (filter (gives_back X E I opt c) refs) \<le> n' \<and>
    (\<forall>i<4. usable ! i \<noteq> None \<or> (\<exists>ref\<in>set refs. gives_back X E I opt c ref \<and> ref_index ref = i) \<longrightarrow> usable' ! i \<noteq> None)"
proof (induction refs arbitrary: usable n w)
  case (Cons ref refs)
  let ?i = "ref_index ref"
  show ?case
  proof (cases "kTotalShards \<le> ?i")
    case True
    then have "\<not> ?i < 4" by (simp add: kTotalShards_def kDataShards_def kParityShards_def)
    with True Cons show ?thesis by (simp add: gives_back_def)
  next
    case False
    then have i: "?i < 4" by (simp add: kTotalShards_def kDataShards_def kParityShards_def)
    obtain r w1 where r: "recover_shard X E I opt v holders ref w = (r, w1)" by (rule prod.exhaust)
    have w1: "faults (cl_disk w1) = []" "\<forall>i<4. writable (cl_disk w1) (holders ! i)"
      using recover_shard_confined [OF r] recover_shard_dirs [OF r] Cons.prems(3,4)
      by (simp_all add: confined_def writable_def)
    have good: "r \<noteq> None" if "gives_back X E I opt c ref"
      using recover_shard_ok [of X I opt ref "stream_shard c (shard_at ?i)" E w holders v] that r i assms Cons.prems(2-4)
      by (auto simp: gives_back_def length_stream_shard)
    show ?thesis
    proof (cases r)
      case None
      with Cons.IH [of usable n w1] Cons.prems w1 r False good show ?thesis by auto
    next
      case (Some p)
      with Cons.IH [of "usable[?i := Some p]" "Suc n" w1] Cons.prems w1 r False i show ?thesis
        by (auto simp: nth_list_update split: if_splits)
    qed
  qed
qed simp

lemma two_of_list:
  assumes "x \<in> set xs" and "y \<in> set xs" and "x \<noteq> y"
  shows "2 \<le> length xs"
proof -
  have "card {x, y} \<le> card (set xs)" using assms(1,2) by (intro card_mono) simp_all
  also have "\<dots> \<le> length xs" by (rule card_length)
  finally show ?thesis using assms(3) by simp
qed

lemma join_usable:
  assumes "usable_ok c hs us w" and "faults (cl_disk w) = []" and "writable (cl_disk w) out"
    and "i < 4" and "j < 4" and "i \<noteq> j" and "us ! i \<noteq> None" and "us ! j \<noteq> None"
  shows "join_shards (cl_disk w) us (half_of c) (length c) out = (Inr (), put (cl_disk w) out c)"
proof -
  let ?d = "cl_disk w"
  have there: "shard_present ?d (half_of c) (us ! k)" if "k < 4" "us ! k \<noteq> None" for k
    using that assms(1) read_some by (auto simp: usable_ok_def shard_present_def fs_size_def length_stream_shard)
  have len: "length us = 4" using assms(1) by (simp add: usable_ok_def)
  have "card {i, j} \<le> card {k. k < length us \<and> shard_present ?d (half_of c) (us ! k)}"
    using there assms(4-8) len by (intro card_mono) auto
  then have "2 \<le> present_count ?d us (half_of c)"
    using assms(6) by (simp add: present_count_def length_filter_conv_card)
  moreover have "fs_read ?d p = Some (stream_shard c s)" if "us ! shard_index s = Some p" for s p
    using assms(1) that shard_index_less [of s] unfolding usable_ok_def by (metis shard_at_index)
  then have "intact ?d us (half_of c) (\<lambda>s. string_of (shard_of (pad (half_of c) c) (pad (half_of c) (drop (half_of c) c)) s))"
    using len by (auto simp: intact_def shard_present_def stream_shard_def split: option.splits)
  ultimately show ?thesis
    using join_shards_ok [OF assms(2,3), of "pad (half_of c) c" "half_of c" "pad (half_of c) (drop (half_of c) c)" us "length c"]
    by (simp add: resized_halves)
qed

lemma rebuild_runs:
  assumes "describes E m c" and "no_forgery E I c" and "presentable (opt_cred opt) AccessChunks"
    and "half_of c \<le> unat kMaxTransferSize" and "faults (cl_disk w) = []"
    and "is_temp (opt_dir opt) ''stream'' out" and "\<forall>p\<in>scratch (opt_dir opt). writable (cl_disk w) p"
    and "a \<in> set (m_shards m)" and "b \<in> set (m_shards m)" and "ref_index a \<noteq> ref_index b"
    and "gives_back X E I opt c a" and "gives_back X E I opt c b"
  shows "fst (rebuild_stream X E I opt v m out w)"
proof -
  obtain hs w1 where t: "temps (opt_dir opt) ''recover'' w = (hs, w1)" by (rule prod.exhaust)
  have h: "length hs = 4" "distinct hs" "set hs \<subseteq> scratch (opt_dir opt)" "cl_disk w1 = cl_disk w"
    using temps_result [OF t] by simp_all
  obtain us n w2 where r: "recover_shards X E I opt v hs (m_shards m) [None, None, None, None] 0 w1 = (us, n, w2)"
    by (rule prod_cases3)
  have f1: "faults (cl_disk w1) = []" using h assms(5) by simp
  have m: "refs_describe E (m_shards m) c" using assms(1) by (simp add: describes_def)
  have wr: "\<forall>i<4. writable (cl_disk w1) (hs ! i)" using h assms(7) by (metis nth_mem subset_eq)
  have "usable_ok c hs [None, None, None, None] w1" by (simp add: usable_ok_def less_Suc_eq numeral_eq_Suc)
  moreover have "\<forall>i<4. i \<in> ref_index ` set (m_shards m) \<longrightarrow> [None, None, None, None] ! i = (None :: path option)"
    by (simp add: less_Suc_eq numeral_eq_Suc)
  ultimately have us: "usable_ok c hs us w2" and "confined (set hs) (cl_disk w1) (cl_disk w2)"
    using recover_shards_ok [OF h(1,2) assms(2) r f1 m] by simp_all
  with f1 have f2: "faults (cl_disk w2) = []" by (simp add: confined_def)
  have counts: "length (filter (gives_back X E I opt c) (m_shards m)) \<le> n"
    "us ! ref_index a \<noteq> None" "us ! ref_index b \<noteq> None"
    using recover_shards_counts [OF assms(3,4) _ r subset_refl f1 wr] m assms(8-12) by (auto simp: refs_describe_def gives_back_def)
  have "a \<noteq> b" using assms(10) by blast
  then have "2 \<le> n" using two_of_list [of a "filter (gives_back X E I opt c) (m_shards m)" b] counts(1) assms(8-12) by auto
  moreover have "writable (cl_disk w2) out"
    using recover_shards_dirs [OF r] h(4) assms(6,7) is_temp_scratch by (auto simp: writable_def)
  from join_usable [OF us f2 this _ _ assms(10) counts(2,3)] assms(11,12)
  have "join_shards (cl_disk w2) us (half_of c) (length c) out = (Inr (), put (cl_disk w2) out c)"
    by (simp add: gives_back_def)
  ultimately show ?thesis
    using t r assms(1) half_of_bound [of c] by (simp add: rebuild_stream_def describes_def kDataShards_def)
qed

lemma rebuild_stream_succeeds:
  assumes "describes E m c" and "no_forgery E I c" and "presentable (opt_cred opt) AccessChunks"
    and "half_of c \<le> unat kMaxTransferSize" and "faults (cl_disk w) = []"
    and "is_temp (opt_dir opt) ''stream'' out" and "\<forall>p\<in>scratch (opt_dir opt). writable (cl_disk w) p"
    and "a \<in> set (m_shards m)" and "b \<in> set (m_shards m)" and "ref_index a \<noteq> ref_index b"
    and "gives_back X E I opt c a" and "gives_back X E I opt c b"
  shows "\<exists>w'. rebuild_stream X E I opt v m out w = (True, w') \<and> fs_read (cl_disk w') out = Some c"
proof -
  obtain w' where r: "rebuild_stream X E I opt v m out w = (True, w')"
    using rebuild_runs [OF assms, of v] by (cases "rebuild_stream X E I opt v m out w") simp
  from rebuilt_stream [OF r assms(1,2,5,6)] r show ?thesis by simp
qed

section \<open>Examples\<close>

lemma cloud_shards: "stream_shard ''cloud'' D0 = ''clo''" "stream_shard ''cloud'' D1 = ''ud'' @ [CHR 0x00]"
  by code_simp+

lemma mini_file_hash: "file_hash mini_openssl s = to_hex (mini_hash (bytes_of s))"
  by (simp add: file_hash_def sha_new_def feed_buffers_sha kIoBufferSize_def sha_finish_def mini_openssl_def)

lemma mini_hash_take: "length x \<le> 32 \<Longrightarrow> take (length x) (mini_hash x) = x"
  by (simp add: mini_hash_def)

lemma small_byte: "n < 256 \<Longrightarrow> unat (of_nat n :: byte) = n"
  by (rule of_nat_inverse [OF refl]) simp

lemma mini_hash_short:
  assumes "mini_hash x = mini_hash y" and "length y < 32" and "of_nat (length y) \<notin> set x"
  shows "x = y"
proof -
  have y: "mini_hash y ! 31 = of_nat (length y)" using assms(2) by (simp add: mini_hash_def nth_append)
  have short: "length x < 32"
  proof (rule ccontr)
    assume "\<not> length x < 32"
    then have "mini_hash x ! 31 = x ! 31" "x ! 31 \<in> set x" by (simp_all add: mini_hash_def nth_append)
    with y assms(1,3) show False by simp
  qed
  then have "mini_hash x ! 31 = of_nat (length x)" by (simp add: mini_hash_def nth_append)
  with y assms(1) have "unat (of_nat (length x) :: byte) = unat (of_nat (length y) :: byte)" by metis
  then have "length x = length y"
    using short assms(2) by (simp add: small_byte)
  then show ?thesis using mini_hash_take [of x] mini_hash_take [of y] assms(1) short by (metis less_imp_le)
qed

definition example_internet :: "nat internet" where
  "example_internet = \<lparr>net_at = \<lambda>k. example_network,
     link_at = \<lambda>k a. quiet (greeting @ data_reply (stream_shard ''cloud'' (if a = ''a:1'' then D0 else D1)))\<rparr>"

definition example_options :: options where
  "example_options = \<lparr>opt_cred = \<lparr>cred_user = ''ann'', cred_password = ''pw'', cred_token = ''tk''\<rparr>,
     opt_trust = \<lparr>ca_file = [], trust_verify = False\<rparr>, opt_server = ''s:1'', opt_peers = [''a:1'', ''b:1'', ''c:1'', ''d:1''],
     opt_key = \<lparr>keyfile = [], allow_prompt = True\<rparr>, opt_dir = [''home''], opt_quiet = False\<rparr>"

definition example_refs :: "shard_ref list" where
  "example_refs =
     [\<lparr>ref_index = 0, ref_chunk_id = file_hash mini_openssl (stream_shard ''cloud'' D0), ref_peer = ''a:1''\<rparr>,
      \<lparr>ref_index = 1, ref_chunk_id = file_hash mini_openssl (stream_shard ''cloud'' D1), ref_peer = ''b:1''\<rparr>]"

definition example_record :: manifest where
  "example_record = empty_manifest\<lparr>m_stream_size := 5, m_shard_size := 3, m_shards := example_refs\<rparr>"

definition example_client :: client where
  "example_client = \<lparr>cl_disk = empty_disk [work_dir [''home'']], cl_pool = [], cl_con = \<lparr>con_env = None, con_tty = False, con_lines = []\<rparr>,
     cl_dials = 0, cl_links = [], cl_out = [], cl_stops = [], cl_watch_stops = []\<rparr>"

lemma example_describes: "describes mini_openssl example_record ''cloud''"
  by (simp add: describes_def refs_describe_def example_record_def example_refs_def shard_at_def half_of_def)

lemma byte_three: "3 = byte_of ch \<Longrightarrow> ch = CHR 0x03"
proof -
  assume "3 = byte_of ch"
  then have "of_char ch = (3 :: nat)" using unat_byte_of [of ch] by simp
  then have "(of_char ch :: nat) = of_char (CHR 0x03)" by simp
  then show ?thesis by (simp only: of_char_eq_iff)
qed

lemma to_dec_three: "to_dec (Suc (Suc (Suc 0))) = ''3''" by code_simp

lemma example_no_forgery: "no_forgery mini_openssl example_internet ''cloud''"
proof -
  have "x = stream_shard ''cloud'' s"
    if "inp (link_at example_internet k a) = u @ x @ v" "file_hash mini_openssl x = file_hash mini_openssl (stream_shard ''cloud'' s)" for k a u x v s
  proof -
    have "CHR 0x03 \<notin> set (inp (link_at example_internet k a))"
      by (simp add: example_internet_def cloud_shards greeting_def data_reply_def vocabulary kProtocol_def newline_code
          half_of_def to_dec_three)
    with that(1) have "CHR 0x03 \<notin> set x" by (metis Un_iff set_append)
    then have "(3 :: byte) \<notin> set (bytes_of x)" by (auto simp: bytes_of_def dest!: byte_three)
    moreover have "mini_hash (bytes_of x) = mini_hash (bytes_of (stream_shard ''cloud'' s))"
      using that(2) by (simp add: mini_file_hash to_hex_inj)
    ultimately show ?thesis using mini_hash_short [of "bytes_of x" "bytes_of (stream_shard ''cloud'' s)"]
      by (simp add: length_stream_shard half_of_def)
  qed
  then show ?thesis by (simp add: no_forgery_def)
qed

lemma example_gives_back:
  "ref \<in> set example_refs \<Longrightarrow> gives_back example_x509 mini_openssl example_internet example_options ''cloud'' ref"
  by (auto simp: example_refs_def gives_back_def keeps_chunk_def welcomes_def dials_def example_internet_def example_options_def shard_at_def
      dial_def split_address_def example_network_def connect_with_timeout_def nothing_held_def)

abbreviation example_stream :: path where
  "example_stream \<equiv> work_dir [''home''] @ [''.stream'']"

lemma example_temp: "is_temp (opt_dir example_options) ''stream'' example_stream"
  by (auto simp: is_temp_def example_options_def intro: exI [of _ "[]"])

lemma scratch_not_work_dir: "p \<in> scratch root \<Longrightarrow> p \<noteq> work_dir root"
proof
  assume "p \<in> scratch root" and "p = work_dir root"
  then have "p \<noteq> []" "length (butlast p) = length p" by (simp_all add: scratch_def)
  then show False by (simp add: less_Suc_eq flip: length_greater_0_conv)
qed

lemma example_scene:
  "presentable (opt_cred example_options) AccessChunks" "half_of ''cloud'' \<le> unat kMaxTransferSize"
  "faults (cl_disk example_client) = []" "\<forall>p\<in>scratch (opt_dir example_options). writable (cl_disk example_client) p"
  "example_refs ! 0 \<in> set (m_shards example_record)" "example_refs ! 1 \<in> set (m_shards example_record)"
  "ref_index (example_refs ! 0) \<noteq> ref_index (example_refs ! 1)"
  "gives_back example_x509 mini_openssl example_internet example_options ''cloud'' (example_refs ! 0)"
  "gives_back example_x509 mini_openssl example_internet example_options ''cloud'' (example_refs ! 1)"
proof -
  show "\<forall>p\<in>scratch (opt_dir example_options). writable (cl_disk example_client) p"
    using scratch_not_work_dir [of _ "[''home'']"]
    by (auto simp: scratch_def writable_def example_client_def example_options_def)
qed (simp_all add: example_options_def presentable_def half_of_def kMaxTransferSize_def example_client_def example_record_def
    example_refs_def example_gives_back [unfolded example_options_def example_refs_def])

lemmas example_rebuild =
  example_describes example_no_forgery example_scene(1-3) example_temp example_scene(4-9)

lemma rebuild_stream_succeeds_witness:
  "\<exists>w'. rebuild_stream example_x509 mini_openssl example_internet example_options True example_record example_stream
     example_client = (True, w') \<and> fs_read (cl_disk w') example_stream = Some ''cloud''"
  by (rule rebuild_stream_succeeds [OF example_rebuild])


end
