(* ===== verification/Pending.thy ===== *)
theory Pending
  imports Peers
begin

text \<open>
  The life of a file that cannot reach its server: what \<open>distribute_to_peers\<close> records, that the
  record is enough to get the file back, and that \<open>sync\<close> forwards it or keeps the record.
\<close>

section \<open>What went out\<close>

text \<open>\<open>msg\<close> was written, in one piece, on a connection to \<open>address\<close> that is closed by now.\<close>

definition sent_on :: "client \<Rightarrow> string \<Rightarrow> string \<Rightarrow> bool" where
  "sent_on w address msg \<longleftrightarrow> (\<exists>c u v. (address, c) \<in> set (cl_links w) \<and> outp c = u @ msg @ v)"

definition more_links :: "client \<Rightarrow> client \<Rightarrow> bool" where
  "more_links w w' \<longleftrightarrow> set (cl_links w) \<subseteq> set (cl_links w')"

lemma more_links_refl [simp]: "more_links w w"
  by (simp add: more_links_def)

lemma more_links_trans: "more_links w w1 \<Longrightarrow> more_links w1 w2 \<Longrightarrow> more_links w w2"
  by (auto simp: more_links_def)

lemma sent_on_mono: "sent_on w a m \<Longrightarrow> more_links w w' \<Longrightarrow> sent_on w' a m"
  by (auto simp: sent_on_def more_links_def)

lemma client_links [simp]:
  "cl_links (tell m w) = cl_links w" "cl_links (remark v m w) = cl_links w" "cl_links (on_disk d w) = cl_links w"
  "cl_links (hang_up a c w) = cl_links w @ [(a, c)]"
  by (simp_all add: tell_def remark_def on_disk_def hang_up_def)

lemma dial_channel_links: "dial_channel X I a trust w = (r, w') \<Longrightarrow> cl_links w' = cl_links w"
  by (auto simp: dial_channel_def split: sum.splits)

lemma remote_connect_links: "remote_connect X I opt acc a w = (r, w') \<Longrightarrow> more_links w w'"
  by (auto simp: remote_connect_def more_links_def split: sum.splits prod.splits option.splits dest: dial_channel_links)

lemma drop_temp_links: "cl_links (drop_temp p w) = cl_links w"
  by (simp add: drop_temp_def)

lemma drop_temps_links: "cl_links (drop_temps ps w) = cl_links w"
proof -
  have "cl_links (fold drop_temp qs w) = cl_links w" for qs
    by (induction qs arbitrary: w) (simp_all add: drop_temp_links)
  then show ?thesis by (simp add: drop_temps_def)
qed

lemma temp_links: "temp root kind w = (p, w') \<Longrightarrow> cl_links w' = cl_links w"
  by (auto simp: temp_def split: prod.splits)

lemma temps_links: "temps root kind w = (ps, w') \<Longrightarrow> cl_links w' = cl_links w"
  by (auto simp: temps_def dest!: temp_links split: prod.splits)

lemma quit_outp: "\<exists>v. outp (remote_quit c) = outp c @ v"
proof -
  obtain ok c1 where s: "ch_send_line c kQuit = (ok, c1)" by (rule prod.exhaust)
  obtain r c2 where r: "ch_read_line c1 = (r, c2)" by (rule prod.exhaust)
  have "outp c2 = outp c1" using read_line_loop_step [of c1 "[]" r c2] r by (simp add: ch_read_line_def)
  with send_line_result [OF s] s r show ?thesis by (auto simp: remote_quit_def)
qed

text \<open>A chunk or file the other side took was sent as a whole.\<close>

lemma put_chunk_sent:
  assumes "remote_put_chunk c d i source = (None, c')" and "fs_read d source = Some b"
  shows "outp c' = outp c @ putchunk_line i (length b) @ newline # b"
proof -
  have "send_upload c d (putchunk_line i (length b)) source (length b) = (None, c')"
    using assms read_some [OF assms(2)] by (simp add: remote_put_chunk_def)
  from send_upload_spec [OF this assms(2) refl] show ?thesis by blast
qed

lemma put_file_sent:
  assumes "remote_put_file c d name source tag = (None, c')" and "fs_read d source = Some b"
  shows "outp c' = outp c @ putfile_line (length b) tag name @ newline # b"
proof -
  have "send_upload c d (putfile_line (length b) tag name) source (length b) = (None, c')"
    using assms read_some [OF assms(2)] by (simp add: remote_put_file_def)
  from send_upload_spec [OF this assms(2) refl] show ?thesis by blast
qed

lemma sent_after_quit:
  assumes "outp c' = outp c @ line @ newline # b"
  shows "sent_on (hang_up address (remote_quit c') w) address (line @ newline # b)"
proof -
  obtain v where "outp (remote_quit c') = outp c' @ v" using quit_outp by blast
  with assms have "outp (remote_quit c') = outp c @ (line @ newline # b) @ v" by simp
  then show ?thesis unfolding sent_on_def by (intro exI conjI) (auto simp: hang_up_def)
qed

section \<open>What distribution records\<close>

text \<open>One recorded shard: it was given to that peer, under the hash of its file.\<close>

definition placed_ok :: "'x openssl \<Rightarrow> (nat \<times> path \<times> string) list \<Rightarrow> client \<Rightarrow> shard_ref \<Rightarrow> bool" where
  "placed_ok E todo w ref \<longleftrightarrow>
     (\<exists>p. (ref_index ref, p, ref_peer ref) \<in> set todo \<and> ref_chunk_id ref = sha256_file_hex E (cl_disk w) p \<and>
       (\<forall>b. fs_read (cl_disk w) p = Some b \<longrightarrow>
         sent_on w (ref_peer ref) (putchunk_line (ref_chunk_id ref) (length b) @ newline # b)))"

lemma placed_ok_Cons: "placed_ok E todo w ref \<Longrightarrow> placed_ok E (x # todo) w ref"
  unfolding placed_ok_def by (metis list.set_intros(2))

lemma place_shards_placed:
  "place_shards X E I opt todo placed w = (Some refs, w') \<Longrightarrow> distinct (map fst todo) \<Longrightarrow>
     more_links w w' \<and>
     (\<exists>new. refs = placed @ new \<and> distinct (map ref_index new) \<and> ref_index ` set new \<subseteq> fst ` set todo \<and>
       (\<forall>ref\<in>set new. placed_ok E todo w' ref))"
proof (induction todo arbitrary: placed w)
  case (Cons x todo)
  obtain i p address where x: "x = (i, p, address)" by (rule prod_cases3)
  let ?id = "sha256_file_hex E (cl_disk w) p"
  have id: "?id \<noteq> []" using Cons.prems(1) x by (auto simp: Let_def split: if_splits)
  have d: "i \<notin> fst ` set todo" "distinct (map fst todo)" using Cons.prems(2) x by simp_all
  have skip: ?case if "place_shards X E I opt todo placed w1 = (Some refs, w')" "more_links w w1" for w1
  proof -
    from Cons.IH [OF that(1) d(2)] obtain new where new: "more_links w1 w'" "refs = placed @ new" "distinct (map ref_index new)"
      "ref_index ` set new \<subseteq> fst ` set todo" "\<forall>ref\<in>set new. placed_ok E todo w' ref" by blast
    have "ref_index ` set new \<subseteq> fst ` set (x # todo)" using new(4) by auto
    moreover have "\<forall>ref\<in>set new. placed_ok E (x # todo) w' ref" using new(5) placed_ok_Cons by blast
    ultimately show ?case using new(1-3) more_links_trans [OF that(2)] by blast
  qed
  obtain r w1 where con: "remote_connect X I opt AccessChunks address w = (r, w1)" by (rule prod.exhaust)
  note w1 = remote_connect_links [OF con] remote_connect_disk [OF con]
  show ?case
  proof (cases r)
    case (Inl e)
    then show ?thesis using Cons.prems(1) x id con w1
      by (intro skip [of "tell (address @ '' unavailable'') w1"]) (simp_all add: Let_def more_links_def)
  next
    case (Inr c)
    obtain f c' where put: "remote_put_chunk c (cl_disk w1) ?id p = (f, c')" by (rule prod.exhaust)
    show ?thesis
    proof (cases f)
      case (Some e)
      then show ?thesis using Cons.prems(1) x id con put Inr w1
        by (intro skip [of "hang_up address c' (tell (address @ '' failed'') w1)"])
          (auto simp: Let_def more_links_def)
    next
      case None
      let ?ref = "\<lparr>ref_index = i, ref_chunk_id = ?id, ref_peer = address\<rparr>"
      let ?w = "tell (address @ '' ok'') (hang_up address (remote_quit c') w1)"
      have rest: "place_shards X E I opt todo (placed @ [?ref]) ?w = (Some refs, w')"
        using Cons.prems(1) x id con put Inr None by (simp add: Let_def)
      from Cons.IH [OF this d(2)] obtain new where
        new: "more_links ?w w'" "refs = (placed @ [?ref]) @ new" "distinct (map ref_index new)"
        "ref_index ` set new \<subseteq> fst ` set todo" "\<forall>ref\<in>set new. placed_ok E todo w' ref" by blast
      have disk: "cl_disk w' = cl_disk w" using place_shards_disk [OF rest] w1(2) by simp
      have "sent_on w' address (putchunk_line ?id (length b) @ newline # b)" if "fs_read (cl_disk w) p = Some b" for b
      proof (rule sent_on_mono [OF _ new(1)])
        have "fs_read (cl_disk w1) p = Some b" using that w1(2) by simp
        from sent_after_quit [OF put_chunk_sent [OF put [unfolded None] this]]
        show "sent_on ?w address (putchunk_line ?id (length b) @ newline # b)" by (simp add: sent_on_def)
      qed
      then have "placed_ok E (x # todo) w' ?ref" using disk by (auto simp: placed_ok_def x)
      moreover have "placed_ok E (x # todo) w' ref" if "ref \<in> set new" for ref
        using new(5) that placed_ok_Cons by blast
      moreover have "more_links w w'" using w1(1) new(1) by (auto simp: more_links_def)
      ultimately show ?thesis using new(2-4) d x by (intro conjI exI [of _ "?ref # new"]) auto
    qed
  qed
qed simp

lemma scratch_work_dir: "p \<in> scratch root \<Longrightarrow> butlast p = root @ [''pending'', ''.work'']"
  by (simp add: scratch_def work_dir_eq)

lemma manifest_path_form:
  assumes "manifest_path root name = Some mp"
  shows "is_safe_name name \<and> mp = root @ [''pending'', name @ kManifestExt]"
proof -
  have safe: "is_safe_name name" and mp: "mp = path_join (pending_dir root) (name @ kManifestExt)"
    using assms by (simp_all add: manifest_path_def split: if_splits)
  have "CHR ''/'' \<notin> set (name @ kManifestExt)" "name @ kManifestExt \<noteq> []"
    using is_safe_name_no_slash [OF safe] by (simp_all add: kManifestExt_def)
  with mp safe show ?thesis by (simp add: path_join_component pending_dir_def)
qed

lemma manifest_path_not_scratch: "manifest_path root name = Some mp \<Longrightarrow> mp \<notin> scratch root"
  by (auto dest!: manifest_path_form scratch_work_dir simp: butlast_append)

definition good_address :: "string \<Rightarrow> bool" where
  "good_address a \<longleftrightarrow> is_word a \<and> newline \<notin> set a"

lemma file_hash_chunk_id: "openssl_ok E \<Longrightarrow> is_safe_chunk_id (file_hash E s)"
  unfolding file_hash_def
  by (rule hash_is_safe_chunk_id) (simp add: sha_finish_def openssl_ok_def split: option.split)

lemma in_zip4:
  "length ps = 4 \<Longrightarrow> length as = 4 \<Longrightarrow> (i, p, a) \<in> set (zip [0..<4] (zip ps as)) \<longleftrightarrow> i < 4 \<and> p = ps ! i \<and> a = as ! i"
  by (auto simp: in_set_zip intro: exI [of _ i])

lemma shard_at_less: "i < 4 \<Longrightarrow> shard_index (shard_at i) = i"
  by (auto simp: shard_at_def less_Suc_eq numeral_eq_Suc)

lemma half_max_nat: "unat half_max = 2 ^ 63 - 1"
  by (simp add: half_max_def)

lemma size_below_half_max: "n < 2 ^ 63 \<Longrightarrow> (of_nat n :: u64) \<le> half_max"
  by (simp add: word_le_nat_alt half_max_nat unat_word_of_nat_64)

lemma distribution_describes:
  assumes "distribute_shards X E I opt name stream tag ps w = (0, w')" and "four_paths ps" and "length (opt_peers opt) = 4"
    and "set ps \<subseteq> scratch (opt_dir opt)" and "stream \<notin> set ps" and "fs_read (cl_disk w) stream = Some c" and "length c < 2 ^ 63"
  obtains mp refs d v where "manifest_path (opt_dir opt) name = Some mp"
    "manifest_write d \<lparr>m_server = opt_server opt, m_name = name, m_stream_size = of_nat (length c),
       m_shard_size = of_nat (half_of c), m_dedup_tag = tag, m_data_shards = kDataShards, m_parity_shards = kParityShards,
       m_shards = refs\<rparr> mp = (Inr (), cl_disk w')"
    "2 \<le> length refs" "refs_describe E refs c"
    "\<forall>ref\<in>set refs. ref_index ref < 4 \<and> ref_peer ref = opt_peers opt ! ref_index ref \<and>
       ref_chunk_id ref = file_hash E (stream_shard c (shard_at (ref_index ref))) \<and>
       sent_on w' (ref_peer ref)
         (putchunk_line (ref_chunk_id ref) (half_of c) @ newline # stream_shard c (shard_at (ref_index ref)))"
proof -
  obtain r d where s: "split_stream (cl_disk w) stream ps = (r, d)" by (rule prod.exhaust)
  then obtain n where n: "r = Inr n" using assms(1) by (cases r) (auto simp: distribute_shards_def)
  note split = split_stream_success [OF assms(2) s [unfolded n] assms(6)]
  have size: "fs_size d stream = Some (length c)"
    using confined_read [OF confined_split_stream [OF s] assms(5)] assms(6) by (simp add: fs_size_def)
  let ?todo = "zip [0..<4] (zip ps (opt_peers opt))"
  obtain q w1 where pl: "place_shards X E I opt ?todo [] (on_disk d w) = (q, w1)" by (rule prod.exhaust)
  then obtain refs where q: "q = Some refs"
    using assms(1) s n by (cases q) (auto simp: distribute_shards_def kTotalShards_def kDataShards_def kParityShards_def Let_def)
  have len: "length ps = 4" using assms(2) by (simp add: four_paths_def)
  have "distinct (map fst ?todo)" using len assms(3) by simp
  from place_shards_placed [OF pl [unfolded q] this]
  have refs: "distinct (map ref_index refs)" "\<forall>ref\<in>set refs. placed_ok E ?todo w1 ref" by auto
  have d1: "cl_disk w1 = d" using place_shards_disk [OF pl] by simp
  have each: "ref_index ref < 4 \<and> ref_peer ref = opt_peers opt ! ref_index ref \<and>
      ref_chunk_id ref = file_hash E (stream_shard c (shard_at (ref_index ref))) \<and>
      sent_on w1 (ref_peer ref)
        (putchunk_line (ref_chunk_id ref) (half_of c) @ newline # stream_shard c (shard_at (ref_index ref)))"
    if "ref \<in> set refs" for ref
  proof -
    let ?i = "ref_index ref"
    have "placed_ok E ?todo w1 ref" using refs(2) that by blast
    then obtain p where "(?i, p, ref_peer ref) \<in> set ?todo" and id: "ref_chunk_id ref = sha256_file_hex E d p"
      and sent: "\<forall>b. fs_read d p = Some b \<longrightarrow> sent_on w1 (ref_peer ref) (putchunk_line (ref_chunk_id ref) (length b) @ newline # b)"
      unfolding placed_ok_def d1 by blast
    then have i: "?i < 4" "p = ps ! ?i" "ref_peer ref = opt_peers opt ! ?i" using in_zip4 [OF len assms(3)] by auto
    have "fs_read d (ps ! shard_index (shard_at ?i)) = Some (stream_shard c (shard_at ?i))"
      using split by (simp add: holds_shards_def)
    then have "fs_read d p = Some (stream_shard c (shard_at ?i))" using i shard_at_less by simp
    with i id sent sha256_file_hex_hash [of d p] show ?thesis by (auto simp: length_stream_shard)
  qed
  obtain mp where mp: "manifest_path (opt_dir opt) name = Some mp" and two: "2 \<le> length refs"
    and m: "manifest_write d \<lparr>m_server = opt_server opt, m_name = name, m_stream_size = of_nat (length c),
       m_shard_size = of_nat (half_of c), m_dedup_tag = tag, m_data_shards = kDataShards, m_parity_shards = kParityShards,
       m_shards = refs\<rparr> mp = (Inr (), cl_disk w')" and links: "cl_links w' = cl_links w1"
    using assms(1) s n split size pl q d1
    by (auto simp: distribute_shards_def Let_def kTotalShards_def kDataShards_def kParityShards_def
        split: if_splits option.splits prod.splits sum.splits)
  have same: "sent_on w' a x = sent_on w1 a x" for a x using links by (simp add: sent_on_def)
  have "refs_describe E refs c" unfolding refs_describe_def using each refs(1) by blast
  then show thesis by (rule that [OF mp m two]) (unfold same, use each in blast)
qed

text \<open>The peer of a recorded shard is the one given for its index, and it was sent that shard.\<close>

definition handed_out :: "client \<Rightarrow> string list \<Rightarrow> string \<Rightarrow> shard_ref \<Rightarrow> bool" where
  "handed_out w peers c ref \<longleftrightarrow> ref_peer ref = peers ! ref_index ref \<and>
     sent_on w (ref_peer ref)
       (putchunk_line (ref_chunk_id ref) (half_of c) @ newline # stream_shard c (shard_at (ref_index ref)))"

lemma distribution_recorded:
  assumes "distribute_to_peers X E I opt name stream tag w = (0, w')" and "is_temp (opt_dir opt) ''stream'' stream"
    and "fs_read (cl_disk w) stream = Some c" and "length c < 2 ^ 63" and "openssl_ok E"
    and "good_address (opt_server opt)" and "\<forall>a\<in>set (opt_peers opt). good_address a"
    and "is_safe_name (skip_spaces name)" and "space \<notin> set tag" and "newline \<notin> set tag"
  shows "\<exists>mp m. manifest_path (opt_dir opt) name = Some mp \<and> manifest_read (cl_disk w') mp = Inr m \<and> describes E m c \<and>
    m_server m = opt_server opt \<and> m_name m = skip_spaces name \<and> m_dedup_tag m = tag \<and> 2 \<le> length (m_shards m) \<and>
    (\<forall>ref\<in>set (m_shards m). handed_out w' (opt_peers opt) c ref)"
proof -
  have peers: "length (opt_peers opt) = 4"
    using assms(1) by (auto simp: distribute_to_peers_def kTotalShards_def kDataShards_def kParityShards_def split: if_splits)
  obtain ps w1 where t: "temps (opt_dir opt) ''shard'' w = (ps, w1)" by (rule prod.exhaust)
  have ps: "four_paths ps" "set ps \<subseteq> scratch (opt_dir opt)" "cl_disk w1 = cl_disk w"
    and "\<forall>p\<in>set ps. \<exists>x. is_temp (opt_dir opt) (''shard'' @ [x]) p"
    using temps_result [OF t] by (simp_all add: four_paths_def)
  then have out: "stream \<notin> set ps" using temp_kinds_differ [OF assms(2)] by fastforce
  obtain code w2 where d: "distribute_shards X E I opt name stream tag ps w1 = (code, w2)" by (rule prod.exhaust)
  have code: "code = 0" and w': "w' = drop_temps ps w2"
    using assms(1) t d peers by (simp_all add: distribute_to_peers_def kTotalShards_def kDataShards_def kParityShards_def)
  have "fs_read (cl_disk w1) stream = Some c" using assms(3) ps(3) by simp
  from distribution_describes [OF d [unfolded code] ps(1) peers ps(2) out this assms(4)]
  obtain mp refs e where mp: "manifest_path (opt_dir opt) name = Some mp"
    and wr: "manifest_write e \<lparr>m_server = opt_server opt, m_name = name, m_stream_size = of_nat (length c),
       m_shard_size = of_nat (half_of c), m_dedup_tag = tag, m_data_shards = kDataShards, m_parity_shards = kParityShards,
       m_shards = refs\<rparr> mp = (Inr (), cl_disk w2)" (is "manifest_write e ?m mp = _")
    and two: "2 \<le> length refs" and desc: "refs_describe E refs c"
    and each: "\<forall>ref\<in>set refs. ref_index ref < 4 \<and> ref_peer ref = opt_peers opt ! ref_index ref \<and>
       ref_chunk_id ref = file_hash E (stream_shard c (shard_at (ref_index ref))) \<and>
       sent_on w2 (ref_peer ref)
         (putchunk_line (ref_chunk_id ref) (half_of c) @ newline # stream_shard c (shard_at (ref_index ref)))"
    by metis
  have "shard_ref_ok ref" if "ref \<in> set refs" for ref
  proof -
    have "opt_peers opt ! ref_index ref \<in> set (opt_peers opt)" using each that peers by simp
    with each that assms(7) file_hash_chunk_id [OF assms(5)] show ?thesis
      by (force simp: shard_ref_ok_def good_address_def)
  qed
  moreover have "half_of c < 2 ^ 63" using assms(4) by (simp add: half_of_def)
  ultimately have ok: "manifest_ok ?m"
    using assms(4,6,8-10) manifest_path_form [OF mp] size_below_half_max [of "length c"] size_below_half_max [of "half_of c"]
    by (auto simp: manifest_ok_def good_address_def list_all_iff kDataShards_def kParityShards_def)
  have "mp \<notin> set ps" using manifest_path_not_scratch [OF mp] ps(2) by blast
  then have "fs_read (cl_disk w') mp = fs_read (cl_disk w2) mp"
    using confined_read [OF drop_temps_confined] w' by simp
  from manifest_reads_back [OF ok wr this]
  have read: "manifest_read (cl_disk w') mp = Inr (?m\<lparr>m_name := skip_spaces name\<rparr>)" by simp
  have same: "sent_on w' a x = sent_on w2 a x" for a x by (simp add: sent_on_def w' drop_temps_links)
  have given: "\<forall>ref\<in>set refs. handed_out w' (opt_peers opt) c ref"
    unfolding handed_out_def same using each by blast
  have "describes E (?m\<lparr>m_name := skip_spaces name\<rparr>) c" using desc assms(4) by (simp add: describes_def)
  with mp read two given show ?thesis
    by (intro exI [of _ mp] exI [of _ "?m\<lparr>m_name := skip_spaces name\<rparr>"]) simp
qed

section \<open>Getting it back\<close>

lemma manifest_read_same: "fs_read d p = fs_read d' p \<Longrightarrow> manifest_read d p = manifest_read d' p"
  by (simp add: manifest_read_def)

lemma manifest_indices: "manifest_read d p = Inr m \<Longrightarrow> \<forall>ref\<in>set (m_shards m). ref_index ref < 4"
  by (auto simp: manifest_read_def Let_def empty_manifest_def list_all_iff less_Suc_eq_le numeral_eq_Suc
      dest!: read_facts_shards_safe split: option.splits list.splits if_splits sum.splits)

lemma open_file_writable:
  assumes "open_file E d sp out pw = (Inr (), d')" and "faults d = []"
  shows "writable d out"
proof (rule ccontr)
  assume "\<not> writable d out"
  then have "fs_create d out = (False, d)"
    using assms(2) by (auto simp: writable_def fs_create_def fs_simps)
  with assms(1) show False
    by (auto simp: open_file_def Let_def split: option.splits if_splits sum.splits prod.splits)
qed

lemma unseal_to_opens:
  assumes "unseal_to E opt stream destination w = (0, w')"
    and "\<forall>e. fst (resolve_passphrase e (opt_key opt) (cl_con w)) = Inr pw"
  shows "open_file E (cl_disk w) stream destination pw = (Inr (), cl_disk w')"
proof -
  obtain con where "resolve_passphrase (cl_disk w) (opt_key opt) (cl_con w) = (Inr pw, con)"
    using assms(2) by (metis prod.collapse)
  with assms(1) show ?thesis
    by (cases "open_file E (cl_disk w) stream destination pw") (auto simp: unseal_to_def Let_def split: if_splits)
qed

lemma recovered_file:
  assumes "openssl_ok E" and "seal_file E d pool source stream pw = (Inr tag, pool', d')"
    and "fs_read d source = Some txt" and "length txt < 2 ^ 63" and "fs_read d' stream = Some s"
    and "manifest_path (opt_dir opt) name = Some mp" and "manifest_read (cl_disk w) mp = Inr m" and "describes E m s"
    and "no_forgery E I s" and "faults (cl_disk w) = []"
    and "\<forall>e. fst (resolve_passphrase e (opt_key opt) (cl_con w)) = Inr pw" and "destination \<notin> scratch (opt_dir opt)"
    and "recover_from_peers X E I opt name destination w = (0, w')"
  shows "fs_read (cl_disk w') destination = Some txt"
proof -
  obtain p w1 where t: "temp (opt_dir opt) ''stream'' (tell ''Rebuilding from peers'' w) = (p, w1)" by (rule prod.exhaust)
  have p: "is_temp (opt_dir opt) ''stream'' p" and w1: "cl_disk w1 = cl_disk w" "cl_con w1 = cl_con w"
    using temp_result [OF t] temp_flags [OF t] by (simp_all add: flags_def tell_def)
  obtain ok w2 where r: "rebuild_stream X E I opt True m p w1 = (ok, w2)" by (rule prod.exhaust)
  obtain code w3 where u: "unseal_to E opt p destination w2 = (code, w3)" by (rule prod.exhaust)
  have ok: ok and code: "code = 0" and w': "w' = drop_temp p w3"
    using assms(13,6,7) t r u by (auto simp: recover_from_peers_def split: if_splits)
  have f1: "faults (cl_disk w1) = []" using w1 assms(10) by simp
  from rebuilt_stream [OF r [simplified ok] assms(8,9) f1 p]
  have w2: "fs_read (cl_disk w2) p = Some s" "faults (cl_disk w2) = []" by simp_all
  have "\<forall>e. fst (resolve_passphrase e (opt_key opt) (cl_con w2)) = Inr pw"
    using assms(11) rebuild_stream_flags [OF r] w1(2) by (simp add: flags_def)
  from unseal_to_opens [OF u [unfolded code] this]
  have o: "open_file E (cl_disk w2) p destination pw = (Inr (), cl_disk w3)" .
  from open_file_sealed [OF assms(1-4) w2(2), of p destination] w2(1) assms(5) open_file_writable [OF o w2(2)] o
  have "cl_disk w3 = put (cl_disk w2) destination txt" by simp
  moreover have "destination \<noteq> p" using assms(12) is_temp_scratch [OF p] by blast
  ultimately show ?thesis
    using confined_read [OF drop_temp_confined [of p w3], of destination] w' by (simp add: fs_simps)
qed

text \<open>C4: what was left with peers comes back as the original file.\<close>

theorem peers_give_the_file_back:
  assumes "openssl_ok E" and "seal_file E d pool source stream pw = (Inr tag, pool', cl_disk w)"
    and "fs_read d source = Some txt" and "length txt < 2 ^ 63"
    and "fs_read (cl_disk w) stream = Some s" and "length s < 2 ^ 63" and "is_temp (opt_dir opt) ''stream'' stream"
    and "good_address (opt_server opt)" and "\<forall>a\<in>set (opt_peers opt). good_address a" and "is_safe_name (skip_spaces name)"
    \<comment> \<open>the sealed stream goes to peers\<close>
    and "distribute_to_peers X E I opt name stream tag w = (0, w1)"
    \<comment> \<open>later, the same working directory, the pending record as it was, and peers of any kind\<close>
    and "opt_dir opt2 = opt_dir opt"
    and "\<And>mp. manifest_path (opt_dir opt) name = Some mp \<Longrightarrow> fs_read (cl_disk w2) mp = fs_read (cl_disk w1) mp"
    and "faults (cl_disk w2) = []" and "no_forgery E J s"
    and "\<forall>e. fst (resolve_passphrase e (opt_key opt2) (cl_con w2)) = Inr pw" and "destination \<notin> scratch (opt_dir opt)"
    and "recover_from_peers Y E J opt2 name destination w2 = (0, w3)"
  shows "fs_read (cl_disk w3) destination = Some txt"
proof -
  have "tag = to_hex bs \<Longrightarrow> space \<notin> set tag \<and> newline \<notin> set tag" for bs
    using to_hex_tag_word [of bs] by (auto simp: tag_word_def one_line_def)
  then have tag: "space \<notin> set tag" "newline \<notin> set tag"
    using seal_file_success [OF assms(2,3)] by (auto simp: plain_tag_def)
  obtain mp m where mp: "manifest_path (opt_dir opt) name = Some mp" and "manifest_read (cl_disk w1) mp = Inr m" "describes E m s"
    using distribution_recorded [OF assms(11,7,5,6,1,8,9,10) tag] by blast
  moreover from this have "manifest_read (cl_disk w2) mp = Inr m" using assms(13) [OF mp] by (simp add: manifest_read_def)
  ultimately show ?thesis
    using recovered_file [OF assms(1-5) _ _ _ assms(15,14,16) _ assms(18)] assms(12,17) by simp
qed

section \<open>Two peers that take a shard are enough\<close>

definition takes_chunks :: "('c, 'k) x509 \<Rightarrow> 'a internet \<Rightarrow> options \<Rightarrow> string \<Rightarrow> bool" where
  "takes_chunks X I opt address \<longleftrightarrow> welcomes X I opt address (kOk @ [newline])"

lemma put_chunk_ok:
  assumes "calm c" and "inp c = kOk @ [newline]" and "fs_read d p = Some b"
  shows "\<exists>c'. remote_put_chunk c d i p = (None, c')"
  using send_upload_calm [of c d p b "[]" "putchunk_line i (length b)"] assms read_some [OF assms(3)]
  by (auto simp: remote_put_chunk_def)

lemma place_shards_runs:
  assumes "openssl_ok E" and "presentable (opt_cred opt) AccessChunks"
  shows "\<forall>(i, p, a)\<in>set todo. fs_read (cl_disk w) p \<noteq> None \<Longrightarrow>
    \<exists>refs w'. place_shards X E I opt todo placed w = (Some refs, w') \<and> cl_disk w' = cl_disk w \<and>
      length placed + length (filter (\<lambda>(i, p, a). takes_chunks X I opt a) todo) \<le> length refs"
proof (induction todo arbitrary: placed w)
  case (Cons x todo)
  obtain i p a where x: "x = (i, p, a)" by (rule prod_cases3)
  then obtain b where b: "fs_read (cl_disk w) p = Some b" using Cons.prems by auto
  let ?id = "sha256_file_hex E (cl_disk w) p"
  have "length (file_hash E b) = 64"
    using file_hash_chunk_id [OF assms(1), of b] by (simp add: is_safe_chunk_id_def split: if_splits)
  then have id: "?id \<noteq> []" using sha256_file_hex_hash [OF b, of E] by auto
  have go_on: ?case if go: "place_shards X E I opt (x # todo) placed w = place_shards X E I opt todo more w1"
    "cl_disk w1 = cl_disk w" "length placed + (if takes_chunks X I opt a then 1 else 0) \<le> length more" for more w1
  proof -
    obtain refs w' where "place_shards X E I opt todo more w1 = (Some refs, w')" "cl_disk w' = cl_disk w1"
        "length more + length (filter (\<lambda>(i, p, a). takes_chunks X I opt a) todo) \<le> length refs"
      using Cons.IH [of w1 more] Cons.prems go(2) by auto
    with go x show ?case by (intro exI [of _ refs] exI [of _ w']) (simp del: place_shards.simps split: if_split_asm)
  qed
  obtain r w1 where con: "remote_connect X I opt AccessChunks a w = (r, w1)" by (rule prod.exhaust)
  note d1 = remote_connect_disk [OF con]
  show ?case
  proof (cases "takes_chunks X I opt a")
    case True
    obtain c w2 where con': "remote_connect X I opt AccessChunks a w = (Inr c, w2)" "calm c" "inp c = kOk @ [newline]"
        "cl_disk w2 = cl_disk w"
      by (rule remote_connect_ok [OF True [unfolded takes_chunks_def] assms(2), of w])
    then obtain c' where "remote_put_chunk c (cl_disk w2) ?id p = (None, c')" using put_chunk_ok [OF con'(2,3)] b by metis
    with con' id x show ?thesis
      by (intro go_on [of "placed @ [\<lparr>ref_index = i, ref_chunk_id = ?id, ref_peer = a\<rparr>]"
            "tell (a @ '' ok'') (hang_up a (remote_quit c') w2)"]) (simp_all add: Let_def)
  next
    case False
    show ?thesis
    proof (cases r)
      case (Inl e)
      with con id x d1 False show ?thesis
        by (intro go_on [of placed "tell (a @ '' unavailable'') w1"]) (simp_all add: Let_def)
    next
      case (Inr c)
      obtain f c' where put: "remote_put_chunk c (cl_disk w1) ?id p = (f, c')" by (rule prod.exhaust)
      show ?thesis
      proof (cases f)
        case None
        with con id x d1 False Inr put show ?thesis
          by (intro go_on [of "placed @ [\<lparr>ref_index = i, ref_chunk_id = ?id, ref_peer = a\<rparr>]"
                "tell (a @ '' ok'') (hang_up a (remote_quit c') w1)"]) (simp_all add: Let_def)
      next
        case (Some e)
        with con id x d1 False Inr put show ?thesis
          by (intro go_on [of placed "hang_up a c' (tell (a @ '' failed'') w1)"]) (simp_all add: Let_def)
      qed
    qed
  qed
qed simp

lemma manifest_write_ok:
  "faults d = [] \<Longrightarrow> writable d p \<Longrightarrow> manifest_write d m p = (Inr (), put d p (unlines (manifest_lines m)))"
  using out_lines_ok [of d p "manifest_lines m" "[]"]
  by (simp add: manifest_write_def create_ok writable_def out_flush_def flush_ok fs_simps)

lemma distribution_runs:
  assumes "openssl_ok E" and "presentable (opt_cred opt) AccessChunks" and "length (opt_peers opt) = 4"
    and "2 \<le> length (filter (takes_chunks X I opt) (opt_peers opt))"
    and "is_temp (opt_dir opt) ''stream'' stream" and "fs_read (cl_disk w) stream = Some c" and "faults (cl_disk w) = []"
    and "\<forall>p\<in>scratch (opt_dir opt). writable (cl_disk w) p"
    and "manifest_path (opt_dir opt) name = Some mp" and "writable (cl_disk w) mp"
  shows "fst (distribute_to_peers X E I opt name stream tag w) = 0"
proof -
  obtain ps w1 where t: "temps (opt_dir opt) ''shard'' w = (ps, w1)" by (rule prod.exhaust)
  have ps: "four_paths ps" "set ps \<subseteq> scratch (opt_dir opt)" "cl_disk w1 = cl_disk w" "length ps = 4"
    and "\<forall>p\<in>set ps. \<exists>x. is_temp (opt_dir opt) (''shard'' @ [x]) p"
    using temps_result [OF t] by (simp_all add: four_paths_def)
  then have out: "stream \<notin> set ps" using temp_kinds_differ [OF assms(5)] by fastforce
  have "list_all (writable (cl_disk w1)) ps" using ps assms(8) by (auto simp: list_all_iff)
  then obtain d where d: "split_stream (cl_disk w1) stream ps = (Inr (half_of c), d)" "same_elsewhere ps (cl_disk w1) d"
      "holds_shards d ps (stream_shard c)"
    using split_stream_ok [OF ps(1), of "cl_disk w1" stream c] assms(6,7) ps(3) by auto
  then have d': "faults d = []" "writable d mp" using assms(7,10) ps(3) by (simp_all add: same_elsewhere_def writable_def)
  have all: "\<forall>s. fs_read d (ps ! shard_index s) \<noteq> None" using d(3) by (simp add: holds_shards_def)
  have "fs_read d (ps ! i) \<noteq> None" if "i < 4" for i
    using all shard_at_less [OF that] by metis
  then have "\<forall>(i, p, a)\<in>set (zip [0..<4] (zip ps (opt_peers opt))). fs_read (cl_disk (on_disk d w1)) p \<noteq> None"
    using in_zip4 [OF ps(4) assms(3)] by auto
  from place_shards_runs [OF assms(1,2) this, of X I "[]"] obtain refs w2 where
    pl: "place_shards X E I opt (zip [0..<4] (zip ps (opt_peers opt))) [] (on_disk d w1) = (Some refs, w2)"
      "cl_disk w2 = d"
    and n: "length (filter (\<lambda>(i, p, a). takes_chunks X I opt a) (zip [0..<4] (zip ps (opt_peers opt)))) \<le> length refs"
    by auto
  have "map (snd \<circ> snd) (zip [0..<4] (zip ps (opt_peers opt))) = opt_peers opt"
    using ps(4) assms(3) by (simp flip: map_map)
  then have "filter (takes_chunks X I opt) (opt_peers opt) =
      map (snd \<circ> snd) (filter (\<lambda>(i, p, a). takes_chunks X I opt a) (zip [0..<4] (zip ps (opt_peers opt))))"
    using filter_map [of "takes_chunks X I opt" "snd \<circ> snd" "zip [0..<4] (zip ps (opt_peers opt))"]
    by (simp add: comp_def case_prod_beta')
  then have "2 \<le> length refs" using assms(4) n by (metis (no_types, lifting) le_trans length_map)
  then show ?thesis
    using t d(1) pl assms(3,9) manifest_write_ok [OF d']
    by (simp add: distribute_to_peers_def distribute_shards_def Let_def kTotalShards_def kDataShards_def kParityShards_def
        split: prod.split)
qed

section \<open>Examples\<close>

text \<open>OpenSSL with a digest that tells the shards of one stream from everything else.\<close>

definition stamp :: "string \<Rightarrow> bytes \<Rightarrow> bytes" where
  "stamp s m = replicate 32 (if m = bytes_of (stream_shard s D0) then 0 else if m = bytes_of (stream_shard s D1) then 1
     else if m = bytes_of (stream_shard s P0) then 2 else if m = bytes_of (stream_shard s P1) then 3 else 4)"

definition stamped :: "string \<Rightarrow> mini_ctx openssl" where
  "stamped s = mini_openssl\<lparr>sha256_of := stamp s\<rparr>"

lemma other_digest_fields:
  fixes E :: "'x openssl"
  defines "F \<equiv> \<lambda>f. E\<lparr>sha256_of := f\<rparr>"
  shows "pbkdf2_hmac_sha256 (F f) = pbkdf2_hmac_sha256 E" "evp_ctx_new (F f) = evp_ctx_new E" "evp_init (F f) = evp_init E"
    "evp_set_ivlen (F f) = evp_set_ivlen E" "evp_key_iv (F f) = evp_key_iv E" "evp_aad (F f) = evp_aad E"
    "evp_update (F f) = evp_update E" "evp_set_tag (F f) = evp_set_tag E" "evp_final (F f) = evp_final E"
    "evp_get_tag (F f) = evp_get_tag E" "mac_available (F f) = mac_available E" "hmac_sha256_of (F f) = hmac_sha256_of E"
  by (simp_all add: F_def)

lemma other_digest:
  fixes E :: "'x openssl"
  shows "derive_key (E\<lparr>sha256_of := f\<rparr>) = derive_key E" "derive_dedup_key (E\<lparr>sha256_of := f\<rparr>) = derive_dedup_key E"
    "aes_gcm_seal (E\<lparr>sha256_of := f\<rparr>) = aes_gcm_seal E" "aes_gcm_open (E\<lparr>sha256_of := f\<rparr>) = aes_gcm_open E"
    "hmac_new (E\<lparr>sha256_of := f\<rparr>) = hmac_new E" "hmac_finish (E\<lparr>sha256_of := f\<rparr>) = hmac_finish E"
  unfolding fun_eq_iff derive_dedup_key_def derive_key_def aes_gcm_seal_def aes_gcm_open_def hmac_new_def hmac_finish_def
    feed_aad_def feed_text_def other_digest_fields by simp_all

lemma stamped_ok: "openssl_ok (stamped s)"
  using mini_openssl_ok unfolding openssl_ok_def stamped_def other_digest by (simp add: stamp_def)

lemma stamped_works: "openssl_works (stamped s)"
  using mini_openssl_works unfolding openssl_works_def stamped_def other_digest by simp

lemma seal_loop_other_digest:
  "seal_loop (E\<lparr>sha256_of := f\<rparr>) key raw n sp i k j t pool out = seal_loop E key raw n sp i k j t pool out"
proof (induction "n - k" arbitrary: i k j t pool out rule: less_induct)
  case less
  show ?case
  proof (cases "k < n")
    case False
    then show ?thesis by (subst (1 2) seal_loop.simps) simp
  next
    case True
    then have "n - (k + min (unat kBlockSize) (n - k)) < n - k" by (simp add: unat_kBlockSize)
    note IH = less.hyps [OF this]
    show ?thesis by (subst (1 2) seal_loop.simps) (unfold other_digest Let_def IH, rule refl)
  qed
qed

lemma seal_file_other_digest: "seal_file (E\<lparr>sha256_of := f\<rparr>) d pool pp sp pw = seal_file E d pool pp sp pw"
  unfolding seal_file_def other_digest seal_loop_other_digest ..

lemma stamped_hash: "file_hash (stamped s) x = to_hex (stamp s (bytes_of x))"
  by (simp add: file_hash_def sha_new_def feed_buffers_sha kIoBufferSize_def sha_finish_def stamped_def mini_openssl_def)

lemma stamp_unique: "stamp s (bytes_of x) = stamp s (bytes_of (stream_shard s t)) \<Longrightarrow> x = stream_shard s t"
  by (cases t) (auto simp: stamp_def split: if_splits)

lemma stamped_no_forgery: "no_forgery (stamped s) I s"
  by (auto simp: no_forgery_def stamped_hash to_hex_inj dest: stamp_unique)

text \<open>Recovering goes through when two of the peers answer.\<close>

lemma recover_runs:
  assumes "manifest_path (opt_dir opt) name = Some mp" and "manifest_read (cl_disk w) mp = Inr m" and "describes E m s"
    and "no_forgery E I s" and "presentable (opt_cred opt) AccessChunks" and "half_of s \<le> unat kMaxTransferSize"
    and "faults (cl_disk w) = []" and "\<forall>p\<in>scratch (opt_dir opt). writable (cl_disk w) p"
    and "a \<in> set (m_shards m)" and "b \<in> set (m_shards m)" and "ref_index a \<noteq> ref_index b"
    and "gives_back X E I opt s a" and "gives_back X E I opt s b"
    and "\<forall>e. fst (resolve_passphrase e (opt_key opt) (cl_con w)) = Inr pw" and "writable (cl_disk w) destination"
    and "\<And>e q. faults e = [] \<Longrightarrow> fs_read e q = Some s \<Longrightarrow> writable e destination \<Longrightarrow> fst (open_file E e q destination pw) = Inr ()"
  shows "fst (recover_from_peers X E I opt name destination w) = 0"
proof -
  obtain p w1 where t: "temp (opt_dir opt) ''stream'' (tell ''Rebuilding from peers'' w) = (p, w1)" by (rule prod.exhaust)
  have p: "is_temp (opt_dir opt) ''stream'' p" and w1: "cl_disk w1 = cl_disk w" "cl_con w1 = cl_con w"
    using temp_result [OF t] temp_flags [OF t] by (simp_all add: flags_def tell_def)
  have w1': "faults (cl_disk w1) = []" "\<forall>p\<in>scratch (opt_dir opt). writable (cl_disk w1) p" using assms(7,8) w1 by simp_all
  obtain w2 where r: "rebuild_stream X E I opt True m p w1 = (True, w2)"
    using rebuild_runs [OF assms(3-6) w1'(1) p w1'(2) assms(9-13), of True] by (cases "rebuild_stream X E I opt True m p w1") simp
  from rebuilt_stream [OF r assms(3,4) w1'(1) p] have w2: "fs_read (cl_disk w2) p = Some s" "faults (cl_disk w2) = []"
    "dirs (cl_disk w2) = dirs (cl_disk w)" using w1 by simp_all
  obtain con where con: "resolve_passphrase (cl_disk w2) (opt_key opt) (cl_con w2) = (Inr pw, con)"
    using spec [OF assms(14), of "cl_disk w2"] rebuild_stream_flags [OF r] w1(2)
    by (cases "resolve_passphrase (cl_disk w2) (opt_key opt) (cl_con w)") (simp add: flags_def)
  have "writable (cl_disk w2) destination" using assms(15) w2(3) by (simp add: writable_def)
  from assms(16) [OF w2(2,1) this] obtain d where "open_file E (cl_disk w2) p destination pw = (Inr (), d)"
    by (metis prod.collapse)
  with con have "fst (unseal_to E opt p destination w2) = 0" by (simp add: unseal_to_def Let_def)
  moreover have "fs_exists (cl_disk w) mp"
    using assms(2) by (auto simp: manifest_read_def dest: read_some split: option.splits)
  ultimately show ?thesis using assms(1,2) t r
    by (cases "unseal_to E opt p destination w2") (simp add: recover_from_peers_def)
qed

definition base_disk :: disk where
  "base_disk = put (empty_disk [[], [''home'', ''pending''], work_dir [''home'']]) [''a''] ''hi''"

definition client_with :: "disk \<Rightarrow> client" where
  "client_with d = example_client\<lparr>cl_disk := d, cl_con := \<lparr>con_env = Some ''pw'', con_tty = False, con_lines = []\<rparr>\<rparr>"

definition reply_net :: "(string \<Rightarrow> string) \<Rightarrow> nat internet" where
  "reply_net f = \<lparr>net_at = \<lambda>k. example_network, link_at = \<lambda>k a. quiet (greeting @ f a)\<rparr>"

lemma base_disk_fields: "faults base_disk = []" "fs_read base_disk [''a''] = Some ''hi''"
  "dirs base_disk = [[], [''home'', ''pending''], [''home'', ''pending'', ''.work'']]"
  by (simp_all add: base_disk_def fs_simps work_dir_eq)

lemma client_with_fields: "cl_disk (client_with d) = d"
  "fst (resolve_passphrase e (opt_key example_options) (cl_con (client_with d))) = Inr ''pw''"
  by (simp_all add: client_with_def resolve_passphrase_def example_options_def env_value_def strip_trailing_newline_def
      line_end_def)

lemma longer_path: "p \<noteq> [] \<Longrightarrow> butlast p = [''home'', ''pending'', ''.work''] \<Longrightarrow> length p = 4"
proof -
  assume "p \<noteq> []" and b: "butlast p = [''home'', ''pending'', ''.work'']"
  moreover have "length p - 1 = 3" using length_butlast [of p] by (simp add: b)
  ultimately show "length p = 4" by (cases "length p") simp_all
qed

lemma scratch_writable: "dirs d = dirs base_disk \<Longrightarrow> p \<in> scratch [''home''] \<Longrightarrow> writable d p"
  by (auto simp: scratch_def writable_def base_disk_fields work_dir_eq dest: longer_path)

lemma example_welcomes:
  "a \<in> set (opt_server example_options # opt_peers example_options) \<Longrightarrow> welcomes example_x509 (reply_net f) example_options a (f a)"
  by (auto simp: welcomes_def dials_def reply_net_def example_options_def dial_def split_address_def example_network_def
      connect_with_timeout_def nothing_held_def)

lemma example_distributed:
  assumes "fs_read (cl_disk w) example_stream = Some s" and "w = client_with (put base_disk example_stream s)"
  shows "\<exists>w1. distribute_to_peers example_x509 (stamped s) (reply_net (\<lambda>a. kOk @ [newline])) example_options ''notes'' example_stream
    tag w = (0, w1)"
proof -
  let ?d = "put base_disk example_stream s" and ?opt = example_options and ?mp = "[''home'', ''pending'', ''notes.manifest'']"
  have mp: "manifest_path (opt_dir ?opt) ''notes'' = Some ?mp"
    by (simp add: manifest_path_def example_options_def pending_dir_def path_join_component kManifestExt_def is_safe_name_def
        forbidden_char_def kBackslash_code)
  have "filter (takes_chunks example_x509 (reply_net (\<lambda>a. kOk @ [newline])) ?opt) (opt_peers ?opt) = opt_peers ?opt"
    using example_welcomes [where f = "\<lambda>a. kOk @ [newline]"] by (intro filter_True) (simp add: takes_chunks_def)
  moreover have "\<forall>p\<in>scratch (opt_dir ?opt). writable (cl_disk w) p"
    using scratch_writable [of ?d] assms(2) by (simp add: example_options_def client_with_fields fs_simps)
  ultimately have "fst (distribute_to_peers example_x509 (stamped s) (reply_net (\<lambda>a. kOk @ [newline])) ?opt ''notes'' example_stream tag w) = 0"
    by (intro distribution_runs [OF stamped_ok _ _ _ example_temp assms(1) _ _ mp])
      (simp_all add: example_options_def presentable_def assms(2) client_with_fields fs_simps writable_def base_disk_fields)
  then show ?thesis by (metis prod.collapse)
qed

text \<open>The peers of \<open>example_options\<close>, each giving back its shard of \<open>s\<close>.\<close>

definition peer_index :: "string \<Rightarrow> nat" where
  "peer_index a = (if a = ''a:1'' then 0 else if a = ''b:1'' then 1 else if a = ''c:1'' then 2 else 3)"

definition returning :: "string \<Rightarrow> nat internet" where
  "returning s = reply_net (\<lambda>a. data_reply (stream_shard s (shard_at (peer_index a))))"

lemma reply_gives_back:
  assumes "ref_index ref < 4" and "ref_peer ref = opt_peers example_options ! ref_index ref"
    and "\<And>a. a \<in> set (opt_peers example_options) \<Longrightarrow> f a = data_reply (stream_shard s (shard_at (peer_index a)))"
  shows "gives_back example_x509 E (reply_net f) example_options s ref"
proof -
  have "peer_index (ref_peer ref) = ref_index ref" "ref_peer ref \<in> set (opt_peers example_options)"
    using assms(1,2) by (auto simp: peer_index_def example_options_def less_Suc_eq numeral_eq_Suc)
  with assms(1,3) example_welcomes [of "ref_peer ref" f] show ?thesis by (simp add: gives_back_def keeps_chunk_def)
qed

lemma two_members:
  assumes "2 \<le> length xs" and "distinct (map f xs)"
  obtains a b where "a \<in> set xs" and "b \<in> set xs" and "f a \<noteq> f b"
proof (cases xs rule: list.exhaust)
  case (Cons a ys)
  with assms obtain b zs where "ys = b # zs" by (cases ys) auto
  with Cons assms that [of a b] show thesis by auto
qed (use assms in simp)

lemma peers_give_the_file_back_witness:
  "\<exists>s w w'. recover_from_peers example_x509 (stamped s) (returning s) example_options ''notes'' [''out''] w = (0, w') \<and>
     fs_read (cl_disk w') [''out''] = Some ''hi''"
proof -
  let ?opt = example_options and ?pw = "''pw''"
  have "writable base_disk example_stream" by (simp add: writable_def base_disk_fields work_dir_eq)
  then obtain tag pool' s where s: "seal_file mini_openssl base_disk (replicate 64 5) [''a''] example_stream ?pw =
      (Inr tag, pool', put base_disk example_stream s)"
    using seal_file_succeeds [OF mini_openssl_ok mini_openssl_works base_disk_fields(2,1), of example_stream "replicate 64 5" ?pw]
    by (auto simp: kSaltLen_def kIvLen_def)
  let ?E = "stamped s" and ?d1 = "put base_disk example_stream s"
  let ?w = "client_with ?d1"
  have seal: "seal_file ?E base_disk (replicate 64 5) [''a''] example_stream ?pw = (Inr tag, pool', cl_disk ?w)"
    using s by (simp add: stamped_def seal_file_other_digest client_with_fields)
  have rd: "fs_read (cl_disk ?w) example_stream = Some s" by (simp add: client_with_fields fs_simps)
  from sealed_stream_length [OF stamped_ok seal base_disk_fields(2) rd]
  have len: "length s < 2 ^ 63" "half_of s \<le> unat kMaxTransferSize"
    by (simp_all add: kHeaderLen_def kSaltLen_def unat_kBlockSize kMaxTransferSize_def half_of_def)
  obtain w1 where w1: "distribute_to_peers example_x509 ?E (reply_net (\<lambda>a. kOk @ [newline])) ?opt ''notes'' example_stream
      tag ?w = (0, w1)"
    using example_distributed [OF rd refl] by blast
  have tag: "space \<notin> set tag \<and> newline \<notin> set tag"
    using seal_file_success [OF seal base_disk_fields(2)] to_hex_tag_word
    by (auto simp: plain_tag_def tag_word_def one_line_def)
  have good: "good_address (opt_server ?opt)" "\<forall>a\<in>set (opt_peers ?opt). good_address a" "is_safe_name (skip_spaces ''notes'')"
    by (auto simp: example_options_def good_address_def is_word_def skip_spaces_def is_safe_name_def forbidden_char_def kBackslash_code)
  obtain mp m where mp: "manifest_path (opt_dir ?opt) ''notes'' = Some mp" and m: "manifest_read (cl_disk w1) mp = Inr m"
    and desc: "describes ?E m s" and two: "2 \<le> length (m_shards m)"
    and handed: "\<forall>ref\<in>set (m_shards m). handed_out w1 (opt_peers ?opt) s ref"
    using distribution_recorded [OF w1 example_temp rd len(1) stamped_ok good(1,2,3)] tag by blast
  then obtain kept where kept: "fs_read (cl_disk w1) mp = Some kept" by (auto simp: manifest_read_def split: option.splits)
  let ?w2 = "client_with (put base_disk mp kept)"
  have m2: "manifest_read (cl_disk ?w2) mp = Inr m"
    using m kept manifest_read_same [of "cl_disk w1" mp "cl_disk ?w2"] by (simp add: client_with_fields fs_simps)
  have gives: "gives_back example_x509 ?E (returning s) ?opt s ref" if "ref \<in> set (m_shards m)" for ref
    unfolding returning_def using handed that manifest_indices [OF m]
    by (intro reply_gives_back) (auto simp: handed_out_def)
  obtain a b where ab: "a \<in> set (m_shards m)" "b \<in> set (m_shards m)" "ref_index a \<noteq> ref_index b"
    by (rule two_members [OF two]) (use desc in \<open>auto simp: describes_def refs_describe_def\<close>)
  have opens: "fst (open_file ?E e q [''out''] ?pw) = Inr ()"
    if "faults e = []" "fs_read e q = Some s" "writable e [''out'']" for e q
    using open_file_sealed [OF stamped_ok seal base_disk_fields(2) _ that(1) _ that(3)] that(2) rd by simp
  have env: "\<forall>e. fst (resolve_passphrase e (opt_key ?opt) (cl_con ?w2)) = Inr ?pw" by (simp add: client_with_fields)
  have "fst (recover_from_peers example_x509 ?E (returning s) ?opt ''notes'' [''out''] ?w2) = 0"
    by (rule recover_runs [OF mp m2 desc stamped_no_forgery _ len(2) _ _ ab gives [OF ab(1)] gives [OF ab(2)] env _ opens])
      (use scratch_writable [of "put base_disk mp kept"] in
        \<open>simp_all add: client_with_fields base_disk_fields fs_simps example_options_def writable_def presentable_def\<close>)
  then obtain w3 where w3: "recover_from_peers example_x509 ?E (returning s) ?opt ''notes'' [''out''] ?w2 = (0, w3)"
    by (metis prod.collapse)
  have "fs_read (cl_disk w3) [''out''] = Some ''hi''"
    by (rule peers_give_the_file_back [OF stamped_ok seal base_disk_fields(2) _ rd len(1) example_temp good w1 refl _ _ stamped_no_forgery env _ w3])
      (use mp kept in \<open>auto simp: client_with_fields base_disk_fields fs_simps example_options_def dest: scratch_work_dir\<close>)
  with w3 show ?thesis by blast
qed

end
