(* ===== verification/Relay.thy ===== *)
theory Relay
  imports Pending
begin

text \<open>
  What a pass of \<open>sync\<close> does to the pending records: each is forwarded or kept, and nothing else
  stays behind.
\<close>

section \<open>One record\<close>

lemma recover_shards_confined:
  "recover_shards X E I opt v holders refs usable n w = (usable', n', w') \<Longrightarrow> length holders = 4 \<Longrightarrow>
     confined (set holders) (cl_disk w) (cl_disk w')"
proof (induction refs arbitrary: usable n w)
  case (Cons ref refs)
  show ?case
  proof (cases "kTotalShards \<le> ref_index ref")
    case True
    with Cons show ?thesis by simp
  next
    case False
    obtain r w1 where r: "recover_shard X E I opt v holders ref w = (r, w1)" by (rule prod.exhaust)
    have "holders ! ref_index ref \<in> set holders"
      using False Cons.prems(2) by (simp add: kTotalShards_def kDataShards_def kParityShards_def)
    then have "confined (set holders) (cl_disk w) (cl_disk w1)"
      using recover_shard_confined [OF r] confined_mono by blast
    moreover have "confined (set holders) (cl_disk w1) (cl_disk w')"
      using Cons.IH Cons.prems r False by (auto split: option.splits)
    ultimately show ?thesis by (rule confined_trans)
  qed
qed simp

lemma rebuild_stream_leaves:
  assumes "rebuild_stream X E I opt v m out w = (ok, w')" and "out \<in> scratch (opt_dir opt)"
  shows "leaves (opt_dir opt) {out} A w w'"
proof -
  let ?root = "opt_dir opt"
  obtain hs w1 where t: "temps ?root ''recover'' w = (hs, w1)" by (rule prod.exhaust)
  have hs: "length hs = 4" "set hs \<subseteq> scratch ?root" "cl_disk w1 = cl_disk w" using temps_result [OF t] by simp_all
  obtain us n w2 where r: "recover_shards X E I opt v hs (m_shards m) [None, None, None, None] 0 w1 = (us, n, w2)"
    by (rule prod_cases3)
  have "confined (set hs) (cl_disk w) (cl_disk w2)" using recover_shards_confined [OF r hs(1)] hs(3) by simp
  then have got: "leaves ?root (set hs \<union> {out}) A w v" if "cl_disk v = cl_disk w2" for v
    using that hs(2) assms(2) by (intro leaves_confined [of "set hs"]) auto
  obtain j d where j: "join_shards (cl_disk w2) us (unat (m_shard_size m)) (unat (m_stream_size m)) out = (j, d)"
    by (rule prod.exhaust)
  have "leaves ?root (set hs \<union> {out}) A w2 (on_disk d w2)"
    using confined_join_shards [OF j] hs(2) assms(2) by (intro leaves_confined [of "{out}"]) auto
  from leaves_trans [OF got [OF refl] this] got [OF refl] have "leaves ?root (set hs \<union> {out}) A w v"
    if "v = w2 \<or> v = on_disk d w2" for v using that by blast
  from leaves_drop_temps [OF this hs(2)] show ?thesis
    using assms(1) t r j by (auto simp: rebuild_stream_def split: if_splits)
qed

lemma release_shards_disk: "cl_disk (release_shards X I opt v refs w) = cl_disk w"
proof (induction refs arbitrary: w)
  case (Cons ref refs)
  obtain r w1 where c: "remote_connect X I opt AccessChunks (ref_peer ref) w = (r, w1)" by (rule prod.exhaust)
  with Cons remote_connect_disk [OF c] show ?case by (simp split: sum.split prod.split)
qed simp

lemma release_shards_links: "more_links w (release_shards X I opt v refs w)"
proof (induction refs arbitrary: w)
  case (Cons ref refs)
  obtain r w1 where c: "remote_connect X I opt AccessChunks (ref_peer ref) w = (r, w1)" by (rule prod.exhaust)
  note more = remote_connect_links [OF c]
  have step: "more_links w (release_shards X I opt v refs w2)" if "more_links w1 w2" for w2
    using more_links_trans [OF more_links_trans [OF more that] Cons.IH] .
  have same: "more_links w1 (remark b t w1)" "more_links w1 (hang_up a ch (remark b t w1))" for a b ch t
    by (auto simp: more_links_def)
  show ?case using c by (simp split: sum.split prod.split add: step [OF same(1)] step [OF same(2)])
qed simp

lemma after_release_links: "more_links w (drop_temp p (on_disk d (release_shards X I opt v refs w)))"
  using release_shards_links [of w X I opt v refs] by (simp add: more_links_def drop_temp_links)

text \<open>
  The server got the stream, or had said before that it holds a file with that tag: its answer to
  STAT came in on a connection to it.
\<close>

definition forwarded :: "'a internet \<Rightarrow> client \<Rightarrow> manifest \<Rightarrow> string \<Rightarrow> bool" where
  "forwarded I w m c \<longleftrightarrow>
     sent_on w (m_server m) (putfile_line (length c) (m_dedup_tag m) (m_name m) @ newline # c) \<or>
     (\<exists>k u ch. inp (link_at I k (m_server m)) = u @ inp ch \<and> same_tag (fst (remote_stat ch (m_name m))) (m_dedup_tag m))"

lemma forwarded_mono: "forwarded I w m c \<Longrightarrow> more_links w w' \<Longrightarrow> forwarded I w' m c"
  unfolding forwarded_def by (blast intro: sent_on_mono)

text \<open>The steps of a forwarding that succeeded.\<close>

lemma sync_one_success:
  assumes "sync_one X E I opt v mp w = (True, w')"
  obtains m stream w1 w2 c w3 st c1 c2 where "manifest_read (cl_disk w) mp = Inr m"
    "temp (opt_dir opt) ''stream'' w = (stream, w1)"
    "rebuild_stream X E I (opt\<lparr>opt_server := m_server m\<rparr>) v m stream w1 = (True, w2)"
    "remote_connect X I opt AccessFiles (m_server m) w2 = (Inr c, w3)" "remote_stat c (m_name m) = (st, c1)"
    "if same_tag st (m_dedup_tag m) then c2 = c1
     else remote_put_file c1 (cl_disk w3) (m_name m) stream (m_dedup_tag m) = (None, c2)"
    "w' = (let u = release_shards X I (opt\<lparr>opt_server := m_server m\<rparr>) v (m_shards m)
         (hang_up (m_server m) (remote_quit c2) (remark (v \<and> same_tag st (m_dedup_tag m)) ''the server already holds identical content'' w3))
       in drop_temp stream (on_disk (snd (fs_remove (cl_disk u) mp)) u))"
proof -
  obtain m where m: "manifest_read (cl_disk w) mp = Inr m" using assms by (auto simp: sync_one_def split: sum.splits)
  obtain stream w1 where t: "temp (opt_dir opt) ''stream'' w = (stream, w1)" by (rule prod.exhaust)
  obtain ok w2 where r: "rebuild_stream X E I (opt\<lparr>opt_server := m_server m\<rparr>) v m stream w1 = (ok, w2)" by (rule prod.exhaust)
  have ok: "ok = True" using assms m t r by (cases ok) (simp_all add: sync_one_def Let_def)
  obtain rc w3 where con: "remote_connect X I opt AccessFiles (m_server m) w2 = (rc, w3)" by (rule prod.exhaust)
  then obtain c where rc: "rc = Inr c" using assms m t r ok by (cases rc) (simp_all add: sync_one_def Let_def)
  obtain st c1 where st: "remote_stat c (m_name m) = (st, c1)" by (rule prod.exhaust)
  obtain e c2 where put: "(if same_tag st (m_dedup_tag m) then (None, c1)
      else remote_put_file c1 (cl_disk w3) (m_name m) stream (m_dedup_tag m)) = (e, c2)" by (rule prod.exhaust)
  have "e = None" using assms m t r ok con rc st put by (cases e) (simp_all add: sync_one_def Let_def)
  moreover from this have "w' = (let u = release_shards X I (opt\<lparr>opt_server := m_server m\<rparr>) v (m_shards m)
         (hang_up (m_server m) (remote_quit c2) (remark (v \<and> same_tag st (m_dedup_tag m)) ''the server already holds identical content'' w3))
       in drop_temp stream (on_disk (snd (fs_remove (cl_disk u) mp)) u))"
    using assms m t r ok con rc st put by (auto simp: sync_one_def Let_def split: prod.splits)
  ultimately show thesis using that [OF m t r [unfolded ok] con [unfolded rc] st, of c2] put by (simp split: if_splits)
qed

lemma sync_one_forwards:
  assumes "sync_one X E I opt v mp w = (True, w')" and "manifest_read (cl_disk w) mp = Inr m"
    and "describes E m c" and "no_forgery E I c" and "faults (cl_disk w) = []"
  shows "forwarded I w' m c"
proof (rule sync_one_success [OF assms(1)])
  fix m0 :: manifest and stream and w1 w2 w3 :: client and ch c1 c2 :: channel and st
  let ?routed = "opt\<lparr>opt_server := m_server m0\<rparr>"
  assume m0: "manifest_read (cl_disk w) mp = Inr m0" and t: "temp (opt_dir opt) ''stream'' w = (stream, w1)"
    and r: "rebuild_stream X E I ?routed v m0 stream w1 = (True, w2)"
    and con: "remote_connect X I opt AccessFiles (m_server m0) w2 = (Inr ch, w3)" and st: "remote_stat ch (m_name m0) = (st, c1)"
    and put: "if same_tag st (m_dedup_tag m0) then c2 = c1
      else remote_put_file c1 (cl_disk w3) (m_name m0) stream (m_dedup_tag m0) = (None, c2)"
    and w': "w' = (let u = release_shards X I ?routed v (m_shards m0)
         (hang_up (m_server m0) (remote_quit c2) (remark (v \<and> same_tag st (m_dedup_tag m0)) ''the server already holds identical content'' w3))
       in drop_temp stream (on_disk (snd (fs_remove (cl_disk u) mp)) u))"
  have m: "m0 = m" using m0 assms(2) by simp
  show "forwarded I w' m c"
  proof (cases "same_tag st (m_dedup_tag m)")
    case True
    then show ?thesis using remote_connect_delivers [OF con] st m unfolding forwarded_def by (metis fst_conv)
  next
    case False
    then have p: "remote_put_file c1 (cl_disk w3) (m_name m) stream (m_dedup_tag m) = (None, c2)" using put m by simp
    have tmp: "is_temp (opt_dir ?routed) ''stream'' stream" "faults (cl_disk w1) = []"
      using temp_result [OF t] assms(5) by simp_all
    have "fs_read (cl_disk w3) stream = Some c"
      using rebuilt_stream [OF r _ assms(4) tmp(2,1)] assms(3) m remote_connect_disk [OF con] by simp
    from sent_after_quit [OF put_file_sent [OF p this], of "m_server m"]
    have "sent_on (hang_up (m_server m) (remote_quit c2) (remark b x w3)) (m_server m)
        (putfile_line (length c) (m_dedup_tag m) (m_name m) @ newline # c)" for b x .
    then have "sent_on w' (m_server m) (putfile_line (length c) (m_dedup_tag m) (m_name m) @ newline # c)"
      unfolding w' m Let_def by (rule sent_on_mono) (rule after_release_links)
    then show ?thesis by (simp add: forwarded_def)
  qed
qed

text \<open>How it ends: with the scratch file dropped, and the record removed only on success.\<close>

lemma sync_one_end:
  assumes "sync_one X E I opt v mp w = (ok, w')" and "manifest_read (cl_disk w) mp = Inr m"
    and "temp (opt_dir opt) ''stream'' w = (stream, w1)"
    and "rebuild_stream X E I (opt\<lparr>opt_server := m_server m\<rparr>) v m stream w1 = (built, w2)"
  shows "\<exists>u. w' = drop_temp stream u \<and> more_links w2 u \<and>
    (cl_disk u = cl_disk w2 \<or> ok \<and> cl_disk u = snd (fs_remove (cl_disk w2) mp))"
proof (cases built)
  case False
  with assms show ?thesis by (auto simp: sync_one_def Let_def)
next
  case True
  let ?routed = "opt\<lparr>opt_server := m_server m\<rparr>"
  obtain rc w3 where con: "remote_connect X I opt AccessFiles (m_server m) w2 = (rc, w3)" by (rule prod.exhaust)
  note w3 = remote_connect_disk [OF con] remote_connect_links [OF con]
  show ?thesis
  proof (cases rc)
    case (Inl e)
    with assms True con w3 show ?thesis by (auto simp: sync_one_def Let_def)
  next
    case rc: (Inr c)
    obtain st c1 where st: "remote_stat c (m_name m) = (st, c1)" by (rule prod.exhaust)
    obtain e c2 where put: "(if same_tag st (m_dedup_tag m) then (None, c1)
        else remote_put_file c1 (cl_disk w3) (m_name m) stream (m_dedup_tag m)) = (e, c2)" by (rule prod.exhaust)
    let ?u = "release_shards X I ?routed v (m_shards m) (hang_up (m_server m) (remote_quit c2)
      (remark (v \<and> same_tag st (m_dedup_tag m)) ''the server already holds identical content'' w3))"
    show ?thesis
    proof (cases e)
      case None
      have "more_links w3 ?u"
        by (rule more_links_trans [OF _ release_shards_links]) (auto simp: more_links_def)
      then have "more_links w2 (on_disk (snd (fs_remove (cl_disk ?u) mp)) ?u)"
        using w3(2) by (auto simp: more_links_def)
      moreover have "cl_disk ?u = cl_disk w2" using w3(1) by (simp add: release_shards_disk)
      moreover have "ok \<and> w' = drop_temp stream (on_disk (snd (fs_remove (cl_disk ?u) mp)) ?u)"
        using assms True con rc st put None by (auto simp: sync_one_def Let_def split: prod.splits)
      ultimately show ?thesis by (intro exI [of _ "on_disk (snd (fs_remove (cl_disk ?u) mp)) ?u"]) simp
    next
      case (Some err)
      with assms True con rc st put have "w' = drop_temp stream (hang_up (m_server m) c2 w3)"
        by (auto simp: sync_one_def Let_def)
      with w3 show ?thesis by (intro exI [of _ "hang_up (m_server m) c2 w3"]) (auto simp: more_links_def)
    qed
  qed
qed

lemma sync_one_leaves:
  assumes "sync_one X E I opt v mp w = (ok, w')"
  shows "leaves (opt_dir opt) {} (if ok then {mp} else {}) w w'"
proof (cases "manifest_read (cl_disk w) mp")
  case (Inl e)
  with assms show ?thesis by (auto simp: sync_one_def intro: leaves_same)
next
  case (Inr m)
  let ?root = "opt_dir opt" and ?routed = "opt\<lparr>opt_server := m_server m\<rparr>" and ?A = "if ok then {mp} else {}"
  obtain stream w1 where t: "temp ?root ''stream'' w = (stream, w1)" by (rule prod.exhaust)
  have s: "stream \<in> scratch ?root" "cl_disk w1 = cl_disk w" using temp_result [OF t] is_temp_scratch by auto
  obtain built w2 where r: "rebuild_stream X E I ?routed v m stream w1 = (built, w2)" by (rule prod.exhaust)
  have "leaves ?root {stream} ?A w1 w2" using rebuild_stream_leaves [OF r, of ?A] s(1) by simp
  then have two: "leaves ?root {stream} ?A w w2" using leaves_trans [OF leaves_same [OF s(2)]] by blast
  obtain u where w': "w' = drop_temp stream u"
    and u: "cl_disk u = cl_disk w2 \<or> ok \<and> cl_disk u = snd (fs_remove (cl_disk w2) mp)"
    using sync_one_end [OF assms Inr t r] by blast
  from u have "leaves ?root {stream} ?A w u"
  proof
    assume "cl_disk u = cl_disk w2"
    then show ?thesis using leaves_trans [OF two leaves_same] by blast
  next
    assume "ok \<and> cl_disk u = snd (fs_remove (cl_disk w2) mp)"
    then have "confined {mp} (cl_disk w2) (cl_disk u)" ok
      using confined_remove [of "cl_disk w2" mp] by (simp_all add: prod_eq_iff)
    with s(1) have "leaves ?root {stream} ?A w2 u" by (intro leaves_confined [of "{mp}"]) auto
    with two show ?thesis by (rule leaves_trans)
  qed
  from leaves_drop [OF this s(1)] w' show ?thesis by simp
qed

text \<open>When the server is back and two peers answer, the file goes there and the record goes away.\<close>

lemma stat_none:
  assumes "calm c" and "inp c = kNone @ newline # rest"
  obtains c' where "remote_stat c name = (Inr None, c')" "calm c'" "inp c' = rest"
proof -
  have "split kNone = [kNone]" using split_word [of kNone] by (simp add: vocabulary)
  moreover obtain c' where "ask c (kStat @ '' '' @ name) = (Inr kNone, c')" "calm c'" "inp c' = rest"
    by (rule ask_ok [OF assms, of "kStat @ '' '' @ name"]) (auto simp: vocabulary kMaxLineLen_def)
  ultimately show thesis using that [of c'] by (simp add: remote_stat_def replies_def)
qed

lemma put_file_ok:
  assumes "calm c" and "inp c = kOk @ [newline]" and "fs_read d p = Some b"
  shows "\<exists>c'. remote_put_file c d name p tag = (None, c')"
  using send_upload_calm [of c d p b "[]" "putfile_line (length b) tag name"] assms read_some [OF assms(3)]
  by (auto simp: remote_put_file_def)

lemma sync_one_runs:
  assumes "manifest_read (cl_disk w) mp = Inr m" and "describes E m c" and "no_forgery E I c"
    and "presentable (opt_cred opt) AccessChunks" and "presentable (opt_cred opt) AccessFiles"
    and "half_of c \<le> unat kMaxTransferSize" and "faults (cl_disk w) = []" and "\<forall>p\<in>scratch (opt_dir opt). writable (cl_disk w) p"
    and "a \<in> set (m_shards m)" and "b \<in> set (m_shards m)" and "ref_index a \<noteq> ref_index b"
    and "gives_back X E I opt c a" and "gives_back X E I opt c b"
    and "welcomes X I opt (m_server m) (kNone @ newline # kOk @ [newline])"
  shows "fst (sync_one X E I opt v mp w)"
proof -
  let ?routed = "opt\<lparr>opt_server := m_server m\<rparr>"
  obtain stream w1 where t: "temp (opt_dir opt) ''stream'' w = (stream, w1)" by (rule prod.exhaust)
  have tmp: "is_temp (opt_dir ?routed) ''stream'' stream" "faults (cl_disk w1) = []" "presentable (opt_cred ?routed) AccessChunks"
    "\<forall>p\<in>scratch (opt_dir ?routed). writable (cl_disk w1) p" "gives_back X E I ?routed c a" "gives_back X E I ?routed c b"
    using temp_result [OF t] assms(4,7,8,12,13) by (simp_all add: gives_back_def keeps_chunk_def welcomes_def)
  obtain w2 where r: "rebuild_stream X E I ?routed v m stream w1 = (True, w2)"
    using rebuild_runs [OF assms(2,3) tmp(3) assms(6) tmp(2,1,4) assms(9-11) tmp(5,6), of v]
    by (cases "rebuild_stream X E I ?routed v m stream w1") simp
  obtain ch w3 where con: "remote_connect X I opt AccessFiles (m_server m) w2 = (Inr ch, w3)" "calm ch"
      "inp ch = kNone @ newline # kOk @ [newline]" "cl_disk w3 = cl_disk w2"
    by (rule remote_connect_ok [OF assms(14,5), of w2])
  obtain c1 where st: "remote_stat ch (m_name m) = (Inr None, c1)" "calm c1" "inp c1 = kOk @ [newline]"
    by (rule stat_none [OF con(2,3)])
  have "fs_read (cl_disk w3) stream = Some c"
    using rebuilt_stream [OF r assms(2,3) tmp(2,1)] con(4) by simp
  from put_file_ok [OF st(2,3) this] obtain c2 where
    "remote_put_file c1 (cl_disk w3) (m_name m) stream (m_dedup_tag m) = (None, c2)" by blast
  with assms(1) t r con(1) st(1) show ?thesis
    by (simp add: sync_one_def same_tag_def Let_def split: prod.split)
qed

lemma sync_one_removes:
  assumes "sync_one X E I opt v mp w = (True, w')" and "faults (cl_disk w) = []"
  shows "lookup (cl_disk w') mp = None"
proof (rule sync_one_success [OF assms(1)])
  fix m :: manifest and stream and w1 w2 w3 :: client and ch c1 c2 :: channel and st
  let ?routed = "opt\<lparr>opt_server := m_server m\<rparr>"
  assume t: "temp (opt_dir opt) ''stream'' w = (stream, w1)" and r: "rebuild_stream X E I ?routed v m stream w1 = (True, w2)"
    and con: "remote_connect X I opt AccessFiles (m_server m) w2 = (Inr ch, w3)"
    and w': "w' = (let u = release_shards X I ?routed v (m_shards m)
         (hang_up (m_server m) (remote_quit c2) (remark (v \<and> same_tag st (m_dedup_tag m)) ''the server already holds identical content'' w3))
       in drop_temp stream (on_disk (snd (fs_remove (cl_disk u) mp)) u))"
  have s: "stream \<in> scratch (opt_dir ?routed)" "cl_disk w1 = cl_disk w" using temp_result [OF t] is_temp_scratch by auto
  have "faults (cl_disk w3) = []"
    using rebuild_stream_leaves [OF r s(1), of "{}"] assms(2) s(2) remote_connect_disk [OF con] by (simp add: leaves_def confined_def)
  then have gone: "lookup (snd (fs_remove (cl_disk w3) mp)) mp = None" and clean: "faults (snd (fs_remove (cl_disk w3) mp)) = []"
    by (simp_all add: fs_remove_def fs_simps lookup_def delete_conv split: prod.split)
  have "lookup (cl_disk (drop_temp stream v)) mp = None" if "cl_disk v = snd (fs_remove (cl_disk w3) mp)" for v
    using confined_lookup [OF drop_temp_confined, of mp stream v] drop_temp_gone [of v stream] that gone clean by (cases "mp = stream") simp_all
  then show "lookup (cl_disk w') mp = None" by (simp add: w' Let_def release_shards_disk)
qed

text \<open>C18: sync delivers once the server is back.\<close>

theorem sync_one_succeeds:
  assumes "manifest_read (cl_disk w) mp = Inr m" and "describes E m c" and "no_forgery E I c"
    and "presentable (opt_cred opt) AccessChunks" and "presentable (opt_cred opt) AccessFiles"
    and "half_of c \<le> unat kMaxTransferSize" and "faults (cl_disk w) = []" and "\<forall>p\<in>scratch (opt_dir opt). writable (cl_disk w) p"
    and "a \<in> set (m_shards m)" and "b \<in> set (m_shards m)" and "ref_index a \<noteq> ref_index b"
    and "gives_back X E I opt c a" and "gives_back X E I opt c b"
    and "welcomes X I opt (m_server m) (kNone @ newline # kOk @ [newline])"
  shows "\<exists>w'. sync_one X E I opt v mp w = (True, w') \<and> forwarded I w' m c \<and> lookup (cl_disk w') mp = None"
proof -
  obtain w' where s: "sync_one X E I opt v mp w = (True, w')"
    using sync_one_runs [OF assms, of v] by (cases "sync_one X E I opt v mp w") simp
  with sync_one_forwards [OF s assms(1-3,7)] sync_one_removes [OF s assms(7)] show ?thesis by blast
qed

lemma recover_shard_links: "recover_shard X E I opt v holders ref w = (r, w') \<Longrightarrow> more_links w w'"
  by (auto simp: recover_shard_def Let_def more_links_def split: sum.splits prod.splits if_splits
      dest!: remote_connect_links)

lemma recover_shards_links:
  "recover_shards X E I opt v holders refs usable n w = (usable', n', w') \<Longrightarrow> more_links w w'"
proof (induction refs arbitrary: usable n w)
  case (Cons ref refs)
  obtain r w1 where r: "recover_shard X E I opt v holders ref w = (r, w1)" by (rule prod.exhaust)
  with Cons show ?case
    by (auto split: if_splits option.splits intro: more_links_trans [OF recover_shard_links [OF r]])
qed simp

lemma rebuild_stream_links: "rebuild_stream X E I opt v m out w = (ok, w') \<Longrightarrow> more_links w w'"
  by (auto simp: rebuild_stream_def more_links_def drop_temps_links split: prod.splits if_splits
      dest!: temps_links recover_shards_links)

lemma sync_one_links:
  assumes "sync_one X E I opt v mp w = (ok, w')"
  shows "more_links w w'"
proof (cases "manifest_read (cl_disk w) mp")
  case (Inl e)
  with assms show ?thesis by (simp add: sync_one_def)
next
  case (Inr m)
  obtain stream w1 where t: "temp (opt_dir opt) ''stream'' w = (stream, w1)" by (rule prod.exhaust)
  obtain built w2 where r: "rebuild_stream X E I (opt\<lparr>opt_server := m_server m\<rparr>) v m stream w1 = (built, w2)"
    by (rule prod.exhaust)
  from sync_one_end [OF assms Inr t r] rebuild_stream_links [OF r] temp_links [OF t] show ?thesis
    by (auto simp: more_links_def drop_temp_links)
qed

section \<open>A pass\<close>

lemma stop_requested_links: "stop_requested w = (b, w') \<Longrightarrow> cl_links w' = cl_links w"
  by (auto simp: stop_requested_def split: list.splits if_splits)

lemma remote_reachable_links: "remote_reachable X I a trust w = (b, w') \<Longrightarrow> more_links w w'"
  by (auto simp: remote_reachable_def more_links_def split: sum.splits prod.splits dest: dial_channel_links)

text \<open>The records of \<open>S\<close> are gone, and each was forwarded.\<close>

definition all_forwarded :: "'x openssl \<Rightarrow> 'a internet \<Rightarrow> path set \<Rightarrow> client \<Rightarrow> client \<Rightarrow> bool" where
  "all_forwarded E I S w w' \<longleftrightarrow> (\<forall>mp\<in>S. \<exists>m. manifest_read (cl_disk w) mp = Inr m \<and>
     (\<forall>c. describes E m c \<and> no_forgery E I c \<and> faults (cl_disk w) = [] \<longrightarrow> forwarded I w' m c))"

definition pass_done :: "'x openssl \<Rightarrow> 'a internet \<Rightarrow> path \<Rightarrow> path list \<Rightarrow> sync_result \<Rightarrow> sync_result \<Rightarrow> client \<Rightarrow> client \<Rightarrow> bool" where
  "pass_done E I root todo r r' w w' \<longleftrightarrow> more_links w w' \<and>
     (\<exists>S \<subseteq> set todo. synced r + card S \<le> synced r' \<and> leaves root {} S w w' \<and> all_forwarded E I S w w')"

text \<open>Extending a pass at its front, by a step that removes no record, or one that forwards one.\<close>

lemma pass_done_nothing: "more_links w w' \<Longrightarrow> cl_disk w' = cl_disk w \<Longrightarrow> pass_done E I root todo r r w w'"
  unfolding pass_done_def by (rule conjI, assumption, rule exI [of _ "{}"]) (simp add: leaves_same all_forwarded_def)

lemma pass_done_keep:
  assumes "pass_done E I root todo r r' w1 w'" and "leaves root {} {} w w1" and "more_links w w1"
    and "set todo \<inter> scratch root = {}" and "synced r0 \<le> synced r"
  shows "pass_done E I root (mp # todo) r0 r' w w'"
proof -
  obtain S where S: "S \<subseteq> set todo" "synced r + card S \<le> synced r'" "leaves root {} S w1 w'" "all_forwarded E I S w1 w'"
    using assms(1) by (auto simp: pass_done_def)
  have conf: "confined (scratch root) (cl_disk w) (cl_disk w1)" using assms(2) by (simp add: leaves_def)
  have "fs_read (cl_disk w1) q = fs_read (cl_disk w) q" if "q \<in> S" for q
    using confined_read [OF conf] that S(1) assms(4) by blast
  then have "all_forwarded E I S w w'"
    using S(4) conf manifest_read_same unfolding all_forwarded_def confined_def by metis
  moreover have "leaves root {} S w w'"
    using leaves_trans [OF leaves_mono [OF assms(2)] S(3)] by simp
  ultimately show ?thesis
    unfolding pass_done_def using S(1,2) assms(1,3,5)
    by (intro conjI exI [of _ S]) (auto simp: pass_done_def intro: more_links_trans)
qed

lemma pass_done_before:
  assumes "pass_done E I root todo r r' w1 w'" and "cl_disk w1 = cl_disk w" and "more_links w w1"
  shows "pass_done E I root todo r r' w w'"
proof -
  have "leaves root {} S w w'" if "leaves root {} S w1 w'" for S
    using leaves_trans [OF leaves_same [OF assms(2)] that] .
  then show ?thesis using assms unfolding pass_done_def all_forwarded_def
    by (auto intro: more_links_trans)
qed

lemma pass_done_forward:
  assumes "pass_done E I (opt_dir opt) todo r r' w1 w'" and "sync_one X E I opt v mp w = (True, w0)"
    and "cl_disk w1 = cl_disk w0" and "more_links w0 w1" and "synced r = Suc (synced r0)"
    and "mp \<notin> scratch (opt_dir opt)" and "set todo \<inter> scratch (opt_dir opt) = {}"
  shows "pass_done E I (opt_dir opt) (mp # todo) r0 r' w w'"
proof -
  let ?root = "opt_dir opt"
  obtain S where S: "S \<subseteq> set todo" "synced r + card S \<le> synced r'" "leaves ?root {} S w1 w'" "all_forwarded E I S w1 w'"
    using assms(1) by (auto simp: pass_done_def)
  have step: "leaves ?root {} {mp} w w0" using sync_one_leaves [OF assms(2)] by simp
  have conf: "confined ({mp} \<union> scratch ?root) (cl_disk w) (cl_disk w0)" using step by (simp add: leaves_def)
  have more: "more_links w w'" "more_links w0 w'"
    using assms(1,4) sync_one_links [OF assms(2)] by (auto simp: pass_done_def intro: more_links_trans)
  obtain m where m: "manifest_read (cl_disk w) mp = Inr m" by (rule sync_one_success [OF assms(2)])
  have mine: "forwarded I w' m c" if "describes E m c" "no_forgery E I c" "faults (cl_disk w) = []" for c
    using forwarded_mono [OF sync_one_forwards [OF assms(2) m that] more(2)] .
  have same: "fs_read (cl_disk w1) q = fs_read (cl_disk w) q" if "q \<in> S" "q \<noteq> mp" for q
    using confined_read [OF conf, of q] that S(1) assms(3,7) by auto
  have clean: "faults (cl_disk w) = [] \<Longrightarrow> faults (cl_disk w1) = []" using conf assms(3) by (simp add: confined_def)
  have "all_forwarded E I (insert mp S) w w'"
    unfolding all_forwarded_def
  proof
    fix q
    assume "q \<in> insert mp S"
    show "\<exists>m. manifest_read (cl_disk w) q = Inr m \<and>
      (\<forall>c. describes E m c \<and> no_forgery E I c \<and> faults (cl_disk w) = [] \<longrightarrow> forwarded I w' m c)"
    proof (cases "q = mp")
      case True
      with m mine show ?thesis by blast
    next
      case False
      with \<open>q \<in> insert mp S\<close> S(4) same clean manifest_read_same [OF same] show ?thesis
        unfolding all_forwarded_def by fastforce
    qed
  qed
  moreover have "leaves ?root {} (insert mp S) w w'"
  proof (rule leaves_trans)
    show "leaves ?root {} (insert mp S) w w1"
      using leaves_trans [OF step leaves_same [OF assms(3)]] by (rule leaves_mono) auto
    show "leaves ?root {} (insert mp S) w1 w'" using S(3) by (rule leaves_mono) auto
  qed
  moreover have "finite S" using S(1) finite_subset by blast
  then have "card (insert mp S) \<le> Suc (card S)" by (simp add: card_insert_if)
  ultimately show ?thesis
    unfolding pass_done_def using S(1,2) assms(5) more(1) by (intro conjI exI [of _ "insert mp S"]) auto
qed

lemma sync_each_done:
  "sync_each X E I opt v todo r w = (r', w') \<Longrightarrow> set todo \<inter> scratch (opt_dir opt) = {} \<Longrightarrow>
     pass_done E I (opt_dir opt) todo r r' w w'"
proof (induction todo arbitrary: r w)
  case Nil
  then show ?case by (simp add: pass_done_nothing)
next
  case (Cons mp todo)
  let ?root = "opt_dir opt"
  have todo: "set todo \<inter> scratch ?root = {}" "mp \<notin> scratch ?root" using Cons.prems(2) by auto
  obtain stop w1 where s: "stop_requested w = (stop, w1)" by (rule prod.exhaust)
  note w1 = stop_requested_disk [OF s] stop_requested_links [OF s]
  have more1: "more_links w w1" using w1(2) by (simp add: more_links_def)
  have skip: ?case if "sync_each X E I opt v todo r1 w2 = (r', w')" "cl_disk w2 = cl_disk w" "more_links w w2"
    "synced r1 = synced r" for r1 w2
    using pass_done_keep [OF Cons.IH [OF that(1) todo(1)] leaves_same [OF that(2)] that(3) todo(1), of r] that(4) by simp
  show ?case
  proof (cases stop)
    case True
    with Cons.prems(1) s w1 more1 show ?thesis by (simp add: pass_done_nothing)
  next
    case False
    show ?thesis
    proof (cases "peek_manifest_server (cl_disk w1) mp")
      case None
      with Cons.prems(1) s False w1 show ?thesis
        by (intro skip [of "r\<lparr>failed := Suc (failed r)\<rparr>" "remark v ''unreadable, skipping'' w1"])
          (simp_all add: more_links_def)
    next
      case (Some server)
      obtain up w2 where u: "remote_reachable X I server (opt_trust opt) w1 = (up, w2)" by (rule prod.exhaust)
      have w2: "cl_disk w2 = cl_disk w" "more_links w w2"
        using remote_reachable_disk [OF u] w1 remote_reachable_links [OF u] by (simp_all add: more_links_def)
      show ?thesis
      proof (cases up)
        case False
        with Cons.prems(1) s \<open>\<not> stop\<close> Some u w2 show ?thesis
          by (intro skip [of "r\<lparr>waiting := Suc (waiting r)\<rparr>" "remark v ''still offline'' w2"])
            (simp_all add: more_links_def)
      next
        case True
        let ?w = "remark v ''is back, forwarding'' w2"
        obtain ok w3 where o: "sync_one X E I opt v mp ?w = (ok, w3)" by (rule prod.exhaust)
        have "pass_done E I ?root (mp # todo) r r' ?w w'"
        proof (cases ok)
          case True
          then have "sync_each X E I opt v todo (r\<lparr>synced := Suc (synced r)\<rparr>) (tell ''synced'' w3) = (r', w')"
            using Cons.prems(1) s \<open>\<not> stop\<close> Some u \<open>up\<close> o by simp
          moreover have "sync_one X E I opt v mp ?w = (True, w3)" using True o by simp
          ultimately show ?thesis by (rule pass_done_forward [OF Cons.IH [OF _ todo(1)] _ _ _ _ todo(2,1)])
              (simp_all add: more_links_def)
        next
          case False
          then have "sync_each X E I opt v todo (r\<lparr>failed := Suc (failed r)\<rparr>) (tell ''failed'' w3) = (r', w')"
            using Cons.prems(1) s \<open>\<not> stop\<close> Some u \<open>up\<close> o by simp
          note rest = Cons.IH [OF this todo(1)]
          have "leaves ?root {} {} ?w w3" using sync_one_leaves [OF o] False by simp
          then have kept: "leaves ?root {} {} ?w (tell ''failed'' w3)" by (simp add: leaves_def)
          show ?thesis by (rule pass_done_keep [OF rest kept _ todo(1)])
              (use sync_one_links [OF o] in \<open>simp_all add: more_links_def\<close>)
        qed
        then show ?thesis by (rule pass_done_before) (use w2 in \<open>simp_all add: more_links_def\<close>)
      qed
    qed
  qed
qed

lemma manifests_in_pending: "mp \<in> set (manifests root d) \<Longrightarrow> butlast mp = root @ [''pending'']"
  by (auto simp: manifests_def pending_dir_def path_join_component fs_list_def split: if_splits)

lemma manifests_not_scratch: "set (manifests root d) \<inter> scratch root = {}"
  by (auto dest!: manifests_in_pending scratch_work_dir)


section \<open>Examples\<close>

definition relay_record :: manifest where
  "relay_record = \<lparr>m_server = ''s:1'', m_name = ''notes'', m_stream_size = 5, m_shard_size = 3, m_dedup_tag = ''t'',
     m_data_shards = 2, m_parity_shards = 2,
     m_shards = [\<lparr>ref_index = 0, ref_chunk_id = file_hash (stamped ''cloud'') (stream_shard ''cloud'' D0), ref_peer = ''a:1''\<rparr>,
       \<lparr>ref_index = 1, ref_chunk_id = file_hash (stamped ''cloud'') (stream_shard ''cloud'' D1), ref_peer = ''b:1''\<rparr>]\<rparr>"

definition relay_net :: "nat internet" where
  "relay_net = reply_net (\<lambda>a. if a = ''s:1'' then kNone @ newline # kOk @ [newline]
     else data_reply (stream_shard ''cloud'' (shard_at (peer_index a))))"

abbreviation relay_path :: path where
  "relay_path \<equiv> [''home'', ''pending'', ''notes.manifest'']"

definition relay_client :: client where
  "relay_client = client_with (put base_disk relay_path (unlines (manifest_lines relay_record)))"

lemma relay_record_ok: "manifest_ok relay_record"
  using file_hash_chunk_id [OF stamped_ok]
  by (simp add: manifest_ok_def relay_record_def is_word_def is_safe_name_def skip_spaces_def forbidden_char_def
      kBackslash_code shard_ref_ok_def half_max_def)

lemma relay_record_read: "manifest_read (cl_disk relay_client) relay_path = Inr relay_record"
proof -
  have "manifest_write base_disk relay_record relay_path = (Inr (), put base_disk relay_path (unlines (manifest_lines relay_record)))"
    by (rule manifest_write_ok) (simp_all add: base_disk_fields writable_def)
  from manifest_reads_back [OF relay_record_ok this, of "cl_disk relay_client" relay_path]
  show ?thesis by (simp add: relay_client_def client_with_fields relay_record_def skip_spaces_def)
qed

lemma relay_describes: "describes (stamped ''cloud'') relay_record ''cloud''"
  by (simp add: describes_def refs_describe_def relay_record_def shard_at_def half_of_def)

lemma sync_one_succeeds_witness:
  "\<exists>w'. sync_one example_x509 (stamped ''cloud'') relay_net example_options True relay_path relay_client = (True, w') \<and>
     forwarded relay_net w' relay_record ''cloud'' \<and> lookup (cl_disk w') relay_path = None"
proof (rule sync_one_succeeds [OF relay_record_read relay_describes])
  show "no_forgery (stamped ''cloud'') relay_net ''cloud''" by (rule stamped_no_forgery)
  show "\<forall>p\<in>scratch (opt_dir example_options). writable (cl_disk relay_client) p"
    using scratch_writable by (simp add: relay_client_def client_with_fields fs_simps example_options_def)
  show "hd (m_shards relay_record) \<in> set (m_shards relay_record)" "last (m_shards relay_record) \<in> set (m_shards relay_record)"
    "ref_index (hd (m_shards relay_record)) \<noteq> ref_index (last (m_shards relay_record))"
    by (simp_all add: relay_record_def)
  show "gives_back example_x509 (stamped ''cloud'') relay_net example_options ''cloud'' (hd (m_shards relay_record))"
    "gives_back example_x509 (stamped ''cloud'') relay_net example_options ''cloud'' (last (m_shards relay_record))"
    unfolding relay_net_def by (intro reply_gives_back; auto simp: relay_record_def example_options_def)+
  show "welcomes example_x509 relay_net example_options (m_server relay_record) (kNone @ newline # kOk @ [newline])"
    using example_welcomes [of "''s:1''" "\<lambda>a. if a = ''s:1'' then kNone @ newline # kOk @ [newline]
        else data_reply (stream_shard ''cloud'' (shard_at (peer_index a)))"]
    by (simp add: relay_net_def relay_record_def example_options_def)
qed (simp_all add: example_options_def presentable_def half_of_def kMaxTransferSize_def relay_client_def client_with_fields
    base_disk_fields fs_simps)


end
