(* ===== verification/Direct.thy ===== *)
theory Direct
  imports Relay
begin

text \<open>
  What \<open>upload_with_passphrase\<close> (\<open>src/client/upload.cpp\<close>) leads to as a whole: an upload that
  reported success has the sealed file either sent to the server, or known there, or recorded as
  pending with the peers that took its shards; and with a server that answers it succeeds.
\<close>

section \<open>Steps\<close>

lemma upload_steps:
  assumes "upload_with_passphrase X E I opt source pw v w = (0, w')"
  obtains stream w1 tag pool d up w2 w3 w4 where "fs_is_regular (cl_disk w) source" "is_safe_name (filename source)"
    "temp (opt_dir opt) ''stream'' w = (stream, w1)"
    "seal_file E (cl_disk w1) (cl_pool w1) source stream pw = (Inr tag, pool, d)"
    "remote_reachable X I (opt_server opt) (opt_trust opt) (w1\<lparr>cl_disk := d, cl_pool := pool\<rparr>) = (up, w2)"
    "(if up then upload_to_server X I opt (filename source) stream tag w2
      else distribute_to_peers X E I opt (filename source) stream tag w3) = (0, w4)"
    "w3 = remark v ''Falling back to peers.'' w2" "w' = drop_temp stream w4"
proof -
  have ok: "fs_is_regular (cl_disk w) source" "is_safe_name (filename source)"
    using assms by (auto simp: upload_with_passphrase_def Let_def split: if_splits)
  obtain stream w1 where t: "temp (opt_dir opt) ''stream'' w = (stream, w1)" by (rule prod.exhaust)
  obtain r pool d where s: "seal_file E (cl_disk w1) (cl_pool w1) source stream pw = (r, pool, d)" by (rule prod_cases3)
  then obtain tag where r: "r = Inr tag"
    using assms ok t by (cases r) (auto simp: upload_with_passphrase_def Let_def split: if_splits)
  obtain up w2 where u: "remote_reachable X I (opt_server opt) (opt_trust opt) (w1\<lparr>cl_disk := d, cl_pool := pool\<rparr>) = (up, w2)"
    by (rule prod.exhaust)
  define w3 where "w3 = remark v ''Falling back to peers.'' w2"
  obtain code w4 where g: "(if up then upload_to_server X I opt (filename source) stream tag w2
      else distribute_to_peers X E I opt (filename source) stream tag w3) = (code, w4)" by (rule prod.exhaust)
  have "upload_with_passphrase X E I opt source pw v w = (code, drop_temp stream w4)"
    using ok t s r u g unfolding w3_def by (simp add: upload_with_passphrase_def fs_exists_def fs_is_regular_def)
  with assms have "code = 0" "w' = drop_temp stream w4" by simp_all
  with that [OF ok t s [unfolded r] u _ w3_def] g show thesis by simp
qed

section \<open>What success means\<close>

definition server_has :: "'a internet \<Rightarrow> client \<Rightarrow> string \<Rightarrow> string \<Rightarrow> string \<Rightarrow> string \<Rightarrow> bool" where
  "server_has I w server name tag s \<longleftrightarrow>
     sent_on w server (putfile_line (length s) tag name @ newline # s) \<or>
     (\<exists>k u ch. inp (link_at I k server) = u @ inp ch \<and> same_tag (fst (remote_stat ch name)) tag)"

definition pending_with :: "'x openssl \<Rightarrow> options \<Rightarrow> client \<Rightarrow> string \<Rightarrow> string \<Rightarrow> string \<Rightarrow> bool" where
  "pending_with E opt w name tag s \<longleftrightarrow>
     (\<exists>mp m. manifest_path (opt_dir opt) name = Some mp \<and> manifest_read (cl_disk w) mp = Inr m \<and> describes E m s \<and>
        m_server m = opt_server opt \<and> m_dedup_tag m = tag \<and> 2 \<le> length (m_shards m) \<and>
        (\<forall>ref\<in>set (m_shards m). handed_out w (opt_peers opt) s ref))"

lemma upload_to_server_sends:
  assumes "upload_to_server X I opt name stream tag w = (0, w')" and "fs_read (cl_disk w) stream = Some s"
  shows "server_has I w' (opt_server opt) name tag s"
proof -
  obtain rc w1 where con: "remote_connect X I opt AccessFiles (opt_server opt) w = (rc, w1)" by (rule prod.exhaust)
  then obtain c where rc: "rc = Inr c" using assms(1) by (cases rc) (simp_all add: upload_to_server_def)
  obtain st c1 where st: "remote_stat c name = (st, c1)" by (rule prod.exhaust)
  show ?thesis
  proof (cases "same_tag st tag")
    case True
    with remote_connect_delivers [OF con [unfolded rc]] st show ?thesis unfolding server_has_def by (metis fst_conv)
  next
    case False
    obtain e c2 where put: "remote_put_file c1 (cl_disk w1) name stream tag = (e, c2)" by (rule prod.exhaust)
    have e: "e = None" "w' = tell ''Stored on the server (encrypted).'' (hang_up (opt_server opt) (remote_quit c2) w1)"
      using assms(1) con rc st put False by (cases e; simp add: upload_to_server_def)+
    have "fs_read (cl_disk w1) stream = Some s" using assms(2) remote_connect_disk [OF con] by simp
    from sent_after_quit [OF put_file_sent [OF put [unfolded e(1)] this], of "opt_server opt" w1]
    have "sent_on w' (opt_server opt) (putfile_line (length s) tag name @ newline # s)" by (simp add: e(2) sent_on_def)
    then show ?thesis by (simp add: server_has_def)
  qed
qed

lemma dropped_keeps:
  assumes "p \<in> scratch (opt_dir opt)"
  shows "server_has I w a n t s \<Longrightarrow> server_has I (drop_temp p w) a n t s"
    and "pending_with E opt w n t s \<Longrightarrow> pending_with E opt (drop_temp p w) n t s"
proof -
  have links: "sent_on (drop_temp p w) b x = sent_on w b x" for b x by (simp add: sent_on_def drop_temp_links)
  then show "server_has I w a n t s \<Longrightarrow> server_has I (drop_temp p w) a n t s" by (simp add: server_has_def)
  have handed: "handed_out (drop_temp p w) ps c ref = handed_out w ps c ref" for ps c ref
    by (simp add: handed_out_def links)
  have same: "fs_read (cl_disk (drop_temp p w)) q = fs_read (cl_disk w) q" if "q \<noteq> p" for q
    using drop_temp_confined [of p w] that by (simp add: confined_def touches_def fs_read_def)
  assume "pending_with E opt w n t s"
  then show "pending_with E opt (drop_temp p w) n t s"
    unfolding pending_with_def handed
    by (metis assms manifest_path_not_scratch same manifest_read_same)
qed


section \<open>A server that answers\<close>

definition reached :: "('c, 'k) x509 \<Rightarrow> 'a internet \<Rightarrow> options \<Rightarrow> nat \<Rightarrow> string \<Rightarrow> string \<Rightarrow> bool" where
  "reached X I opt k address msg \<longleftrightarrow> (\<exists>v. fst (dial X (net_at I k) address (opt_trust opt)) = Inr v) \<and>
     calm (link_at I k address) \<and> inp (link_at I k address) = msg"

text \<open>What a connection does depends on that dial only.\<close>

lemma remote_connect_reached:
  assumes "reached X I opt (cl_dials w) address (greeting @ rest)" and "presentable (opt_cred opt) acc"
  obtains c w' where "remote_connect X I opt acc address w = (Inr c, w')" "calm c" "inp c = rest" "cl_disk w' = cl_disk w"
proof -
  let ?J = "\<lparr>net_at = \<lambda>_. net_at I (cl_dials w), link_at = \<lambda>_. link_at I (cl_dials w)\<rparr>"
  have "welcomes X ?J opt address rest" using assms(1) by (simp add: reached_def welcomes_def dials_def)
  from remote_connect_ok [OF this assms(2), of w] obtain c w' where
    "remote_connect X ?J opt acc address w = (Inr c, w')" "calm c" "inp c = rest" "cl_disk w' = cl_disk w" by blast
  moreover have "remote_connect X ?J opt acc address w = remote_connect X I opt acc address w"
    unfolding remote_connect_def dial_channel_def internet.simps ..
  ultimately show thesis using that by simp
qed

lemma remote_reachable_reached:
  assumes "reached X I opt (cl_dials w) address (kPong @ [newline])"
  obtains w' where "remote_reachable X I address (opt_trust opt) w = (True, w')" "cl_disk w' = cl_disk w"
    "cl_dials w' = Suc (cl_dials w)"
proof -
  let ?c = "link_at I (cl_dials w) address"
  have "one_line kPong" "length kPong \<le> kMaxLineLen" by (simp_all add: vocabulary kMaxLineLen_def)
  moreover have c: "calm ?c" "inp ?c = kPong @ newline # []" using assms by (simp_all add: reached_def)
  ultimately obtain c' where "ask ?c kPing = (Inr kPong, c')" using ask_ok [OF c] by blast
  then have "remote_reachable X I address (opt_trust opt) w =
      (True, hang_up address c' (w\<lparr>cl_dials := Suc (cl_dials w)\<rparr>))"
    using assms by (auto simp: remote_reachable_def dial_channel_def reached_def ping_def)
  with that show thesis by (simp add: hang_up_def)
qed

lemma upload_to_server_runs:
  assumes "reached X I opt (cl_dials w) (opt_server opt) (greeting @ kNone @ newline # kOk @ [newline])"
    and "presentable (opt_cred opt) AccessFiles" and "fs_read (cl_disk w) stream = Some s"
  shows "\<exists>w'. upload_to_server X I opt name stream tag w = (0, w') \<and>
    sent_on w' (opt_server opt) (putfile_line (length s) tag name @ newline # s)"
proof -
  obtain c w1 where con: "remote_connect X I opt AccessFiles (opt_server opt) w = (Inr c, w1)" "calm c"
      "inp c = kNone @ newline # kOk @ [newline]" "cl_disk w1 = cl_disk w"
    by (rule remote_connect_reached [OF assms(1,2)])
  obtain c1 where st: "remote_stat c name = (Inr None, c1)" "calm c1" "inp c1 = kOk @ [newline]"
    by (rule stat_none [OF con(2,3)])
  have rd: "fs_read (cl_disk w1) stream = Some s" using con(4) assms(3) by simp
  from put_file_ok [OF st(2,3) this] obtain c2 where put: "remote_put_file c1 (cl_disk w1) name stream tag = (None, c2)" by blast
  from sent_after_quit [OF put_file_sent [OF put rd], of "opt_server opt" w1]
  show ?thesis using con(1) st(1) put by (simp add: upload_to_server_def same_tag_def sent_on_def)
qed

lemma direct_upload_runs:
  assumes "openssl_ok E" and "openssl_works E" and "fs_read (cl_disk w) source = Some txt" and "length txt < 2 ^ 63"
    and "is_safe_name (filename source)" and "faults (cl_disk w) = []" and "\<forall>p\<in>scratch (opt_dir opt). writable (cl_disk w) p"
    and "12 + kSaltLen + kIvLen * length txt \<le> length (cl_pool w)" and "presentable (opt_cred opt) AccessFiles"
    and "reached X I opt (cl_dials w) (opt_server opt) (kPong @ [newline])"
    and "reached X I opt (Suc (cl_dials w)) (opt_server opt) (greeting @ kNone @ newline # kOk @ [newline])"
  shows "\<exists>w' s tag. upload_with_passphrase X E I opt source pw v w = (0, w') \<and>
    sent_on w' (opt_server opt) (putfile_line (length s) tag (filename source) @ newline # s) \<and>
    (\<forall>e q out. faults e = [] \<longrightarrow> fs_read e q = Some s \<longrightarrow> writable e out \<longrightarrow>
       open_file E e q out pw = (Inr (), put e out txt))"
proof -
  obtain stream w1 where t: "temp (opt_dir opt) ''stream'' w = (stream, w1)" by (rule prod.exhaust)
  have tmp: "stream \<in> scratch (opt_dir opt)" and w1: "cl_disk w1 = cl_disk w"
    using temp_result [OF t] is_temp_scratch by auto
  have pool: "cl_pool w1 = drop 12 (cl_pool w)" "cl_dials w1 = cl_dials w"
    using t assms(8) by (auto simp: temp_def random_bytes_def)
  have src: "fs_read (cl_disk w1) source = Some txt" using assms(3) w1 by simp
  have "kSaltLen + kIvLen * length txt \<le> length (cl_pool w1)" using assms(8) pool(1) by simp
  then obtain tag pool s where seal: "seal_file E (cl_disk w1) (cl_pool w1) source stream pw = (Inr tag, pool, put (cl_disk w1) stream s)"
    using seal_file_succeeds [OF assms(1,2) src, of stream "cl_pool w1" pw] assms(6,7) tmp w1 by auto
  define d where "d = put (cl_disk w1) stream s"
  have s: "fs_read d stream = Some s" by (simp add: d_def fs_simps)
  have "reached X I opt (cl_dials (w1\<lparr>cl_disk := d, cl_pool := pool\<rparr>)) (opt_server opt) (kPong @ [newline])"
    using assms(10) \<open>cl_dials w1 = cl_dials w\<close> by simp
  from remote_reachable_reached [OF this] obtain w2 where
    u: "remote_reachable X I (opt_server opt) (opt_trust opt) (w1\<lparr>cl_disk := d, cl_pool := pool\<rparr>) = (True, w2)"
    and w2: "cl_disk w2 = d" "cl_dials w2 = Suc (cl_dials w)" using \<open>cl_dials w1 = cl_dials w\<close> by auto
  have "\<exists>w3. upload_to_server X I opt (filename source) stream tag w2 = (0, w3) \<and>
      sent_on w3 (opt_server opt) (putfile_line (length s) tag (filename source) @ newline # s)"
    by (rule upload_to_server_runs) (use assms(9,11) w2 s in simp_all)
  then obtain w3 where w3: "upload_to_server X I opt (filename source) stream tag w2 = (0, w3)"
    "sent_on w3 (opt_server opt) (putfile_line (length s) tag (filename source) @ newline # s)" by blast
  have "fs_exists (cl_disk w) source" "fs_is_regular (cl_disk w) source"
    using assms(3) by (auto simp: fs_exists_def fs_is_regular_def fs_read_def)
  then have "upload_with_passphrase X E I opt source pw v w = (0, drop_temp stream w3)"
    using assms(5) t seal u w3(1) unfolding d_def by (simp add: upload_with_passphrase_def)
  moreover have "sent_on (drop_temp stream w3) a x = sent_on w3 a x" for a x by (simp add: sent_on_def drop_temp_links)
  moreover have "open_file E e q out pw = (Inr (), put e out txt)" if "faults e = []" "fs_read e q = Some s" "writable e out" for e q out
    by (rule open_file_sealed [OF assms(1) seal src assms(4) that(1) _ that(3)]) (use s that(2) in \<open>simp add: d_def\<close>)
  ultimately show ?thesis using w3(2) by metis
qed

text \<open>C15: with a server that answers, an upload succeeds.\<close>

theorem upload_succeeds_directly:
  assumes "openssl_ok E" and "openssl_works E" and "fs_read (cl_disk w) source = Some txt" and "length txt < 2 ^ 63"
    and "is_safe_name (filename source)" and "faults (cl_disk w) = []" and "\<forall>p\<in>scratch (opt_dir opt). writable (cl_disk w) p"
    and "12 + kSaltLen + kIvLen * length txt \<le> length (cl_pool w)" and "presentable (opt_cred opt) AccessFiles"
    and "reached X I opt (cl_dials w) (opt_server opt) (kPong @ [newline])"
    and "reached X I opt (Suc (cl_dials w)) (opt_server opt) (greeting @ kNone @ newline # kOk @ [newline])"
  shows "\<exists>w' s tag. upload_with_passphrase X E I opt source pw v w = (0, w') \<and>
    sent_on w' (opt_server opt) (putfile_line (length s) tag (filename source) @ newline # s) \<and>
    (\<forall>e q out. faults e = [] \<longrightarrow> fs_read e q = Some s \<longrightarrow> writable e out \<longrightarrow>
       open_file E e q out pw = (Inr (), put e out txt))"
  by (rule direct_upload_runs [OF assms])

section \<open>Examples\<close>

definition direct_net :: "nat internet" where
  "direct_net = \<lparr>net_at = \<lambda>k. example_network,
     link_at = \<lambda>k a. quiet (if k = 0 then kPong @ [newline] else greeting @ kNone @ newline # kOk @ [newline])\<rparr>"

definition direct_client :: client where
  "direct_client = (client_with base_disk)\<lparr>cl_pool := replicate 64 5\<rparr>"

lemma direct_reached:
  "reached example_x509 direct_net example_options 0 (opt_server example_options) (kPong @ [newline])"
  "reached example_x509 direct_net example_options (Suc 0) (opt_server example_options) (greeting @ kNone @ newline # kOk @ [newline])"
  by (auto simp: reached_def direct_net_def example_options_def dial_def split_address_def example_network_def
      connect_with_timeout_def nothing_held_def)

lemma direct_client_fields:
  "cl_disk direct_client = base_disk" "cl_dials direct_client = 0" "cl_pool direct_client = replicate 64 5"
  "cl_con direct_client = \<lparr>con_env = Some ''pw'', con_tty = False, con_lines = []\<rparr>" "cl_watch_stops direct_client = []"
  by (simp_all add: direct_client_def client_with_def example_client_def)

lemma direct_scene:
  "fs_read (cl_disk direct_client) [''a''] = Some ''hi''" "length ''hi'' < (2::nat) ^ 63" "is_safe_name (filename [''a''])"
  "faults (cl_disk direct_client) = []" "\<forall>p\<in>scratch (opt_dir example_options). writable (cl_disk direct_client) p"
  "12 + kSaltLen + kIvLen * length ''hi'' \<le> length (cl_pool direct_client)" "presentable (opt_cred example_options) AccessFiles"
  "reached example_x509 direct_net example_options (cl_dials direct_client) (opt_server example_options) (kPong @ [newline])"
  "reached example_x509 direct_net example_options (Suc (cl_dials direct_client)) (opt_server example_options)
     (greeting @ kNone @ newline # kOk @ [newline])"
  using scratch_writable [of base_disk] direct_reached
  by (simp_all add: direct_client_fields base_disk_fields filename_def is_safe_name_def forbidden_char_def kBackslash_code
      kSaltLen_def kIvLen_def example_options_def presentable_def)

lemma upload_succeeds_directly_witness:
  "\<exists>w' s tag. upload_with_passphrase example_x509 mini_openssl direct_net example_options [''a''] ''pw'' True direct_client = (0, w') \<and>
     sent_on w' ''s:1'' (putfile_line (length s) tag ''a'' @ newline # s)"
  using upload_succeeds_directly [OF mini_openssl_ok mini_openssl_works direct_scene, of "''pw''" True]
  by (auto simp: example_options_def filename_def)


end
