(* ===== verification/Watch.thy ===== *)
theory Watch
  imports Direct
begin

text \<open>
  \<open>src/client/watch.cpp\<close>: uploading whatever is new or has changed in a folder, pass after pass, and
  forwarding in the same loop what waits for the server. What was uploaded before is an association
  list without duplicate keys, kept in a text file in the order of the names. The stop flag of this
  file is \<open>cl_watch_stops\<close>; the one of \<open>sync.cpp\<close> is another variable.
\<close>

definition kStateMagic :: string where "kStateMagic = ''pcs-watch''"
definition kStateVersion :: nat where "kStateVersion = 1"

record seen =
  seen_size :: u64
  seen_modified :: int

type_synonym watch_state = "(string \<times> seen) list"

section \<open>The state file\<close>

text \<open>Half of the largest 64-bit number.\<close>

definition kSizeMax :: u64 where "kSizeMax = - 1 div 2"

text \<open>
  The name starts one byte after the first place where the text of the third field occurs in the
  line, wherever that is.
\<close>

definition watch_entry :: "string \<Rightarrow> (string \<times> seen) option" where
  "watch_entry line =
     (let f = split line
      in if length f < 4 \<or> f ! 0 \<noteq> ''file'' then None
      else case parse_size (f ! 1) kSizeMax of
        None \<Rightarrow> None
      | Some n \<Rightarrow>
      case after_sub (f ! 2) line of
        None \<Rightarrow> None
      | Some rest \<Rightarrow>
          if length rest \<le> 1 then None
          else Some (tl rest, \<lparr>seen_size = n, seen_modified = strtoll (f ! 2)\<rparr>))"

fun watch_entries :: "watch_state \<Rightarrow> string list \<Rightarrow> watch_state" where
  "watch_entries st [] = st"
| "watch_entries st (line # lines) =
     (case watch_entry line of
        None \<Rightarrow> watch_entries st lines
      | Some (n, s) \<Rightarrow> watch_entries (AList.update n s st) lines)"

definition watch_load :: "disk \<Rightarrow> path \<Rightarrow> watch_state option" where
  "watch_load d p =
     (case fs_read d p of
        None \<Rightarrow> Some []
      | Some c \<Rightarrow>
      case getlines c of
        [] \<Rightarrow> Some []
      | line # lines \<Rightarrow>
      let head = split line
      in if length head \<noteq> 2 \<or> head ! 0 \<noteq> kStateMagic then None
      else if head ! 1 \<noteq> to_dec kStateVersion then None
      else Some (watch_entries [] lines))"

definition watch_line :: "string \<times> seen \<Rightarrow> string" where
  "watch_line e =
     ''file '' @ to_dec (unat (seen_size (snd e))) @ '' '' @ show_int (seen_modified (snd e)) @ '' '' @ fst e"

definition watch_lines :: "watch_state \<Rightarrow> string list" where
  "watch_lines st = (kStateMagic @ '' '' @ to_dec kStateVersion) # map watch_line (sort_key fst st)"

definition watch_save :: "disk \<Rightarrow> path \<Rightarrow> watch_state \<Rightarrow> bool \<times> disk" where
  "watch_save d p st =
     (case fs_create d p of (ok, d) \<Rightarrow>
      if \<not> ok then (False, d) else out_flush p (out_lines p (watch_lines st) (True, d)))"

definition unchanged :: "watch_state \<Rightarrow> string \<Rightarrow> seen \<Rightarrow> bool" where
  "unchanged st name cur =
     (case map_of st name of
        None \<Rightarrow> False
      | Some old \<Rightarrow> seen_size old = seen_size cur \<and> seen_modified old = seen_modified cur)"

definition watch_record :: "string \<Rightarrow> seen \<Rightarrow> watch_state \<Rightarrow> watch_state" where
  "watch_record name s st = AList.update name s st"

definition watch_forget :: "string \<Rightarrow> watch_state \<Rightarrow> watch_state" where
  "watch_forget name st = AList.delete name st"

section \<open>The watcher\<close>

definition modified_time :: "disk \<Rightarrow> path \<Rightarrow> int" where
  "modified_time d p = (case fs_mtime d p of None \<Rightarrow> 0 | Some t \<Rightarrow> t)"

definition watch_stop_requested :: "client \<Rightarrow> bool \<times> client" where
  "watch_stop_requested w =
     (case cl_watch_stops w of
        [] \<Rightarrow> (False, w)
      | b # bs \<Rightarrow> if b then (True, w) else (False, w\<lparr>cl_watch_stops := bs\<rparr>))"

text \<open>What \<open>file_size\<close> and \<open>last_write_time\<close> say of an entry now, unless they fail.\<close>

definition seen_now :: "disk \<Rightarrow> path \<Rightarrow> seen option" where
  "seen_now d p =
     (case fs_size d p of
        None \<Rightarrow> None
      | Some n \<Rightarrow> Some \<lparr>seen_size = word_of_nat n, seen_modified = modified_time d p\<rparr>)"

record watcher =
  wt_state :: watch_state
  wt_changed :: bool
  wt_uploaded :: nat

fun watch_each ::
  "('c, 'k) x509 \<Rightarrow> 'x openssl \<Rightarrow> 'a internet \<Rightarrow> options \<Rightarrow> string \<Rightarrow> path list \<Rightarrow> watcher \<Rightarrow> client \<Rightarrow>
     watcher \<times> client" where
  "watch_each X E I opt passphrase [] t w = (t, w)"
| "watch_each X E I opt passphrase (p # todo) t w =
     (case watch_stop_requested w of (stop, w) \<Rightarrow>
      if stop then (t, w)
      else if \<not> fs_is_regular (cl_disk w) p then watch_each X E I opt passphrase todo t w
      else
      let name = filename p
      in if \<not> is_safe_name name then watch_each X E I opt passphrase todo t w
      else case seen_now (cl_disk w) p of
        None \<Rightarrow> watch_each X E I opt passphrase todo t w
      | Some cur \<Rightarrow>
      if unchanged (wt_state t) name cur then watch_each X E I opt passphrase todo t w
      else case upload_with_passphrase X E I opt p passphrase False (tell (name @ '': uploading'') w) of (code, w) \<Rightarrow>
        if code = 0
        then watch_each X E I opt passphrase todo
               \<lparr>wt_state = watch_record name cur (wt_state t), wt_changed = True, wt_uploaded = Suc (wt_uploaded t)\<rparr>
               (tell (name @ '': stored'') w)
        else watch_each X E I opt passphrase todo t (tell (name @ '': failed, will retry'') w))"

text \<open>The folder is listed once a pass; a folder that has gone is empty.\<close>

definition watch_pass ::
  "('c, 'k) x509 \<Rightarrow> 'x openssl \<Rightarrow> 'a internet \<Rightarrow> options \<Rightarrow> path \<Rightarrow> string \<Rightarrow> path \<Rightarrow> watcher \<Rightarrow> client \<Rightarrow>
     watcher \<times> client" where
  "watch_pass X E I opt folder passphrase state_path t w =
     (case watch_each X E I opt passphrase (fs_list (cl_disk w) folder) (t\<lparr>wt_changed := False\<rparr>) w of (t, w) \<Rightarrow>
      let w = (if wt_changed t
               then case watch_save (cl_disk w) state_path (wt_state t) of (ok, d) \<Rightarrow>
                      remark (\<not> ok) ''Warning: cannot write'' (on_disk d w)
               else w)
      in case sync_pass X E I opt False w of (n, w) \<Rightarrow> (t, w))"

fun watch_sleep :: "nat \<Rightarrow> client \<Rightarrow> client" where
  "watch_sleep 0 w = w"
| "watch_sleep (Suc k) w =
     (case watch_stop_requested w of (stop, w) \<Rightarrow> if stop then w else watch_sleep k w)"

fun watch_loop ::
  "nat \<Rightarrow> ('c, 'k) x509 \<Rightarrow> 'x openssl \<Rightarrow> 'a internet \<Rightarrow> options \<Rightarrow> path \<Rightarrow> string \<Rightarrow> path \<Rightarrow> nat \<Rightarrow> watcher \<Rightarrow>
     client \<Rightarrow> (watcher \<times> client) option" where
  "watch_loop 0 X E I opt folder passphrase state_path interval t w = None"
| "watch_loop (Suc fuel) X E I opt folder passphrase state_path interval t w =
     (case watch_stop_requested w of (stop, w) \<Rightarrow>
      if stop then Some (t, w)
      else case watch_pass X E I opt folder passphrase state_path t w of (t, w) \<Rightarrow>
        watch_loop fuel X E I opt folder passphrase state_path interval t (watch_sleep interval w))"

text \<open>
  No folder stands for an empty name. Only \<open>cmd_autosync\<close> ever has the flag of \<open>sync.cpp\<close> set, so
  the passes of sync here never see it.
\<close>

definition cmd_watch ::
  "nat \<Rightarrow> ('c, 'k) x509 \<Rightarrow> 'x openssl \<Rightarrow> 'a internet \<Rightarrow> options \<Rightarrow> path option \<Rightarrow> nat \<Rightarrow> client \<Rightarrow> (nat \<times> client) option" where
  "cmd_watch fuel X E I opt given interval w =
     (case given of
        None \<Rightarrow> Some (1, tell ''No folder to watch.'' w)
      | Some folder \<Rightarrow>
      if folder \<notin> set (dirs (cl_disk w)) then Some (1, tell ''Not a folder'' w)
      else case resolve_passphrase (cl_disk w) (opt_key opt) (cl_con w) of
        (Inl e, con) \<Rightarrow> Some (1, tell ''no passphrase'' (w\<lparr>cl_con := con\<rparr>))
      | (Inr passphrase, con) \<Rightarrow>
      case workspace_init (opt_dir opt) (w\<lparr>cl_con := con, cl_stops := []\<rparr>) of (ok, w) \<Rightarrow>
      if \<not> ok then Some (1, tell ''cannot create the working directory'' w)
      else
      let state_path = path_join (pending_dir (opt_dir opt)) ''.watch-state''
      in case watch_load (cl_disk w) state_path of
        None \<Rightarrow> Some (1, tell ''Cannot read the watch state.'' w)
      | Some st \<Rightarrow>
          map_option (\<lambda>(t, w). (0, tell ''Stopped.'' w))
            (watch_loop fuel X E I opt folder passphrase state_path interval
               \<lparr>wt_state = st, wt_changed = False, wt_uploaded = 0\<rparr> (tell ''Watching'' w)))"

section \<open>What is read back\<close>

text \<open>
  An entry the state file can hold: a time before the epoch of the clock files are stamped with
  (the year 2174 with the GNU library), so that its text starts with a sign, a name that is not all
  spaces, and a size below half of the range.
\<close>

definition storable :: "string \<Rightarrow> seen \<Rightarrow> bool" where
  "storable n s \<longleftrightarrow> is_safe_name n \<and> (\<exists>ch\<in>set n. ch \<noteq> space) \<and> seen_size s \<le> kSizeMax \<and>
     - (2 ^ 63) \<le> seen_modified s \<and> seen_modified s < 0"

definition state_ok :: "watch_state \<Rightarrow> bool" where
  "state_ok st \<longleftrightarrow> distinct (map fst st) \<and> (\<forall>(n, s)\<in>set st. storable n s)"

lemma state_ok_record: "state_ok st \<Longrightarrow> storable n s \<Longrightarrow> state_ok (watch_record n s st)"
  using update_subset [of n s st] by (auto simp: state_ok_def watch_record_def AList.distinct_update)

lemma state_ok_forget: "state_ok st \<Longrightarrow> state_ok (watch_forget n st)"
  by (auto simp: state_ok_def watch_forget_def AList.delete_eq distinct_map_filter)

lemma split_not_blank: "\<exists>ch\<in>set s. ch \<noteq> space \<Longrightarrow> split s \<noteq> []"
proof (induction s)
  case (Cons c s)
  show ?case
  proof (cases "c = space")
    case False
    then have "skip_spaces (c # s) = c # s" by (simp add: skip_spaces_def)
    with False show ?thesis by (subst split.simps) (simp add: Let_def field_def)
  qed (use Cons in auto)
qed simp

lemma after_sub_found:
  "k \<notin> set pre \<Longrightarrow> after_sub (k # key) (pre @ k # key @ rest) = Some rest"
proof (induction pre)
  case Nil
  have "prefix (k # key) (k # key @ rest)" by simp
  then show ?case by simp
next
  case (Cons c pre)
  then show ?case by simp
qed

lemma show_int_negative: "i < 0 \<Longrightarrow> show_int i = CHR ''-'' # to_dec (nat (- i))"
  by (simp add: show_int_def)

lemma minus_not_digit: "CHR ''-'' \<notin> set (to_dec n)" "space \<notin> set (to_dec n)"
  using to_dec_digits [of n] by (auto simp: list_all_iff is_digit_code)

lemma strtoll_negative:
  assumes "- (2 ^ 63) \<le> i" "i < 0" shows "strtoll (show_int i) = i"
  using assms to_dec_digits [of "nat (- i)"]
  by (simp add: show_int_negative strtoll_def c_space_def clamp64_def takeWhile_list_all)

lemma watch_entry_line: "storable n s \<Longrightarrow> watch_entry (watch_line (n, s)) = Some (n, s)"
proof -
  assume s: "storable n s"
  let ?size = "to_dec (unat (seen_size s))" and ?t = "show_int (seen_modified s)"
  have t: "?t = CHR ''-'' # to_dec (nat (- seen_modified s))" using s by (simp add: storable_def show_int_negative)
  have sp: "split (watch_line (n, s)) = ''file'' # ?size # ?t # split n"
    using split_field [of "''file''" "?size @ '' '' @ ?t @ '' '' @ n"] split_field [of ?size "?t @ '' '' @ n"]
      split_field [of ?t n] minus_not_digit by (simp add: watch_line_def t)
  have n: "split n \<noteq> []" using s by (simp add: storable_def split_not_blank)
  have p: "parse_size ?size kSizeMax = Some (seen_size s)"
    using s parse_size_to_dec [of "unat (seen_size s)" kSizeMax] by (simp add: storable_def word_le_nat_alt)
  have "CHR ''-'' \<notin> set (''file '' @ ?size @ '' '')" using minus_not_digit by simp
  from after_sub_found [OF this, of "to_dec (nat (- seen_modified s))" "space # n"]
  have a: "after_sub ?t (watch_line (n, s)) = Some (space # n)" by (simp add: watch_line_def t)
  have "n \<noteq> []" using s by (auto simp: storable_def)
  with sp n p a show ?thesis
    using s by (simp add: watch_entry_def Let_def strtoll_negative storable_def Suc_le_eq)
qed

lemma watch_entries_lines:
  "\<forall>(n, s)\<in>set es. storable n s \<Longrightarrow>
     map_of (watch_entries st (map watch_line es)) = map_of (rev es @ st)"
proof (induction es arbitrary: st)
  case (Cons e es)
  obtain n s where e: "e = (n, s)" by (rule prod.exhaust)
  with Cons have "map_of (watch_entries st (map watch_line (e # es))) = map_of (rev es @ AList.update n s st)"
    by (simp add: watch_entry_line)
  also have "\<dots> = map_of (rev (e # es) @ st)" by (simp add: e map_add_def update_conv' fun_eq_iff)
  finally show ?case .
qed simp

lemma watch_save_success:
  assumes "watch_save d p st = (True, d')"
  shows "fs_read d' p = Some (unlines (watch_lines st)) \<and> touches {p} d d'"
proof -
  obtain ok d1 where c: "fs_create d p = (ok, d1)" by (rule prod.exhaust)
  obtain g d2 where w: "out_lines p (watch_lines st) (True, d1) = (g, d2)" by (rule prod.exhaust)
  obtain g2 d3 where f: "out_flush p (g, d2) = (g2, d3)" by (rule prod.exhaust)
  have ok: ok g2 "d' = d3" using assms by (auto simp: watch_save_def c w f split: if_splits)
  then have g: g and fl: "fs_flush d2 p = (True, d3)" using f by (auto simp: out_flush_def split: if_splits)
  have "fs_read d2 p = Some (unlines (watch_lines st))"
    using out_lines_success [of p "watch_lines st" True d1 d2 "[]"] w g c ok(1) create_effect by simp
  then have "fs_read d3 p = Some (unlines (watch_lines st))" using flush_effect [OF fl] by simp
  moreover have "touches {p} d d3"
    using touches_trans [OF touches_trans [OF touches_create [OF c] out_lines_touches [OF w]] out_flush_touches [OF f]] by simp
  ultimately show ?thesis using ok by simp
qed

lemma watch_saved_loads:
  assumes "state_ok st" and "fs_read d p = Some (unlines (watch_lines st))"
  shows "\<exists>st'. watch_load d p = Some st' \<and> map_of st' = map_of st"
proof -
  let ?es = "sort_key fst st"
  have ok: "\<forall>(n, s)\<in>set ?es. storable n s" and dist: "distinct (map fst st)" using assms(1) by (simp_all add: state_ok_def)
  have line: "newline \<notin> set (watch_line (n, s))" if "storable n s" for n s
    using that is_safe_name_no_newline [of n] newline_not_digit
    by (auto simp: watch_line_def storable_def show_int_def newline_code)
  have "\<forall>l\<in>set (watch_lines st). newline \<notin> set l"
    using ok line by (auto simp: watch_lines_def kStateMagic_def newline_not_digit)
  then have lines: "getlines (unlines (watch_lines st)) = watch_lines st" by (rule getlines_unlines)
  have head: "split (kStateMagic @ '' '' @ to_dec kStateVersion) = [kStateMagic, to_dec kStateVersion]"
    using split_field [of kStateMagic "to_dec kStateVersion"] is_word_to_dec [of kStateVersion]
    by (simp add: kStateMagic_def split_word is_word_def)
  have "watch_load d p = Some (watch_entries [] (map watch_line ?es))"
    using assms(2) lines head by (simp add: watch_load_def watch_lines_def)
  moreover have "map_of (watch_entries [] (map watch_line ?es)) = map_of st"
    using watch_entries_lines [OF ok, of "[]"] map_of_sorted [OF dist] by simp
  ultimately show ?thesis by blast
qed

section \<open>Being told to stop\<close>

lemma watch_stop_frame: "watch_stop_requested w = (b, w') \<Longrightarrow> \<exists>bs. w' = w\<lparr>cl_watch_stops := bs\<rparr>"
  by (cases w) (auto simp: watch_stop_requested_def split: list.splits if_splits)

lemma watch_stop_fewer:
  "watch_stop_requested w = (b, w') \<Longrightarrow> fewer (cl_watch_stops w) (cl_watch_stops w') \<and>
     (\<not> b \<longrightarrow> True \<in> set (cl_watch_stops w) \<longrightarrow> looks (cl_watch_stops w') < looks (cl_watch_stops w))"
  by (auto simp: watch_stop_requested_def fewer_def looks_def split: list.splits if_splits)

lemma watch_each_fewer:
  "watch_each X E I opt pw todo t w = (t', w') \<Longrightarrow> fewer (cl_watch_stops w) (cl_watch_stops w')"
proof (induction todo arbitrary: t w)
  case (Cons p todo)
  obtain stop w1 where s: "watch_stop_requested w = (stop, w1)" by (rule prod.exhaust)
  note w1 = watch_stop_fewer [OF s, THEN conjunct1]
  have rest: ?case if "watch_each X E I opt pw todo t1 w2 = (t', w')" "cl_watch_stops w2 = cl_watch_stops w1" for t1 w2
    using fewer_trans [OF w1] Cons.IH [OF that(1)] that(2) by simp
  obtain code w2 where u: "upload_with_passphrase X E I opt p pw False (tell (filename p @ '': uploading'') w1) = (code, w2)"
    by (rule prod.exhaust)
  have w2: "cl_watch_stops w2 = cl_watch_stops w1" using upload_flags [OF u] by (simp add: flags_def tell_def)
  then have told: "cl_watch_stops (tell m w2) = cl_watch_stops w1" for m by (simp add: tell_def)
  show ?case
    using Cons.prems s w1 u rest [OF _ refl] rest [OF _ told]
    by (auto simp: Let_def split: if_splits option.splits)
qed simp

lemma watch_pass_fewer:
  assumes "watch_pass X E I opt folder pw sp t w = (t', w')"
  shows "fewer (cl_watch_stops w) (cl_watch_stops w')"
proof -
  obtain t1 w1 where e: "watch_each X E I opt pw (fs_list (cl_disk w) folder) (t\<lparr>wt_changed := False\<rparr>) w = (t1, w1)"
    by (rule prod.exhaust)
  define w2 where "w2 = (if wt_changed t1
      then case watch_save (cl_disk w1) sp (wt_state t1) of (ok, d) \<Rightarrow> remark (\<not> ok) ''Warning: cannot write'' (on_disk d w1)
      else w1)"
  obtain r w3 where y: "sync_once X E I opt False w2 = (r, w3)" by (rule prod.exhaust)
  have "cl_watch_stops w2 = cl_watch_stops w1"
    by (simp add: w2_def on_disk_def remark_def tell_def split: prod.split)
  moreover have "w' = w3" using assms e y by (simp add: watch_pass_def sync_pass_def flip: w2_def)
  ultimately show ?thesis using watch_each_fewer [OF e] sync_once_fewer [OF y] by simp
qed

lemma watch_sleep_fewer: "fewer (cl_watch_stops w) (cl_watch_stops (watch_sleep k w))"
proof (induction k arbitrary: w)
  case (Suc k)
  obtain stop w1 where s: "watch_stop_requested w = (stop, w1)" by (rule prod.exhaust)
  with watch_stop_fewer [OF s] Suc [of w1] show ?case by (auto intro: fewer_trans)
qed simp

lemma watch_loop_ends:
  "True \<in> set (cl_watch_stops w) \<Longrightarrow> looks (cl_watch_stops w) < fuel \<Longrightarrow>
     watch_loop fuel X E I opt folder pw sp interval t w \<noteq> None"
proof (induction fuel arbitrary: t w)
  case (Suc fuel)
  obtain stop w1 where s: "watch_stop_requested w = (stop, w1)" by (rule prod.exhaust)
  obtain t2 w2 where o: "watch_pass X E I opt folder pw sp t w1 = (t2, w2)" by (rule prod.exhaust)
  let ?w = "watch_sleep interval w2"
  have "True \<in> set (cl_watch_stops ?w)" and "looks (cl_watch_stops ?w) < fuel" if "\<not> stop"
    using watch_stop_fewer [OF s] watch_pass_fewer [OF o] watch_sleep_fewer [of w2 interval] that Suc.prems
    by (auto simp: fewer_def)
  with Suc.IH s o show ?case by simp
qed simp

lemma cmd_watch_ends:
  assumes "True \<in> set (cl_watch_stops w)" and "looks (cl_watch_stops w) < fuel"
  shows "cmd_watch fuel X E I opt given interval w \<noteq> None"
proof -
  obtain r con where p: "resolve_passphrase (cl_disk w) (opt_key opt) (cl_con w) = (r, con)" by (rule prod.exhaust)
  obtain ok w1 where i: "workspace_init (opt_dir opt) (w\<lparr>cl_con := con, cl_stops := []\<rparr>) = (ok, w1)" by (rule prod.exhaust)
  have "cl_watch_stops (tell ''Watching'' w1) = cl_watch_stops w"
    using workspace_init_flags [OF i] by (simp add: flags_def tell_def)
  then have "watch_loop fuel X E I opt folder pw sp interval t (tell ''Watching'' w1) \<noteq> None" for folder pw sp t
    using watch_loop_ends assms by metis
  with p i show ?thesis
    by (cases given; cases r; cases ok; cases "watch_load (cl_disk w1) (path_join (pending_dir (opt_dir opt)) ''.watch-state'')")
      (auto simp: cmd_watch_def Let_def)
qed

section \<open>What is uploaded, and what is recorded\<close>

text \<open>
  A name enters the state, or changes there, only with an upload of that file which reported
  success, and with the size and the time the file had just before.
\<close>

definition uploaded_as ::
  "('c, 'k) x509 \<Rightarrow> 'x openssl \<Rightarrow> 'a internet \<Rightarrow> options \<Rightarrow> string \<Rightarrow> path list \<Rightarrow> string \<Rightarrow> seen \<Rightarrow> bool" where
  "uploaded_as X E I opt pw ps n s \<longleftrightarrow>
     (\<exists>p w1 w2. p \<in> set ps \<and> filename p = n \<and> is_safe_name n \<and> seen_now (cl_disk w1) p = Some s \<and>
        upload_with_passphrase X E I opt p pw False w1 = (0, w2))"

lemma uploaded_as_mono: "uploaded_as X E I opt pw ps n s \<Longrightarrow> uploaded_as X E I opt pw (p # ps) n s"
  unfolding uploaded_as_def by (metis list.set_intros(2))

lemma watch_each_records:
  "watch_each X E I opt pw todo t w = (t', w') \<Longrightarrow> map_of (wt_state t') n = Some s \<Longrightarrow>
     map_of (wt_state t) n = Some s \<or> uploaded_as X E I opt pw todo n s"
proof (induction todo arbitrary: t w)
  case (Cons p todo)
  obtain stop w1 where st: "watch_stop_requested w = (stop, w1)" by (rule prod.exhaust)
  obtain code w2 where u: "upload_with_passphrase X E I opt p pw False (tell (filename p @ '': uploading'') w1) = (code, w2)"
    by (rule prod.exhaust)
  have same: ?case if "watch_each X E I opt pw todo t v = (t', w')" for v
    using Cons.IH [OF that Cons.prems(2)] uploaded_as_mono by blast
  have new: ?case
    if r: "watch_each X E I opt pw todo \<lparr>wt_state = watch_record (filename p) cur (wt_state t), wt_changed = True,
             wt_uploaded = Suc (wt_uploaded t)\<rparr> v = (t', w')"
      and c: "code = 0" "is_safe_name (filename p)" "seen_now (cl_disk w1) p = Some cur" for v cur
  proof -
    have here: "uploaded_as X E I opt pw (p # todo) (filename p) cur"
      unfolding uploaded_as_def using u c
      by (intro exI [of _ p] exI [of _ "tell (filename p @ '': uploading'') w1"] exI [of _ w2]) simp
    from Cons.IH [OF r Cons.prems(2)] here show ?thesis
      by (auto simp: watch_record_def update_conv' split: if_splits dest: uploaded_as_mono)
  qed
  show ?case
    using Cons.prems(1) st u same new Cons.prems(2)
    by (auto simp: Let_def split: if_splits option.splits)
qed simp

lemma watch_records_uploads:
  assumes "watch_pass X E I opt folder pw sp t w = (t', w')" and "map_of (wt_state t') n = Some s"
    and "map_of (wt_state t) n \<noteq> Some s"
  shows "\<exists>p w1 w2. p \<in> set (fs_list (cl_disk w) folder) \<and> filename p = n \<and> is_safe_name n \<and>
           seen_now (cl_disk w1) p = Some s \<and> upload_with_passphrase X E I opt p pw False w1 = (0, w2)"
proof -
  obtain t1 w1 where e: "watch_each X E I opt pw (fs_list (cl_disk w) folder) (t\<lparr>wt_changed := False\<rparr>) w = (t1, w1)"
    by (rule prod.exhaust)
  then have "t' = t1" using assms(1) by (auto simp: watch_pass_def Let_def split: prod.splits)
  with watch_each_records [OF e, of n s] assms(2,3) show ?thesis by (auto simp: uploaded_as_def)
qed

text \<open>Nothing to do: every file that can be looked at has its size and time in the state.\<close>

definition settled :: "disk \<Rightarrow> watch_state \<Rightarrow> path list \<Rightarrow> bool" where
  "settled d st ps \<longleftrightarrow>
     list_all (\<lambda>p. is_safe_name (filename p) \<longrightarrow> (\<forall>s. seen_now d p = Some s \<longrightarrow> map_of st (filename p) = Some s)) ps"

lemma watch_each_settled:
  "settled (cl_disk w) (wt_state t) ps \<Longrightarrow>
     \<exists>bs. watch_each X E I opt pw ps t w = (t, w\<lparr>cl_watch_stops := bs\<rparr>)"
proof (induction ps arbitrary: w)
  case Nil
  show ?case by (intro exI [of _ "cl_watch_stops w"]) simp
next
  case (Cons p ps)
  obtain stop w1 where s: "watch_stop_requested w = (stop, w1)" by (rule prod.exhaust)
  from watch_stop_frame [OF s] obtain bs where w1: "w1 = w\<lparr>cl_watch_stops := bs\<rparr>" by blast
  have "settled (cl_disk w1) (wt_state t) ps" using Cons.prems w1 by (simp add: settled_def)
  from Cons.IH [OF this] obtain bs' where IH: "watch_each X E I opt pw ps t w1 = (t, w\<lparr>cl_watch_stops := bs'\<rparr>)"
    using w1 by auto
  have "unchanged (wt_state t) (filename p) s" if "is_safe_name (filename p)" "seen_now (cl_disk w1) p = Some s" for s
    using Cons.prems that w1 by (simp add: settled_def unchanged_def)
  then have "watch_each X E I opt pw (p # ps) t w = (if stop then (t, w1) else watch_each X E I opt pw ps t w1)"
    using s by (auto simp: Let_def split: option.split)
  with IH w1 show ?case by auto
qed


section \<open>Examples\<close>

lemma first_pass:
  "\<exists>w'. watch_each example_x509 mini_openssl direct_net example_options ''pw'' [[''a'']]
     \<lparr>wt_state = [], wt_changed = False, wt_uploaded = 0\<rparr> direct_client =
     (\<lparr>wt_state = [(''a'', \<lparr>seen_size = 2, seen_modified = 0\<rparr>)], wt_changed = True, wt_uploaded = 1\<rparr>, w')"
proof -
  let ?w = "tell (''a'' @ '': uploading'') direct_client"
  have same: "cl_disk ?w = cl_disk direct_client" "cl_pool ?w = cl_pool direct_client" "cl_dials ?w = cl_dials direct_client"
    by (simp_all add: tell_def)
  obtain w1 where "upload_with_passphrase example_x509 mini_openssl direct_net example_options [''a''] ''pw'' False ?w = (0, w1)"
    using direct_upload_runs [OF mini_openssl_ok mini_openssl_works direct_scene [folded same], of "''pw''" False] by blast
  moreover have "watch_stop_requested direct_client = (False, direct_client)"
    by (simp add: watch_stop_requested_def direct_client_fields)
  moreover have "filename [''a''] = ''a''" "is_safe_name ''a''"
    using direct_scene(3) by (simp_all add: filename_def)
  moreover have "seen_now (cl_disk direct_client) [''a''] = Some \<lparr>seen_size = 2, seen_modified = 0\<rparr>"
      "fs_is_regular (cl_disk direct_client) [''a'']"
    by (simp_all add: seen_now_def modified_time_def fs_size_def fs_mtime_def fs_is_regular_def direct_client_fields base_disk_def
        fs_simps empty_disk_def put_def lookup_def fs_read_def)
  ultimately show ?thesis by (simp add: unchanged_def watch_record_def)
qed

lemma watch_records_uploads_witness:
  "\<exists>w1 w2. seen_now (cl_disk w1) [''a''] = Some \<lparr>seen_size = 2, seen_modified = 0\<rparr> \<and>
     upload_with_passphrase example_x509 mini_openssl direct_net example_options [''a''] ''pw'' False w1 = (0, w2)"
proof -
  let ?t = "\<lparr>wt_state = [], wt_changed = False, wt_uploaded = 0\<rparr>"
  have list: "fs_list (cl_disk direct_client) [] = [[''a'']]"
    by (simp add: fs_list_def direct_client_fields base_disk_def put_def empty_disk_def)
  obtain t' w' where p: "watch_pass example_x509 mini_openssl direct_net example_options [] ''pw'' [''state''] ?t direct_client = (t', w')"
    by (rule prod.exhaust)
  have "map_of (wt_state t') ''a'' = Some \<lparr>seen_size = 2, seen_modified = 0\<rparr>"
    using p list first_pass by (auto simp: watch_pass_def Let_def split: prod.splits)
  from watch_records_uploads [OF p this] show ?thesis using list by auto
qed

lemma watch_save_ok:
  "faults d = [] \<Longrightarrow> writable d p \<Longrightarrow> watch_save d p st = (True, put d p (unlines (watch_lines st)))"
  by (simp add: watch_save_def writable_def fault_free out_lines_ok out_flush_def fs_simps)

definition settled_state :: watch_state where
  "settled_state = [(''a'', \<lparr>seen_size = 2, seen_modified = - 5\<rparr>)]"

definition settled_disk :: disk where
  "settled_disk = put (empty_disk [[], [''p'']]\<lparr>now := - 5\<rparr>) [''a''] ''hi''"


text \<open>
  A file stamped with the epoch itself is stored as another name: the text of its time is already
  found in the size.
\<close>

lemma watch_time_found_in_size:
  "watch_line (''x'', \<lparr>seen_size = 10, seen_modified = 0\<rparr>) = ''file 10 0 x''"
  "watch_entry ''file 10 0 x'' = Some (''0 x'', \<lparr>seen_size = 10, seen_modified = 0\<rparr>)"
proof -
  show "watch_line (''x'', \<lparr>seen_size = 10, seen_modified = 0\<rparr>) = ''file 10 0 x''" by code_simp
  show "watch_entry ''file 10 0 x'' = Some (''0 x'', \<lparr>seen_size = 10, seen_modified = 0\<rparr>)" by code_simp
qed

end
