(* ===== verification/Settings.thy ===== *)
theory Settings
  imports Filesys
begin

text \<open>
  \<open>src/core/settings.cpp\<close>: the settings file, its sections one profile each, and the places it
  is looked for. The environment is what \<open>getenv\<close> and the current directory answer; a relative
  path starts at the current directory.
\<close>

record settings =
  s_profile :: string
  s_values :: "(string \<times> string) list"
  s_path :: "path option"
  s_loaded :: bool

record environment =
  env_var :: "string \<Rightarrow> string option"
  env_cwd :: path

datatype settings_error =
    NoSuchSettings string | CannotReadSettings path | UnclosedSection path nat
  | ExpectedKeyValue path nat

section \<open>Text helpers\<close>

definition is_blank :: "char \<Rightarrow> bool" where
  "is_blank c \<longleftrightarrow> c = CHR '' '' \<or> c = CHR 0x09 \<or> c = CHR 0x0D \<or> c = CHR 0x0A"

definition trim :: "string \<Rightarrow> string" where
  "trim s = rev (dropWhile is_blank (rev (dropWhile is_blank s)))"

definition lower_char :: "char \<Rightarrow> char" where
  "lower_char c = (if CHR ''A'' \<le> c \<and> c \<le> CHR ''Z'' then char_of (of_char c - 65 + 97 :: nat) else c)"

definition lowercase :: "string \<Rightarrow> string" where
  "lowercase s = map lower_char s"

section \<open>Where to look\<close>

definition home_directory :: "environment \<Rightarrow> path option" where
  "home_directory env =
     (case env_var env ''HOME'' of
        None \<Rightarrow> None
      | Some home \<Rightarrow> if home = [] then None else Some (path_join (env_cwd env) home))"

definition search_paths :: "environment \<Rightarrow> path list" where
  "search_paths env =
     (case env_var env ''PCS_CONFIG'' of None \<Rightarrow> [] | Some s \<Rightarrow> if s = [] then [] else [path_join (env_cwd env) s])
     @ [env_cwd env @ [''pcs.conf'']]
     @ (case home_directory env of
          None \<Rightarrow> []
        | Some home \<Rightarrow>
            (case env_var env ''XDG_CONFIG_HOME'' of
               None \<Rightarrow> []
             | Some xdg \<Rightarrow> [path_join (env_cwd env) xdg @ [''pcs'', ''pcs.conf'']])
            @ [home @ [''.config'', ''pcs'', ''pcs.conf''], home @ [''.pcs.conf'']])"

section \<open>Loading\<close>

text \<open>
  The loop over the lines, with the section and the values so far; a key given twice keeps its
  last value. \<open>find\<close> and \<open>substr\<close> around the equals sign are what precedes and follows it.
\<close>

fun load_lines ::
  "path \<Rightarrow> string \<Rightarrow> string list \<Rightarrow> nat \<Rightarrow> string \<Rightarrow> (string \<times> string) list \<Rightarrow>
     settings_error + (string \<times> string) list"
where
  "load_lines p profile [] n sect vals = Inr vals"
| "load_lines p profile (line # lines) n sect vals =
     (let number = n + 1; s = trim line
      in if s = [] \<or> hd s = CHR ''#'' \<or> hd s = CHR '';'' then load_lines p profile lines number sect vals
      else if hd s = CHR ''['' then
        if last s \<noteq> CHR '']'' then Inl (UnclosedSection p number)
        else load_lines p profile lines number (lowercase (trim (butlast (tl s)))) vals
      else if CHR ''='' \<notin> set s then Inl (ExpectedKeyValue p number)
      else if sect \<noteq> profile then load_lines p profile lines number sect vals
      else
        let key = lowercase (trim (takeWhile (\<lambda>c. c \<noteq> CHR ''='') s));
            val = trim (tl (dropWhile (\<lambda>c. c \<noteq> CHR ''='') s))
        in load_lines p profile lines number sect
             (if key \<noteq> [] then AList.update key val vals else vals))"

text \<open>A directory opens as an empty file.\<close>

definition open_lines :: "disk \<Rightarrow> path \<Rightarrow> string list option" where
  "open_lines d p =
     (case fs_read d p of
        Some c \<Rightarrow> Some (getlines c)
      | None \<Rightarrow> if p \<in> set (dirs d) then Some [] else None)"

definition load_from :: "disk \<Rightarrow> path \<Rightarrow> settings \<Rightarrow> settings_error + settings" where
  "load_from d chosen out =
     (case open_lines d chosen of
        None \<Rightarrow> Inl (CannotReadSettings chosen)
      | Some lines \<Rightarrow>
          (case load_lines chosen (s_profile out) lines 0 ''default'' [] of
             Inl e \<Rightarrow> Inl e
           | Inr vals \<Rightarrow> Inr (out\<lparr>s_values := vals, s_path := Some chosen, s_loaded := True\<rparr>)))"

definition settings_load ::
  "environment \<Rightarrow> disk \<Rightarrow> string \<Rightarrow> string \<Rightarrow> settings_error + settings" where
  "settings_load env d explicit profile =
     (let out = \<lparr>s_profile = (if profile = [] then ''default'' else profile), s_values = [],
                 s_path = None, s_loaded = False\<rparr>
      in if explicit \<noteq> [] then
           let chosen = path_join (env_cwd env) explicit
           in if \<not> fs_exists d chosen then Inl (NoSuchSettings explicit) else load_from d chosen out
         else case find (fs_exists d) (search_paths env) of
           None \<Rightarrow> Inr out
         | Some chosen \<Rightarrow> load_from d chosen out)"

definition settings_get :: "settings \<Rightarrow> string \<Rightarrow> string" where
  "settings_get s key = (case map_of (s_values s) (lowercase key) of None \<Rightarrow> [] | Some v \<Rightarrow> v)"

fun list_items :: "string \<Rightarrow> string \<Rightarrow> string list" where
  "list_items [] current = (if current \<noteq> [] then [current] else [])"
| "list_items (c # raw) current =
     (if c = CHR '','' \<or> c = CHR '' '' \<or> c = CHR 0x09
      then (if current \<noteq> [] then [current] else []) @ list_items raw []
      else list_items raw (current @ [c]))"

definition get_list :: "settings \<Rightarrow> string \<Rightarrow> string list" where
  "get_list s key = list_items (settings_get s key) []"

section \<open>What the file says, independent of the profile\<close>

text \<open>
  The entries of a file as (section, key, value), in order, when every line is well formed.
\<close>

fun file_entries :: "string list \<Rightarrow> string \<Rightarrow> (string \<times> string \<times> string) list option" where
  "file_entries [] sect = Some []"
| "file_entries (line # lines) sect =
     (let s = trim line
      in if s = [] \<or> hd s = CHR ''#'' \<or> hd s = CHR '';'' then file_entries lines sect
      else if hd s = CHR ''['' then
        (if last s \<noteq> CHR '']'' then None else file_entries lines (lowercase (trim (butlast (tl s)))))
      else if CHR ''='' \<notin> set s then None
      else map_option
        (\<lambda>es. (sect, lowercase (trim (takeWhile (\<lambda>c. c \<noteq> CHR ''='') s)),
               trim (tl (dropWhile (\<lambda>c. c \<noteq> CHR ''='') s))) # es)
        (file_entries lines sect))"

definition last_value :: "(string \<times> string \<times> string) list \<Rightarrow> string \<Rightarrow> string \<Rightarrow> string option" where
  "last_value es profile key =
     (if key = [] then None
      else map_of (rev (map snd (filter (\<lambda>e. fst e = profile) es))) key)"

lemma last_value_Cons:
  "last_value ((sect, k, v) # es) profile key =
     (case last_value es profile key of
        None \<Rightarrow> if sect = profile \<and> key = k \<and> k \<noteq> [] then Some v else None
      | Some x \<Rightarrow> Some x)"
  by (auto simp: last_value_def map_add_def split: option.splits)

lemma load_lines_refines:
  "case load_lines p profile lines n sect vals of
     Inl e \<Rightarrow> file_entries lines sect = None
   | Inr vs \<Rightarrow> \<exists>es. file_entries lines sect = Some es \<and>
       (\<forall>key. map_of vs key =
          (case last_value es profile key of None \<Rightarrow> map_of vals key | Some v \<Rightarrow> Some v))"
proof (induction lines arbitrary: n sect vals)
  case Nil
  then show ?case by (simp add: last_value_def)
next
  case (Cons line lines)
  let ?s = "trim line"
  consider "?s = [] \<or> hd ?s = CHR ''#'' \<or> hd ?s = CHR '';''"
    | "\<not> (?s = [] \<or> hd ?s = CHR ''#'' \<or> hd ?s = CHR '';'')" "hd ?s = CHR ''[''"
    | "\<not> (?s = [] \<or> hd ?s = CHR ''#'' \<or> hd ?s = CHR '';'')" "hd ?s \<noteq> CHR ''[''"
    by blast
  then show ?case
  proof cases
    case 1
    with Cons [where n = "n + 1" and sect = sect and vals = vals]
    show ?thesis by (simp add: Let_def split: sum.splits)
  next
    case 2
    with Cons [where n = "n + 1" and sect = "lowercase (trim (butlast (tl ?s)))" and vals = vals]
    show ?thesis by (simp add: Let_def split: sum.splits)
  next
    case 3
    let ?k = "lowercase (trim (takeWhile (\<lambda>c. c \<noteq> CHR ''='') ?s))"
    let ?v = "trim (tl (dropWhile (\<lambda>c. c \<noteq> CHR ''='') ?s))"
    let ?vals = "if sect = profile \<and> ?k \<noteq> [] then AList.update ?k ?v vals else vals"
    show ?thesis
    proof (cases "CHR ''='' \<in> set ?s")
      case False
      with 3 show ?thesis by (simp add: Let_def)
    next
      case True
      define vals' where "vals' = ?vals"
      have step: "load_lines p profile (line # lines) n sect vals =
          load_lines p profile lines (n + 1) sect vals'"
        using 3 True by (simp add: Let_def vals'_def)
      have entry: "file_entries (line # lines) sect =
          map_option (\<lambda>es. (sect, ?k, ?v) # es) (file_entries lines sect)"
        using 3 True by (simp add: Let_def)
      have vals: "map_of vals' key = (if sect = profile \<and> key = ?k \<and> ?k \<noteq> [] then Some ?v else map_of vals key)"
        for key by (simp add: vals'_def update_conv')
      note IH = Cons [where n = "n + 1" and sect = sect and vals = vals']
      show ?thesis
      proof (cases "load_lines p profile lines (n + 1) sect vals'")
        case (Inl e)
        with IH show ?thesis unfolding step entry by simp
      next
        case (Inr vs)
        with IH obtain es where "file_entries lines sect = Some es"
          "\<And>key. map_of vs key = (case last_value es profile key of None \<Rightarrow> map_of vals' key | Some v \<Rightarrow> Some v)"
          by auto
        then show ?thesis
          unfolding step entry Inr by (auto simp: last_value_Cons vals split: option.split)
      qed
    qed
  qed
qed

text \<open>C37: profiles.\<close>

theorem settings_profile_isolation:
  assumes "settings_load env d explicit profile = Inr s" and "s_path s = Some p"
    and "fs_read d p = Some c"
  shows "\<exists>es. file_entries (getlines c) ''default'' = Some es \<and>
           (\<forall>key. settings_get s key = (case last_value es (s_profile s) (lowercase key) of
                                        None \<Rightarrow> [] | Some v \<Rightarrow> v))"
proof -
  let ?out = "\<lparr>s_profile = (if profile = [] then ''default'' else profile), s_values = [],
    s_path = None, s_loaded = False\<rparr>"
  from assms(1,2) have from_p: "load_from d p ?out = Inr s"
    by (auto simp: settings_load_def Let_def load_from_def split: if_splits option.splits sum.splits)
  then obtain vs where vs: "load_lines p (s_profile ?out) (getlines c) 0 ''default'' [] = Inr vs"
    and s: "s_values s = vs" "s_profile s = s_profile ?out"
    using assms(3) by (auto simp: load_from_def open_lines_def split: sum.splits)
  have "\<exists>es. file_entries (getlines c) ''default'' = Some es \<and>
      (\<forall>key. map_of vs key = (case last_value es (s_profile ?out) key of None \<Rightarrow> map_of [] key | Some v \<Rightarrow> Some v))"
    using load_lines_refines [where p = p and profile = "s_profile ?out" and lines = "getlines c"
        and n = 0 and sect = "''default''" and vals = "[]"] unfolding vs by simp
  moreover have "(case x of None \<Rightarrow> map_of [] key | Some v \<Rightarrow> Some v) = x"
    for x :: "string option" and key :: string
    by (cases x) simp_all
  ultimately show ?thesis unfolding settings_get_def s by (auto simp del: settings.simps)
qed

text \<open>
  Section names are lowercased when the file is read but the profile asked for is not, so a
  profile with a capital letter finds nothing.
\<close>

lemma lower_char_idem: "lower_char (lower_char c) = lower_char c"
proof (cases "CHR ''A'' \<le> c \<and> c \<le> CHR ''Z''")
  case True
  then have "65 \<le> (of_char c :: nat)" "(of_char c :: nat) \<le> 90" by (simp_all add: less_eq_char_def)
  then have "(of_char (lower_char c) :: nat) = of_char c + 32" using True
    by (simp add: lower_char_def of_char_of)
  then have "\<not> lower_char c \<le> CHR ''Z''" using \<open>65 \<le> of_char c\<close> by (simp add: less_eq_char_def)
  then show ?thesis by (simp add: lower_char_def [of "lower_char c"])
next
  case False
  then show ?thesis by (auto simp: lower_char_def)
qed

lemma lowercase_idem: "lowercase (lowercase s) = lowercase s"
  by (simp add: lowercase_def lower_char_idem)

lemma load_lines_capital:
  assumes "lowercase profile \<noteq> profile" and "lowercase sect = sect"
    and "load_lines p profile lines n sect vals = Inr vs"
  shows "vs = vals"
  using assms(2,3)
proof (induction lines arbitrary: n sect)
  case (Cons line lines)
  have "sect \<noteq> profile" using Cons.prems(1) assms(1) by auto
  with Cons.prems Cons.IH [where sect = sect] Cons.IH [where sect = "lowercase (trim (butlast (tl (trim line))))"]
  show ?case by (auto simp: Let_def lowercase_idem split: if_splits)
qed simp

lemma profile_with_capital_finds_nothing:
  assumes "settings_load env d explicit profile = Inr s" and "lowercase profile \<noteq> profile"
  shows "settings_get s key = []"
proof -
  have "profile \<noteq> []" using assms(2) by (auto simp: lowercase_def)
  moreover have "lowercase ''default'' = ''default''" by (simp add: lowercase_def lower_char_def less_eq_char_def)
  ultimately have "s_values s = []"
    using assms load_lines_capital [OF assms(2)]
    by (auto simp: settings_load_def load_from_def Let_def split: if_splits option.splits sum.splits)
  then show ?thesis by (simp add: settings_get_def)
qed

section \<open>Examples\<close>

definition example_environment :: environment where
  "example_environment = \<lparr>env_var = (\<lambda>v. None), env_cwd = []\<rparr>"

definition example_settings :: disk where
  "example_settings = put (empty_disk [[]]) [''pcs.conf''] (unlines [''server = nas:9000'', ''[work]'', ''server = other:1''])"

lemma example_load:
  "settings_load example_environment example_settings [] ''work'' =
     Inr \<lparr>s_profile = ''work'', s_values = [(''server'', ''other:1'')], s_path = Some [''pcs.conf''], s_loaded = True\<rparr>"
  by (simp add: settings_load_def example_environment_def search_paths_def home_directory_def load_from_def
      open_lines_def example_settings_def fs_simps getlines_unlines Let_def
      trim_def is_blank_def lowercase_def lower_char_def less_eq_char_def)

lemma settings_profile_isolation_witness:
  "settings_get \<lparr>s_profile = ''work'', s_values = [(''server'', ''other:1'')], s_path = Some [''pcs.conf''],
     s_loaded = True\<rparr> ''server'' = ''other:1''"
proof -
  have r: "fs_read example_settings [''pcs.conf''] =
      Some (unlines [''server = nas:9000'', ''[work]'', ''server = other:1''])"
    by (simp add: example_settings_def fs_simps)
  have entries: "file_entries (getlines (unlines [''server = nas:9000'', ''[work]'', ''server = other:1''])) ''default'' =
      Some [(''default'', ''server'', ''nas:9000''), (''work'', ''server'', ''other:1'')]"
    by (simp add: getlines_unlines Let_def trim_def is_blank_def lowercase_def lower_char_def less_eq_char_def)
  from settings_profile_isolation [OF example_load _ r] entries show ?thesis
    by (auto simp: last_value_def lowercase_def lower_char_def less_eq_char_def)
qed

lemma profile_with_capital_finds_nothing_witness:
  "\<exists>s. settings_load example_environment example_settings [] ''Work'' = Inr s \<and> settings_get s ''server'' = []"
proof -
  have "\<exists>s. settings_load example_environment example_settings [] ''Work'' = Inr s"
    by (simp add: settings_load_def example_environment_def search_paths_def home_directory_def load_from_def
      open_lines_def example_settings_def fs_simps getlines_unlines Let_def
      trim_def is_blank_def lowercase_def lower_char_def less_eq_char_def)
  then obtain s where s: "settings_load example_environment example_settings [] ''Work'' = Inr s" ..
  have "char_of (119::nat) \<noteq> CHR ''W''"
  proof
    assume "char_of (119::nat) = CHR ''W''"
    then have "(of_char (char_of (119::nat)) :: nat) = of_char CHR ''W''" by (rule arg_cong)
    then show False by (simp add: of_char_of)
  qed
  then have "lowercase ''Work'' \<noteq> ''Work''"
    by (auto simp: lowercase_def lower_char_def less_eq_char_def)
  from profile_with_capital_finds_nothing [OF s this] s show ?thesis by blast
qed

end
