(* ===== verification/Daemon.thy ===== *)
theory Daemon
  imports Protocol Filesys
begin

text \<open>
  \<open>src/core/daemon.cpp\<close>: detaching from the terminal, with what the system calls answer and the
  table of open descriptors of the process, and the text of a systemd unit.
\<close>

datatype open_target = Terminal | NullDevice | LogFile path | OtherFile nat

type_synonym fd_table = "(nat \<times> open_target) list"

text \<open>
  What the calls of one process answer: \<open>fork\<close> a negative number for failure, zero in the child and
  a process number in the parent; \<open>open\<close> a negative number for failure.
\<close>

record posix =
  fork_first :: int
  session_ok :: bool
  fork_second :: int
  own_pid :: nat
  null_opened :: int
  log_opened :: int

datatype detach = Exits | Detached | CannotDetach string

section \<open>Descriptors\<close>

definition dup2 :: "nat \<Rightarrow> nat \<Rightarrow> fd_table \<Rightarrow> fd_table" where
  "dup2 a b fds = (case map_of fds a of None \<Rightarrow> fds | Some f \<Rightarrow> AList.update b f fds)"

definition close_fd :: "nat \<Rightarrow> fd_table \<Rightarrow> fd_table" where
  "close_fd a fds = AList.delete a fds"

definition redirect_stdin :: "int \<Rightarrow> fd_table \<Rightarrow> fd_table" where
  "redirect_stdin opened fds =
     (if 0 \<le> opened then
        let fds = dup2 (nat opened) 0 (AList.update (nat opened) NullDevice fds)
        in if 2 < opened then close_fd (nat opened) fds else fds
      else fds)"

definition redirect_output :: "nat \<Rightarrow> open_target \<Rightarrow> fd_table \<Rightarrow> fd_table" where
  "redirect_output opened f fds =
     (let fds = dup2 opened 2 (dup2 opened 1 (AList.update opened f fds))
      in if 2 < opened then close_fd opened fds else fds)"

section \<open>Detaching\<close>

text \<open>The process number is written when the file can be opened; nothing looks at the stream after that.\<close>

definition write_pid :: "path \<Rightarrow> string \<Rightarrow> nat \<Rightarrow> disk \<Rightarrow> disk" where
  "write_pid cwd pid_path pid d =
     (if pid_path = [] then d
      else let p = path_join cwd pid_path
           in case fs_create d p of (ok, d) \<Rightarrow>
              if ok then snd (fs_append d p (to_dec pid @ [newline])) else d)"

definition log_target :: "path \<Rightarrow> string \<Rightarrow> open_target" where
  "log_target cwd log_path = (if log_path = [] then NullDevice else LogFile (path_join cwd log_path))"

text \<open>\<open>O_CREAT\<close> without \<open>O_TRUNC\<close>: an old log is kept.\<close>

definition create_log :: "open_target \<Rightarrow> disk \<Rightarrow> disk" where
  "create_log f d = (case f of LogFile p \<Rightarrow> if lookup d p = None then put d p [] else d | _ \<Rightarrow> d)"

definition daemonize ::
  "path \<Rightarrow> posix \<Rightarrow> string \<Rightarrow> string \<Rightarrow> disk \<Rightarrow> fd_table \<Rightarrow> detach \<times> disk \<times> fd_table" where
  "daemonize cwd os log_path pid_path d fds =
     (if fork_first os < 0 then (CannotDetach ''cannot fork'', d, fds)
      else if 0 < fork_first os then (Exits, d, fds)
      else if \<not> session_ok os then (CannotDetach ''cannot start a new session'', d, fds)
      else if fork_second os < 0 then (CannotDetach ''cannot fork'', d, fds)
      else if 0 < fork_second os then (Exits, d, fds)
      else
        let d = write_pid cwd pid_path (own_pid os) d;
            fds = redirect_stdin (null_opened os) fds;
            target = log_target cwd log_path
        in if log_opened os < 0 then (CannotDetach ''cannot open the log file'', d, fds)
           else (Detached, create_log target d, redirect_output (nat (log_opened os)) target fds))"

section \<open>Texts\<close>

text \<open>The text of an absolute path.\<close>

definition path_text :: "path \<Rightarrow> string" where
  "path_text p = (if p = [] then ''/'' else concat (map (\<lambda>c. CHR ''/'' # c) p))"

definition kProgramVersion :: string where "kProgramVersion = ''1.0.0''"

definition version_text :: "string \<Rightarrow> string" where
  "version_text program = program @ '' '' @ kProgramVersion @ '' (protocol '' @ kProtocol @ '')''"


definition systemd_unit :: "string \<Rightarrow> string \<Rightarrow> string \<Rightarrow> string" where
  "systemd_unit description exec_line working_dir =
     unlines ([''[Unit]'', ''Description='' @ description, ''After=network-online.target'', ''Wants=network-online.target'', [],
        ''[Service]'', ''Type=simple'', ''ExecStart='' @ exec_line]
       @ (if working_dir \<noteq> [] then [''WorkingDirectory='' @ working_dir] else [])
       @ [''Restart=on-failure'', ''RestartSec=5'', [], ''[Install]'', ''WantedBy=default.target''])"

section \<open>What a detached process is connected to\<close>

text \<open>\<open>open\<close> answers a descriptor that is not in use.\<close>

definition opens_fresh :: "posix \<Rightarrow> fd_table \<Rightarrow> bool" where
  "opens_fresh os fds \<longleftrightarrow>
     (0 \<le> null_opened os \<longrightarrow> map_of fds (nat (null_opened os)) = None) \<and>
     (0 \<le> log_opened os \<longrightarrow> map_of (redirect_stdin (null_opened os) fds) (nat (log_opened os)) = None)"

lemma redirect_stdin_fds:
  assumes "0 \<le> opened \<longrightarrow> map_of fds (nat opened) = None"
  shows "0 \<le> opened \<Longrightarrow> map_of (redirect_stdin opened fds) 0 = Some NullDevice"
    and "2 < k \<Longrightarrow> map_of (redirect_stdin opened fds) k = map_of fds k"
  using assms by (auto simp: redirect_stdin_def dup2_def close_fd_def update_conv' delete_conv' Let_def)

lemma redirect_output_fds:
  assumes "map_of fds opened = None"
  shows "map_of (redirect_output opened f fds) 1 = Some f" "map_of (redirect_output opened f fds) 2 = Some f"
    and "2 < k \<Longrightarrow> map_of (redirect_output opened f fds) k = map_of fds k"
    and "opened \<noteq> 0 \<Longrightarrow> map_of (redirect_output opened f fds) 0 = map_of fds 0"
  using assms by (auto simp: redirect_output_def dup2_def close_fd_def update_conv' delete_conv' Let_def)

lemma detached_streams:
  assumes "daemonize cwd os log_path pid_path d fds = (Detached, d', fds')" and "opens_fresh os fds"
  shows "map_of fds' 1 = Some (log_target cwd log_path) \<and> map_of fds' 2 = Some (log_target cwd log_path) \<and>
    (0 \<le> null_opened os \<longrightarrow> map_of fds' 0 = Some NullDevice) \<and> (\<forall>k>2. map_of fds' k = map_of fds k)"
proof -
  let ?in = "redirect_stdin (null_opened os) fds"
  have fds': "fds' = redirect_output (nat (log_opened os)) (log_target cwd log_path) ?in" and opened: "0 \<le> log_opened os"
    using assms(1) by (auto simp: daemonize_def Let_def split: if_splits)
  have null: "0 \<le> null_opened os \<longrightarrow> map_of fds (nat (null_opened os)) = None"
    and log: "map_of ?in (nat (log_opened os)) = None"
    using assms(2) opened by (simp_all add: opens_fresh_def)
  note in_fds = redirect_stdin_fds [OF null] and out_fds = redirect_output_fds [OF log, where f = "log_target cwd log_path"]
  have "map_of fds' 0 = Some NullDevice" if "0 \<le> null_opened os"
    using in_fds(1) [OF that] log out_fds(4) fds' by (cases "nat (log_opened os) = 0") auto
  then show ?thesis using out_fds(1-3) in_fds(2) fds' by simp
qed

lemma detached_streams_witness:
  "map_of (snd (snd (daemonize [] \<lparr>fork_first = 0, session_ok = True, fork_second = 0, own_pid = 7, null_opened = 3, log_opened = 3\<rparr>
     ''log'' [] (empty_disk [[]]) [(0, Terminal), (1, Terminal), (2, Terminal)]))) 1 = Some (LogFile [''log''])"
proof -
  let ?os = "\<lparr>fork_first = 0, session_ok = True, fork_second = 0, own_pid = 7, null_opened = 3, log_opened = 3\<rparr>"
  let ?fds = "[(0, Terminal), (1, Terminal), (2, Terminal)]"
  have t: "log_target [] ''log'' = LogFile [''log'']" by (simp add: log_target_def path_join_def components_def)
  obtain d fds where run: "daemonize [] ?os ''log'' [] (empty_disk [[]]) ?fds = (Detached, d, fds)"
    by (simp add: daemonize_def Let_def)
  have "opens_fresh ?os ?fds" by (simp add: opens_fresh_def redirect_stdin_def dup2_def close_fd_def)
  from detached_streams [OF run this] run t show ?thesis by simp
qed

text \<open>
  The process that asked to be detached is gone, with status zero, after the first \<open>fork\<close>; whether its
  grandchild can open the log turns out only later.
\<close>

lemma caller_has_left:
  "0 < fork_first os \<Longrightarrow> daemonize cwd os log_path pid_path d fds = (Exits, d, fds)"
  "fork_first os = 0 \<Longrightarrow> session_ok os \<Longrightarrow> fork_second os = 0 \<Longrightarrow> log_opened os < 0 \<Longrightarrow>
     daemonize cwd os log_path pid_path d fds =
       (CannotDetach ''cannot open the log file'', write_pid cwd pid_path (own_pid os) d, redirect_stdin (null_opened os) fds)"
  by (simp_all add: daemonize_def Let_def)

end
