(* ===== verification/Cli.thy ===== *)
theory Cli
  imports Watch Settings Daemon
begin

text \<open>
  \<open>src/client/main.cpp\<close>: from the command line, the environment and the settings file to one command.
  A relative name starts at the current directory; the key file's name alone is used as it stands.
\<close>

section \<open>The command line\<close>

record arguments =
  ar_options :: options
  ar_dir :: "string option"
  ar_positional :: "string list"
  ar_help :: bool
  ar_version :: bool
  ar_out :: string
  ar_config :: string
  ar_profile :: string
  ar_detach :: bool
  ar_log :: string
  ar_pid :: string

definition no_options :: options where
  "no_options = \<lparr>opt_cred = \<lparr>cred_user = [], cred_password = [], cred_token = []\<rparr>,
     opt_trust = \<lparr>ca_file = [], trust_verify = True\<rparr>, opt_server = [], opt_peers = [],
     opt_key = \<lparr>keyfile = [], allow_prompt = True\<rparr>, opt_dir = [], opt_quiet = False\<rparr>"

text \<open>No \<open>--dir\<close> stands for the current directory.\<close>

definition no_arguments :: arguments where
  "no_arguments = \<lparr>ar_options = no_options, ar_dir = None, ar_positional = [], ar_help = False, ar_version = False,
     ar_out = [], ar_config = [], ar_profile = [], ar_detach = False, ar_log = [], ar_pid = []\<rparr>"

text \<open>The options that take a value.\<close>

definition set_option :: "string \<Rightarrow> string \<Rightarrow> arguments \<Rightarrow> arguments option" where
  "set_option arg v a =
     (let opt = ar_options a
      in if arg = ''--token'' then Some (a\<lparr>ar_options := opt\<lparr>opt_cred := (opt_cred opt)\<lparr>cred_token := v\<rparr>\<rparr>\<rparr>)
      else if arg = ''--user'' then Some (a\<lparr>ar_options := opt\<lparr>opt_cred := (opt_cred opt)\<lparr>cred_user := v\<rparr>\<rparr>\<rparr>)
      else if arg = ''--password'' then Some (a\<lparr>ar_options := opt\<lparr>opt_cred := (opt_cred opt)\<lparr>cred_password := v\<rparr>\<rparr>\<rparr>)
      else if arg = ''--keyfile'' then Some (a\<lparr>ar_options := opt\<lparr>opt_key := (opt_key opt)\<lparr>keyfile := v\<rparr>\<rparr>\<rparr>)
      else if arg = ''--server'' then Some (a\<lparr>ar_options := opt\<lparr>opt_server := v\<rparr>\<rparr>)
      else if arg = ''--dir'' then Some (a\<lparr>ar_dir := Some v\<rparr>)
      else if arg = ''--out'' then Some (a\<lparr>ar_out := v\<rparr>)
      else if arg = ''--config'' then Some (a\<lparr>ar_config := v\<rparr>)
      else if arg = ''--profile'' then Some (a\<lparr>ar_profile := v\<rparr>)
      else if arg = ''--log'' then Some (a\<lparr>ar_log := v\<rparr>)
      else if arg = ''--pidfile'' then Some (a\<lparr>ar_pid := v\<rparr>)
      else if arg = ''--cacert'' then Some (a\<lparr>ar_options := opt\<lparr>opt_trust := (opt_trust opt)\<lparr>ca_file := v\<rparr>\<rparr>\<rparr>)
      else None)"

text \<open>And those that do not; a first positional argument may stand between them.\<close>

definition set_flag :: "string \<Rightarrow> arguments \<Rightarrow> arguments option" where
  "set_flag arg a =
     (let opt = ar_options a
      in if arg = ''--quiet'' then Some (a\<lparr>ar_options := opt\<lparr>opt_quiet := True\<rparr>\<rparr>)
      else if arg = ''--daemon'' then Some (a\<lparr>ar_detach := True\<rparr>)
      else if arg = ''--insecure'' then Some (a\<lparr>ar_options := opt\<lparr>opt_trust := (opt_trust opt)\<lparr>trust_verify := False\<rparr>\<rparr>\<rparr>)
      else None)"

text \<open>\<open>Inl\<close> names the unknown option; one that lacks its value is unknown too.\<close>

fun parse_arguments :: "string list \<Rightarrow> arguments \<Rightarrow> string + arguments" where
  "parse_arguments [] a = Inr a"
| "parse_arguments (arg # args) a =
     (if arg = ''--version'' then Inr (a\<lparr>ar_version := True\<rparr>)
      else if arg = ''-h'' \<or> arg = ''--help'' then Inr (a\<lparr>ar_help := True\<rparr>)
      else case set_flag arg a of
        Some a \<Rightarrow> parse_arguments args a
      | None \<Rightarrow>
      case args of
        [] \<Rightarrow> if prefix ''--'' arg then Inl arg else parse_arguments [] (a\<lparr>ar_positional := ar_positional a @ [arg]\<rparr>)
      | v # rest \<Rightarrow>
      case set_option arg v a of
        Some a \<Rightarrow> parse_arguments rest a
      | None \<Rightarrow>
          if prefix ''--'' arg then Inl arg
          else parse_arguments (v # rest) (a\<lparr>ar_positional := ar_positional a @ [arg]\<rparr>))"

definition pick_server :: "string \<Rightarrow> string list \<Rightarrow> nat \<Rightarrow> string \<Rightarrow> string" where
  "pick_server from_flag positional index from_settings =
     (if from_flag \<noteq> [] then from_flag
      else if length positional > index then positional ! index
      else from_settings)"

definition command_needs_account :: "string \<Rightarrow> bool" where
  "command_needs_account c \<longleftrightarrow> c \<in> {''upload'', ''download'', ''list'', ''delete'', ''sync'', ''autosync'', ''watch''}"

section \<open>Filling the gaps\<close>

definition fill :: "string \<Rightarrow> string \<Rightarrow> string" where
  "fill target val = (if target = [] \<and> val \<noteq> [] then val else target)"

text \<open>An unset variable changes nothing; a set but empty one neither.\<close>

definition from_env :: "environment \<Rightarrow> string \<Rightarrow> string \<Rightarrow> string" where
  "from_env env var target =
     (if target = [] then (case env_var env var of None \<Rightarrow> target | Some v \<Rightarrow> v) else target)"

definition is_local :: "string \<Rightarrow> bool" where
  "is_local c \<longleftrightarrow> c = ''seal'' \<or> c = ''open''"

text \<open>Before the settings file is read.\<close>

definition trust_of :: "environment \<Rightarrow> string \<Rightarrow> tls_trust \<Rightarrow> tls_trust" where
  "trust_of env first t =
     (let t = (if is_local first then t\<lparr>trust_verify := False\<rparr> else t)
      in t\<lparr>ca_file := from_env env ''PCS_CACERT'' (ca_file t)\<rparr>)"

definition same_as_cwd :: "environment \<Rightarrow> string option \<Rightarrow> bool" where
  "same_as_cwd env dir =
     (case dir of
        None \<Rightarrow> True
      | Some s \<Rightarrow> s \<noteq> [] \<and> hd s = CHR ''/'' \<and> components s = env_cwd env \<and>
          (components s = [] \<or> last s \<noteq> CHR ''/''))"

definition working_dir :: "environment \<Rightarrow> settings \<Rightarrow> string option \<Rightarrow> path" where
  "working_dir env st dir =
     (let from_file = settings_get st ''dir''
      in if from_file \<noteq> [] \<and> same_as_cwd env dir then path_join (env_cwd env) from_file
         else case dir of None \<Rightarrow> env_cwd env | Some s \<Rightarrow> path_join (env_cwd env) s)"

definition fill_options :: "environment \<Rightarrow> settings \<Rightarrow> string \<Rightarrow> arguments \<Rightarrow> options" where
  "fill_options env st first a =
     (let opt = ar_options a; cred = opt_cred opt; trust = trust_of env first (opt_trust opt)
      in opt\<lparr>opt_cred := \<lparr>cred_user = fill (cred_user cred) (settings_get st ''user''),
                          cred_password = fill (cred_password cred) (settings_get st ''password''),
                          cred_token = fill (cred_token cred) (settings_get st ''token'')\<rparr>,
             opt_trust := trust\<lparr>ca_file := fill (ca_file trust) (settings_get st ''cacert'')\<rparr>,
             opt_key := (opt_key opt)\<lparr>keyfile := fill (keyfile (opt_key opt)) (settings_get st ''keyfile'')\<rparr>,
             opt_dir := working_dir env st (ar_dir a)\<rparr>)"

text \<open>After it.\<close>

definition env_credentials :: "environment \<Rightarrow> credentials \<Rightarrow> credentials" where
  "env_credentials env cred =
     \<lparr>cred_user = from_env env ''PCS_USER'' (cred_user cred),
      cred_password = from_env env ''PCS_PASSWORD'' (cred_password cred),
      cred_token = from_env env ''PCS_TOKEN'' (cred_token cred)\<rparr>"

section \<open>One command\<close>

text \<open>What a command line asks for, once everything that can be refused has been checked.\<close>

datatype action =
    Upload path | Download string path | Delete string | ListFiles | Seal path path | Open path path
  | Watch "path option" nat | Sync | Autosync nat

text \<open>\<open>Inl\<close> is what is printed before leaving with status 1.\<close>

definition interval_of :: "string list \<Rightarrow> nat \<Rightarrow> string + nat" where
  "interval_of positional k =
     (if length positional > k then
        (case parse_size (positional ! k) 86400 of
           None \<Rightarrow> Inl ''Interval must be a number of seconds.''
         | Some n \<Rightarrow> Inr (if n = 0 then 1 else unat n))
      else Inr 30)"

definition choose_action ::
  "environment \<Rightarrow> settings \<Rightarrow> arguments \<Rightarrow> options \<Rightarrow> string + options \<times> action" where
  "choose_action env st a opt =
     (let pos = ar_positional a; command = pos ! 0; server = settings_get st ''server'';
          at_cwd = path_join (env_cwd env)
      in if command = ''upload'' then
           (if length pos < 2 then Inl ''Usage: pcs-client upload''
            else let opt = opt\<lparr>opt_server := pick_server (opt_server opt) pos 2 server,
                               opt_peers := (if length pos > 3 then drop 3 pos else get_list st ''peers'')\<rparr>
                 in if opt_server opt = [] then Inl ''No server given.'' else Inr (opt, Upload (at_cwd (pos ! 1))))
         else if command = ''download'' then
           (if length pos < 2 then Inl ''Usage: pcs-client download''
            else let opt = opt\<lparr>opt_server := pick_server (opt_server opt) pos 2 server\<rparr>
                 in if opt_server opt = [] then Inl ''No server given.''
                    else Inr (opt, Download (pos ! 1) (at_cwd (if ar_out a = [] then pos ! 1 else ar_out a))))
         else if command = ''delete'' then
           (if length pos < 2 then Inl ''Usage: pcs-client delete''
            else let opt = opt\<lparr>opt_server := pick_server (opt_server opt) pos 2 server\<rparr>
                 in if opt_server opt = [] then Inl ''No server given.'' else Inr (opt, Delete (pos ! 1)))
         else if command = ''list'' then
           (let opt = opt\<lparr>opt_server := pick_server (opt_server opt) pos 1 server\<rparr>
            in if opt_server opt = [] then Inl ''No server given.'' else Inr (opt, ListFiles))
         else if command = ''seal'' \<or> command = ''open'' then
           (if length pos < 3 then Inl ''Usage: pcs-client seal''
            else if command = ''seal'' then Inr (opt, Seal (at_cwd (pos ! 1)) (at_cwd (pos ! 2)))
            else Inr (opt, Open (at_cwd (pos ! 1)) (at_cwd (pos ! 2))))
         else if command = ''watch'' then
           (let folder = (if length pos > 1 then pos ! 1 else settings_get st ''watch'')
            in case interval_of pos (if length pos > 1 then 2 else 1) of
                 Inl e \<Rightarrow> Inl e
               | Inr n \<Rightarrow>
                   let opt = opt\<lparr>opt_server := fill (opt_server opt) server\<rparr>
                   in if opt_server opt = [] then Inl ''No server given.''
                      else Inr (opt, Watch (if folder = [] then None else Some (at_cwd folder)) n))
         else if command = ''sync'' then Inr (opt, Sync)
         else if command = ''autosync'' then
           (case interval_of pos 1 of Inl e \<Rightarrow> Inl e | Inr n \<Rightarrow> Inr (opt, Autosync n))
         else Inl (''Unknown command: '' @ command))"

text \<open>The password is asked for when the command signs in and nothing else supplied one.\<close>

definition ask_password :: "string \<Rightarrow> options \<Rightarrow> client \<Rightarrow> options option \<times> client" where
  "ask_password first opt w =
     (if command_needs_account first \<and> cred_user (opt_cred opt) \<noteq> [] \<and> cred_password (opt_cred opt) = [] then
        (case read_hidden_line (cl_con w) of
           (None, con) \<Rightarrow> (None, w\<lparr>cl_con := con\<rparr>)
         | (Some p, con) \<Rightarrow> (Some (opt\<lparr>opt_cred := (opt_cred opt)\<lparr>cred_password := p\<rparr>\<rparr>), w\<lparr>cl_con := con\<rparr>))
      else (Some opt, w))"

text \<open>What \<open>config\<close> prints, with paths in their absolute form.\<close>

definition or_unset :: "string \<Rightarrow> string" where
  "or_unset s = (if s = [] then ''(unset)'' else s)"

definition set_or_unset :: "string \<Rightarrow> string" where
  "set_or_unset s = (if s = [] then ''(unset)'' else ''(set)'')"

definition config_report :: "environment \<Rightarrow> settings \<Rightarrow> options \<Rightarrow> string" where
  "config_report env st opt =
     unlines (if \<not> s_loaded st
       then ''No settings file found. Looked in:'' # map (\<lambda>p. ''  '' @ path_text p) (search_paths env)
       else [''Settings file: '' @ (case s_path st of None \<Rightarrow> [] | Some p \<Rightarrow> path_text p),
             ''Profile:       '' @ s_profile st,
             ''server         '' @ or_unset (settings_get st ''server''),
             ''user           '' @ or_unset (cred_user (opt_cred opt)),
             ''cacert         '' @ or_unset (ca_file (opt_trust opt)),
             ''peers          '' @ to_dec (length (get_list st ''peers'')) @ '' configured'',
             ''token          '' @ set_or_unset (cred_token (opt_cred opt)),
             ''password       '' @ set_or_unset (cred_password (opt_cred opt)),
             ''watch          '' @ or_unset (settings_get st ''watch'')])"

text \<open>\<open>Inl\<close> is the status and the message of a run that ends here.\<close>

definition plan ::
  "environment \<Rightarrow> string list \<Rightarrow> client \<Rightarrow> ((nat \<times> string) + arguments \<times> options \<times> action) \<times> client" where
  "plan env args w =
     (case parse_arguments args no_arguments of
        Inl bad \<Rightarrow> (Inl (1, ''Unknown option: '' @ bad), w)
      | Inr a \<Rightarrow>
      if ar_version a then (Inl (0, version_text ''pcs-client''), w)
      else if ar_help a \<or> ar_positional a = [] then
        (Inl (if ar_positional a = [] \<and> \<not> ar_help a then 1 else 0, ''Usage: pcs-client''), w)
      else let first = ar_positional a ! 0
      in case settings_load env (cl_disk w) (ar_config a) (ar_profile a) of
        Inl e \<Rightarrow> (Inl (1, ''settings error''), w)
      | Inr st \<Rightarrow>
      let opt = fill_options env st first a; trust = opt_trust opt
      in if first = ''config'' then (Inl (0, config_report env st opt), w)
      else if \<not> is_local first \<and> trust_verify trust \<and> ca_file trust = [] then (Inl (1, ''No CA certificate given''), w)
      else case ask_password first (opt\<lparr>opt_cred := env_credentials env (opt_cred opt)\<rparr>)
                  (remark (\<not> is_local first \<and> \<not> trust_verify trust) ''Warning: --insecure'' w) of
        (None, w) \<Rightarrow> (Inl (1, ''No password entered.''), w)
      | (Some opt, w) \<Rightarrow>
      case choose_action env st a opt of
        Inl m \<Rightarrow> (Inl (1, m), w)
      | Inr (opt, act) \<Rightarrow> (Inr (a, opt, act), w))"

definition detach_now :: "environment \<Rightarrow> posix \<Rightarrow> fd_table \<Rightarrow> string \<Rightarrow> string \<Rightarrow> client \<Rightarrow> detach \<times> client" where
  "detach_now env os fds log_path pid_path w =
     (case daemonize (env_cwd env) os (if log_path = [] then ''pcs-client.log'' else log_path) pid_path (cl_disk w) fds of
        (r, d, fds) \<Rightarrow> (r, on_disk d w))"

definition runs_on :: "action \<Rightarrow> bool" where
  "runs_on act = (case act of Watch _ _ \<Rightarrow> True | Autosync _ \<Rightarrow> True | _ \<Rightarrow> False)"

definition perform ::
  "nat \<Rightarrow> ('c, 'k) x509 \<Rightarrow> 'x openssl \<Rightarrow> 'a internet \<Rightarrow> options \<Rightarrow> action \<Rightarrow> client \<Rightarrow> (nat \<times> client) option" where
  "perform fuel X E I opt act w =
     (case act of
        Upload f \<Rightarrow> Some (cmd_upload X E I opt f w)
      | Download n p \<Rightarrow> Some (cmd_download X E I opt n p w)
      | Delete n \<Rightarrow> Some (cmd_delete X I opt n w)
      | ListFiles \<Rightarrow> Some (cmd_list X I opt w)
      | Seal f p \<Rightarrow> Some (cmd_seal E opt f p w)
      | Open f p \<Rightarrow> Some (cmd_open E opt f p w)
      | Watch folder n \<Rightarrow> cmd_watch fuel X E I opt folder n w
      | Sync \<Rightarrow> Some (cmd_sync X E I opt w)
      | Autosync n \<Rightarrow> cmd_autosync fuel X E I opt n w)"

definition client_main ::
  "nat \<Rightarrow> ('c, 'k) x509 \<Rightarrow> 'x openssl \<Rightarrow> 'a internet \<Rightarrow> environment \<Rightarrow> posix \<Rightarrow> fd_table \<Rightarrow> string list \<Rightarrow> client \<Rightarrow>
     (nat \<times> client) option" where
  "client_main fuel X E I env os fds args w =
     (case plan env args w of
        (Inl (code, m), w) \<Rightarrow> Some (code, tell m w)
      | (Inr (a, opt, act), w) \<Rightarrow>
      if ar_detach a \<and> runs_on act then
        (case detach_now env os fds (ar_log a) (ar_pid a) w of
           (Exits, w) \<Rightarrow> Some (0, w)
         | (CannotDetach e, w) \<Rightarrow> Some (1, tell e w)
         | (Detached, w) \<Rightarrow> perform fuel X E I opt act w)
      else perform fuel X E I opt act w)"

section \<open>What is asked for\<close>

text \<open>Options of the command line: whatever stands there.\<close>

declare parse_arguments.simps(2) [simp del]

lemma parse_arguments_keeps:
  "parse_arguments args a = Inr b \<Longrightarrow>
     opt_peers (ar_options b) = opt_peers (ar_options a) \<and>
     (''--insecure'' \<notin> set args \<longrightarrow> trust_verify (opt_trust (ar_options b)) = trust_verify (opt_trust (ar_options a)))"
proof (induction args a rule: parse_arguments.induct)
  case (1 a)
  then show ?case by simp
next
  case (2 arg args a)
  have flag: "opt_peers (ar_options c) = opt_peers (ar_options a) \<and>
      (arg \<noteq> ''--insecure'' \<longrightarrow> trust_verify (opt_trust (ar_options c)) = trust_verify (opt_trust (ar_options a)))"
    if "set_flag arg a = Some c" for c
    using that by (auto simp: set_flag_def Let_def split: if_splits)
  have opt: "opt_peers (ar_options c) = opt_peers (ar_options a) \<and>
      trust_verify (opt_trust (ar_options c)) = trust_verify (opt_trust (ar_options a))"
    if "set_option arg v a = Some c" for c v
    using that unfolding set_option_def Let_def by (auto split: if_splits)
  note run = "2.prems" [unfolded parse_arguments.simps(2) [of arg args a]]
  show ?case
  proof (cases "arg = ''--version'' \<or> arg = ''-h'' \<or> arg = ''--help''")
    case True
    with run show ?thesis by (auto split: if_splits)
  next
    case plain: False
    show ?thesis
    proof (cases "set_flag arg a")
      case (Some c)
      with run plain have "parse_arguments args c = Inr b" by simp
      from "2.IH"(4) [OF _ _ Some this] flag [OF Some] plain show ?thesis by auto
    next
      case no_flag: None
      show ?thesis
      proof (cases args)
        case Nil
        with run plain no_flag show ?thesis by (auto split: if_splits)
      next
        case (Cons v rest)
        show ?thesis
        proof (cases "set_option arg v a")
          case (Some c)
          with run plain no_flag Cons have "parse_arguments rest c = Inr b" by simp
          from "2.IH"(3) [OF _ _ no_flag Cons Some this] opt [OF Some] plain Cons show ?thesis by auto
        next
          case None
          with run plain no_flag Cons have next_one:
            "\<not> prefix ''--'' arg" "parse_arguments (v # rest) (a\<lparr>ar_positional := ar_positional a @ [arg]\<rparr>) = Inr b"
            by (simp_all split: if_splits)
          from "2.IH"(2) [OF _ _ no_flag Cons None next_one] plain Cons show ?thesis by auto
        qed
      qed
    qed
  qed
qed

definition local_action :: "action \<Rightarrow> bool" where
  "local_action act = (case act of Seal _ _ \<Rightarrow> True | Open _ _ \<Rightarrow> True | _ \<Rightarrow> False)"

definition wants_server :: "action \<Rightarrow> bool" where
  "wants_server act = (case act of Upload _ \<Rightarrow> True | Download _ _ \<Rightarrow> True | Delete _ \<Rightarrow> True | ListFiles \<Rightarrow> True
     | Watch _ _ \<Rightarrow> True | _ \<Rightarrow> False)"

definition pause_ok :: "action \<Rightarrow> bool" where
  "pause_ok act = (case act of Watch _ n \<Rightarrow> 1 \<le> n \<and> n \<le> 86400 | Autosync n \<Rightarrow> 1 \<le> n \<and> n \<le> 86400 | _ \<Rightarrow> True)"

lemmas action_classes = local_action_def wants_server_def pause_ok_def

lemma interval_of_range: "interval_of pos k = Inr n \<Longrightarrow> 1 \<le> n \<and> n \<le> 86400"
proof -
  assume i: "interval_of pos k = Inr n"
  have "unat x \<le> 86400" if "parse_size (pos ! k) 86400 = Some x" for x
    using parse_size_bound [OF that] by (simp add: word_le_nat_alt)
  moreover have "1 \<le> unat x" if "x \<noteq> 0" for x :: u64 using that unat_eq_0 [of x] by linarith
  ultimately show ?thesis using i by (auto simp: interval_of_def split: if_splits option.splits)
qed

lemma choose_action_keeps:
  assumes "choose_action env st a opt = Inr (opt', act)"
  shows "opt_trust opt' = opt_trust opt" "opt_cred opt' = opt_cred opt" "opt_dir opt' = opt_dir opt"
    and "local_action act = is_local (ar_positional a ! 0)" "wants_server act \<longrightarrow> opt_server opt' \<noteq> []" "pause_ok act"
    and "act = Watch folder n \<longrightarrow> opt_peers opt' = opt_peers opt"
    and "act = Upload f \<longrightarrow> opt_peers opt' =
      (if length (ar_positional a) > 3 then drop 3 (ar_positional a) else get_list st ''peers'')"
proof -
  let ?c = "ar_positional a ! 0"
  consider "?c = ''upload''" | "?c = ''download''" | "?c = ''delete''" | "?c = ''list''" | "is_local ?c" | "?c = ''watch''"
    | "?c = ''sync''" | "?c = ''autosync''"
    using assms by (auto simp: choose_action_def Let_def is_local_def split: if_splits)
  then have "opt_trust opt' = opt_trust opt \<and> opt_cred opt' = opt_cred opt \<and> opt_dir opt' = opt_dir opt \<and>
    local_action act = is_local ?c \<and> (wants_server act \<longrightarrow> opt_server opt' \<noteq> []) \<and> pause_ok act \<and>
    (act = Watch folder n \<longrightarrow> opt_peers opt' = opt_peers opt) \<and>
    (act = Upload f \<longrightarrow> opt_peers opt' =
      (if length (ar_positional a) > 3 then drop 3 (ar_positional a) else get_list st ''peers''))"
    by cases (use assms in \<open>auto simp: choose_action_def Let_def is_local_def action_classes
        split: if_splits sum.splits dest: interval_of_range\<close>)
  then show "opt_trust opt' = opt_trust opt" "opt_cred opt' = opt_cred opt" "opt_dir opt' = opt_dir opt"
    "local_action act = is_local (ar_positional a ! 0)" "wants_server act \<longrightarrow> opt_server opt' \<noteq> []" "pause_ok act"
    "act = Watch folder n \<longrightarrow> opt_peers opt' = opt_peers opt"
    "act = Upload f \<longrightarrow> opt_peers opt' =
      (if length (ar_positional a) > 3 then drop 3 (ar_positional a) else get_list st ''peers'')"
    by blast+
qed

lemma ask_password_keeps:
  assumes "ask_password first opt w = (Some opt', w')"
  shows "opt_trust opt' = opt_trust opt" "opt_peers opt' = opt_peers opt" "opt_server opt' = opt_server opt" "opt_dir opt' = opt_dir opt"
    "cred_user (opt_cred opt') = cred_user (opt_cred opt)" "cred_token (opt_cred opt') = cred_token (opt_cred opt)"
    "cred_password (opt_cred opt) \<noteq> [] \<longrightarrow> cred_password (opt_cred opt') = cred_password (opt_cred opt)"
    "\<exists>con. w' = w\<lparr>cl_con := con\<rparr>"
proof -
  have "w = w\<lparr>cl_con := cl_con w\<rparr>" by simp
  then have w: "\<exists>con. w = w\<lparr>cl_con := con\<rparr>" by blast
  then show "\<exists>con. w' = w\<lparr>cl_con := con\<rparr>"
    using assms by (auto simp: ask_password_def split: if_splits prod.splits option.splits)
qed (use assms in \<open>auto simp: ask_password_def split: if_splits prod.splits option.splits\<close>)

text \<open>The steps of a plan that comes to an action.\<close>

lemma plan_steps:
  assumes "plan env args w = (Inr (a, opt, act), w')"
  obtains st opt0 where "parse_arguments args no_arguments = Inr a" "ar_positional a \<noteq> []"
    "settings_load env (cl_disk w) (ar_config a) (ar_profile a) = Inr st"
    "let f = fill_options env st (ar_positional a ! 0) a
     in (is_local (ar_positional a ! 0) \<or> \<not> trust_verify (opt_trust f) \<or> ca_file (opt_trust f) \<noteq> []) \<and>
        ask_password (ar_positional a ! 0) (f\<lparr>opt_cred := env_credentials env (opt_cred f)\<rparr>)
          (remark (\<not> is_local (ar_positional a ! 0) \<and> \<not> trust_verify (opt_trust f)) ''Warning: --insecure'' w) = (Some opt0, w')"
    "choose_action env st a opt0 = Inr (opt, act)"
proof -
  obtain b where b: "parse_arguments args no_arguments = Inr b" and pos: "ar_positional b \<noteq> []" and
    go: "\<not> ar_version b" "\<not> ar_help b"
    using assms by (cases "parse_arguments args no_arguments") (auto simp: plan_def split: if_splits)
  obtain st where st: "settings_load env (cl_disk w) (ar_config b) (ar_profile b) = Inr st"
    using assms b pos go by (cases "settings_load env (cl_disk w) (ar_config b) (ar_profile b)") (simp_all add: plan_def Let_def)
  let ?first = "ar_positional b ! 0" and ?f = "fill_options env st (ar_positional b ! 0) b"
  obtain r w1 where p: "ask_password ?first (?f\<lparr>opt_cred := env_credentials env (opt_cred ?f)\<rparr>)
      (remark (\<not> is_local ?first \<and> \<not> trust_verify (opt_trust ?f)) ''Warning: --insecure'' w) = (r, w1)" by (rule prod.exhaust)
  have ok: "is_local ?first \<or> \<not> trust_verify (opt_trust ?f) \<or> ca_file (opt_trust ?f) \<noteq> []" "?first \<noteq> ''config''"
    using assms b pos go st by (auto simp: plan_def Let_def split: if_splits)
  then obtain opt0 where r: "r = Some opt0"
    using assms b pos go st p by (cases r) (auto simp: plan_def Let_def split: if_splits)
  have "choose_action env st b opt0 = Inr (opt, act) \<and> b = a \<and> w1 = w'"
    using assms b pos go st p ok r by (auto simp: plan_def Let_def split: if_splits sum.splits)
  with that [of st opt0] b pos st ok p r show thesis by (auto simp: Let_def)
qed

text \<open>C24: what a command line can lead to.\<close>

theorem planned_command_is_safe:
  assumes "plan env args w = (Inr (a, opt, act), w')"
  shows "(\<not> local_action act \<and> ''--insecure'' \<notin> set args \<longrightarrow> trust_verify (opt_trust opt) \<and> ca_file (opt_trust opt) \<noteq> []) \<and>
    (wants_server act \<longrightarrow> opt_server opt \<noteq> []) \<and> pause_ok act \<and>
    cl_disk w' = cl_disk w \<and> cl_dials w' = cl_dials w \<and> cl_links w' = cl_links w"
proof (rule plan_steps [OF assms])
  fix st opt0
  let ?first = "ar_positional a ! 0" and ?f = "fill_options env st (ar_positional a ! 0) a"
  assume parsed: "parse_arguments args no_arguments = Inr a"
    and rest: "let f = ?f
     in (is_local ?first \<or> \<not> trust_verify (opt_trust f) \<or> ca_file (opt_trust f) \<noteq> []) \<and>
        ask_password ?first (f\<lparr>opt_cred := env_credentials env (opt_cred f)\<rparr>)
          (remark (\<not> is_local ?first \<and> \<not> trust_verify (opt_trust f)) ''Warning: --insecure'' w) = (Some opt0, w')"
    and choice: "choose_action env st a opt0 = Inr (opt, act)"
  have asked: "ask_password ?first (?f\<lparr>opt_cred := env_credentials env (opt_cred ?f)\<rparr>)
      (remark (\<not> is_local ?first \<and> \<not> trust_verify (opt_trust ?f)) ''Warning: --insecure'' w) = (Some opt0, w')"
    and ca: "is_local ?first \<or> \<not> trust_verify (opt_trust ?f) \<or> ca_file (opt_trust ?f) \<noteq> []"
    using rest by (simp_all add: Let_def)
  note keeps = ask_password_keeps [OF asked] and chosen = choose_action_keeps [OF choice]
  have trust: "opt_trust opt = opt_trust ?f" using keeps(1) chosen(1) by simp
  have "trust_verify (opt_trust ?f)" if "\<not> is_local ?first" "''--insecure'' \<notin> set args"
    using parse_arguments_keeps [OF parsed] that
    by (simp add: fill_options_def trust_of_def no_arguments_def no_options_def Let_def)
  then have "\<not> local_action act \<and> ''--insecure'' \<notin> set args \<longrightarrow> trust_verify (opt_trust opt) \<and> ca_file (opt_trust opt) \<noteq> []"
    using ca trust chosen(4) by auto
  moreover have "cl_disk w' = cl_disk w \<and> cl_dials w' = cl_dials w \<and> cl_links w' = cl_links w"
    using keeps(8) by (auto simp: remark_def tell_def)
  ultimately show ?thesis using chosen(5,6) by blast
qed

text \<open>The first of some strings that is not empty.\<close>

definition first_given :: "string list \<Rightarrow> string" where
  "first_given ss = (case filter (\<lambda>s. s \<noteq> []) ss of [] \<Rightarrow> [] | s # _ \<Rightarrow> s)"

definition env_text :: "environment \<Rightarrow> string \<Rightarrow> string" where
  "env_text env var = (case env_var env var of None \<Rightarrow> [] | Some v \<Rightarrow> v)"

lemma fill_first: "from_env env var (fill s t) = first_given [s, t, env_text env var]"
  by (simp add: from_env_def fill_def first_given_def env_text_def split: option.split)

lemma env_first: "fill (from_env env var s) t = first_given [s, env_text env var, t]"
  by (simp add: from_env_def fill_def first_given_def env_text_def split: option.split)

lemma settings_before_environment:
  assumes "plan env args w = (Inr (a, opt, act), w')"
  shows "\<exists>st cred. settings_load env (cl_disk w) (ar_config a) (ar_profile a) = Inr st \<and> cred = opt_cred (ar_options a) \<and>
    cred_user (opt_cred opt) = first_given [cred_user cred, settings_get st ''user'', env_text env ''PCS_USER''] \<and>
    cred_token (opt_cred opt) = first_given [cred_token cred, settings_get st ''token'', env_text env ''PCS_TOKEN''] \<and>
    (first_given [cred_password cred, settings_get st ''password'', env_text env ''PCS_PASSWORD''] \<noteq> [] \<longrightarrow>
      cred_password (opt_cred opt) = first_given [cred_password cred, settings_get st ''password'', env_text env ''PCS_PASSWORD'']) \<and>
    ca_file (opt_trust opt) = first_given [ca_file (opt_trust (ar_options a)), env_text env ''PCS_CACERT'', settings_get st ''cacert'']"
proof (rule plan_steps [OF assms])
  fix st opt0
  let ?first = "ar_positional a ! 0" and ?f = "fill_options env st (ar_positional a ! 0) a"
  assume st: "settings_load env (cl_disk w) (ar_config a) (ar_profile a) = Inr st"
    and rest: "let f = ?f
     in (is_local ?first \<or> \<not> trust_verify (opt_trust f) \<or> ca_file (opt_trust f) \<noteq> []) \<and>
        ask_password ?first (f\<lparr>opt_cred := env_credentials env (opt_cred f)\<rparr>)
          (remark (\<not> is_local ?first \<and> \<not> trust_verify (opt_trust f)) ''Warning: --insecure'' w) = (Some opt0, w')"
    and choice: "choose_action env st a opt0 = Inr (opt, act)"
  have asked: "ask_password ?first (?f\<lparr>opt_cred := env_credentials env (opt_cred ?f)\<rparr>)
      (remark (\<not> is_local ?first \<and> \<not> trust_verify (opt_trust ?f)) ''Warning: --insecure'' w) = (Some opt0, w')"
    using rest by (simp add: Let_def)
  note keeps = ask_password_keeps [OF asked] and chosen = choose_action_keeps [OF choice]
  have filled: "opt_cred (?f\<lparr>opt_cred := env_credentials env (opt_cred ?f)\<rparr>) =
      \<lparr>cred_user = first_given [cred_user (opt_cred (ar_options a)), settings_get st ''user'', env_text env ''PCS_USER''],
       cred_password = first_given [cred_password (opt_cred (ar_options a)), settings_get st ''password'', env_text env ''PCS_PASSWORD''],
       cred_token = first_given [cred_token (opt_cred (ar_options a)), settings_get st ''token'', env_text env ''PCS_TOKEN'']\<rparr>"
    by (simp add: fill_options_def env_credentials_def fill_first Let_def)
  have ca: "ca_file (opt_trust ?f) = first_given [ca_file (opt_trust (ar_options a)), env_text env ''PCS_CACERT'', settings_get st ''cacert'']"
    by (simp add: fill_options_def trust_of_def env_first Let_def)
  show ?thesis
    using st keeps(1,5-7) chosen(1,2) filled ca by (intro exI [of _ st] exI [of _ "opt_cred (ar_options a)"]) simp
qed

text \<open>C38: a watcher has no peers to fall back to.\<close>

theorem watch_has_no_peers:
  assumes "plan env args w = (Inr (a, opt, Watch folder n), w')"
    and "upload_with_passphrase X E I opt source pw v u = (0, u')"
  shows "\<exists>u1 u2. remote_reachable X I (opt_server opt) (opt_trust opt) u1 = (True, u2)"
proof -
  have "opt_peers opt = []"
  proof (rule plan_steps [OF assms(1)])
    fix st opt0
    let ?first = "ar_positional a ! 0" and ?f = "fill_options env st (ar_positional a ! 0) a"
    assume parsed: "parse_arguments args no_arguments = Inr a"
      and rest: "let f = ?f
       in (is_local ?first \<or> \<not> trust_verify (opt_trust f) \<or> ca_file (opt_trust f) \<noteq> []) \<and>
          ask_password ?first (f\<lparr>opt_cred := env_credentials env (opt_cred f)\<rparr>)
            (remark (\<not> is_local ?first \<and> \<not> trust_verify (opt_trust f)) ''Warning: --insecure'' w) = (Some opt0, w')"
      and choice: "choose_action env st a opt0 = Inr (opt, Watch folder n)"
    have asked: "ask_password ?first (?f\<lparr>opt_cred := env_credentials env (opt_cred ?f)\<rparr>)
        (remark (\<not> is_local ?first \<and> \<not> trust_verify (opt_trust ?f)) ''Warning: --insecure'' w) = (Some opt0, w')"
      using rest by (simp add: Let_def)
    show ?thesis
      using choose_action_keeps(7) [OF choice] ask_password_keeps(2) [OF asked] parse_arguments_keeps [OF parsed]
      by (simp add: fill_options_def no_arguments_def no_options_def Let_def)
  qed
  with assms(2) show ?thesis
    by (elim upload_steps) (auto simp: distribute_to_peers_def kTotalShards_def kDataShards_def split: if_splits)
qed

section \<open>Coming to an end\<close>

lemma plan_stops: "plan env args w = (r, w') \<Longrightarrow> cl_stops w' = cl_stops w \<and> cl_watch_stops w' = cl_watch_stops w"
  by (auto simp: plan_def ask_password_def remark_def tell_def Let_def
      split: sum.splits if_splits prod.splits option.splits)


section \<open>Examples\<close>

definition bare_env :: environment where
  "bare_env = \<lparr>env_var = \<lambda>v. if v = ''PCS_TOKEN'' then Some ''other'' else None, env_cwd = [''w'']\<rparr>"

definition watch_args :: "string list" where
  "watch_args = [''--insecure'', ''watch'', ''/p'', ''--server'', ''s:1'', ''--user'', ''ann'', ''--password'', ''pw'',
     ''--token'', ''tk'', ''--dir'', ''/home'']"

definition list_args :: "string list" where
  "list_args = [''list'', ''s:1'', ''--user'', ''ann'', ''--password'', ''pw'', ''--cacert'', ''ca'']"

lemmas parsing = parse_arguments.simps(2) set_flag_def set_option_def no_arguments_def no_options_def Let_def

definition watch_parsed :: arguments where
  "watch_parsed = no_arguments\<lparr>ar_options := no_options\<lparr>opt_cred := \<lparr>cred_user = ''ann'', cred_password = ''pw'', cred_token = ''tk''\<rparr>,
     opt_trust := \<lparr>ca_file = [], trust_verify = False\<rparr>, opt_server := ''s:1''\<rparr>, ar_dir := Some ''/home'', ar_positional := [''watch'', ''/p'']\<rparr>"

definition list_parsed :: arguments where
  "list_parsed = no_arguments\<lparr>ar_options := no_options\<lparr>opt_cred := \<lparr>cred_user = ''ann'', cred_password = ''pw'', cred_token = []\<rparr>,
     opt_trust := \<lparr>ca_file = ''ca'', trust_verify = True\<rparr>\<rparr>, ar_positional := [''list'', ''s:1'']\<rparr>"

lemma watch_args_parsed: "parse_arguments watch_args no_arguments = Inr watch_parsed"
  by (simp add: watch_args_def watch_parsed_def parsing)

lemma list_args_parsed: "parse_arguments list_args no_arguments = Inr list_parsed"
  by (simp add: list_args_def list_parsed_def parsing)

definition no_settings :: settings where
  "no_settings = \<lparr>s_profile = ''default'', s_values = [], s_path = None, s_loaded = False\<rparr>"

lemma no_settings_loaded: "settings_load bare_env (cl_disk direct_client) [] [] = Inr no_settings"
  by (simp add: settings_load_def search_paths_def home_directory_def bare_env_def no_settings_def Let_def fs_exists_def
      direct_client_fields base_disk_fields lookup_def base_disk_def put_def empty_disk_def work_dir_eq)

lemma no_settings_get: "settings_get no_settings k = []" "get_list no_settings k = []"
  by (simp_all add: settings_get_def no_settings_def get_list_def)

lemmas filling = fill_options_def trust_of_def from_env_def fill_def no_settings_get working_dir_def same_as_cwd_def
  is_local_def ask_password_def env_credentials_def choose_action_def interval_of_def pick_server_def path_join_def components_def

lemma watch_filled:
  "fill_options bare_env no_settings ''watch'' watch_parsed = example_options\<lparr>opt_peers := [], opt_server := ''s:1''\<rparr>"
  "choose_action bare_env no_settings watch_parsed (example_options\<lparr>opt_peers := [], opt_server := ''s:1''\<rparr>) =
     Inr (example_options\<lparr>opt_peers := [], opt_server := ''s:1''\<rparr>, Watch (Some [''p'']) 30)"
  by (simp_all add: filling watch_parsed_def no_arguments_def no_options_def bare_env_def example_options_def Let_def)

abbreviation list_options :: options where
  "list_options \<equiv> no_options\<lparr>opt_cred := \<lparr>cred_user = ''ann'', cred_password = ''pw'', cred_token = []\<rparr>,
     opt_trust := \<lparr>ca_file = ''ca'', trust_verify = True\<rparr>, opt_dir := [''w'']\<rparr>"

lemma list_filled:
  "fill_options bare_env no_settings ''list'' list_parsed = list_options"
  "choose_action bare_env no_settings list_parsed (list_options\<lparr>opt_cred := \<lparr>cred_user = ''ann'', cred_password = ''pw'', cred_token = ''other''\<rparr>\<rparr>) =
     Inr (list_options\<lparr>opt_cred := \<lparr>cred_user = ''ann'', cred_password = ''pw'', cred_token = ''other''\<rparr>, opt_server := ''s:1''\<rparr>, ListFiles)"
  by (simp_all add: filling list_parsed_def no_arguments_def no_options_def bare_env_def Let_def)

lemma parsed_fields:
  "ar_positional watch_parsed = [''watch'', ''/p'']" "\<not> ar_version watch_parsed" "\<not> ar_help watch_parsed"
  "ar_config watch_parsed = []" "ar_profile watch_parsed = []"
  "ar_positional list_parsed = [''list'', ''s:1'']" "\<not> ar_version list_parsed" "\<not> ar_help list_parsed"
  "ar_config list_parsed = []" "ar_profile list_parsed = []"
  by (simp_all add: watch_parsed_def list_parsed_def no_arguments_def)

lemma watch_plan:
  "\<exists>w'. plan bare_env watch_args direct_client =
     (Inr (watch_parsed, example_options\<lparr>opt_peers := [], opt_server := ''s:1''\<rparr>, Watch (Some [''p'']) 30), w')"
proof -
  let ?o = "example_options\<lparr>opt_peers := [], opt_server := ''s:1''\<rparr>"
  have c: "env_credentials bare_env (opt_cred ?o) = opt_cred ?o"
    by (simp add: env_credentials_def from_env_def example_options_def)
  then have "?o\<lparr>opt_cred := env_credentials bare_env (opt_cred ?o)\<rparr> = ?o" by simp
  moreover have "ask_password ''watch'' ?o w = (Some ?o, w)" for w by (simp add: ask_password_def example_options_def)
  moreover have "\<not> trust_verify (opt_trust ?o)" by (simp add: example_options_def)
  ultimately show ?thesis
    using watch_filled
    by (simp add: plan_def watch_args_parsed parsed_fields no_settings_loaded is_local_def Let_def del: options.update_convs)
qed

lemma list_plan:
  "\<exists>w'. plan bare_env list_args direct_client =
     (Inr (list_parsed, list_options\<lparr>opt_cred := \<lparr>cred_user = ''ann'', cred_password = ''pw'', cred_token = ''other''\<rparr>, opt_server := ''s:1''\<rparr>,
       ListFiles), w')"
proof -
  let ?c = "\<lparr>cred_user = ''ann'', cred_password = ''pw'', cred_token = ''other''\<rparr>"
  have c: "env_credentials bare_env (opt_cred list_options) = ?c"
    by (simp add: env_credentials_def from_env_def bare_env_def)
  moreover have "ask_password ''list'' (list_options\<lparr>opt_cred := ?c\<rparr>) w = (Some (list_options\<lparr>opt_cred := ?c\<rparr>), w)" for w
    by (simp add: ask_password_def)
  ultimately show ?thesis
    using list_filled
    by (simp add: plan_def list_args_parsed parsed_fields no_settings_loaded is_local_def)
qed

lemma planned_command_is_safe_witness:
  "\<exists>a opt act w'. plan bare_env list_args direct_client = (Inr (a, opt, act), w') \<and>
     trust_verify (opt_trust opt) \<and> ca_file (opt_trust opt) \<noteq> [] \<and> opt_server opt \<noteq> []"
proof -
  obtain opt w' where p: "plan bare_env list_args direct_client = (Inr (list_parsed, opt, ListFiles), w')"
    using list_plan by blast
  have "''--insecure'' \<notin> set list_args" by (simp add: list_args_def)
  with planned_command_is_safe [OF p] p show ?thesis by (auto simp: action_classes)
qed

lemma settings_before_environment_witness:
  "\<exists>a opt act w'. plan bare_env list_args direct_client = (Inr (a, opt, act), w') \<and>
     cred_token (opt_cred opt) = ''other'' \<and> ca_file (opt_trust opt) = ''ca''"
proof -
  obtain opt w' where p: "plan bare_env list_args direct_client = (Inr (list_parsed, opt, ListFiles), w')"
    using list_plan by blast
  from settings_before_environment [OF p] obtain st where
    "settings_load bare_env (cl_disk direct_client) (ar_config list_parsed) (ar_profile list_parsed) = Inr st"
    and t: "cred_token (opt_cred opt) = first_given [cred_token (opt_cred (ar_options list_parsed)), settings_get st ''token'',
        env_text bare_env ''PCS_TOKEN'']"
      "ca_file (opt_trust opt) = first_given [ca_file (opt_trust (ar_options list_parsed)), env_text bare_env ''PCS_CACERT'',
        settings_get st ''cacert'']" by blast
  then have "st = no_settings" using no_settings_loaded by (simp add: parsed_fields)
  with t p show ?thesis
    by (simp add: no_settings_get first_given_def env_text_def bare_env_def list_parsed_def)
qed

lemma watch_has_no_peers_witness:
  "\<exists>u1 u2. remote_reachable example_x509 direct_net ''s:1'' (opt_trust example_options) u1 = (True, u2)"
proof -
  let ?o = "example_options\<lparr>opt_peers := [], opt_server := ''s:1''\<rparr>"
  obtain w' where p: "plan bare_env watch_args direct_client = (Inr (watch_parsed, ?o, Watch (Some [''p'']) 30), w')"
    using watch_plan by blast
  have "opt_server example_options = ''s:1''" by (simp add: example_options_def)
  with direct_scene have "\<exists>u' s tag. upload_with_passphrase example_x509 mini_openssl direct_net ?o [''a''] ''pw'' True direct_client = (0, u') \<and>
      sent_on u' (opt_server ?o) (putfile_line (length s) tag (filename [''a'']) @ newline # s) \<and>
      (\<forall>e q out. faults e = [] \<longrightarrow> fs_read e q = Some s \<longrightarrow> writable e out \<longrightarrow>
         open_file mini_openssl e q out ''pw'' = (Inr (), put e out ''hi''))"
    by (intro direct_upload_runs [OF mini_openssl_ok mini_openssl_works direct_scene(1,2,3,4)]) (simp_all add: reached_def)
  then obtain u' where "upload_with_passphrase example_x509 mini_openssl direct_net ?o [''a''] ''pw'' True direct_client = (0, u')" by blast
  from watch_has_no_peers [OF p this] show ?thesis by simp
qed


text \<open>
  With \<open>--server\<close>, the place of the server among the arguments of \<open>upload\<close> is still skipped: of four peers
  three are left.
\<close>

lemma named_server_costs_a_peer:
  "\<exists>opt. choose_action bare_env no_settings
     (no_arguments\<lparr>ar_positional := [''upload'', ''f'', ''a:1'', ''b:1'', ''c:1'', ''d:1'']\<rparr>) (no_options\<lparr>opt_server := ''s:1''\<rparr>) =
       Inr (opt, Upload [''w'', ''f'']) \<and> opt_peers opt = [''b:1'', ''c:1'', ''d:1'']"
  by (simp add: choose_action_def pick_server_def no_arguments_def no_options_def bare_env_def path_join_def components_def Let_def)

end
