(* ===== verification/Serve.thy ===== *)
theory Serve
  imports Session Daemon Keysource Settings
begin

text \<open>
  \<open>src/server/main.cpp\<close>, up to the loop that accepts connections, with the listening half of
  \<open>src/core/wire.cpp\<close>: the command line, the account, certificate and service commands, and what a
  server has prepared when it starts to serve. The conversations themselves are in \<open>Session\<close>.
\<close>

section \<open>Listening\<close>

text \<open>The outcomes of the calls, as for dialling; what is held is the context and the socket.\<close>

record listen_calls =
  server_ctx_new :: bool
  use_certificate :: bool
  use_private_key :: bool
  listen_socket :: bool
  bind_ok :: bool
  listen_ok :: bool

datatype listen_error = NoServerContext | CannotLoadCertificate | CannotCreateSocket | CannotBind nat | CannotListenOn nat

record listener_held =
  lh_ctx :: bool
  lh_fd :: bool

text \<open>The port of the address has 16 bits.\<close>

definition listen_tls :: "listen_calls \<Rightarrow> nat \<Rightarrow> (listen_error + 16 word) \<times> listener_held" where
  "listen_tls L port =
     (let h = \<lparr>lh_ctx = False, lh_fd = False\<rparr> in
      if \<not> server_ctx_new L then (Inl NoServerContext, h)
      else let h = h\<lparr>lh_ctx := True\<rparr> in
      if \<not> use_certificate L \<or> \<not> use_private_key L then (Inl CannotLoadCertificate, h\<lparr>lh_ctx := False\<rparr>)
      else if \<not> listen_socket L then (Inl CannotCreateSocket, h\<lparr>lh_ctx := False\<rparr>)
      else let h = h\<lparr>lh_fd := True\<rparr> in
      if \<not> bind_ok L then (Inl (CannotBind port), h\<lparr>lh_fd := False, lh_ctx := False\<rparr>)
      else if \<not> listen_ok L then (Inl (CannotListenOn port), h\<lparr>lh_fd := False, lh_ctx := False\<rparr>)
      else (Inr (word_of_nat port), h))"

record accept_calls =
  accepts :: bool
  session_new :: bool
  handshake_done :: bool

record client_held =
  ch_fd :: bool
  ch_ssl :: bool

definition listener_accept :: "accept_calls \<Rightarrow> bool \<times> client_held" where
  "listener_accept A =
     (let h = \<lparr>ch_fd = False, ch_ssl = False\<rparr> in
      if \<not> accepts A then (False, h)
      else let h = h\<lparr>ch_fd := True\<rparr> in
      if \<not> session_new A then (False, h\<lparr>ch_fd := False\<rparr>)
      else let h = h\<lparr>ch_ssl := True\<rparr> in
      if \<not> handshake_done A then (False, h\<lparr>ch_ssl := False, ch_fd := False\<rparr>)
      else (True, h))"

section \<open>The command line\<close>

record server_arguments =
  sa_root :: string
  sa_token :: string
  sa_hosts :: "string list"
  sa_log :: string
  sa_pid :: string
  sa_detach :: bool
  sa_command :: string
  sa_command_args :: "string list"

definition absolute :: "environment \<Rightarrow> string \<Rightarrow> string" where
  "absolute env s =
     (if s \<noteq> [] \<and> hd s = CHR ''/'' then s
      else (if env_cwd env = [] then ''/'' else path_text (env_cwd env) @ ''/'') @ s)"

definition server_defaults :: "environment \<Rightarrow> string \<Rightarrow> server_arguments" where
  "server_defaults env port_text =
     \<lparr>sa_root = absolute env (''storage/server_'' @ port_text), sa_token = [], sa_hosts = [], sa_log = [], sa_pid = [],
      sa_detach = False, sa_command = [], sa_command_args = []\<rparr>"

definition set_server_option :: "string \<Rightarrow> string \<Rightarrow> server_arguments \<Rightarrow> server_arguments option" where
  "set_server_option arg v a =
     (if arg = ''--root'' then Some (a\<lparr>sa_root := v\<rparr>)
      else if arg = ''--token'' then Some (a\<lparr>sa_token := v\<rparr>)
      else if arg = ''--host'' then Some (a\<lparr>sa_hosts := sa_hosts a @ [v]\<rparr>)
      else if arg = ''--log'' then Some (a\<lparr>sa_log := v\<rparr>)
      else if arg = ''--pidfile'' then Some (a\<lparr>sa_pid := v\<rparr>)
      else None)"

definition other_server_argument :: "string \<Rightarrow> server_arguments \<Rightarrow> string + server_arguments" where
  "other_server_argument arg a =
     (if arg = ''--daemon'' then Inr (a\<lparr>sa_detach := True\<rparr>)
      else if prefix ''--'' arg then Inl arg
      else if sa_command a = [] then Inr (a\<lparr>sa_command := arg\<rparr>)
      else Inr (a\<lparr>sa_command_args := sa_command_args a @ [arg]\<rparr>))"

fun parse_server_arguments :: "string list \<Rightarrow> server_arguments \<Rightarrow> string + server_arguments" where
  "parse_server_arguments [] a = Inr a"
| "parse_server_arguments [arg] a = other_server_argument arg a"
| "parse_server_arguments (arg # v # rest) a =
     (case set_server_option arg v a of
        Some a \<Rightarrow> parse_server_arguments rest a
      | None \<Rightarrow>
      case other_server_argument arg a of
        Inl bad \<Rightarrow> Inl bad
      | Inr a \<Rightarrow> parse_server_arguments (v # rest) a)"

section \<open>Account commands\<close>

record server_process =
  sp_world :: world
  sp_con :: console
  sp_out :: "string list"

definition print :: "string \<Rightarrow> server_process \<Rightarrow> server_process" where
  "print m p = p\<lparr>sp_out := sp_out p @ [m]\<rparr>"

definition ask_new_password :: "server_process \<Rightarrow> string option \<times> server_process" where
  "ask_new_password p =
     (case read_hidden_line (sp_con p) of (first, con) \<Rightarrow>
      let p = p\<lparr>sp_con := con\<rparr>
      in if first = None \<or> first = Some [] then (None, print ''No password entered.'' p)
         else case read_hidden_line (sp_con p) of (second, con) \<Rightarrow>
           let p = p\<lparr>sp_con := con\<rparr>
           in if second = None then (None, p)
              else if first \<noteq> second then (None, print ''The two entries did not match.'' p)
              else (first, p))"

definition set_accounts :: "user_store \<Rightarrow> bytes \<Rightarrow> disk \<Rightarrow> server_process \<Rightarrow> server_process" where
  "set_accounts us pool d p = p\<lparr>sp_world := (sp_world p)\<lparr>w_users := us, w_pool := pool, w_disk := d\<rparr>\<rparr>"

definition run_account_command ::
  "'x openssl \<Rightarrow> string \<Rightarrow> string \<Rightarrow> string list \<Rightarrow> server_process \<Rightarrow> nat \<times> server_process" where
  "run_account_command E today command args p =
     (let w = sp_world p
      in if command = ''userlist'' then
           (0, foldl (\<lambda>p n. print n p) p
                 (if users_names (w_users w) = [] then [''No accounts yet.''] else users_names (w_users w)))
         else if args = [] then (1, print ''That command needs an account name.'' p)
         else if command = ''useradd'' then
           (case ask_new_password p of
              (None, p) \<Rightarrow> (1, p)
            | (Some password, p) \<Rightarrow>
            case users_add E today (w_pool w) (w_disk w) (w_users w) (hd args) password of
              (Some e, us, pool, d) \<Rightarrow> (1, print ''error'' (set_accounts us pool d p))
            | (None, us, pool, d) \<Rightarrow> (0, print ''Created account'' (set_accounts us pool d p)))
         else if command = ''passwd'' then
           (case ask_new_password p of
              (None, p) \<Rightarrow> (1, p)
            | (Some password, p) \<Rightarrow>
            case users_set_password E today (w_pool w) (w_disk w) (w_users w) (hd args) password of
              (Some e, us, pool, d) \<Rightarrow> (1, print ''error'' (set_accounts us pool d p))
            | (None, us, pool, d) \<Rightarrow> (0, print ''Password changed'' (set_accounts us pool d p)))
         else if command = ''userdel'' then
           (case users_remove today (w_disk w) (w_users w) (hd args) of
              (Some e, us, d) \<Rightarrow> (1, print ''error'' (set_accounts us (w_pool w) d p))
            | (None, us, d) \<Rightarrow> (0, print ''Removed account'' (set_accounts us (w_pool w) d p)))
         else (1, print ''Unknown command'' p))"

section \<open>The program\<close>

text \<open>\<open>copy_file\<close> over an existing file; a file is not copied onto itself.\<close>

definition copy_file :: "disk \<Rightarrow> path \<Rightarrow> path \<Rightarrow> bool \<times> disk" where
  "copy_file d source target =
     (case fs_read d source of
        None \<Rightarrow> (False, d)
      | Some s \<Rightarrow>
          if source = target then (False, d)
          else case fs_create d target of (ok, d) \<Rightarrow> if \<not> ok then (False, d) else fs_append d target s)"

definition ca_export :: "environment \<Rightarrow> path \<Rightarrow> string list \<Rightarrow> server_process \<Rightarrow> nat \<times> server_process" where
  "ca_export env root args p =
     (let d = w_disk (sp_world p)
      in if args = [] then (1, print ''Usage: pcs-server <port> ca-export <path>'' p)
         else if \<not> fs_exists d (root @ [''ca.crt'']) then (1, print ''No CA yet.'' p)
         else case copy_file d (root @ [''ca.crt'']) (path_join (env_cwd env) (hd args)) of (ok, d) \<Rightarrow>
           let p = p\<lparr>sp_world := (sp_world p)\<lparr>w_disk := d\<rparr>\<rparr>
           in if \<not> ok then (1, print ''Cannot copy the CA certificate'' p) else (0, print ''Wrote'' p))"

definition service_file :: "environment \<Rightarrow> string \<Rightarrow> string \<Rightarrow> string \<Rightarrow> string" where
  "service_file env program port_text root =
     systemd_unit ''Personal cloud storage server''
       (absolute env program @ '' '' @ port_text @ '' --root '' @ absolute env root) (absolute env root)"

definition server_hosts :: "('c, 'k) x509 \<Rightarrow> string list \<Rightarrow> string list" where
  "server_hosts X extra = remdups_adj (sort (local_host_identities X @ extra))"

datatype server_end = Leaves nat | Serves config

text \<open>From the token to the listening socket.\<close>

definition start_serving ::
  "('c, 'k) x509 \<Rightarrow> environment \<Rightarrow> posix \<Rightarrow> fd_table \<Rightarrow> listen_calls \<Rightarrow> string \<Rightarrow> nat \<Rightarrow> path \<Rightarrow> server_arguments \<Rightarrow>
     server_process \<Rightarrow> server_end \<times> server_process" where
  "start_serving X env os fds L page port root a p =
     (let forced = (if sa_token a = [] then (case env_var env ''PCS_TOKEN'' of None \<Rightarrow> [] | Some v \<Rightarrow> v) else sa_token a);
          w = sp_world p;
          ca_cert = root @ [''ca.crt'']; ca_key = root @ [''ca.key'']; cert = root @ [''server.crt'']; key = root @ [''server.key'']
      in case (if forced = [] then load_or_create_token (w_disk w) (w_pool w) (root @ [''auth.token''])
               else (forced, w_pool w, w_disk w)) of (token, pool, d) \<Rightarrow>
      case ensure_ca X d ca_cert ca_key of (r, d) \<Rightarrow>
      let p = p\<lparr>sp_world := w\<lparr>w_pool := pool, w_disk := d\<rparr>\<rparr>
      in case r of
        Inl e \<Rightarrow> (Leaves 1, print ''Cannot prepare the local CA'' p)
      | Inr _ \<Rightarrow>
      let hosts = server_hosts X (sa_hosts a);
          reissue = \<not> fs_exists d key \<or> server_cert_needs_reissue X d cert hosts 30
      in case (if reissue then issue_server_cert X d ca_cert ca_key cert key hosts else (Inr (), d)) of (r, d) \<Rightarrow>
      let p = p\<lparr>sp_world := (sp_world p)\<lparr>w_disk := d\<rparr>\<rparr>
      in case r of
        Inl e \<Rightarrow> (Leaves 1, print ''Cannot issue the server certificate'' p)
      | Inr _ \<Rightarrow>
      case fst (listen_tls L port) of
        Inl e \<Rightarrow> (Leaves 1, print ''Cannot listen'' p)
      | Inr _ \<Rightarrow>
      case (if sa_detach a
            then daemonize (env_cwd env) os (if sa_log a = [] then path_text (root @ [''server.log'']) else sa_log a) (sa_pid a) d fds
            else (Detached, d, fds)) of (r, d, fds) \<Rightarrow>
      let p = p\<lparr>sp_world := (sp_world p)\<lparr>w_disk := d\<rparr>\<rparr>
      in case r of
        Exits \<Rightarrow> (Leaves 0, p)
      | CannotDetach e \<Rightarrow> (Leaves 1, print e p)
      | Detached \<Rightarrow> (Serves \<lparr>cfg_root = root, cfg_page = page, cfg_token = token, cfg_port = port\<rparr>, print ''[server]'' p))"

definition server_main ::
  "'x openssl \<Rightarrow> ('c, 'k) x509 \<Rightarrow> environment \<Rightarrow> posix \<Rightarrow> fd_table \<Rightarrow> listen_calls \<Rightarrow> string \<Rightarrow> string \<Rightarrow> string \<Rightarrow>
     string list \<Rightarrow> server_process \<Rightarrow> server_end \<times> server_process" where
  "server_main E X env os fds L page today program args p =
     (case args of
        [] \<Rightarrow> (Leaves 1, print ''Usage: pcs-server'' p)
      | port_text # rest \<Rightarrow>
      if port_text = ''-h'' \<or> port_text = ''--help'' then (Leaves 0, print ''Usage: pcs-server'' p)
      else if port_text = ''--version'' then (Leaves 0, print (version_text ''pcs-server'') p)
      else case parse_size port_text 65535 of
        None \<Rightarrow> (Leaves 1, print ''Invalid port'' p)
      | Some port \<Rightarrow>
      if port = 0 then (Leaves 1, print ''Invalid port'' p)
      else case parse_server_arguments rest (server_defaults env port_text) of
        Inl bad \<Rightarrow> (Leaves 1, print ''Unknown option'' p)
      | Inr a \<Rightarrow>
      let root = path_join (env_cwd env) (sa_root a)
      in case store_init (w_disk (sp_world p)) root of (e, d) \<Rightarrow>
      let p = p\<lparr>sp_world := (sp_world p)\<lparr>w_disk := d\<rparr>\<rparr>
      in if e \<noteq> None then (Leaves 1, print ''Cannot prepare storage'' p)
      else case load_locked d (new_user_store (root @ [''users.txt''])) of (e, us) \<Rightarrow>
      let p = p\<lparr>sp_world := (sp_world p)\<lparr>w_users := us\<rparr>\<rparr>
      in if e \<noteq> None then (Leaves 1, print ''Cannot read the account list'' p)
      else if sa_command a = ''service-file'' then (Leaves 0, print (service_file env program port_text (sa_root a)) p)
      else if sa_command a = ''ca-export'' then (case ca_export env root (sa_command_args a) p of (c, p) \<Rightarrow> (Leaves c, p))
      else if sa_command a \<noteq> [] then
        (case run_account_command E today (sa_command a) (sa_command_args a) p of (c, p) \<Rightarrow> (Leaves c, p))
      else start_serving X env os fds L page (unat port) root a p)"

section \<open>Nothing is leaked while listening\<close>

lemma listen_tls_holds:
  "listen_tls L port = (r, h) \<Longrightarrow> (case r of Inl e \<Rightarrow> \<not> lh_ctx h \<and> \<not> lh_fd h | Inr _ \<Rightarrow> lh_ctx h \<and> lh_fd h)"
  by (auto simp: listen_tls_def Let_def split: if_splits)

lemma listener_accept_holds: "listener_accept A = (ok, h) \<Longrightarrow> ch_fd h = ok \<and> ch_ssl h = ok"
  by (auto simp: listener_accept_def Let_def split: if_splits)

section \<open>What an account command does besides\<close>

lemma fs_list_empty: "fs_list d q = [] \<longleftrightarrow> (\<forall>p. p \<noteq> [] \<and> butlast p = q \<longrightarrow> lookup d p = None)"
proof
  assume e: "fs_list d q = []"
  show "\<forall>p. p \<noteq> [] \<and> butlast p = q \<longrightarrow> lookup d p = None"
  proof (intro allI impI)
    fix p assume "p \<noteq> [] \<and> butlast p = q"
    with e have "p \<notin> fst ` set (files d)" by (force simp: fs_list_def filter_empty_conv)
    then show "lookup d p = None" by (simp add: lookup_def map_of_eq_None_iff)
  qed
next
  assume n: "\<forall>p. p \<noteq> [] \<and> butlast p = q \<longrightarrow> lookup d p = None"
  have "\<not> (p \<noteq> [] \<and> butlast p = q)" if "p \<in> fst ` set (files d)" for p
    using n that by (metis lookup_def map_of_eq_None_iff)
  then show "fs_list d q = []" by (auto simp: fs_list_def filter_empty_conv)
qed

lemma remove_all_gone:
  "faults d = [] \<Longrightarrow> faults (remove_all d ps) = [] \<and> lookup (remove_all d ps) q = (if q \<in> set ps then None else lookup d q)"
proof (induction ps arbitrary: d)
  case (Cons p ps)
  obtain ok d1 where r: "fs_remove d p = (ok, d1)" by (rule prod.exhaust)
  have "faults d1 = []" using faultless_remove [OF Cons.prems r] .
  moreover have "lookup d1 p = None" using remove_gone [OF Cons.prems r] by (simp add: fs_read_def)
  moreover have "q \<noteq> p \<Longrightarrow> lookup d1 q = lookup d q" using touches_remove [OF r] by (simp add: touches_def)
  ultimately show ?case using Cons.IH [of d1] r by auto
qed simp

lemma faultless_make_dirs: "make_dirs d ps = (r, d') \<Longrightarrow> faults d = [] \<Longrightarrow> faults d' = []"
  by (induction ps arbitrary: d) (auto split: prod.splits if_splits dest: faultless_mkdirs)

lemma store_init_clears:
  assumes "store_init d root = (None, d')" and "faults d = []"
  shows "fs_list d' (store_tmp root) = []"
proof -
  obtain d1 where m: "make_dirs d [root, store_users root, store_chunks root, store_tmp root] = (None, d1)"
    and d': "d' = remove_all d1 (fs_list d1 (store_tmp root))"
    using assms(1) by (auto simp: store_init_def split: prod.splits option.splits)
  have "faults d1 = []" using faultless_make_dirs [OF m assms(2)] .
  then have "lookup d' p = None" if "p \<noteq> []" "butlast p = store_tmp root" for p
    using remove_all_gone [of d1 "fs_list d1 (store_tmp root)" p] that d'
    by (force simp: fs_list_def lookup_def map_of_eq_None_iff)
  then show ?thesis by (simp add: fs_list_empty)
qed

lemma save_touches: "save_locked today d us = (r, us', d') \<Longrightarrow> touches {temp_sibling (u_path us), u_path us} d d'"
  using save_locked_failure [of today d us _ us' d'] save_locked_success [of today d us us' d']
  by (cases r) (auto intro: touches_mono)

lemma accounts_touch:
  "users_add E today pool d us n pw = (r, us', pool', d') \<Longrightarrow> touches {temp_sibling (u_path us), u_path us} d d'"
  "users_set_password E today pool d us n pw = (r, us', pool', d') \<Longrightarrow> touches {temp_sibling (u_path us), u_path us} d d'"
  "users_remove today d us n = (r, us', d') \<Longrightarrow> touches {temp_sibling (u_path us), u_path us} d d'"
  by (auto simp: users_add_def users_set_password_def users_remove_def Let_def dest!: save_touches
      split: prod.splits if_splits option.splits)

lemma ask_new_password_world: "ask_new_password p = (r, p') \<Longrightarrow> sp_world p' = sp_world p"
  by (auto simp: ask_new_password_def print_def Let_def split: prod.splits if_splits)

lemma print_all_world: "sp_world (foldl (\<lambda>p n. print n p) p ns) = sp_world p"
  by (induction ns arbitrary: p) (simp_all add: print_def)

lemma account_command_touches:
  assumes "run_account_command E today command args p = (c, p')"
  shows "touches {temp_sibling (u_path (w_users (sp_world p))), u_path (w_users (sp_world p))}
           (w_disk (sp_world p)) (w_disk (sp_world p'))"
proof -
  have same: ?thesis if "sp_world p' = sp_world p" using that by simp
  show ?thesis
    using assms
    by (auto simp: run_account_command_def Let_def set_accounts_def print_def print_all_world [unfolded print_def]
        split: if_splits prod.splits option.splits dest!: accounts_touch ask_new_password_world intro: same)
qed

lemma load_locked_path: "load_locked d us = (e, us') \<Longrightarrow> u_path us' = u_path us"
  by (auto simp: load_locked_def Let_def split: option.splits list.splits if_splits)

lemma account_command_clears_uploads:
  assumes "server_main E X env os fds L page today program (port_text # rest) p = (Leaves c, p')"
    and "parse_size port_text 65535 = Some port" and "port \<noteq> 0"
    and "parse_server_arguments rest (server_defaults env port_text) = Inr a"
    and "sa_command a \<in> {''userlist'', ''useradd'', ''passwd'', ''userdel''}"
    and "root = path_join (env_cwd env) (sa_root a)" and "fst (store_init (w_disk (sp_world p)) root) = None"
    and "faults (w_disk (sp_world p)) = []"
  shows "fs_list (w_disk (sp_world p')) (store_tmp root) = []"
proof -
  let ?w = "sp_world p"
  obtain d where init: "store_init (w_disk ?w) root = (None, d)" using assms(7) by (cases "store_init (w_disk ?w) root") simp
  have empty: "fs_list d (store_tmp root) = []" using store_init_clears [OF init assms(8)] .
  obtain e us where load: "load_locked d (new_user_store (root @ [''users.txt''])) = (e, us)" by (rule prod.exhaust)
  have path: "u_path us = root @ [''users.txt'']" using load_locked_path [OF load] by (simp add: new_user_store_def)
  have kept: "fs_list d' (store_tmp root) = []" if t: "touches {temp_sibling (u_path us), u_path us} d d'" for d'
    unfolding fs_list_empty
  proof (intro allI impI)
    fix q assume q: "q \<noteq> [] \<and> butlast q = store_tmp root"
    then have "q \<noteq> temp_sibling (u_path us)" "q \<noteq> u_path us"
      by (auto simp: path temp_sibling_def store_tmp_def path_join_component butlast_append)
    with t have "lookup d' q = lookup d q" by (simp add: touches_def)
    with q empty show "lookup d' q = None" by (simp add: fs_list_empty)
  qed
  have "port_text \<noteq> ''-h'' \<and> port_text \<noteq> ''--help'' \<and> port_text \<noteq> ''--version''"
    using assms(2) by (auto simp: parse_size_spec is_digit_code split: if_splits)
  then show ?thesis
    using assms(1-7) init load empty kept
    by (auto simp: server_main_def Let_def print_def path split: if_splits prod.splits dest!: account_command_touches)
qed

lemma reload_saved:
  assumes "users_ok (u_verifiers us0)" and "newline \<notin> set today" and "save_locked today d us0 = (None, us1, d1)"
    and "u_path us = u_path us0" and "fs_mtime d1 (u_path us) \<noteq> Some (u_stamp us)"
  shows "map_of (u_verifiers (reload_if_changed d1 us)) = map_of (u_verifiers us1)"
proof -
  obtain w where w: "load_locked d1 us = (None, w)" "map_of (u_verifiers w) = map_of (u_verifiers us0)"
    using saved_accounts_load [OF assms(1-4)] by blast
  have "fs_read d1 (u_path us) \<noteq> None" using save_locked_success [OF assms(3)] assms(4) by simp
  then have "fs_mtime d1 (u_path us) \<noteq> None" by (simp add: fs_mtime_def fs_read_def)
  then have "reload_if_changed d1 us = w" using assms(5) w(1) by (auto simp: reload_if_changed_def)
  with w(2) save_keeps [OF assms(3)] show ?thesis by simp
qed

text \<open>The first line typed, as a password.\<close>

definition typed :: "console \<Rightarrow> string" where
  "typed con = (case con_lines con of [] \<Rightarrow> [] | l # _ \<Rightarrow> strip_trailing_newline l)"

lemma ask_new_password_typed: "ask_new_password p = (Some pw, p') \<Longrightarrow> pw = typed (sp_con p) \<and> pw \<noteq> []"
  by (auto simp: ask_new_password_def read_hidden_line_def typed_def print_def Let_def split: prod.splits if_splits list.splits)

text \<open>C26: an account made by the command can sign in at a server that is running.\<close>

theorem useradd_then_login:
  assumes "run_account_command E today ''useradd'' [n] p = (0, p')" and "openssl_ok E"
    and "users_ok (u_verifiers (w_users (sp_world p)))" and "newline \<notin> set today"
    and "u_path us = u_path (w_users (sp_world p))" and "fs_mtime (w_disk (sp_world p')) (u_path us) \<noteq> Some (u_stamp us)"
  shows "fst (users_verify E pool (w_disk (sp_world p')) us n (typed (sp_con p)))"
proof -
  let ?w = "sp_world p"
  obtain typed_pw p1 where ask0: "ask_new_password p = (typed_pw, p1)" by (rule prod.exhaust)
  then obtain pw where "typed_pw = Some pw"
    using assms(1) by (cases typed_pw) (simp_all add: run_account_command_def Let_def)
  with ask0 have ask: "ask_new_password p = (Some pw, p1)" by simp
  obtain r us1 pool1 d1 where add: "users_add E today (w_pool ?w) (w_disk ?w) (w_users ?w) n pw = (r, us1, pool1, d1)"
    by (rule prod_cases4)
  have r: "r = None" and d1: "w_disk (sp_world p') = d1"
    using assms(1) ask add by (auto simp: run_account_command_def set_accounts_def print_def split: option.splits)
  note add = add [unfolded r]
  obtain v where v: "hash_password E (w_pool ?w) pw kPasswordIterations = (v, pool1)" "v \<noteq> []" "is_valid_username n"
    and save: "save_locked today (w_disk ?w) ((w_users ?w)\<lparr>u_verifiers := AList.update n v (u_verifiers (w_users ?w))\<rparr>) = (None, us1, d1)"
    using add by (auto simp: users_add_def split: prod.splits if_splits option.splits)
  have "users_ok (AList.update n v (u_verifiers (w_users ?w)))"
    using users_add_ok [OF add assms(3)] save_keeps [OF save] by simp
  then have same: "map_of (u_verifiers (reload_if_changed d1 us)) = map_of (u_verifiers us1)"
    using reload_saved [OF _ assms(4) save, of us] assms(5,6) d1 by simp
  have "fst (users_verify E pool d1 us1 n pw)" using add_verifies [OF assms(2) add] by blast
  from users_verify_unknown [OF this] reload_after_save [OF save] obtain x where
    x: "map_of (u_verifiers us1) n = Some x" "verify_password E pw x" by auto
  have "x \<noteq> []" using x(1) v(2) save_keeps [OF save] by (simp add: update_conv')
  then show ?thesis
    using same x ask_new_password_typed [OF ask] d1 by (simp add: users_verify_def Let_def)
qed

section \<open>What a server starts with\<close>

lemma start_serving_steps:
  assumes "start_serving X env os fds L page port root a p = (Serves cfg, p')" and "\<not> sa_detach a"
  obtains token pool d1 d2 d3 where "cfg = \<lparr>cfg_root = root, cfg_page = page, cfg_token = token, cfg_port = port\<rparr>"
    "ensure_ca X d1 (root @ [''ca.crt'']) (root @ [''ca.key'']) = (Inr (), d2)"
    "(if \<not> fs_exists d2 (root @ [''server.key'']) \<or> server_cert_needs_reissue X d2 (root @ [''server.crt'']) (server_hosts X (sa_hosts a)) 30
      then issue_server_cert X d2 (root @ [''ca.crt'']) (root @ [''ca.key'']) (root @ [''server.crt'']) (root @ [''server.key''])
        (server_hosts X (sa_hosts a))
      else (Inr (), d2)) = (Inr (), d3)"
    "w_disk (sp_world p') = d3"
proof -
  define forced where "forced = (if sa_token a = [] then (case env_var env ''PCS_TOKEN'' of None \<Rightarrow> [] | Some v \<Rightarrow> v) else sa_token a)"
  obtain token pool d1 where t: "(if forced = [] then load_or_create_token (w_disk (sp_world p)) (w_pool (sp_world p)) (root @ [''auth.token''])
      else (forced, w_pool (sp_world p), w_disk (sp_world p))) = (token, pool, d1)" by (rule prod_cases3)
  obtain r1 d2 where ca: "ensure_ca X d1 (root @ [''ca.crt'']) (root @ [''ca.key'']) = (r1, d2)" by (rule prod.exhaust)
  obtain r2 d3 where cert: "(if \<not> fs_exists d2 (root @ [''server.key'']) \<or> server_cert_needs_reissue X d2 (root @ [''server.crt'']) (server_hosts X (sa_hosts a)) 30
      then issue_server_cert X d2 (root @ [''ca.crt'']) (root @ [''ca.key'']) (root @ [''server.crt'']) (root @ [''server.key''])
        (server_hosts X (sa_hosts a))
      else (Inr (), d2)) = (r2, d3)" by (rule prod.exhaust)
  note run = assms(1) [unfolded start_serving_def Let_def, folded forced_def, unfolded t prod.case ca]
  have r1: "r1 = Inr ()" using run by (cases r1) simp_all
  note run = run [unfolded r1 sum.case cert prod.case]
  have r2: "r2 = Inr ()" using run by (cases r2) simp_all
  have "cfg = \<lparr>cfg_root = root, cfg_page = page, cfg_token = token, cfg_port = port\<rparr> \<and> w_disk (sp_world p') = d3"
    using run assms(2) r2 by (auto simp: print_def split: sum.splits)
  with that [OF _ ca [unfolded r1] cert [unfolded r2]] show thesis by blast
qed

lemma serving_certificate_covers:
  assumes "start_serving X env os fds L page port root a p = (Serves cfg, p')" and "\<not> sa_detach a"
    and "\<forall>c s. cert_pem X c = Some s \<longrightarrow> pem_cert X s = Some c"
    and "\<And>t k cert hs. hs \<noteq> [] \<Longrightarrow> x509_sign X t k = Some cert \<Longrightarrow>
      (SubjectAltName, subject_alt_name X hs) \<in> set (tbs_extensions t) \<Longrightarrow>
      tbs_not_after t = time_now X + kLeafLifetimeSeconds \<Longrightarrow>
      (\<exists>n\<ge>30. days_to_expiry X cert = Some n) \<and> list_all (covered X cert) hs"
  shows "\<exists>cert. read_pem (pem_cert X) (w_disk (sp_world p')) (root @ [''server.crt'']) = Some cert \<and>
    list_all (covered X cert) ([''localhost'', ''127.0.0.1'', ''::1''] @ sa_hosts a) \<and>
    fs_exists (w_disk (sp_world p')) (root @ [''server.key'']) \<and>
    \<not> server_cert_needs_reissue X (w_disk (sp_world p')) (root @ [''server.crt'']) (server_hosts X (sa_hosts a)) 30"
proof (rule start_serving_steps [OF assms(1,2)])
  fix token pool and d1 d2 d3 :: disk
  let ?crt = "root @ [''server.crt'']" and ?key = "root @ [''server.key'']" and ?hosts = "server_hosts X (sa_hosts a)"
  assume cert: "(if \<not> fs_exists d2 ?key \<or> server_cert_needs_reissue X d2 ?crt ?hosts 30
      then issue_server_cert X d2 (root @ [''ca.crt'']) (root @ [''ca.key'']) ?crt ?key ?hosts else (Inr (), d2)) = (Inr (), d3)"
    and d3: "w_disk (sp_world p') = d3"
  have hosts: "set ?hosts = set (local_host_identities X) \<union> set (sa_hosts a)"
    unfolding server_hosts_def sort_unique(3) by simp
  have "\<exists>c. read_pem (pem_cert X) d3 ?crt = Some c \<and> list_all (covered X c) ?hosts \<and> fs_exists d3 ?key \<and>
      \<not> server_cert_needs_reissue X d3 ?crt ?hosts 30"
  proof (cases "fs_exists d2 ?key \<and> \<not> server_cert_needs_reissue X d2 ?crt ?hosts 30")
    case True
    with cert have "d3 = d2" by simp
    with True show ?thesis
      by (auto simp: server_cert_needs_reissue_def list_all_iff list_ex_iff split: option.splits)
  next
    case False
    with cert have "issue_server_cert X d2 (root @ [''ca.crt'']) (root @ [''ca.key'']) ?crt ?key ?hosts = (Inr (), d3)"
      by (auto split: if_splits)
    then obtain ca k key c d4 where ne: "?hosts \<noteq> []" and leaf: "make_leaf X ca k key ?hosts = Inr c"
      and w: "write_pem d2 ?crt (cert_pem X c) = (True, d4)" "write_pem d4 ?key (key_pem X key) = (True, d3)"
      by (auto simp: issue_server_cert_def split: option.splits sum.splits prod.splits if_splits)
    obtain t where t: "x509_sign X t k = Some c" "(SubjectAltName, subject_alt_name X ?hosts) \<in> set (tbs_extensions t)"
      "tbs_not_after t = time_now X + kLeafLifetimeSeconds"
      using make_leaf_signs [OF leaf] by (metis list.set_intros)
    obtain s where s: "cert_pem X c = Some s" "fs_read d4 ?crt = Some s" using write_pem_success [OF w(1)] by blast
    obtain r where r: "fs_read d3 ?key = Some r" using write_pem_success [OF w(2)] by blast
    have "fs_read d3 ?crt = Some s" using touches_read [OF write_pem_touches [OF w(2)], of ?crt] s(2) by simp
    then have rd: "read_pem (pem_cert X) d3 ?crt = Some c" using assms(3) s(1) by (simp add: read_pem_def)
    moreover have "fs_exists d3 ?key" using r by (auto simp: fs_exists_def fs_read_def)
    ultimately show ?thesis using assms(4) [OF ne t] by (auto simp: server_cert_needs_reissue_def list_all_iff list_ex_iff)
  qed
  then show ?thesis using d3 hosts local_host_identities_set [of X] by (fastforce simp: list_all_iff)
qed

section \<open>Examples\<close>

definition quiet_env :: environment where
  "quiet_env = \<lparr>env_var = \<lambda>v. None, env_cwd = []\<rparr>"

definition still_os :: posix where
  "still_os = \<lparr>fork_first = 0, session_ok = True, fork_second = 0, own_pid = 7, null_opened = 3, log_opened = 3\<rparr>"

definition good_calls :: listen_calls where
  "good_calls = \<lparr>server_ctx_new = True, use_certificate = True, use_private_key = True, listen_socket = True, bind_ok = True, listen_ok = True\<rparr>"

definition process_on :: "disk \<Rightarrow> server_process" where
  "process_on d = \<lparr>sp_world = \<lparr>w_disk = d, w_pool = replicate 16 1, w_users = new_user_store [''users''], w_sessions = [], w_clock = 0, w_log = []\<rparr>,
     sp_con = \<lparr>con_env = None, con_tty = True, con_lines = [''longpass'', ''longpass'']\<rparr>, sp_out = []\<rparr>"

abbreviation busy_disk :: disk where
  "busy_disk \<equiv> put (empty_disk [[], [''r''], [''r'', ''tmp'']]) [''r'', ''tmp'', ''x.part''] ''half''"

lemma server_root: "path_join [] ''/r'' = [''r'']"
  by (simp add: path_join_def components_def)

definition userlist_arguments :: server_arguments where
  "userlist_arguments = (server_defaults quiet_env ''9000'')\<lparr>sa_root := ''/r'', sa_command := ''userlist''\<rparr>"

lemma userlist_parsed:
  "parse_server_arguments [''userlist'', ''--root'', ''/r''] (server_defaults quiet_env ''9000'') = Inr userlist_arguments"
  by (simp add: userlist_arguments_def set_server_option_def other_server_argument_def server_defaults_def)

lemma userlist_fields: "sa_command userlist_arguments = ''userlist''" "sa_root userlist_arguments = ''/r''"
  by (simp_all add: userlist_arguments_def)

lemma port_9000: "parse_size ''9000'' 65535 = Some 9000"
  by (simp add: parse_size_spec is_digit_def less_eq_char_def dec_value_def digit_val_def)

lemma busy_init: "fst (store_init busy_disk [''r'']) = None"
  by (simp add: store_init_def fs_mkdirs_def fs_simps store_users_def store_chunks_def store_tmp_def path_join_def components_def
      put_def empty_disk_def lookup_def)

lemma account_command_clears_uploads_witness:
  "fs_list busy_disk (store_tmp [''r'']) = [[''r'', ''tmp'', ''x.part'']] \<and>
   (\<exists>c p'. server_main mini_openssl example_x509 quiet_env still_os [] good_calls [] ''2025-01-31'' ''pcs-server''
       [''9000'', ''userlist'', ''--root'', ''/r''] (process_on busy_disk) = (Leaves c, p') \<and>
     fs_list (w_disk (sp_world p')) (store_tmp [''r'']) = [])"
proof
  show "fs_list busy_disk (store_tmp [''r'']) = [[''r'', ''tmp'', ''x.part'']]"
    by (simp add: fs_list_def put_def empty_disk_def store_tmp_def path_join_def components_def)
  let ?run = "server_main mini_openssl example_x509 quiet_env still_os [] good_calls [] ''2025-01-31'' ''pcs-server''
       [''9000'', ''userlist'', ''--root'', ''/r''] (process_on busy_disk)"
  have "\<exists>c p'. ?run = (Leaves c, p')"
    by (simp add: server_main_def port_9000 userlist_parsed userlist_fields Let_def del: parse_server_arguments.simps split: prod.split)
  then obtain c p' where run: "?run = (Leaves c, p')" by blast
  have "fs_list (w_disk (sp_world p')) (store_tmp [''r'']) = []"
    by (rule account_command_clears_uploads [OF run port_9000 _ userlist_parsed])
      (simp_all add: userlist_fields quiet_env_def server_root process_on_def busy_init fs_simps)
  with run show "\<exists>c p'. ?run = (Leaves c, p') \<and> fs_list (w_disk (sp_world p')) (store_tmp [''r'']) = []" by blast
qed

lemma useradd_then_login_witness:
  "\<exists>p' us. run_account_command mini_openssl ''2025-01-31'' ''useradd'' [''ann''] (process_on (empty_disk [[]])) = (0, p') \<and>
     fst (users_verify mini_openssl [] (w_disk (sp_world p')) us ''ann'' ''longpass'')"
proof -
  let ?p = "process_on (empty_disk [[]])"
  have typed: "typed (sp_con ?p) = ''longpass''" by (simp add: typed_def process_on_def strip_trailing_newline_def line_end_def)
  obtain us1 pool d where "users_add mini_openssl ''2025-01-31'' (replicate 16 1) (empty_disk [[]]) example_accounts ''ann'' ''longpass''
     = (None, us1, pool, d)" using example_add by blast
  moreover have "\<exists>p1. ask_new_password ?p = (Some ''longpass'', p1) \<and> sp_world p1 = sp_world ?p"
    by (simp add: ask_new_password_def read_hidden_line_def process_on_def strip_trailing_newline_def line_end_def)
  ultimately have "\<exists>p'. run_account_command mini_openssl ''2025-01-31'' ''useradd'' [''ann''] ?p = (0, p')"
    by (auto simp: run_account_command_def Let_def process_on_def)
  then obtain p' where run: "run_account_command mini_openssl ''2025-01-31'' ''useradd'' [''ann''] ?p = (0, p')" by blast
  define us where "us = (new_user_store [''users''])\<lparr>u_stamp := (case fs_mtime (w_disk (sp_world p')) [''users''] of None \<Rightarrow> 0 | Some t \<Rightarrow> t + 1)\<rparr>"
  have "fst (users_verify mini_openssl [] (w_disk (sp_world p')) us ''ann'' (typed (sp_con ?p)))"
    by (rule useradd_then_login [OF run mini_openssl_ok])
      (simp_all add: process_on_def new_user_store_def users_ok_def us_def split: option.split)
  with run typed show ?thesis by auto
qed

lemma serving_certificate_covers_witness:
  "\<exists>cfg p'. start_serving example_x509 quiet_env still_os [] good_calls [] 9000 []
      ((server_defaults quiet_env ''9000'')\<lparr>sa_token := ''tk'', sa_hosts := [''home.lan'']\<rparr>) (process_on (empty_disk [[]])) = (Serves cfg, p') \<and>
    (\<exists>cert. read_pem (pem_cert example_x509) (w_disk (sp_world p')) [''server.crt''] = Some cert \<and> covered example_x509 cert ''home.lan'')"
proof -
  let ?a = "(server_defaults quiet_env ''9000'')\<lparr>sa_token := ''tk'', sa_hosts := [''home.lan'']\<rparr>"
  let ?run = "start_serving example_x509 quiet_env still_os [] good_calls [] 9000 [] ?a (process_on (empty_disk [[]]))"
  have "set (server_hosts example_x509 (sa_hosts ?a)) \<noteq> {}" unfolding server_hosts_def sort_unique(3) by simp
  then have "server_hosts example_x509 (sa_hosts ?a) \<noteq> []" by auto
  then have "\<exists>cfg p'. ?run = (Serves cfg, p')"
    by (simp add: start_serving_def Let_def server_defaults_def process_on_def ensure_ca_def issue_server_cert_def read_pem_def write_pem_def
        generate_key_def make_ca_def make_leaf_def set_random_serial_def add_extension_def create_ok append_ok fs_simps good_calls_def listen_tls_def fs_exists_def example_x509_def)
  then obtain cfg p' where run: "?run = (Serves cfg, p')" by blast
  have "\<exists>cert. read_pem (pem_cert example_x509) (w_disk (sp_world p')) ([] @ [''server.crt'']) = Some cert \<and>
    list_all (covered example_x509 cert) ([''localhost'', ''127.0.0.1'', ''::1''] @ sa_hosts ?a) \<and>
    fs_exists (w_disk (sp_world p')) ([] @ [''server.key'']) \<and>
    \<not> server_cert_needs_reissue example_x509 (w_disk (sp_world p')) ([] @ [''server.crt'']) (server_hosts example_x509 (sa_hosts ?a)) 30"
    by (rule serving_certificate_covers [OF run])
      (auto simp: server_defaults_def example_x509_def covered_def list_all_iff looks_like_ip_def)
  with run show ?thesis by auto
qed

end
