(* ===== verification/Traffic.thy ===== *)
theory Traffic
  imports Serve
begin

text \<open>
  The server at work: the loop at the end of \<open>src/server/main.cpp\<close> that accepts connections, and the
  threads it starts. A thread runs \<open>Session::run\<close>; one step of it (\<open>conn_step\<close>) is a line and its
  handler, or a request and its. What all threads share is the record \<open>world\<close>. The relation \<open>traffic\<close>
  holds the histories of a server: any number of connections, their steps in any order, time passing,
  and other programs that change the disk but not the stored files.
\<close>

section \<open>One step of a thread\<close>

record talk =
  tk_chan :: channel
  tk_user :: string
  tk_logged_in :: bool
  tk_trusted :: bool

text \<open>A connection before its first line, after a line of the program's protocol, at a request line, at its end.\<close>

datatype connection = Waiting channel | Talking talk | Browsing string channel | Closed channel

definition talk_session :: "talk \<Rightarrow> world \<Rightarrow> session" where
  "talk_session t w =
     \<lparr>s_chan = tk_chan t, s_world = w, s_user = tk_user t, s_logged_in = tk_logged_in t, s_trusted = tk_trusted t\<rparr>"

definition talk_of :: "session \<Rightarrow> talk" where
  "talk_of s = \<lparr>tk_chan = s_chan s, tk_user = s_user s, tk_logged_in = s_logged_in s, tk_trusted = s_trusted s\<rparr>"

definition talk_turn :: "'x openssl \<Rightarrow> config \<Rightarrow> string \<Rightarrow> session \<Rightarrow> connection \<times> world" where
  "talk_turn E cfg line s =
     (case handle E cfg line s of (ok, s) \<Rightarrow> (if ok then Talking (talk_of s) else Closed (s_chan s), s_world s))"

definition web_turn :: "'x openssl \<Rightarrow> config \<Rightarrow> string \<Rightarrow> channel \<Rightarrow> world \<Rightarrow> connection \<times> world" where
  "web_turn E cfg line c w =
     (case read_request c line of
        (Inl _, c) \<Rightarrow> (Closed c, w)
      | (Inr rq, c) \<Rightarrow>
      case web_handle E (cfg_root cfg) (cfg_page cfg) c w rq of (ok, c, w) \<Rightarrow>
      if \<not> ok then (Closed c, w)
      else case ch_read_line c of
        (None, c) \<Rightarrow> (Closed c, w)
      | (Some line, c) \<Rightarrow> (if \<not> looks_like_http line then Closed c else Browsing line c, w))"

fun conn_step :: "'x openssl \<Rightarrow> config \<Rightarrow> connection \<Rightarrow> world \<Rightarrow> connection \<times> world" where
  "conn_step E cfg (Waiting c) w =
     (case ch_read_line c of
        (None, c) \<Rightarrow> (Closed c, w)
      | (Some line, c) \<Rightarrow>
          if looks_like_http line then (Browsing line c, w) else talk_turn E cfg line (new_session c w))"
| "conn_step E cfg (Talking t) w =
     (case ch_read_line (tk_chan t) of
        (None, c) \<Rightarrow> (Closed c, w)
      | (Some line, c) \<Rightarrow> talk_turn E cfg line (talk_session (t\<lparr>tk_chan := c\<rparr>) w))"
| "conn_step E cfg (Browsing line c) w = web_turn E cfg line c w"
| "conn_step E cfg (Closed c) w = (Closed c, w)"

section \<open>The server\<close>

record server =
  sv_world :: world
  sv_conns :: "connection list"

abbreviation sv_disk :: "server \<Rightarrow> disk" where "sv_disk s \<equiv> w_disk (sv_world s)"

text \<open>No browser session outlives the process.\<close>

definition server_start :: "world \<Rightarrow> server" where
  "server_start w = \<lparr>sv_world = w\<lparr>w_sessions := []\<rparr>, sv_conns = []\<rparr>"

definition leaves_files :: "store \<Rightarrow> disk \<Rightarrow> disk \<Rightarrow> bool" where
  "leaves_files root d d' \<longleftrightarrow>
     (\<forall>u n. stored d' root u n = stored d root u n) \<and> (\<forall>i. stored_chunk d' root i = stored_chunk d root i)"

inductive serves :: "'x openssl \<Rightarrow> config \<Rightarrow> server \<Rightarrow> server \<Rightarrow> bool" for E cfg where
  accepted: "fst (listener_accept A) \<Longrightarrow> serves E cfg s (s\<lparr>sv_conns := sv_conns s @ [Waiting c]\<rparr>)"
| refused: "\<not> fst (listener_accept A) \<Longrightarrow> serves E cfg s s"
| stepped: "i < length (sv_conns s) \<Longrightarrow> conn_step E cfg (sv_conns s ! i) (sv_world s) = (k, w) \<Longrightarrow>
    serves E cfg s \<lparr>sv_world = w, sv_conns = (sv_conns s)[i := k]\<rparr>"
| passed: "w_clock (sv_world s) \<le> t \<Longrightarrow> serves E cfg s (s\<lparr>sv_world := (sv_world s)\<lparr>w_clock := t\<rparr>\<rparr>)"
| elsewhere: "leaves_files (cfg_root cfg) (sv_disk s) d \<Longrightarrow> serves E cfg s (s\<lparr>sv_world := (sv_world s)\<lparr>w_disk := d\<rparr>\<rparr>)"

text \<open>Histories, the latest state first.\<close>

inductive traffic :: "'x openssl \<Rightarrow> config \<Rightarrow> world \<Rightarrow> server list \<Rightarrow> bool" for E cfg w where
  start: "traffic E cfg w [server_start w]"
| serve: "traffic E cfg w (s # tr) \<Longrightarrow> serves E cfg s s' \<Longrightarrow> traffic E cfg w (s' # s # tr)"

inductive_cases traffic_stepE: "traffic E cfg w (s' # s # tr)"
inductive_cases servesE: "serves E cfg s s'"

section \<open>Steps are the code\<close>

lemma talk_session_of: "talk_session (talk_of s) (s_world s) = s"
  by (simp add: talk_session_def talk_of_def)

lemma talk_session_chan: "talk_session (t\<lparr>tk_chan := c\<rparr>) w = (talk_session t w)\<lparr>s_chan := c\<rparr>"
  by (simp add: talk_session_def)

definition alone :: "'x openssl \<Rightarrow> config \<Rightarrow> connection \<times> world \<Rightarrow> connection \<times> world" where
  "alone E cfg x = conn_step E cfg (fst x) (snd x)"

lemma talk_runs:
  "\<exists>n. (alone E cfg ^^ n) (Talking (talk_of s), s_world s) =
     (Closed (s_chan (session_loop E cfg s)), s_world (session_loop E cfg s))"
proof (induction E cfg s rule: session_loop.induct)
  case (1 E cfg s)
  obtain r c where r: "ch_read_line (s_chan s) = (r, c)" by fastforce
  have chan: "tk_chan (talk_of s) = s_chan s" by (simp add: talk_of_def)
  show ?case
  proof (cases r)
    case None
    have "(alone E cfg ^^ 1) (Talking (talk_of s), s_world s) = (Closed c, s_world s)"
      using r None by (simp add: alone_def chan)
    with r None show ?thesis by (subst (1 2) session_loop.simps) (intro exI [of _ 1], simp)
  next
    case (Some line)
    obtain ok s' where h: "handle E cfg line (s\<lparr>s_chan := c\<rparr>) = (ok, s')" by fastforce
    have one: "alone E cfg (Talking (talk_of s), s_world s) = (if ok then Talking (talk_of s') else Closed (s_chan s'), s_world s')"
      using r Some h by (simp add: alone_def chan talk_turn_def talk_session_chan talk_session_of)
    show ?thesis
    proof (cases ok)
      case True
      from "1.IH" [OF r [symmetric] Some h [symmetric] True] obtain n where
        "(alone E cfg ^^ n) (Talking (talk_of s'), s_world s') = (Closed (s_chan (session_loop E cfg s')), s_world (session_loop E cfg s'))"
        by blast
      then have "(alone E cfg ^^ Suc n) (Talking (talk_of s), s_world s) =
          (Closed (s_chan (session_loop E cfg s')), s_world (session_loop E cfg s'))"
        using one True by (simp add: funpow_swap1)
      moreover have "session_loop E cfg s = session_loop E cfg s'"
        using r Some h True by (subst session_loop.simps) simp
      ultimately show ?thesis by metis
    next
      case False
      have "session_loop E cfg s = s'" using r Some h False by (subst session_loop.simps) simp
      with one False show ?thesis by (intro exI [of _ 1]) simp
    qed
  qed
qed

lemma web_runs:
  "\<exists>n. (alone E cfg ^^ n) (Browsing line c, w) =
     (Closed (fst (run_http E cfg line c w)), snd (run_http E cfg line c w))"
proof (induction E cfg line c w rule: run_http.induct)
  case (1 E cfg line c w)
  obtain r c1 where r: "read_request c line = (r, c1)" by fastforce
  show ?case
  proof (cases r)
    case (Inl e)
    with r show ?thesis
      by (subst (1 2) run_http.simps) (intro exI [of _ 1], simp add: alone_def web_turn_def)
  next
    case (Inr rq)
    obtain ok c2 w2 where h: "web_handle E (cfg_root cfg) (cfg_page cfg) c1 w rq = (ok, c2, w2)" by (rule prod_cases3)
    obtain l c3 where l: "ch_read_line c2 = (l, c3)" by fastforce
    show ?thesis
    proof (cases "ok \<and> l \<noteq> None \<and> looks_like_http (the l)")
      case True
      then obtain next_line where n: "l = Some next_line" by auto
      have one: "alone E cfg (Browsing line c, w) = (Browsing next_line c3, w2)"
        using r Inr h l True n by (simp add: alone_def web_turn_def)
      have same: "run_http E cfg line c w = run_http E cfg next_line c3 w2"
        using r Inr h l True n by (subst run_http.simps) simp
      from "1.IH" [OF r [symmetric] Inr h [symmetric] refl _ l [symmetric] n] True n obtain k where
        "(alone E cfg ^^ k) (Browsing next_line c3, w2) =
           (Closed (fst (run_http E cfg next_line c3 w2)), snd (run_http E cfg next_line c3 w2))" by auto
      then have "(alone E cfg ^^ Suc k) (Browsing line c, w) =
           (Closed (fst (run_http E cfg next_line c3 w2)), snd (run_http E cfg next_line c3 w2))"
        using one by (simp add: funpow_swap1)
      with same show ?thesis by metis
    next
      case False
      with r Inr h l show ?thesis
        by (subst (1 2) run_http.simps) (intro exI [of _ 1], auto simp: alone_def web_turn_def split: option.splits)
    qed
  qed
qed


section \<open>Who speaks\<close>

text \<open>A connection that is about to present a password that verifies, or the token.\<close>

definition verifies_in :: "'x openssl \<Rightarrow> world \<Rightarrow> string \<Rightarrow> string \<Rightarrow> bool" where
  "verifies_in E w u pw \<longleftrightarrow> fst (users_verify E (w_pool w) (w_disk w) (w_users w) u pw)"

definition next_line_is :: "channel \<Rightarrow> string list \<Rightarrow> bool" where
  "next_line_is c f \<longleftrightarrow> (\<exists>line c'. ch_read_line c = (Some line, c') \<and> split line = f)"

definition posts_login :: "string \<Rightarrow> channel \<Rightarrow> string \<Rightarrow> string \<Rightarrow> bool" where
  "posts_login line c u pw \<longleftrightarrow>
     (\<exists>rq c1 body c2. read_request c line = (Inr rq, c1) \<and> rq_method rq = ''POST'' \<and> rq_path rq = ''/api/login'' \<and>
        ch_recv c1 (unat (rq_content_length rq)) = (Some body, c2) \<and>
        json_field body ''user'' = Some u \<and> json_field body ''password'' = Some pw)"

fun presents :: "'x openssl \<Rightarrow> connection \<Rightarrow> world \<Rightarrow> string \<Rightarrow> bool" where
  "presents E (Waiting c) w u \<longleftrightarrow> (\<exists>pw. next_line_is c [kLogin, u, pw] \<and> verifies_in E w u pw)"
| "presents E (Talking t) w u \<longleftrightarrow> (\<exists>pw. next_line_is (tk_chan t) [kLogin, u, pw] \<and> verifies_in E w u pw)"
| "presents E (Browsing line c) w u \<longleftrightarrow> (\<exists>pw. posts_login line c u pw \<and> verifies_in E w u pw)"
| "presents E (Closed c) w u \<longleftrightarrow> False"

fun presents_token :: "config \<Rightarrow> connection \<Rightarrow> bool" where
  "presents_token cfg (Waiting c) \<longleftrightarrow> next_line_is c [kAuth, cfg_token cfg]"
| "presents_token cfg (Talking t) \<longleftrightarrow> next_line_is (tk_chan t) [kAuth, cfg_token cfg]"
| "presents_token cfg _ \<longleftrightarrow> False"

fun speaks_for :: "connection \<Rightarrow> string \<Rightarrow> bool" where
  "speaks_for (Talking t) u \<longleftrightarrow> tk_logged_in t \<and> tk_user t = u"
| "speaks_for _ u \<longleftrightarrow> False"

fun trusted_conn :: "connection \<Rightarrow> bool" where
  "trusted_conn (Talking t) \<longleftrightarrow> tk_trusted t"
| "trusted_conn _ \<longleftrightarrow> False"

definition session_users :: "world \<Rightarrow> string set" where
  "session_users w = (\<lambda>(t, e). be_user e) ` set (w_sessions w)"

section \<open>Browser sessions\<close>

lemma session_users_simps [simp]:
  "session_users (log_line l w) = session_users w" "session_users (w\<lparr>w_disk := d\<rparr>) = session_users w"
  "session_users (w\<lparr>w_pool := p\<rparr>) = session_users w" "session_users (w\<lparr>w_users := us\<rparr>) = session_users w"
  "session_users (w\<lparr>w_clock := t\<rparr>) = session_users w"
  by (simp_all add: session_users_def)

lemma expire_users: "session_users (expire_locked w) \<subseteq> session_users w"
  by (auto simp: session_users_def expire_locked_def)

lemma create_users:
  assumes "sessions_create w u = (t, w')"
  shows "session_users w' \<subseteq> insert u (session_users w)"
proof -
  obtain bs pool where r: "random_bytes 32 (w_pool w) = (bs, pool)" by fastforce
  let ?x = "expire_locked (w\<lparr>w_pool := pool\<rparr>)"
  let ?e = "\<lparr>be_user = u, be_expires = w_clock ?x + 60 * kSessionMinutes\<rparr>"
  have "w_sessions w' = AList.update (to_hex bs) ?e (w_sessions ?x)"
    using assms r by (auto simp: sessions_create_def Let_def)
  then have "session_users w' \<subseteq> insert u (session_users ?x)"
    using update_subset [of "to_hex bs" ?e "w_sessions ?x"] by (force simp: session_users_def)
  also have "\<dots> \<subseteq> insert u (session_users w)"
    using expire_users [of "w\<lparr>w_pool := pool\<rparr>"] by auto
  finally show ?thesis .
qed

lemma lookup_users:
  "sessions_lookup w t = (r, w') \<Longrightarrow> session_users w' \<subseteq> session_users w \<and> (r = Some u \<longrightarrow> u \<in> session_users w)"
  using expire_users [of w]
  by (force simp: sessions_lookup_def Let_def session_users_def split: if_splits dest: map_of_SomeD)

lemma authenticate_users:
  "authenticate w rq = (r, w') \<Longrightarrow> session_users w' \<subseteq> session_users w \<and> (r = Some u \<longrightarrow> u \<in> session_users w)"
  using lookup_users by (auto simp: authenticate_def Let_def split: if_splits)

lemma destroy_users: "session_users (sessions_destroy w t) \<subseteq> session_users w"
  by (auto simp: sessions_destroy_def session_users_def AList.delete_eq)

lemma serve_login_users:
  assumes "serve_login E root c w rq = (ok, c', w')" and "u \<in> session_users w'" and "u \<notin> session_users w"
  shows "\<exists>body c1 pw. ch_recv c (unat (rq_content_length rq)) = (Some body, c1) \<and>
    json_field body ''user'' = Some u \<and> json_field body ''password'' = Some pw \<and> verifies_in E w u pw"
proof -
  have new: "session_users w' \<noteq> session_users w" using assms(2,3) by blast
  have small: "\<not> rq_content_length rq > of_nat kMaxLineLen"
    using assms(1) new by (auto simp: serve_login_def dest!: respond_world split: prod.splits)
  have recv: "(if rq_content_length rq > 0 then ch_recv c (unat (rq_content_length rq)) else (Some [], c)) =
      ch_recv c (unat (rq_content_length rq))"
    by (auto simp: ch_recv_def recv_loop.simps word_gt_0)
  obtain r c1 where r: "ch_recv c (unat (rq_content_length rq)) = (r, c1)" by fastforce
  note run = assms(1) [unfolded serve_login_def, unfolded recv, unfolded r prod.case, simplified small if_False]
  obtain body where body: "r = Some body" using run new by (cases r) auto
  obtain v pw where f: "json_field body ''user'' = Some v" "json_field body ''password'' = Some pw"
    using run new body by (auto dest!: respond_world split: option.splits)
  obtain good pool us where v: "users_verify E (w_pool w) (w_disk w) (w_users w) v pw = (good, pool, us)" by (rule prod_cases3)
  have good: good using run new body f v by (auto simp: Let_def dest!: respond_world)
  let ?w = "w\<lparr>w_pool := pool, w_users := us\<rparr>"
  obtain e d where d: "ensure_account (w_disk ?w) root v = (e, d)" by fastforce
  have e: "e = None" using run new body f v good d by (auto simp: Let_def dest!: respond_world split: if_splits)
  obtain t w2 where t: "sessions_create (?w\<lparr>w_disk := d\<rparr>) v = (t, w2)" by fastforce
  have "session_users w' = session_users w2"
    using run body f v good d e t by (auto simp: Let_def dest!: respond_world)
  with create_users [OF t] assms(2,3) have "u = v" by auto
  with r body f v good show ?thesis by (simp add: verifies_in_def)
qed

lemma serve_routes_users: "web_routes root c w rq user = (ok, c', w') \<Longrightarrow> session_users w' = session_users w"
  by (auto simp: web_routes_def serve_list_def serve_get_file_def serve_put_file_def serve_delete_file_def
      no_such_route_def Let_def dest!: respond_world split: if_splits option.splits prod.splits)

lemma web_handle_users:
  assumes "web_handle E root page c w rq = (ok, c', w')" and "u \<in> session_users w'" and "u \<notin> session_users w"
  shows "rq_method rq = ''POST'' \<and> rq_path rq = ''/api/login'' \<and> serve_login E root c w rq = (ok, c', w')"
  using assms destroy_users [of w "drop (length kBearer) (request_header rq ''authorization'')"] authenticate_users [of w rq]
  by (fastforce simp: web_handle_def serve_page_def serve_logout_def Let_def
      dest!: respond_world serve_routes_users split: if_splits option.splits prod.splits)

lemma handle_sessions:
  assumes "handle E cfg line s = (ok, s')"
  shows "w_sessions (s_world s') = w_sessions (s_world s)"
  using assms by (auto simp: handle_def command_defs fail_def say_def server_log_def with_disk_def log_line_def Let_def
      split: if_splits option.splits prod.splits)

lemma web_handle_chunks:
  assumes "web_handle E root page c w rq = (ok, c', w')"
  shows "stored_chunk (w_disk w') root i = stored_chunk (w_disk w) root i"
proof -
  obtain r w1 where a: "authenticate w rq = (r, w1)" by fastforce
  have d1: "w_disk w1 = w_disk w" using authenticate_disk [OF a] .
  have quiet: "stored_chunk (w_disk w') root i = stored_chunk (w_disk w) root i"
    if "serve_login E root c w rq = (ok, c', w') \<or> serve_logout c w rq = (ok, c', w') \<or> serve_page page c w = (ok, c', w') \<or> w' = w1"
    using that touches_empty_chunk [OF serve_login_disk] serve_logout_disk serve_others_world d1 by metis
  have routed: "stored_chunk (w_disk w') root i = stored_chunk (w_disk v) root i"
    if "web_routes root c v rq u = (ok, c', w')" for u v
    using own_chunks web_routes_effect [OF that] by blast
  show ?thesis
    using assms a quiet routed [of w "[]"] routed [of w1 "the r"] d1
    by (auto simp: web_handle_def dest!: respond_world split: if_splits option.splits prod.splits)
qed

section \<open>What a step does\<close>

lemma talk_turn_effect:
  assumes "talk_turn E cfg line s = (k, w)"
  shows "speaks_for k u \<Longrightarrow> s_logged_in s \<and> s_user s = u \<or> (\<exists>pw. split line = [kLogin, u, pw] \<and> verifies_in E (s_world s) u pw)"
    and "trusted_conn k \<Longrightarrow> s_trusted s \<or> split line = [kAuth, cfg_token cfg]"
    and "session_users w = session_users (s_world s)"
    and "stored (w_disk w) (cfg_root cfg) v m \<noteq> stored (s_disk s) (cfg_root cfg) v m \<Longrightarrow> s_logged_in s \<and> s_user s = v"
    and "stored_chunk (w_disk w) (cfg_root cfg) i \<noteq> stored_chunk (s_disk s) (cfg_root cfg) i \<Longrightarrow> s_trusted s"
proof -
  obtain ok s' where h: "handle E cfg line s = (ok, s')" by fastforce
  have k: "k = (if ok then Talking (talk_of s') else Closed (s_chan s'))" "w = s_world s'"
    using assms h by (auto simp: talk_turn_def)
  note i = handle_identity [OF h]
  show "s_logged_in s \<and> s_user s = u \<or> (\<exists>pw. split line = [kLogin, u, pw] \<and> verifies_in E (s_world s) u pw)" if "speaks_for k u"
    using that i k by (auto simp: talk_of_def verifies_def verifies_in_def split: if_splits)
  show "s_trusted s \<or> split line = [kAuth, cfg_token cfg]" if "trusted_conn k"
    using that i k by (auto simp: talk_of_def split: if_splits)
  show "session_users w = session_users (s_world s)"
    using handle_sessions [OF h] k by (simp add: session_users_def)
  show "s_logged_in s \<and> s_user s = v" if "stored (w_disk w) (cfg_root cfg) v m \<noteq> stored (s_disk s) (cfg_root cfg) v m"
    using handle_changes [OF h, of v m] that k by auto
  show "s_trusted s" if "stored_chunk (w_disk w) (cfg_root cfg) i \<noteq> stored_chunk (s_disk s) (cfg_root cfg) i"
    using handle_changes [OF h, of v m i] that k by auto
qed

lemma web_turn_effect:
  assumes "web_turn E cfg line c w = (k, w')"
  shows "\<not> speaks_for k u" and "\<not> trusted_conn k"
    and "u \<in> session_users w' \<Longrightarrow> u \<in> session_users w \<or> presents E (Browsing line c) w u"
    and "stored (w_disk w') (cfg_root cfg) v m \<noteq> stored (w_disk w) (cfg_root cfg) v m \<Longrightarrow> v \<in> session_users w"
    and "stored_chunk (w_disk w') (cfg_root cfg) i = stored_chunk (w_disk w) (cfg_root cfg) i"
proof -
  obtain r c1 where r: "read_request c line = (r, c1)" by fastforce
  show "\<not> speaks_for k u" "\<not> trusted_conn k"
    using assms by (auto simp: web_turn_def split: sum.splits prod.splits if_splits option.splits)
  consider (same) "w' = w" | (handled) rq ok c2 where "r = Inr rq" "web_handle E (cfg_root cfg) (cfg_page cfg) c1 w rq = (ok, c2, w')"
    using assms r by (auto simp: web_turn_def split: sum.splits prod.splits if_splits option.splits)
  then have "(u \<in> session_users w' \<longrightarrow> u \<in> session_users w \<or> (\<exists>pw. posts_login line c u pw \<and> verifies_in E w u pw)) \<and>
      (stored (w_disk w') (cfg_root cfg) v m \<noteq> stored (w_disk w) (cfg_root cfg) v m \<longrightarrow> v \<in> session_users w) \<and>
      stored_chunk (w_disk w') (cfg_root cfg) i = stored_chunk (w_disk w) (cfg_root cfg) i"
  proof cases
    case handled
    have "\<exists>pw. posts_login line c u pw \<and> verifies_in E w u pw" if "u \<in> session_users w'" "u \<notin> session_users w"
      using serve_login_users [OF _ that] web_handle_users [OF handled(2) that] r handled(1) unfolding posts_login_def by blast
    moreover have "v \<in> session_users w" if "stored (w_disk w') (cfg_root cfg) v m \<noteq> stored (w_disk w) (cfg_root cfg) v m"
      using web_changes_by_owner [OF handled(2) that] authenticate_users [of w rq "Some v" _ v] by (metis prod.collapse)
    ultimately show ?thesis using web_handle_chunks [OF handled(2)] by blast
  qed simp
  then show "u \<in> session_users w' \<Longrightarrow> u \<in> session_users w \<or> presents E (Browsing line c) w u"
    "stored (w_disk w') (cfg_root cfg) v m \<noteq> stored (w_disk w) (cfg_root cfg) v m \<Longrightarrow> v \<in> session_users w"
    "stored_chunk (w_disk w') (cfg_root cfg) i = stored_chunk (w_disk w) (cfg_root cfg) i"
    by auto
qed

lemma conn_step_effect:
  assumes "conn_step E cfg k w = (k', w')"
  shows "speaks_for k' u \<Longrightarrow> speaks_for k u \<or> presents E k w u"
    and "trusted_conn k' \<Longrightarrow> trusted_conn k \<or> presents_token cfg k"
    and "u \<in> session_users w' \<Longrightarrow> u \<in> session_users w \<or> presents E k w u"
    and "stored (w_disk w') (cfg_root cfg) v m \<noteq> stored (w_disk w) (cfg_root cfg) v m \<Longrightarrow> speaks_for k v \<or> v \<in> session_users w"
    and "stored_chunk (w_disk w') (cfg_root cfg) i \<noteq> stored_chunk (w_disk w) (cfg_root cfg) i \<Longrightarrow> trusted_conn k"
proof -
  have talk: "(speaks_for k' u \<longrightarrow> s_logged_in s \<and> s_user s = u \<or> (\<exists>pw. split line = [kLogin, u, pw] \<and> verifies_in E w u pw)) \<and>
      (trusted_conn k' \<longrightarrow> s_trusted s \<or> split line = [kAuth, cfg_token cfg]) \<and> session_users w' = session_users w \<and>
      (stored (w_disk w') (cfg_root cfg) v m \<noteq> stored (w_disk w) (cfg_root cfg) v m \<longrightarrow> s_logged_in s \<and> s_user s = v) \<and>
      (stored_chunk (w_disk w') (cfg_root cfg) i \<noteq> stored_chunk (w_disk w) (cfg_root cfg) i \<longrightarrow> s_trusted s)"
    if "talk_turn E cfg line s = (k', w')" "s_world s = w" for line s
    using talk_turn_effect [OF that(1), unfolded that(2)] by blast
  have "(speaks_for k' u \<longrightarrow> speaks_for k u \<or> presents E k w u) \<and> (trusted_conn k' \<longrightarrow> trusted_conn k \<or> presents_token cfg k) \<and>
      (u \<in> session_users w' \<longrightarrow> u \<in> session_users w \<or> presents E k w u) \<and>
      (stored (w_disk w') (cfg_root cfg) v m \<noteq> stored (w_disk w) (cfg_root cfg) v m \<longrightarrow> speaks_for k v \<or> v \<in> session_users w) \<and>
      (stored_chunk (w_disk w') (cfg_root cfg) i \<noteq> stored_chunk (w_disk w) (cfg_root cfg) i \<longrightarrow> trusted_conn k)"
  proof (cases k)
    case (Waiting c)
    obtain r c1 where r: "ch_read_line c = (r, c1)" by fastforce
    show ?thesis
      using assms Waiting r talk [of _ "new_session c1 w"]
      by (auto simp: new_session_def next_line_is_def split: option.splits if_splits)
  next
    case (Talking t)
    obtain r c1 where r: "ch_read_line (tk_chan t) = (r, c1)" by fastforce
    show ?thesis
      using assms Talking r talk [of _ "talk_session (t\<lparr>tk_chan := c1\<rparr>) w"]
      by (auto simp: talk_session_def next_line_is_def split: option.splits)
  next
    case (Browsing line c)
    with assms have t: "web_turn E cfg line c w = (k', w')" by simp
    show ?thesis using web_turn_effect [OF t] Browsing by auto
  qed (use assms in auto)
  then show "speaks_for k' u \<Longrightarrow> speaks_for k u \<or> presents E k w u"
    "trusted_conn k' \<Longrightarrow> trusted_conn k \<or> presents_token cfg k"
    "u \<in> session_users w' \<Longrightarrow> u \<in> session_users w \<or> presents E k w u"
    "stored (w_disk w') (cfg_root cfg) v m \<noteq> stored (w_disk w) (cfg_root cfg) v m \<Longrightarrow> speaks_for k v \<or> v \<in> session_users w"
    "stored_chunk (w_disk w') (cfg_root cfg) i \<noteq> stored_chunk (w_disk w) (cfg_root cfg) i \<Longrightarrow> trusted_conn k"
    by blast+
qed

section \<open>Invariants of a server at work\<close>

definition seen :: "(connection \<Rightarrow> world \<Rightarrow> bool) \<Rightarrow> server list \<Rightarrow> bool" where
  "seen P tr \<longleftrightarrow> (\<exists>t\<in>set tr. \<exists>k\<in>set (sv_conns t). P k (sv_world t))"

lemma seen_Cons: "seen P (s # tr) \<longleftrightarrow> (\<exists>k\<in>set (sv_conns s). P k (sv_world s)) \<or> seen P tr"
  by (auto simp: seen_def)

text \<open>Whoever may act has shown a password, or the token, at some time before.\<close>

definition vouched :: "'x openssl \<Rightarrow> config \<Rightarrow> server list \<Rightarrow> server \<Rightarrow> bool" where
  "vouched E cfg tr s \<longleftrightarrow>
     (\<forall>k\<in>set (sv_conns s). \<forall>u. speaks_for k u \<longrightarrow> seen (\<lambda>k w. presents E k w u) tr) \<and>
     (\<forall>k\<in>set (sv_conns s). trusted_conn k \<longrightarrow> seen (\<lambda>k w. presents_token cfg k) tr) \<and>
     (\<forall>u\<in>session_users (sv_world s). seen (\<lambda>k w. presents E k w u) tr)"

lemma serves_vouched:
  assumes "serves E cfg s s'" and "vouched E cfg tr s"
  shows "vouched E cfg (s # tr) s'"
  using assms(1)
proof (cases rule: serves.cases)
  case (stepped i k w)
  then have i: "sv_conns s ! i \<in> set (sv_conns s)" by simp
  note e = conn_step_effect [OF stepped(3)]
  have new: "x \<in> set (sv_conns s') \<Longrightarrow> x = k \<or> x \<in> set (sv_conns s)" for x
    using stepped(1) by (auto dest: set_mp [OF set_update_subset_insert])
  show ?thesis
    unfolding vouched_def seen_Cons
  proof (intro conjI ballI allI impI)
    fix x u assume "x \<in> set (sv_conns s')" and sp: "speaks_for x u"
    from new [OF this(1)] show "(\<exists>k\<in>set (sv_conns s). presents E k (sv_world s) u) \<or> seen (\<lambda>k w. presents E k w u) tr"
      using e(1) [of u] sp i assms(2) by (auto simp: vouched_def)
  next
    fix x assume "x \<in> set (sv_conns s')" and sp: "trusted_conn x"
    from new [OF this(1)] show "(\<exists>k\<in>set (sv_conns s). presents_token cfg k) \<or> seen (\<lambda>k w. presents_token cfg k) tr"
      using e(2) sp i assms(2) by (auto simp: vouched_def)
  next
    fix u assume "u \<in> session_users (sv_world s')"
    then show "(\<exists>k\<in>set (sv_conns s). presents E k (sv_world s) u) \<or> seen (\<lambda>k w. presents E k w u) tr"
      using e(3) [of u] i assms(2) stepped(1) by (auto simp: vouched_def)
  qed
qed (use assms(2) in \<open>auto simp: vouched_def seen_Cons\<close>)

lemma traffic_vouched: "traffic E cfg w tr \<Longrightarrow> vouched E cfg (tl tr) (hd tr)"
proof (induction rule: traffic.induct)
  case start
  then show ?case by (simp add: vouched_def server_start_def session_users_def)
next
  case (serve s tr s')
  with serves_vouched show ?case by fastforce
qed

text \<open>C2: However many connections a server handles, in whatever order their steps come, a stored file of an
  account changes only after a connection has presented the password of that account, by LOGIN or at
  /api/login, and a chunk only after one has presented the token.\<close>

theorem files_change_by_password:
  assumes "traffic E cfg w (s' # s # tr)"
  shows "(stored (sv_disk s') (cfg_root cfg) v m \<noteq> stored (sv_disk s) (cfg_root cfg) v m \<longrightarrow>
      (\<exists>t\<in>set (s # tr). \<exists>k\<in>set (sv_conns t). presents E k (sv_world t) v)) \<and>
    (stored_chunk (sv_disk s') (cfg_root cfg) i \<noteq> stored_chunk (sv_disk s) (cfg_root cfg) i \<longrightarrow>
      (\<exists>t\<in>set (s # tr). \<exists>k\<in>set (sv_conns t). presents_token cfg k))"
proof -
  from assms have t: "traffic E cfg w (s # tr)" and step: "serves E cfg s s'" by (auto elim: traffic_stepE)
  from traffic_vouched [OF t] have v: "vouched E cfg tr s" by simp
  from step show ?thesis
  proof (cases rule: serves.cases)
    case (stepped j k w)
    then have j: "sv_conns s ! j \<in> set (sv_conns s)" by simp
    from conn_step_effect(4,5) [OF stepped(3)] j v stepped(1) show ?thesis
      by (simp add: vouched_def seen_def) blast
  qed (auto simp: leaves_files_def)
qed

lemma sessions_rest_on_passwords:
  assumes "traffic E cfg w (s # tr)" and "fst (sessions_lookup (sv_world s) tok) = Some u"
  shows "\<exists>t\<in>set tr. \<exists>k\<in>set (sv_conns t). presents E k (sv_world t) u"
proof -
  have "u \<in> session_users (sv_world s)"
    using lookup_users [of "sv_world s" tok "Some u" _ u] assms(2) by (metis prod.collapse)
  with traffic_vouched [OF assms(1)] show ?thesis by (simp add: vouched_def seen_def)
qed

section \<open>Examples\<close>

lemma example_verifier: "\<exists>v. v \<noteq> [] \<and> verify_password mini_openssl ''longpass'' v"
proof -
  obtain v pool where h: "hash_password mini_openssl (replicate 16 1) ''longpass'' kPasswordIterations = (v, pool)" "v \<noteq> []"
    by (simp add: hash_password_def random_bytes_def kSaltLen_def Let_def stretch_def derive_key_def
        mini_openssl_def kKeyLen_def kHashLen_def)
  from verify_stretch [OF mini_openssl_ok h] h(2) show ?thesis by (auto simp: kPasswordIterations_def)
qed

definition ann_world :: "string \<Rightarrow> world" where
  "ann_world v = example_world\<lparr>w_users := (new_user_store [''srv'', ''users.txt''])\<lparr>u_verifiers := [(''ann'', v)]\<rparr>\<rparr>"

lemma ann_world_simps [simp]:
  "w_disk (ann_world v) = example_store" "w_sessions (ann_world v) = []"
  "ann_world v\<lparr>w_sessions := []\<rparr> = ann_world v" "w_pool (ann_world v) = replicate 64 7"
  by (simp_all add: ann_world_def example_world_def)

lemma ann_verifies:
  assumes "v \<noteq> []" and "verify_password mini_openssl ''longpass'' v"
  shows "users_verify mini_openssl (w_pool (ann_world v)) (w_disk (ann_world v)) (w_users (ann_world v)) ''ann'' ''longpass'' =
    (True, w_pool (ann_world v), w_users (ann_world v))"
  using assms by (simp add: users_verify_def reload_if_changed_def fs_mtime_def ann_world_def example_world_def
      example_store_def put_def empty_disk_def lookup_def new_user_store_def Let_def)

abbreviation ann_lines :: string where
  "ann_lines \<equiv> ''LOGIN ann longpass'' @ newline # ''DELFILE notes'' @ [newline]"

lemma read_login:
  "ch_read_line (example_channel ann_lines []) = (Some ''LOGIN ann longpass'', example_channel (''DELFILE notes'' @ [newline]) [])"
  by (simp add: ch_read_line_def read_line_loop.simps ssl_read_def example_channel_def kMaxLineLen_def)

lemma login_words: "split ''LOGIN ann longpass'' = [''LOGIN'', ''ann'', ''longpass'']"
  by code_simp

lemma ann_account: "\<exists>d. ensure_account example_store example_root ''ann'' = (None, d) \<and> faults d = []"
  by (simp add: ensure_account_def account_dir_eq example_names fs_mkdirs_def pop_fault_def example_store_def put_def
      empty_disk_def lookup_def)

lemma say_ok:
  "s_chan s = example_channel i [] \<Longrightarrow> say kOk s = s\<lparr>s_chan := (example_channel i [])\<lparr>outp := kOk @ [newline], write_script := []\<rparr>\<rparr>"
  by (simp add: say_def ch_send_line_def ch_send.simps ssl_write_def kInt32Max_def kOk_def example_channel_def)

lemma example_signed_in:
  assumes "v \<noteq> []" and "verify_password mini_openssl ''longpass'' v"
  shows "\<exists>s. handle mini_openssl example_config ''LOGIN ann longpass'' (new_session (example_channel (''DELFILE notes'' @ [newline]) []) (ann_world v)) = (True, s) \<and>
    s_logged_in s \<and> s_user s = ''ann'' \<and> inp (s_chan s) = ''DELFILE notes'' @ [newline] \<and> read_script (s_chan s) = [] \<and>
    faults (s_disk s) = [] \<and> stored (s_disk s) example_root ''ann'' ''notes'' = Some ''hello''"
proof -
  let ?s = "new_session (example_channel (''DELFILE notes'' @ [newline]) []) (ann_world v)"
  obtain d where d: "ensure_account example_store example_root ''ann'' = (None, d)" "faults d = []" using ann_account by blast
  have "stored d example_root ''ann'' ''notes'' = Some ''hello''"
    using touches_empty_stored [OF ensure_account_touches [OF d(1)]] example_stored by simp
  moreover have "handle mini_openssl example_config ''LOGIN ann longpass'' ?s =
      do_login mini_openssl example_config [''LOGIN'', ''ann'', ''longpass''] ?s"
    unfolding handle_def Let_def login_words by (simp add: vocabulary)
  moreover have "s_world ?s = ann_world v" "s_chan ?s = example_channel (''DELFILE notes'' @ [newline]) []"
    by (simp_all add: new_session_def)
  moreover have "say kOk (x\<lparr>s_user := ''ann'', s_logged_in := True\<rparr>) =
      x\<lparr>s_user := ''ann'', s_logged_in := True, s_chan := (s_chan x)\<lparr>outp := kOk @ [newline], write_script := []\<rparr>\<rparr>"
    if "s_chan x = example_channel (''DELFILE notes'' @ [newline]) []" for x
    using say_ok [of "x\<lparr>s_user := ''ann'', s_logged_in := True\<rparr>"] that by simp
  ultimately show ?thesis
    using ann_verifies [OF assms] d(2)
    by (simp add: do_login_def example_config_def Let_def d(1) example_channel_def)
qed

lemma example_traffic:
  assumes "v \<noteq> []" and "verify_password mini_openssl ''longpass'' v"
  shows "\<exists>s' s tr. traffic mini_openssl example_config (ann_world v) (s' # s # tr) \<and>
    stored (sv_disk s) example_root ''ann'' ''notes'' = Some ''hello'' \<and> stored (sv_disk s') example_root ''ann'' ''notes'' = None"
proof -
  let ?c = "example_channel ann_lines []" and ?w = "ann_world v"
  obtain s where h: "handle mini_openssl example_config ''LOGIN ann longpass''
      (new_session (example_channel (''DELFILE notes'' @ [newline]) []) ?w) = (True, s)"
    and s: "s_logged_in s" "s_user s = ''ann''" "inp (s_chan s) = ''DELFILE notes'' @ [newline]" "read_script (s_chan s) = []"
      "faults (s_disk s) = []" "stored (s_disk s) example_root ''ann'' ''notes'' = Some ''hello''"
    using example_signed_in [OF assms] by blast
  have one: "conn_step mini_openssl example_config (Waiting ?c) ?w = (Talking (talk_of s), s_world s)"
    using h by (simp add: read_login looks_like_http_def kMethods_def talk_turn_def del: append.simps)
  obtain c2 where read: "ch_read_line (s_chan s) = (Some ''DELFILE notes'', c2)"
    using s(3,4) by (simp add: ch_read_line_def read_line_loop.simps ssl_read_def kMaxLineLen_def)
  obtain ok s2 where h2: "handle mini_openssl example_config ''DELFILE notes'' (s\<lparr>s_chan := c2\<rparr>) = (ok, s2)" by fastforce
  have chan: "tk_chan (talk_of s) = s_chan s" by (simp add: talk_of_def)
  have two: "conn_step mini_openssl example_config (Talking (talk_of s)) (s_world s) =
      (if ok then Talking (talk_of s2) else Closed (s_chan s2), s_world s2)"
    using read h2 by (simp add: chan talk_session_chan talk_session_of talk_turn_def)
  have "handle mini_openssl example_config ''DELFILE notes'' (s\<lparr>s_chan := c2\<rparr>) =
      do_del_file example_config ''DELFILE notes'' (s\<lparr>s_chan := c2\<rparr>)"
    using s(1) unfolding handle_def Let_def example_deletion(1) by (simp add: vocabulary is_chunk_command_def)
  with h2 s(2) obtain ex where "remove_file (s_disk s) example_root ''ann'' ''notes'' = (ex, s_disk s2)"
    by (auto simp: do_del_file_def Let_def example_deletion(2) example_config_def split: prod.splits if_splits)
  from remove_file_spec [OF this s(5)] have gone: "stored (s_disk s2) example_root ''ann'' ''notes'' = None" by simp
  let ?s0 = "server_start ?w" and ?s1 = "\<lparr>sv_world = ?w, sv_conns = [Waiting ?c]\<rparr>"
  let ?s2 = "\<lparr>sv_world = s_world s, sv_conns = [Talking (talk_of s)]\<rparr>"
  let ?s3 = "\<lparr>sv_world = s_world s2, sv_conns = [if ok then Talking (talk_of s2) else Closed (s_chan s2)]\<rparr>"
  let ?A = "\<lparr>accepts = True, session_new = True, handshake_done = True\<rparr>"
  have "serves mini_openssl example_config ?s0 ?s1"
    using serves.accepted [of ?A mini_openssl example_config ?s0 ?c] by (simp add: listener_accept_def server_start_def)
  moreover have "serves mini_openssl example_config ?s1 ?s2"
    using serves.stepped [of 0 ?s1 mini_openssl example_config "Talking (talk_of s)" "s_world s"] one by simp
  moreover have "serves mini_openssl example_config ?s2 ?s3"
    using serves.stepped [of 0 ?s2 mini_openssl example_config "if ok then Talking (talk_of s2) else Closed (s_chan s2)" "s_world s2"] two
    by (simp only: server.simps) simp
  ultimately have "traffic mini_openssl example_config ?w [?s3, ?s2, ?s1, ?s0]"
    by (metis traffic.start traffic.serve)
  with s(6) gone show ?thesis by (metis server.select_convs(1))
qed

lemma files_change_by_password_witness:
  "\<exists>w s' s tr. traffic mini_openssl example_config w (s' # s # tr) \<and> stored (sv_disk s') example_root ''ann'' ''notes'' = None \<and>
     (\<exists>t\<in>set (s # tr). \<exists>k\<in>set (sv_conns t). presents mini_openssl k (sv_world t) ''ann'')"
proof -
  obtain v where v: "v \<noteq> []" "verify_password mini_openssl ''longpass'' v" using example_verifier by blast
  from example_traffic [OF v] obtain s' s tr where t: "traffic mini_openssl example_config (ann_world v) (s' # s # tr)"
    "stored (sv_disk s) example_root ''ann'' ''notes'' = Some ''hello''" "stored (sv_disk s') example_root ''ann'' ''notes'' = None" by blast
  have "stored (sv_disk s') (cfg_root example_config) ''ann'' ''notes'' \<noteq> stored (sv_disk s) (cfg_root example_config) ''ann'' ''notes''"
    using t(2,3) by simp
  with files_change_by_password [OF t(1), THEN conjunct1, THEN mp] t(1,3) show ?thesis by blast
qed

end
