(* ===== verification/Progress.thy ===== *)
theory Progress
  imports Protocol
begin

text \<open>
  \<open>src/core/progress.cpp\<close>: the progress bar and sizes for people. What is written to the terminal is
  the list \<open>pb_shown\<close>, one entry for each repaint or line end.
\<close>

datatype painted = Repaint int nat u64 u64 | LineEnd

record progress_bar =
  pb_label :: string
  pb_enabled :: bool
  pb_done_printed :: bool
  pb_last_percent :: int
  pb_shown :: "painted list"

definition new_bar :: "string \<Rightarrow> bool \<Rightarrow> progress_bar" where
  "new_bar label enabled =
     \<lparr>pb_label = label, pb_enabled = enabled, pb_done_printed = False, pb_last_percent = - 1, pb_shown = []\<rparr>"

section \<open>The bar\<close>

text \<open>The product wraps at 64 bits and the cast keeps 32 of them.\<close>

definition percent_of :: "u64 \<Rightarrow> u64 \<Rightarrow> int" where
  "percent_of done_bytes all =
     (let p = (if all > 0 then sint (ucast (done_bytes * 100 div all) :: 32 word) else 100)
      in if p > 100 then 100 else p)"

definition bar_width :: nat where "bar_width = 30"

text \<open>The cells that are filled: none for a negative number.\<close>

definition filled :: "int \<Rightarrow> nat" where
  "filled p = length (filter (\<lambda>i. int i < (int bar_width * p) div 100) [0..<bar_width])"

definition bar_finish :: "progress_bar \<Rightarrow> progress_bar" where
  "bar_finish b =
     (if \<not> pb_enabled b \<or> pb_done_printed b then b
      else b\<lparr>pb_done_printed := True, pb_shown := pb_shown b @ [LineEnd]\<rparr>)"

definition bar_update :: "progress_bar \<Rightarrow> u64 \<Rightarrow> u64 \<Rightarrow> progress_bar" where
  "bar_update b done_bytes all =
     (if \<not> pb_enabled b \<or> pb_done_printed b then b
      else
        let p = percent_of done_bytes all
        in if p = pb_last_percent b \<and> done_bytes < all then b
           else let b = b\<lparr>pb_last_percent := p, pb_shown := pb_shown b @ [Repaint p (filled p) done_bytes all]\<rparr>
                in if all > 0 \<and> done_bytes \<ge> all then bar_finish b else b)"

section \<open>Sizes for people\<close>

text \<open>
  The nearest double of an integer, dividing by a power of two which is exact, and one decimal printed:
  all round to the nearest, a tie to the even neighbour.
\<close>

definition round_div :: "nat \<Rightarrow> nat \<Rightarrow> nat" where
  "round_div n d =
     (let q = n div d; r = n mod d in if 2 * r < d \<or> 2 * r = d \<and> even q then q else Suc q)"

fun bit_count :: "nat \<Rightarrow> nat" where
  "bit_count n = (if n = 0 then 0 else Suc (bit_count (n div 2)))"

declare bit_count.simps [simp del]

definition to_double :: "nat \<Rightarrow> nat" where
  "to_double n = (let e = bit_count n - 53 in round_div n (2 ^ e) * 2 ^ e)"

fun pick_unit :: "nat \<Rightarrow> nat \<Rightarrow> nat \<Rightarrow> nat" where
  "pick_unit v u 0 = u"
| "pick_unit v u (Suc k) = (if v \<ge> 1024 ^ Suc u then pick_unit v (Suc u) k else u)"

definition size_unit :: "nat \<Rightarrow> nat" where
  "size_unit v = pick_unit v 0 4"

definition human_size :: "u64 \<Rightarrow> string" where
  "human_size n =
     (let v = to_double (unat n); u = size_unit v
      in if u = 0 then to_dec (unat n) @ '' B''
         else let t = round_div (10 * v) (1024 ^ u)
              in to_dec (t div 10) @ ''.'' @ to_dec (t mod 10) @ '' '' @ [''B'', ''KB'', ''MB'', ''GB'', ''TB''] ! u)"

section \<open>What the bar shows\<close>

lemma percent_exact:
  assumes "unat d \<le> unat all" and "0 < all" and "all \<le> kMaxTransferSize"
  shows "percent_of d all = int (100 * unat d div unat all)" "100 * unat d div unat all \<le> 100"
proof -
  have all: "0 < unat all" "unat all \<le> 2 ^ 40"
    using assms(2,3) by (simp_all add: kMaxTransferSize_def word_le_nat_alt word_less_nat_alt push_bit_eq_mult)
  have "unat d * 100 < 2 ^ 64" using assms(1) all(2) by simp
  then have "unat (d * 100) = unat d * 100" using unat_mult_lem [THEN iffD1, of d 100] by simp
  then have q: "unat (d * 100 div all) = 100 * unat d div unat all" by (simp add: unat_div_distrib mult.commute)
  show le: "100 * unat d div unat all \<le> 100"
    using assms(1) all(1) div_le_mono [of "100 * unat d" "100 * unat all" "unat all"] by simp
  define x where "x = d * 100 div all"
  have x: "unat x = 100 * unat d div unat all" "unat x \<le> 100" using q le by (simp_all add: x_def)
  have "unat (ucast x :: 32 word) = unat x" using x(2) by (simp add: unsigned_ucast_eq take_bit_eq_mod)
  then have "sint (ucast x :: 32 word) = int (unat x)"
  proof -
    assume u: "unat (ucast x :: 32 word) = unat x"
    have "int (unat x) \<le> 100" using x(2) by linarith
    then have "uint x \<le> 100" by simp
    then have "signed_take_bit 31 (int (unat x)) = int (unat x)"
      using order_trans [OF _ uint_ge_0, of "- 2147483648" x] by (simp add: signed_take_bit_int_eq_self_iff)
    moreover from arg_cong [OF u, of int] have "uint (ucast x :: 32 word) = uint x" by (simp only: uint_nat)
    moreover have "sint (ucast x :: 32 word) = signed_take_bit 31 (uint (ucast x :: 32 word))" by (simp add: sint_uint)
    ultimately show ?thesis by (simp only: uint_nat)
  qed
  then show "percent_of d all = int (100 * unat d div unat all)"
    using assms(2) x by (simp add: percent_of_def x_def [symmetric])
qed

lemma percent_mono:
  assumes "unat d \<le> unat e" and "unat e \<le> unat all" and "0 < all" and "all \<le> kMaxTransferSize"
  shows "percent_of d all \<le> percent_of e all"
  using percent_exact [of d all] percent_exact [of e all] assms by (simp add: div_le_mono)

lemma percent_unfinished:
  assumes "d < all" and "all \<le> kMaxTransferSize"
  shows "percent_of d all < 100"
proof -
  have "100 * unat d < 100 * unat all" using assms(1) by (simp add: word_less_nat_alt)
  then have "100 * unat d div unat all < 100" by (simp add: less_mult_imp_div_less mult.commute)
  moreover have "0 < all" using assms(1) by (metis word_gt_0 word_not_simps(1))
  ultimately show ?thesis using percent_exact [of d all] assms by (simp add: word_less_nat_alt)
qed

text \<open>The calls of one transfer, with the bytes so far.\<close>

definition transfer :: "progress_bar \<Rightarrow> u64 \<Rightarrow> u64 list \<Rightarrow> progress_bar" where
  "transfer b all ds = foldl (\<lambda>b d. bar_update b d all) b ds"

text \<open>Before the end, one repaint at most for every number shown.\<close>

definition bar_inv :: "progress_bar \<Rightarrow> bool" where
  "bar_inv b \<longleftrightarrow>
     (if pb_done_printed b then length (pb_shown b) \<le> 102 \<and> (\<exists>xs. pb_shown b = xs @ [LineEnd] \<and> LineEnd \<notin> set xs)
      else - 1 \<le> pb_last_percent b \<and> pb_last_percent b < 100 \<and> int (length (pb_shown b)) \<le> pb_last_percent b + 1 \<and>
           LineEnd \<notin> set (pb_shown b))"

lemma bar_update_inv:
  assumes "bar_inv b" and "d \<le> all" and "0 < all" and "all \<le> kMaxTransferSize"
    and "\<not> pb_done_printed b \<longrightarrow> pb_last_percent b \<le> percent_of d all"
  shows "bar_inv (bar_update b d all)"
    and "\<not> pb_done_printed (bar_update b d all) \<longrightarrow> pb_enabled b \<longrightarrow> d < all \<and> pb_last_percent (bar_update b d all) = percent_of d all"
    and "pb_enabled (bar_update b d all) = pb_enabled b"
    and "\<not> pb_enabled b \<longrightarrow> bar_update b d all = b"
proof -
  have p: "0 \<le> percent_of d all" "percent_of d all \<le> 100" "d < all \<longrightarrow> percent_of d all < 100"
    using percent_exact [of d all] percent_unfinished [of d all] assms by (simp_all add: word_le_nat_alt)
  have full: "\<not> d < all \<longrightarrow> d \<ge> all" by (simp add: not_less)
  show "bar_inv (bar_update b d all)"
  proof (cases "pb_enabled b \<and> \<not> pb_done_printed b")
    case False
    then show ?thesis using assms(1) by (auto simp: bar_update_def)
  next
    case True
    with assms p full show ?thesis by (auto simp: bar_update_def bar_finish_def bar_inv_def Let_def)
  qed
  show "\<not> pb_done_printed (bar_update b d all) \<longrightarrow> pb_enabled b \<longrightarrow> d < all \<and> pb_last_percent (bar_update b d all) = percent_of d all"
    using assms(3) full by (auto simp: bar_update_def bar_finish_def Let_def not_less)
  show "pb_enabled (bar_update b d all) = pb_enabled b" "\<not> pb_enabled b \<longrightarrow> bar_update b d all = b"
    by (auto simp: bar_update_def bar_finish_def Let_def)
qed

lemma transfer_inv:
  assumes "sorted (map unat ds)" and "\<forall>d\<in>set ds. d \<le> all" and "0 < all" and "all \<le> kMaxTransferSize"
    and "bar_inv b" and "\<forall>d\<in>set ds. \<not> pb_done_printed b \<longrightarrow> pb_last_percent b \<le> percent_of d all"
  shows "bar_inv (transfer b all ds) \<and> (\<not> pb_enabled b \<longrightarrow> transfer b all ds = b) \<and>
    (pb_enabled b \<longrightarrow> pb_done_printed b \<or> all \<in> set ds \<longrightarrow> pb_done_printed (transfer b all ds))"
  using assms(1,2,5,6)
proof (induction ds arbitrary: b)
  case Nil
  then show ?case by (simp add: transfer_def)
next
  case (Cons d ds)
  let ?b = "bar_update b d all"
  have d: "d \<le> all" "\<not> pb_done_printed b \<longrightarrow> pb_last_percent b \<le> percent_of d all" using Cons.prems by simp_all
  note step = bar_update_inv [OF Cons.prems(3) d(1) assms(3,4) d(2)]
  have le: "\<forall>e\<in>set ds. \<not> pb_done_printed ?b \<longrightarrow> pb_last_percent ?b \<le> percent_of e all"
  proof (intro ballI impI)
    fix e assume e: "e \<in> set ds" "\<not> pb_done_printed ?b"
    show "pb_last_percent ?b \<le> percent_of e all"
    proof (cases "pb_enabled b")
      case True
      with step(2) e(2) have "pb_last_percent ?b = percent_of d all" by simp
      moreover have "unat d \<le> unat e" "unat e \<le> unat all"
        using Cons.prems(1,2) e(1) by (auto simp: word_le_nat_alt)
      ultimately show ?thesis using percent_mono [of d e all] assms(3,4) by simp
    next
      case False
      with step(4) Cons.prems(4) e show ?thesis by auto
    qed
  qed
  have "sorted (map unat ds)" "\<forall>d\<in>set ds. d \<le> all" using Cons.prems(1,2) by simp_all
  from Cons.IH [OF this step(1) le] have IH:
    "bar_inv (transfer ?b all ds)" "\<not> pb_enabled b \<longrightarrow> transfer ?b all ds = ?b"
    "pb_enabled b \<longrightarrow> pb_done_printed ?b \<or> all \<in> set ds \<longrightarrow> pb_done_printed (transfer ?b all ds)"
    using step(3) by auto
  have "pb_done_printed ?b" if "pb_enabled b" "pb_done_printed b \<or> d = all"
    using that step(2) by (auto simp: bar_update_def)
  with IH step(4) show ?case by (auto simp: transfer_def)
qed

lemma progress_is_bounded:
  assumes "sorted (map unat ds)" and "\<forall>d\<in>set ds. d \<le> all" and "0 < all" and "all \<le> kMaxTransferSize"
  shows "let shown = pb_shown (transfer (new_bar label enabled) all ds)
    in length shown \<le> 102 \<and> (\<not> enabled \<longrightarrow> shown = []) \<and>
       (enabled \<and> all \<in> set ds \<longrightarrow> (\<exists>xs. shown = xs @ [LineEnd] \<and> LineEnd \<notin> set xs))"
proof -
  let ?b = "new_bar label enabled"
  have "bar_inv ?b" by (simp add: bar_inv_def new_bar_def)
  moreover have "- 1 \<le> percent_of d all" if "d \<in> set ds" for d
    using percent_exact [of d all] assms that by (simp add: word_le_nat_alt)
  ultimately have inv: "bar_inv (transfer ?b all ds) \<and> (\<not> pb_enabled ?b \<longrightarrow> transfer ?b all ds = ?b) \<and>
    (pb_enabled ?b \<longrightarrow> pb_done_printed ?b \<or> all \<in> set ds \<longrightarrow> pb_done_printed (transfer ?b all ds))"
    by (intro transfer_inv [OF assms]) (auto simp: new_bar_def)
  then have "length (pb_shown (transfer ?b all ds)) \<le> 102" by (auto simp: bar_inv_def split: if_splits)
  with inv show ?thesis by (auto simp: bar_inv_def new_bar_def)
qed

lemma progress_is_bounded_witness:
  "let shown = pb_shown (transfer (new_bar ''up'' True) 1000 [1, 5, 10, 1000])
   in length shown \<le> 102 \<and> (\<exists>xs. shown = xs @ [LineEnd] \<and> LineEnd \<notin> set xs)"
  using progress_is_bounded [of "[1, 5, 10, 1000]" 1000 "''up''" True] by (simp add: kMaxTransferSize_def Let_def)

end
