(* ===== verification/Pagecrypt.thy ===== *)
theory Pagecrypt
  imports Container Progress "HOL-Library.Stream"
begin

text \<open>
  \<open>src/server/page.cpp\<close>, the first script of the page: the sealed container as the browser writes and
  reads it. WebCrypto is a parameter, the record \<open>webcrypto\<close>; a rejected promise is \<open>None\<close>. The
  browser's entropy never runs out: a stream of bytes. A JavaScript string is its UTF-8 text, which is
  what \<open>TextEncoder\<close> gives; a number is a natural number, rounded to a double where the code reads or
  computes one that may have more than 53 bits.
\<close>

record webcrypto =
  wc_derive_bits :: "bytes \<Rightarrow> bytes \<Rightarrow> nat \<Rightarrow> bytes option"
  wc_encrypt :: "bytes \<Rightarrow> bytes \<Rightarrow> bytes \<Rightarrow> bytes \<Rightarrow> bytes option"
  wc_decrypt :: "bytes \<Rightarrow> bytes \<Rightarrow> bytes \<Rightarrow> bytes \<Rightarrow> bytes option"
  wc_sign :: "bytes \<Rightarrow> bytes \<Rightarrow> bytes option"

datatype page_error =
    OperationFailed | FileTooShort | NotAnEncryptedFile | UnsupportedFormat | FileEndsMidBlock
  | WrongPassphraseOrAltered | RecoveredSizeDiffers

definition BLOCK_SIZE :: nat where "BLOCK_SIZE = 1048576"
definition ITERATIONS :: nat where "ITERATIONS = 100000"
definition SALT_LEN :: nat where "SALT_LEN = 16"
definition IV_LEN :: nat where "IV_LEN = 12"
definition TAG_LEN :: nat where "TAG_LEN = 16"
definition HEADER_LEN :: nat where "HEADER_LEN = 37"
definition MAGIC :: bytes where "MAGIC = [80, 67, 83, 49]"
definition VERSION :: byte where "VERSION = 1"
definition CONTENT_LABEL :: string where "CONTENT_LABEL = ''pcs-content-v1''"
definition DEDUP_LABEL :: string where "DEDUP_LABEL = ''pcs-dedup-v1''"
definition DEDUP_LIMIT :: nat where "DEDUP_LIMIT = 64 * 1024 * 1024"

lemmas page_lengths = SALT_LEN_def IV_LEN_def TAG_LEN_def HEADER_LEN_def

section \<open>Bytes and numbers\<close>

definition le_bytes :: "nat \<Rightarrow> nat \<Rightarrow> bytes" where
  "le_bytes k n = map (\<lambda>i. of_nat (n div 256 ^ i)) [0..<k]"

definition le32 :: "nat \<Rightarrow> bytes" where "le32 n = le_bytes 4 n"
definition le64 :: "nat \<Rightarrow> bytes" where "le64 n = le_bytes 8 n"

definition read_le :: "nat \<Rightarrow> bytes \<Rightarrow> nat \<Rightarrow> nat" where
  "read_le k bs i = (\<Sum>j\<leftarrow>[0..<k]. unat (bs ! (i + j)) * 256 ^ j)"

definition readLe32 :: "bytes \<Rightarrow> nat \<Rightarrow> nat" where "readLe32 bs i = read_le 4 bs i"

text \<open>\<open>Number\<close> of a 64-bit integer is the nearest double.\<close>

definition readLe64 :: "bytes \<Rightarrow> nat \<Rightarrow> nat" where "readLe64 bs i = to_double (read_le 8 bs i)"

text \<open>
  \<open>Math.ceil\<close> of a quotient of doubles: the quotient is rounded to 53 significant bits first. The
  dividend is shifted far enough for the quotient to have more than those.
\<close>

definition ceil_quotient :: "nat \<Rightarrow> nat \<Rightarrow> nat" where
  "ceil_quotient p b =
     (let s = 54 + bit_count b; m = p * 2 ^ s; e = bit_count (m div b) - 53
      in (round_div m (b * 2 ^ e) * 2 ^ e + 2 ^ s - 1) div 2 ^ s)"

definition blob_slice :: "bytes \<Rightarrow> nat \<Rightarrow> nat \<Rightarrow> bytes" where
  "blob_slice b i j = take (j - i) (drop i b)"

definition random_values :: "nat \<Rightarrow> byte stream \<Rightarrow> bytes \<times> byte stream" where
  "random_values n rnd = (stake n rnd, sdrop n rnd)"

section \<open>Keys and tags\<close>

definition deriveBits :: "webcrypto \<Rightarrow> string \<Rightarrow> bytes \<Rightarrow> nat \<Rightarrow> bytes option" where
  "deriveBits W pass salt_bytes n = wc_derive_bits W (bytes_of pass) salt_bytes n"

definition contentKey :: "webcrypto \<Rightarrow> string \<Rightarrow> bytes \<Rightarrow> nat \<Rightarrow> bytes option" where
  "contentKey W pass s n = deriveBits W pass (concat [bytes_of CONTENT_LABEL, s]) n"

definition page_hex :: "bytes \<Rightarrow> string" where
  "page_hex bs = concat (map (\<lambda>b. [kDigits ! (unat b div 16), kDigits ! (unat b mod 16)]) bs)"

definition dedupKey :: "webcrypto \<Rightarrow> string \<Rightarrow> bytes option" where
  "dedupKey W pass = (let s = bytes_of (DEDUP_LABEL @ DEDUP_LABEL) in deriveBits W pass s ITERATIONS)"

definition dedupTagFor :: "webcrypto \<Rightarrow> string \<Rightarrow> bytes \<Rightarrow> string option" where
  "dedupTagFor W pass chosen =
     (if length chosen > DEDUP_LIMIT then Some []
      else case dedupKey W pass of
        None \<Rightarrow> None
      | Some key \<Rightarrow> map_option page_hex (wc_sign W key chosen))"

section \<open>Sealing\<close>

definition buildHeader :: "bytes \<Rightarrow> nat \<Rightarrow> bytes" where
  "buildHeader s plainSize = concat [MAGIC, [VERSION], le32 ITERATIONS, s, le32 BLOCK_SIZE, le64 plainSize]"

definition blockAad :: "bytes \<Rightarrow> nat \<Rightarrow> bytes" where
  "blockAad header index = concat [header, le64 index]"

text \<open>The loop of \<open>sealFile\<close>; the last component is what was reported to \<open>onProgress\<close>.\<close>

function seal_parts ::
  "webcrypto \<Rightarrow> bytes \<Rightarrow> bytes \<Rightarrow> bytes \<Rightarrow> nat \<Rightarrow> nat \<Rightarrow> byte stream \<Rightarrow> bytes list \<Rightarrow> (nat \<times> nat) list \<Rightarrow>
     (page_error + bytes list) \<times> byte stream \<times> (nat \<times> nat) list"
where
  "seal_parts W key header chosen done index rnd parts shown =
     (if done < length chosen then
        let stop = min (done + BLOCK_SIZE) (length chosen);
            plain = blob_slice chosen done stop;
            (iv, rnd) = random_values IV_LEN rnd
        in case wc_encrypt W key iv (blockAad header index) plain of
             None \<Rightarrow> (Inl OperationFailed, rnd, shown)
           | Some sealed_bytes \<Rightarrow>
               let n = length sealed_bytes - TAG_LEN;
                   parts = parts @ [iv, le32 n, take n sealed_bytes, drop n sealed_bytes]
               in seal_parts W key header chosen stop (index + 1) rnd parts (shown @ [(stop, length chosen)])
      else (Inr parts, rnd, shown))"
  by pat_completeness auto
termination
  by (relation "measure (\<lambda>(W, k, h, chosen, done, i, r, p, s). length chosen - done)")
    (auto simp: BLOCK_SIZE_def)

declare seal_parts.simps [simp del]

definition sealFile ::
  "webcrypto \<Rightarrow> string \<Rightarrow> bytes \<Rightarrow> byte stream \<Rightarrow> (page_error + bytes) \<times> byte stream \<times> (nat \<times> nat) list" where
  "sealFile W passphrase chosen rnd =
     (case random_values SALT_LEN rnd of (s, rnd) \<Rightarrow>
      case contentKey W passphrase s ITERATIONS of
        None \<Rightarrow> (Inl OperationFailed, rnd, [])
      | Some key \<Rightarrow>
          let header = buildHeader s (length chosen)
          in case seal_parts W key header chosen 0 0 rnd [header] [] of
               (Inl e, rnd, shown) \<Rightarrow> (Inl e, rnd, shown)
             | (Inr parts, rnd, shown) \<Rightarrow> (Inr (concat parts), rnd, shown))"

section \<open>Opening\<close>

text \<open>A number of blocks that is \<open>None\<close> is infinity, the quotient by a block size of zero.\<close>

definition more_blocks :: "nat \<Rightarrow> nat option \<Rightarrow> bool" where
  "more_blocks index blocks = (case blocks of None \<Rightarrow> True | Some n \<Rightarrow> index < n)"

function open_parts ::
  "webcrypto \<Rightarrow> bytes \<Rightarrow> bytes \<Rightarrow> bytes \<Rightarrow> nat option \<Rightarrow> nat \<Rightarrow> nat \<Rightarrow> bytes list \<Rightarrow> nat \<Rightarrow> page_error + (bytes list \<times> nat)"
where
  "open_parts W key header blob blocks index i parts done =
     (if more_blocks index blocks then
        let meta = blob_slice blob i (i + IV_LEN + 4)
        in if length meta \<noteq> IV_LEN + 4 then Inl FileEndsMidBlock
        else
        let iv = take IV_LEN meta; n = readLe32 meta IV_LEN; i = i + IV_LEN + 4;
            sealed_bytes = blob_slice blob i (i + n + TAG_LEN)
        in if length sealed_bytes \<noteq> n + TAG_LEN then Inl FileEndsMidBlock
        else case wc_decrypt W key iv (blockAad header index) sealed_bytes of
               None \<Rightarrow> Inl WrongPassphraseOrAltered
             | Some plain \<Rightarrow>
                 open_parts W key header blob blocks (index + 1) (i + n + TAG_LEN) (parts @ [plain])
                   (done + length plain)
      else Inr (parts, done))"
  by pat_completeness auto
termination
  by (relation "measure (\<lambda>(W, k, h, blob, blocks, index, i, parts, done). length blob - i)")
    (auto simp: blob_slice_def page_lengths)

declare open_parts.simps [simp del]

definition openBlob :: "webcrypto \<Rightarrow> string \<Rightarrow> bytes \<Rightarrow> page_error + bytes" where
  "openBlob W passphrase blob =
     (let header = blob_slice blob 0 HEADER_LEN
      in if length header \<noteq> HEADER_LEN then Inl FileTooShort
      else if list_ex (\<lambda>i. header ! i \<noteq> MAGIC ! i) [0..<4] then Inl NotAnEncryptedFile
      else if header ! 4 \<noteq> VERSION then Inl UnsupportedFormat
      else
      let n = readLe32 header 5;
          s = blob_slice header 9 (9 + SALT_LEN);
          blockSize = readLe32 header (9 + SALT_LEN);
          plainSize = readLe64 header (13 + SALT_LEN)
      in case contentKey W passphrase s n of
        None \<Rightarrow> Inl OperationFailed
      | Some key \<Rightarrow>
      let blocks = (if plainSize = 0 then Some 0
                    else if blockSize = 0 then None else Some (ceil_quotient plainSize blockSize))
      in case open_parts W key header blob blocks 0 HEADER_LEN [] 0 of
        Inl e \<Rightarrow> Inl e
      | Inr (parts, done) \<Rightarrow>
          if done \<noteq> plainSize then Inl RecoveredSizeDiffers else Inr (concat parts))"

section \<open>The same standards\<close>

text \<open>
  WebCrypto and OpenSSL implement the same published algorithms: PBKDF2 and HMAC with SHA-256, and AES in
  Galois counter mode, of which WebCrypto hands out the text and the tag in one array.
\<close>

definition same_standards :: "webcrypto \<Rightarrow> 'x openssl \<Rightarrow> bool" where
  "same_standards W E \<longleftrightarrow>
     (\<forall>p s n. wc_derive_bits W (bytes_of p) s (unat n) = pbkdf2_hmac_sha256 E p s n kKeyLen) \<and>
     (\<forall>key iv aad p. length key = kKeyLen \<longrightarrow> length iv = kIvLen \<longrightarrow>
        wc_encrypt W key iv aad p = map_option (\<lambda>(c, t). c @ t) (aes_gcm_seal E key iv aad p)) \<and>
     (\<forall>key iv aad c t. length key = kKeyLen \<longrightarrow> length iv = kIvLen \<longrightarrow> length t = kTagLen \<longrightarrow>
        wc_decrypt W key iv aad (c @ t) = aes_gcm_open E key iv aad c t) \<and>
     (mac_available E \<and> (\<forall>k m. wc_sign W k m = Some (hmac_sha256_of E k m)))"

definition webcrypto_of :: "'x openssl \<Rightarrow> webcrypto" where
  "webcrypto_of E = \<lparr>
     wc_derive_bits = (\<lambda>p s n. pbkdf2_hmac_sha256 E (string_of p) s (of_nat n) kKeyLen),
     wc_encrypt = (\<lambda>key iv aad p. map_option (\<lambda>(c, t). c @ t) (aes_gcm_seal E key iv aad p)),
     wc_decrypt = (\<lambda>key iv aad s. let n = length s - TAG_LEN in aes_gcm_open E key iv aad (take n s) (drop n s)),
     wc_sign = (\<lambda>k m. Some (hmac_sha256_of E k m))\<rparr>"

lemma same_standards_webcrypto_of: "mac_available E \<Longrightarrow> same_standards (webcrypto_of E) E"
  by (simp add: same_standards_def webcrypto_of_def Let_def TAG_LEN_def kTagLen_def)

abbreviation mini_webcrypto :: webcrypto where
  "mini_webcrypto \<equiv> webcrypto_of mini_openssl"

lemma mini_same_standards: "same_standards mini_webcrypto mini_openssl"
  by (rule same_standards_webcrypto_of) (simp add: mini_openssl_def)

section \<open>Numbers and lengths agree\<close>

lemma le_bytes_word:
  assumes "LENGTH('a::len) = 8 * k"
  shows "le_bytes k n = map (\<lambda>i. ucast (drop_bit (8 * i) (of_nat n :: 'a word))) [0..<k]"
proof (rule nth_equalityI)
  fix i assume "i < length (le_bytes k n)"
  then have i: "i < k" by (simp add: le_bytes_def)
  have "(of_nat (n div 256 ^ i) :: byte) = of_nat (drop_bit (8 * i) n)"
    by (simp add: drop_bit_eq_div power_mult)
  also have "\<dots> = ucast (drop_bit (8 * i) (of_nat n :: 'a word))"
  proof (rule bit_word_eqI)
    fix j assume "j < LENGTH(8)"
    then have "j < 8" by simp
    with i assms have "8 * i + j < LENGTH('a)" by linarith
    with \<open>j < 8\<close> show "bit (of_nat (drop_bit (8 * i) n) :: byte) j = bit (ucast (drop_bit (8 * i) (of_nat n :: 'a word)) :: byte) j"
      by (simp add: bit_simps)
  qed
  finally show "le_bytes k n ! i = map (\<lambda>i. ucast (drop_bit (8 * i) (of_nat n :: 'a word))) [0..<k] ! i"
    using i by (simp add: le_bytes_def)
qed (simp add: le_bytes_def)

lemma le32_put: "le32 n = put_u32 [] (of_nat n)"
  unfolding le32_def put_u32_eq by (simp add: le_bytes_word [where 'a = 32])

lemma le64_put: "le64 n = put_u64 [] (of_nat n)"
  unfolding le64_def put_u64_eq by (simp add: le_bytes_word [where 'a = 64])

lemma page_constants:
  "SALT_LEN = kSaltLen" "IV_LEN = kIvLen" "TAG_LEN = kTagLen" "HEADER_LEN = kHeaderLen"
  "BLOCK_SIZE = unat kBlockSize" "ITERATIONS = unat kKdfIterations" "MAGIC = kStreamMagic"
  "VERSION = kStreamVersion" "CONTENT_LABEL = kContentKeyLabel" "DEDUP_LABEL = kDedupKeyLabel"
  by (simp_all add: page_lengths crypto_lengths kHeaderLen_def BLOCK_SIZE_def kBlockSize_def ITERATIONS_def
      kKdfIterations_def MAGIC_def kStreamMagic_def VERSION_def kStreamVersion_def CONTENT_LABEL_def
      kContentKeyLabel_def DEDUP_LABEL_def kDedupKeyLabel_def bytes_of_def byte_of_def)


lemma page_hex_eq: "page_hex bs = to_hex bs"
proof (induction bs)
  case (Cons b bs)
  have "unat (take_bit 4 b) = take_bit 4 (unat b)" by (rule unsigned_take_bit_eq)
  then have "unat (b AND 0x0F) = unat b mod 16"
    by (simp add: take_bit_eq_mask [of 4 b] mask_eq_exp_minus_1 take_bit_eq_mod [of 4 "unat b"])
  moreover have "unat (drop_bit 4 b) = unat b div 16"
    using unat_drop_bit_eq [of 4 b] drop_bit_eq_div [of 4 "unat b"] by simp
  ultimately show ?case using Cons by (simp add: page_hex_def)
qed (simp add: page_hex_def)

lemma buildHeader_eq: "buildHeader s n = build_header (sealed_header s n)"
  by (simp add: buildHeader_def build_header_eq sealed_header_def le32_put le64_put page_constants)

lemma blockAad_eq: "blockAad header i = block_aad header (of_nat i)"
  by (simp add: blockAad_def block_aad_def le64_put) (metis u64.appends)

lemma contentKey_pbkdf2:
  "same_standards W E \<Longrightarrow>
     contentKey W pass s (unat n) = pbkdf2_hmac_sha256 E pass (bytes_of kContentKeyLabel @ s) n kKeyLen"
  by (simp add: contentKey_def deriveBits_def same_standards_def page_constants)

lemma derive_key_pbkdf2:
  "derive_key E pass s label n = k \<Longrightarrow> length k = kKeyLen \<Longrightarrow>
     pbkdf2_hmac_sha256 E pass (bytes_of label @ s) n kKeyLen = Some k"
  by (auto simp: derive_key_def kKeyLen_def split: option.splits)

lemma contentKey_derive:
  assumes "same_standards W E" and "openssl_ok E"
  shows "contentKey W pass s (unat n) = Some key \<longleftrightarrow>
     derive_key E pass s kContentKeyLabel n = key \<and> length key = kKeyLen"
proof
  assume "contentKey W pass s (unat n) = Some key"
  then have k: "pbkdf2_hmac_sha256 E pass (bytes_of kContentKeyLabel @ s) n kKeyLen = Some key"
    by (simp add: contentKey_pbkdf2 [OF assms(1)])
  with assms(2) show "derive_key E pass s kContentKeyLabel n = key \<and> length key = kKeyLen"
    by (auto simp: derive_key_def openssl_ok_def)
qed (auto simp: contentKey_pbkdf2 [OF assms(1)] derive_key_pbkdf2)

lemma dedupTagFor_eq:
  assumes "same_standards W E" and "length chosen \<le> DEDUP_LIMIT" and "length (derive_dedup_key E pass) = kKeyLen"
  shows "dedupTagFor W pass (bytes_of chosen) = Some (plain_tag E pass chosen)"
proof -
  have "pbkdf2_hmac_sha256 E pass (bytes_of kDedupKeyLabel @ bytes_of kDedupKeyLabel) kKdfIterations kKeyLen =
      Some (derive_dedup_key E pass)"
    using assms(3) derive_key_pbkdf2 by (simp add: derive_dedup_key_def Let_def)
  then have "dedupKey W pass = Some (derive_dedup_key E pass)"
    using assms(1) by (simp add: dedupKey_def deriveBits_def same_standards_def page_constants Let_def bytes_of_append)
  with assms(1,2) show ?thesis
    by (auto simp: dedupTagFor_def page_hex_eq plain_tag_def same_standards_def hmac_new_def hmac_update_def
        hmac_finish_def)
qed

lemma same_encrypt:
  assumes "same_standards W E" and "openssl_ok E" and "length key = kKeyLen" and "length iv = kIvLen"
    and "wc_encrypt W key iv aad p = Some s"
  shows "\<exists>c t. aes_gcm_seal E key iv aad p = Some (c, t) \<and> s = c @ t \<and> length c = length p \<and> length t = kTagLen"
  using assms by (auto simp: same_standards_def openssl_ok_def)

lemma pieces_step: "s \<noteq> [] \<Longrightarrow>
    pieces (unat kBlockSize) s = bytes_of (take (unat kBlockSize) s) # pieces (unat kBlockSize) (drop (unat kBlockSize) s)"
  by (subst pieces.simps) (simp add: kBlockSize_def)

lemma take_string_of: "take n (string_of bs) = string_of (take n bs)"
  and drop_string_of: "drop n (string_of bs) = string_of (drop n bs)"
  by (simp_all add: string_of_def take_map drop_map)

lemma block_of:
  assumes "done < length c"
  defines "stop \<equiv> min (done + BLOCK_SIZE) (length c)"
  shows "pieces (unat kBlockSize) (string_of (drop done c)) =
      blob_slice c done stop # pieces (unat kBlockSize) (string_of (drop stop c))"
proof -
  have "take BLOCK_SIZE (drop done c) = blob_slice c done stop"
    using assms by (auto simp: blob_slice_def min_def)
  moreover have "drop BLOCK_SIZE (drop done c) = drop stop c" using assms by (auto simp: min_def add.commute)
  ultimately show ?thesis
    using assms(1) string_of_inj [of "drop done c" "[]"]
    by (subst pieces_step) (simp_all add: page_constants take_string_of drop_string_of)
qed

section \<open>What the page seals\<close>

lemma seal_parts_sealed:
  assumes "same_standards W E" and "openssl_ok E" and "length key = kKeyLen"
    and "seal_parts W key hdr c done i rnd parts shown = (Inr qs, rnd', shown')"
  shows "\<exists>bl. concat qs = concat parts @ bl \<and>
    sealed E key hdr i (pieces (unat kBlockSize) (string_of (drop done c))) bl"
  using assms(4)
proof (induction "length c - done" arbitrary: "done" i rnd parts shown rule: less_induct)
  case less
  show ?case
  proof (cases "done < length c")
    case False
    with less.prems show ?thesis by (simp add: seal_parts.simps pieces.simps)
  next
    case True
    let ?stop = "min (done + BLOCK_SIZE) (length c)"
    let ?iv = "stake IV_LEN rnd"
    obtain s where s: "wc_encrypt W key ?iv (blockAad hdr i) (blob_slice c done ?stop) = Some s"
      using less.prems True by (subst (asm) seal_parts.simps)
        (auto simp: random_values_def Let_def split: option.splits)
    have iv: "length ?iv = kIvLen" by (simp add: page_constants)
    obtain ct t where ct: "aes_gcm_seal E key ?iv (block_aad hdr (of_nat i)) (blob_slice c done ?stop) = Some (ct, t)"
      "s = ct @ t" "length t = kTagLen"
      using same_encrypt [OF assms(1-3) iv s] by (auto simp: blockAad_eq)
    have n: "length s - TAG_LEN = length ct" using ct by (simp add: page_constants)
    let ?parts = "parts @ [?iv, le32 (length ct), ct, t]"
    have run: "seal_parts W key hdr c ?stop (i + 1) (sdrop IV_LEN rnd) ?parts (shown @ [(?stop, length c)]) =
        (Inr qs, rnd', shown')"
      using less.prems True s ct(2) n
      by (subst (asm) seal_parts.simps) (simp add: random_values_def Let_def)
    have "length c - ?stop < length c - done" using True by (simp add: BLOCK_SIZE_def)
    from less.hyps [OF this run] obtain bl where bl: "concat qs = concat ?parts @ bl"
      "sealed E key hdr (Suc i) (pieces (unat kBlockSize) (string_of (drop ?stop c))) bl" by auto
    have "sealed E key hdr i (pieces (unat kBlockSize) (string_of (drop done c)))
        (?iv @ put_u32 [] (of_nat (length ct)) @ ct @ t @ bl)"
      unfolding block_of [OF True] sealed.simps using ct(1) iv bl(2) by blast
    with bl(1) show ?thesis by (auto simp: le32_put)
  qed
qed

lemma sealFile_sealed:
  assumes "same_standards W E" and "openssl_ok E"
    and "sealFile W pw (bytes_of c) rnd = (Inr s, rnd', shown)"
  shows "\<exists>st bl. st = stake kSaltLen rnd \<and>
    length (derive_key E pw st kContentKeyLabel kKdfIterations) = kKeyLen \<and>
    sealed E (derive_key E pw st kContentKeyLabel kKdfIterations) (build_header (sealed_header st (length c))) 0
      (pieces (unat kBlockSize) c) bl \<and> s = build_header (sealed_header st (length c)) @ bl"
proof -
  let ?st = "stake SALT_LEN rnd"
  let ?h = "buildHeader ?st (length c)"
  obtain key where key: "contentKey W pw ?st ITERATIONS = Some key"
    using assms(3) by (auto simp: sealFile_def random_values_def split: option.splits)
  then have k: "derive_key E pw ?st kContentKeyLabel kKdfIterations = key" "length key = kKeyLen"
    using contentKey_derive [OF assms(1,2), of pw ?st kKdfIterations key] by (simp_all add: page_constants)
  obtain r where r: "seal_parts W key ?h (bytes_of c) 0 0 (sdrop SALT_LEN rnd) [?h] [] = r" by simp
  obtain qs where qs: "seal_parts W key ?h (bytes_of c) 0 0 (sdrop SALT_LEN rnd) [?h] [] = (Inr qs, rnd', shown)"
    and s: "s = concat qs"
    using assms(3) key by (auto simp: sealFile_def random_values_def Let_def split: prod.splits sum.splits)
  from seal_parts_sealed [OF assms(1,2) k(2) qs] s k show ?thesis
    by (auto simp: buildHeader_eq page_constants)
qed

text \<open>Given the entropy the client drew, the page draws the same and writes the same.\<close>

lemma stake_split: "n \<le> m \<Longrightarrow> take n (stake m rnd) = stake n rnd \<and> drop n (stake m rnd) = stake (m - n) (sdrop n rnd)"
  by (simp add: take_stake drop_stake min_def)

lemma random_bytes_stake:
  "random_bytes n (stake m rnd) = (bs, pool) \<Longrightarrow> length bs = n \<Longrightarrow> 0 < n \<Longrightarrow>
     n \<le> m \<and> bs = stake n rnd \<and> pool = stake (m - n) (sdrop n rnd)"
  using stake_split [of n m rnd] by (auto simp: random_bytes_def split: if_splits)

lemma seal_loop_page:
  assumes "same_standards W E" and "openssl_ok E" and "length key = kKeyLen"
    and "seal_loop E key hdr (length c) sp (True, drop done c) done (of_nat i) tagger (stake m rnd) out =
           (Inr tg, pool', (True, d'))"
    and "done \<le> length c"
  shows "\<exists>d bl qs k shown'. out = (True, d) \<and> grown sp bl d d' \<and> k \<le> m \<and> pool' = stake (m - k) (sdrop k rnd) \<and>
    seal_parts W key hdr (bytes_of c) done i rnd parts shown = (Inr qs, sdrop k rnd, shown') \<and>
    concat qs = concat parts @ bl"
  using assms(4,5)
proof (induction "length c - done" arbitrary: "done" i m rnd tagger out parts shown rule: less_induct)
  case less
  show ?case
  proof (cases "done < length c")
    case False
    with less.prems show ?thesis
      by (auto simp: seal_loop.simps seal_parts.simps intro!: exI [of _ 0] exI [of _ "[]"])
  next
    case True
    define want where "want = min (unat kBlockSize) (length c - done)"
    have want: "0 < want" "want \<le> length c - done" using True by (simp_all add: want_def kBlockSize_def)
    define b where "b = bytes_of (take want (drop done c))"
    obtain iv pool2 where iv: "random_bytes kIvLen (stake m rnd) = (iv, pool2)" by fastforce
    have read: "in_read want (True, drop done c) = (b, (True, drop (done + want) c))"
      using want by (simp add: in_read_def b_def add.commute)
    have len: "length b = want" using want by (simp add: b_def)
    obtain ct t where ct: "aes_gcm_seal E key iv (block_aad hdr (of_nat i)) b = Some (ct, t)"
      using less.prems(1) True read len iv
      by (subst (asm) seal_loop.simps) (auto simp: want_def [symmetric] split: option.splits)
    have lt: "length t = kTagLen" using ct assms(2) by (auto simp: openssl_ok_def)
    let ?out = "out_write sp t (out_write sp ct (out_write sp (put_u32 [] (of_nat (length ct)))
      (out_write sp iv out)))"
    have rest: "fst ?out \<and> seal_loop E key hdr (length c) sp (True, drop (done + want) c) (done + want) (of_nat (Suc i))
        (hmac_update tagger b) pool2 ?out = (Inr tg, pool', (True, d'))"
      using less.prems(1) True read len iv ct
      by (subst (asm) seal_loop.simps) (simp add: want_def [symmetric] Let_def add.commute split: if_splits)
    have ivl: "length iv = kIvLen" using aes_gcm_seal_iv [OF ct] .
    have "(0::nat) < kIvLen" by (simp add: kIvLen_def)
    note rb = random_bytes_stake [OF iv ivl this]
    let ?stop = "min (done + BLOCK_SIZE) (length c)"
    have stop: "?stop = done + want" using True by (auto simp: want_def page_constants)
    have slice: "blob_slice (bytes_of c) done (done + want) = b"
      by (simp add: blob_slice_def b_def bytes_of_def take_map drop_map)
    have enc: "wc_encrypt W key iv (blockAad hdr i) b = Some (ct @ t)"
      using assms(1,3) ivl ct by (simp add: same_standards_def blockAad_eq)
    let ?parts = "parts @ [iv, le32 (length ct), ct, t]"
    have "length c - (done + want) < length c - done" "done + want \<le> length c" using True want by simp_all
    from less.hyps [OF this(1) conjunct2 [OF rest, unfolded conjunct2 [OF conjunct2 [OF rb]]] this(2), of ?parts
        "shown @ [(?stop, length c)]"]
    obtain e bl qs k shown' where e: "?out = (True, e)" "grown sp bl e d'" "k \<le> m - kIvLen"
      "pool' = stake (m - kIvLen - k) (sdrop k (sdrop kIvLen rnd))"
      "seal_parts W key hdr (bytes_of c) (done + want) (Suc i) (sdrop kIvLen rnd) ?parts
         (shown @ [(?stop, length c)]) = (Inr qs, sdrop k (sdrop kIvLen rnd), shown')"
      "concat qs = concat ?parts @ bl"
      by blast
    obtain d where d: "out = (True, d)" "grown sp (iv @ put_u32 [] (of_nat (length ct)) @ ct @ t) d e"
      using four_writes_grown [OF e(1)] by blast
    have "seal_parts W key hdr (bytes_of c) done i rnd parts shown = (Inr qs, sdrop (kIvLen + k) rnd, shown')"
      using True stop slice enc e(5) rb lt
      by (subst seal_parts.simps) (simp add: random_values_def Let_def page_constants(2,3) sdrop_add)
    moreover have "grown sp ((iv @ put_u32 [] (of_nat (length ct)) @ ct @ t) @ bl) d d'"
      using grown_trans [OF d(2) e(2)] .
    moreover have "kIvLen + k \<le> m" "pool' = stake (m - (kIvLen + k)) (sdrop (kIvLen + k) rnd)"
      using e(3,4) conjunct1 [OF rb] by (simp, simp add: sdrop_add)
    ultimately show ?thesis using d(1) e(6) by (auto simp: le32_put)
  qed
qed


section \<open>The browser's arithmetic\<close>

lemma bit_count_bounds: "0 < n \<Longrightarrow> 2 ^ (bit_count n - 1) \<le> n \<and> n < 2 ^ bit_count n \<and> 0 < bit_count n"
proof (induction n rule: bit_count.induct)
  case (1 n)
  have step: "bit_count n = Suc (bit_count (n div 2))" using 1(2) by (subst bit_count.simps) simp
  show ?case
  proof (cases "n div 2 = 0")
    case True
    then have "n = 1" using 1(2) by simp
    then show ?thesis by (simp add: bit_count.simps [of "Suc 0"] bit_count.simps [of 0])
  next
    case False
    with 1 have IH: "2 ^ (bit_count (n div 2) - 1) \<le> n div 2" "n div 2 < 2 ^ bit_count (n div 2)"
      "0 < bit_count (n div 2)" by simp_all
    then obtain k where k: "bit_count (n div 2) = Suc k" by (cases "bit_count (n div 2)") auto
    with IH have "2 ^ Suc k \<le> n" "n < 2 ^ Suc (Suc k)" by simp_all
    then show ?thesis by (simp add: step k)
  qed
qed

lemma bit_count_le: "n < 2 ^ k \<Longrightarrow> bit_count n \<le> k"
proof (rule ccontr)
  assume n: "n < 2 ^ k" "\<not> bit_count n \<le> k"
  then have "0 < n" by (cases "n = 0") (simp_all add: bit_count.simps)
  with bit_count_bounds have "2 ^ (bit_count n - 1) \<le> n" by blast
  moreover have "(2::nat) ^ k \<le> 2 ^ (bit_count n - 1)" using n(2) by (intro power_increasing) simp_all
  ultimately have "2 ^ k \<le> n" by (rule order_trans [rotated])
  with n(1) show False by (blast dest: leD)
qed

lemma round_div_1: "round_div n (Suc 0) = n"
  by (simp add: round_div_def Let_def)

lemma to_double_exact: "n < 2 ^ 53 \<Longrightarrow> to_double n = n"
  using bit_count_le [of n 53] by (simp add: to_double_def round_div_1 Let_def)

lemma round_div_le: "m \<le> k * d \<Longrightarrow> 0 < d \<Longrightarrow> round_div m d \<le> k"
proof -
  assume m: "m \<le> k * d" "0 < d"
  have q: "m div d \<le> k" using div_le_mono [OF m(1), of d] m(2) by simp
  show ?thesis
  proof (cases "m div d = k")
    case True
    then have "m mod d = 0" using m div_mult_mod_eq [of m d] by simp
    with True m(2) show ?thesis by (simp add: round_div_def Let_def)
  qed (use q in \<open>auto simp: round_div_def Let_def\<close>)
qed

lemma round_div_gt: "2 * (k * d) + d < 2 * m \<Longrightarrow> 0 < d \<Longrightarrow> k < round_div m d"
proof -
  assume m: "2 * (k * d) + d < 2 * m" "0 < d"
  then have "k * d \<le> m" by simp
  then have q: "k \<le> m div d" using m(2) by (simp add: less_eq_div_iff_mult_less_eq)
  show ?thesis
  proof (cases "m div d = k")
    case True
    then have "d < 2 * (m mod d)" using m div_mult_mod_eq [of m d] by simp
    with True show ?thesis by (simp add: round_div_def Let_def)
  qed (use q in \<open>auto simp: round_div_def Let_def\<close>)
qed

lemma ceil_div: "0 < b \<Longrightarrow> k * b < p \<Longrightarrow> p \<le> Suc k * b \<Longrightarrow> (p + b - 1) div b = Suc k" for b :: nat
  by (rule div_nat_eqI) (simp_all add: mult.commute [of b k])

text \<open>Below 53 bits the rounded quotient has the exact quotient's ceiling.\<close>

lemma ceil_quotient_exact:
  assumes "0 < p" and "p < 2 ^ 53" and "0 < b"
  shows "ceil_quotient p b = (p + b - 1) div b"
proof -
  define k where "k = (p - 1) div b"
  have k: "k * b < p" "p \<le> Suc k * b"
  proof -
    have "k * b \<le> p - 1" "p - 1 < Suc k * b" using assms(3) dividend_less_div_times [of b "p - 1"]
      by (simp_all add: k_def)
    with assms(1) show "k * b < p" "p \<le> Suc k * b" by simp_all
  qed
  define s where "s = 54 + bit_count b"
  define m where "m = p * 2 ^ s"
  define e where "e = bit_count (m div b) - 53"
  have "b < 2 ^ bit_count b" using bit_count_bounds [OF assms(3)] by blast
  then have "2 ^ 54 * b \<le> 2 ^ 54 * 2 ^ bit_count b" by (intro mult_left_mono) simp_all
  then have "2 ^ 54 * b \<le> 2 ^ s" by (simp only: s_def power_add)
  from mult_le_mono [OF _ this, of 1 p] assms(1) have "2 ^ 54 * b \<le> m" by (simp add: m_def Suc_le_eq)
  then have big: "2 ^ 54 \<le> m div b" using assms(3) by (simp only: less_eq_div_iff_mult_less_eq)
  from less_le_trans [OF _ this, of 0] have "0 < m div b" by simp
  note bc = bit_count_bounds [OF this]
  have bc54: "54 < bit_count (m div b)"
  proof (rule ccontr)
    assume "\<not> ?thesis"
    then have "(2::nat) ^ bit_count (m div b) \<le> 2 ^ 54" by (intro power_increasing) simp_all
    with bc big have "m div b < m div b" by (blast intro: less_le_trans order_trans)
    then show False by simp
  qed
  have "m div b \<le> m" by simp
  also have "m < 2 ^ (53 + s)" using assms(2) by (simp add: m_def power_add)
  finally have "bit_count (m div b) \<le> 53 + s" by (rule bit_count_le)
  then have es: "e \<le> s" by (simp add: e_def)
  have e: "bit_count (m div b) = 53 + e" using bc54 by (simp add: e_def)
  define u where "u = b * 2 ^ e"
  have u: "0 < u" using assms(3) by (simp add: u_def)
  have pow: "(2::nat) ^ s = 2 ^ (s - e) * 2 ^ e" using es by (simp flip: power_add)
  have "m \<le> (Suc k * 2 ^ (s - e)) * u"
  proof -
    have "m \<le> (Suc k * b) * 2 ^ s" using k(2) unfolding m_def by (rule mult_right_mono) simp
    also have "\<dots> = (Suc k * 2 ^ (s - e)) * u" by (simp only: pow u_def mult.assoc mult.commute mult.left_commute)
    finally show ?thesis .
  qed
  from round_div_le [OF this u] have hi: "round_div m u \<le> Suc k * 2 ^ (s - e)" .
  have "2 ^ (52 + e) \<le> m div b" using bc e by simp
  then have "2 ^ (52 + e) * b \<le> m" using assms(3) by (simp add: less_eq_div_iff_mult_less_eq)
  moreover have "m < 2 ^ 53 * 2 ^ s" using mult_less_mono1 [OF assms(2), of "2 ^ s"] by (simp only: m_def) simp
  ultimately have "2 ^ (52 + e) * b < 2 ^ 53 * 2 ^ s" by (rule le_less_trans)
  then have "2 ^ 52 * u < 2 ^ 53 * 2 ^ s" by (simp only: u_def power_add mult.assoc mult.commute [of b])
  then have "u < 2 * 2 ^ s" by simp
  moreover have "k * b * 2 ^ s + 2 ^ s \<le> m"
  proof -
    have "Suc (k * b) * 2 ^ s \<le> p * 2 ^ s" using k(1) by (intro mult_right_mono) simp_all
    then show ?thesis by (simp add: m_def add.commute)
  qed
  moreover have "k * b * 2 ^ s = k * 2 ^ (s - e) * u" by (simp only: pow u_def mult.assoc mult.commute mult.left_commute)
  ultimately have "2 * (k * 2 ^ (s - e) * u) + u < 2 * m" by linarith
  from round_div_gt [OF this u] have lo: "k * 2 ^ (s - e) < round_div m u" .
  have "k * 2 ^ s < round_div m u * 2 ^ e" "round_div m u * 2 ^ e \<le> Suc k * 2 ^ s"
    using mult_less_mono1 [OF lo, of "2 ^ e"] mult_right_mono [OF hi, of "2 ^ e"]
    by (simp_all only: pow mult.assoc) simp_all
  from ceil_div [OF _ this] have "ceil_quotient p b = Suc k"
    by (simp add: ceil_quotient_def Let_def u_def m_def e_def s_def)
  also have "Suc k = (p + b - 1) div b" using ceil_div [OF assms(3) k] by simp
  finally show ?thesis .
qed


section \<open>What the page opens\<close>

lemma read_le_cong: "(\<And>j. j < k \<Longrightarrow> xs ! (i + j) = ys ! (m + j)) \<Longrightarrow> read_le k xs i = read_le k ys m"
  unfolding read_le_def by (rule arg_cong [where f = sum_list], rule map_cong) simp_all

lemma length_le_bytes [simp]: "length (le_bytes k n) = k"
  by (simp add: le_bytes_def)

lemma read_le_bytes: "read_le k (le_bytes k n) 0 = n mod 256 ^ k"
proof (induction k)
  case (Suc k)
  have "read_le k (le_bytes (Suc k) n) 0 = read_le k (le_bytes k n) 0"
    by (rule read_le_cong) (simp add: le_bytes_def nth_append)
  moreover have "le_bytes (Suc k) n ! k = of_nat (n div 256 ^ k)"
    by (simp add: le_bytes_def nth_append)
  moreover have "unat (of_nat (n div 256 ^ k) :: byte) = (n div 256 ^ k) mod 256"
    by (simp add: unat_of_nat)
  ultimately show ?case
    using Suc mod_mult2_eq [of n "256 ^ k" 256] by (simp add: read_le_def mult.commute)
qed (simp add: read_le_def)

lemma read_le_at: "length a = i \<Longrightarrow> read_le k (a @ le_bytes k n @ r) i = n mod 256 ^ k"
  using read_le_cong [of k "a @ le_bytes k n @ r" i "le_bytes k n" 0] read_le_bytes [of k n]
  by (simp add: nth_append)

lemma readLe32_at: "length a = i \<Longrightarrow> readLe32 (a @ put_u32 [] v @ r) i = unat v"
proof -
  have "unat v < 2 ^ LENGTH(32)" by (rule unsigned_less)
  then have "unat v < 256 ^ 4" by simp
  then show "length a = i \<Longrightarrow> readLe32 (a @ put_u32 [] v @ r) i = unat v"
    using read_le_at [of a i 4 "unat v" r] le32_put [of "unat v"] by (simp add: readLe32_def le32_def)
qed

lemma readLe64_at: "length a = i \<Longrightarrow> readLe64 (a @ put_u64 [] v @ r) i = to_double (unat v)"
proof -
  have "unat v < 2 ^ LENGTH(64)" by (rule unsigned_less)
  then have "unat v < 256 ^ 8" by simp
  then show "length a = i \<Longrightarrow> readLe64 (a @ put_u64 [] v @ r) i = to_double (unat v)"
    using read_le_at [of a i 8 "unat v" r] le64_put [of "unat v"] by (simp add: readLe64_def le64_def)
qed

lemma blob_slice_at: "length a = i \<Longrightarrow> length x = j - i \<Longrightarrow> blob_slice (a @ x @ r) i j = x"
  by (simp add: blob_slice_def)

lemma same_decrypt:
  assumes "same_standards W E" and "length key = kKeyLen" and "length iv = kIvLen" and "length t = kTagLen"
  shows "wc_decrypt W key iv aad (c @ t) = aes_gcm_open E key iv aad c t"
  using assms by (simp add: same_standards_def)

lemma open_parts_accepts:
  assumes "same_standards W E" and "openssl_ok E" and "length key = kKeyLen"
    and "sealed E key hdr i ps bl" and "\<forall>p\<in>set ps. length p < 2 ^ 32" and "length pre = n"
  shows "open_parts W key hdr (pre @ bl @ rest) (Some (i + length ps)) i n parts done =
    Inr (parts @ ps, done + length (concat ps))"
  using assms(4-6)
proof (induction ps arbitrary: i bl pre n parts "done")
  case Nil
  then show ?case by (simp add: open_parts.simps more_blocks_def)
next
  case (Cons p ps)
  then obtain iv c t bl' where b: "length iv = kIvLen"
    "aes_gcm_seal E key iv (block_aad hdr (of_nat i)) p = Some (c, t)"
    "bl = iv @ put_u32 [] (of_nat (length c)) @ c @ t @ bl'" "sealed E key hdr (Suc i) ps bl'"
    by auto
  have len: "length c = length p" "length t = kTagLen"
    and dec: "aes_gcm_open E key iv (block_aad hdr (of_nat i)) c t = Some p"
    using b(2) assms(2) by (auto simp: openssl_ok_def)
  let ?le = "put_u32 [] (of_nat (length c) :: u32)"
  let ?blob = "pre @ bl @ rest"
  have meta: "blob_slice ?blob n (n + IV_LEN + 4) = iv @ ?le"
    using blob_slice_at [of pre n "iv @ ?le" "n + IV_LEN + 4" "c @ t @ bl' @ rest"] b(1,3) Cons.prems(3)
    by (simp add: page_constants u32.width)
  have "unat (of_nat (length c) :: u32) = length c" using Cons.prems(2) len by (simp add: unat_of_nat)
  then have n: "readLe32 (iv @ ?le) IV_LEN = length c"
    using readLe32_at [of iv IV_LEN "of_nat (length c)" "[]"] b(1) by (simp add: page_constants)
  have text_at: "blob_slice ?blob (n + IV_LEN + 4) (n + IV_LEN + 4 + length c + TAG_LEN) = c @ t"
    using blob_slice_at [of "pre @ iv @ ?le" "n + IV_LEN + 4" "c @ t" _ "bl' @ rest"] b(1,3) len(2) Cons.prems(3)
    by (simp add: page_constants u32.width)
  have "open_parts W key hdr ?blob (Some (Suc i + length ps)) (Suc i) (n + IV_LEN + 4 + length c + TAG_LEN) (parts @ [p])
      (done + length p) = Inr ((parts @ [p]) @ ps, done + length p + length (concat ps))"
    using Cons.IH [OF b(4), of "pre @ iv @ ?le @ c @ t" _ "parts @ [p]" "done + length p"] Cons.prems(2,3) b(1,3) len(2)
    by (simp add: page_constants u32.width add.assoc)
  moreover have "wc_decrypt W key (take IV_LEN (iv @ ?le)) (blockAad hdr i) (c @ t) = Some p"
    using same_decrypt [OF assms(1,3) b(1) len(2)] dec b(1) by (simp add: blockAad_eq page_constants)
  ultimately show ?case
    using meta n text_at b(1) len
    by (subst open_parts.simps) (simp add: more_blocks_def Let_def u32.width page_constants(2,3))
qed

lemma readLe32_get: "i + 4 \<le> length bs \<Longrightarrow> readLe32 bs i = unat (get_u32 (take 4 (drop i bs)))"
proof -
  assume i: "i + 4 \<le> length bs"
  have "bs = take i bs @ take 4 (drop i bs) @ drop (i + 4) bs"
    by (metis append_take_drop_id drop_drop add.commute)
  moreover have "take 4 (drop i bs) = put_u32 [] (get_u32 (take 4 (drop i bs)))"
    using i by (simp add: u32.enc_dec)
  ultimately show ?thesis
    using readLe32_at [of "take i bs" i "get_u32 (take 4 (drop i bs))" "drop (i + 4) bs"] i by simp
qed

lemma cut_at: "drop n xs = take k (drop n xs) @ drop (n + k) xs"
  by (metis append_take_drop_id drop_drop add.commute)

lemma open_parts_sound:
  assumes "same_standards W E" and "openssl_ok E" and "length key = kKeyLen"
    and "open_parts W key hdr blob blocks i n parts done = Inr (qs, total_len)" and "n \<le> length blob"
  shows "\<exists>ps bl rest. qs = parts @ ps \<and> total_len = done + length (concat ps) \<and> drop n blob = bl @ rest \<and>
    sealed E key hdr i ps bl \<and> (case blocks of None \<Rightarrow> False | Some b \<Rightarrow> length ps = b - i) \<and>
    (\<forall>p\<in>set ps. length p < 2 ^ 32)"
  using assms(4,5)
proof (induction "length blob - n" arbitrary: n i parts "done" rule: less_induct)
  case less
  show ?case
  proof (cases "more_blocks i blocks")
    case False
    with less.prems show ?thesis
      by (intro exI [of _ "[] :: bytes list"] exI [of _ "[] :: bytes"] exI [of _ "drop n blob"])
        (auto simp: open_parts.simps more_blocks_def split: option.splits)
  next
    case True
    let ?meta = "blob_slice blob n (n + IV_LEN + 4)"
    let ?n = "readLe32 ?meta IV_LEN"
    let ?m = "n + IV_LEN + 4"
    let ?s = "blob_slice blob ?m (?m + ?n + TAG_LEN)"
    have len: "length ?meta = IV_LEN + 4" "length ?s = ?n + TAG_LEN"
      using less.prems(1) True by (auto simp: open_parts.simps [of _ _ _ _ _ i] Let_def split: if_splits)
    then obtain p where p: "wc_decrypt W key (take IV_LEN ?meta) (blockAad hdr i) ?s = Some p"
      and run: "open_parts W key hdr blob blocks (i + 1) (?m + ?n + TAG_LEN) (parts @ [p]) (done + length p) =
        Inr (qs, total_len)"
      using less.prems(1) True by (auto simp: open_parts.simps [of _ _ _ _ _ i] Let_def split: if_splits option.splits)
    define iv where "iv = take IV_LEN ?meta"
    define c where "c = take ?n ?s"
    define t where "t = drop ?n ?s"
    have ct: "?s = c @ t" "length c = ?n" "length t = kTagLen" "length iv = kIvLen"
      using len by (simp_all add: c_def t_def iv_def page_constants)
    have seal: "aes_gcm_seal E key iv (block_aad hdr (of_nat i)) p = Some (c, t)"
      using p same_decrypt [OF assms(1,3) ct(4,3)] ct assms(2)
      by (simp add: iv_def [symmetric] blockAad_eq openssl_ok_def)
    have "length c = length p" using seal assms(2) by (auto simp: openssl_ok_def)
    define g where "g = get_u32 (drop IV_LEN ?meta)"
    have g: "?n = unat g" using readLe32_get [of IV_LEN ?meta] len(1) by (simp add: g_def)
    have le: "drop IV_LEN ?meta = put_u32 [] (of_nat (length c))"
      using len(1) ct(2) g u32.enc_dec [of "drop IV_LEN ?meta"] by (simp add: g_def)
    have bound: "?m + ?n + TAG_LEN \<le> length blob" using len(2) less.prems(2) by (simp add: blob_slice_def page_lengths)
    have cut: "drop n blob = ?meta @ ?s @ drop (?m + ?n + TAG_LEN) blob"
    proof -
      have "drop n blob = take (IV_LEN + 4) (drop n blob) @ drop ?m blob"
        using cut_at [of n blob "IV_LEN + 4"] by (simp only: add.assoc)
      moreover have "drop ?m blob = take (?n + TAG_LEN) (drop ?m blob) @ drop (?m + ?n + TAG_LEN) blob"
        using cut_at [of ?m blob "?n + TAG_LEN"] by (simp only: add.assoc)
      moreover have "?meta = take (IV_LEN + 4) (drop n blob)" "?s = take (?n + TAG_LEN) (drop ?m blob)"
        by (simp_all add: blob_slice_def)
      ultimately show ?thesis by (simp only: append.assoc)
    qed
    have "length blob - (?m + ?n + TAG_LEN) < length blob - n" using bound by (simp add: page_lengths)
    from less.hyps [OF this run bound] obtain ps bl rest where ps: "qs = (parts @ [p]) @ ps"
      "total_len = done + length p + length (concat ps)" "drop (?m + ?n + TAG_LEN) blob = bl @ rest"
      "sealed E key hdr (i + 1) ps bl" "case blocks of None \<Rightarrow> False | Some b \<Rightarrow> length ps = b - (i + 1)"
      "\<forall>p\<in>set ps. length p < 2 ^ 32" by blast
    have "?meta = iv @ put_u32 [] (of_nat (length c))" by (simp add: iv_def flip: le)
    then have "drop n blob = (iv @ put_u32 [] (of_nat (length c)) @ c @ t @ bl) @ rest"
      using cut ct(1) ps(3) by simp
    moreover have "sealed E key hdr i (p # ps) (iv @ put_u32 [] (of_nat (length c)) @ c @ t @ bl)"
      using seal ct(4) ps(4) by auto
    moreover have "length p < 2 ^ 32"
    proof -
      have "unat g < 2 ^ LENGTH(32)" by (rule unsigned_less)
      then show ?thesis using g ct(2) \<open>length c = length p\<close> by simp
    qed
    moreover have "case blocks of None \<Rightarrow> False | Some b \<Rightarrow> length (p # ps) = b - i"
      using ps(5) True by (auto simp: more_blocks_def split: option.splits)
    ultimately show ?thesis using ps(1,2,6)
      by (intro exI [of _ "p # ps"] exI [of _ "iv @ put_u32 [] (of_nat (length c)) @ c @ t @ bl"] exI [of _ rest]) auto
  qed
qed


section \<open>The page and the client agree\<close>

lemma openBlob_header:
  assumes "length (salt h) = kSaltLen"
  shows "openBlob W pw (build_header h @ body) =
    (case contentKey W pw (salt h) (unat (iterations h)) of
       None \<Rightarrow> Inl OperationFailed
     | Some key \<Rightarrow>
         let n = to_double (unat (plain_size h)); b = unat (block_size h)
         in case open_parts W key (build_header h) (build_header h @ body)
             (if n = 0 then Some 0 else if b = 0 then None else Some (ceil_quotient n b)) 0 HEADER_LEN [] 0 of
              Inl e \<Rightarrow> Inl e
            | Inr (parts, done) \<Rightarrow> if done \<noteq> n then Inl RecoveredSizeDiffers else Inr (concat parts))"
proof -
  note lens = length_magic u32.width u64.width
  let ?h = "build_header h"
  have s: "length (salt h) = 16" using assms by (simp add: kSaltLen_def)
  have eq: "?h = kStreamMagic @ [kStreamVersion] @ put_u32 [] (iterations h) @ salt h @
     put_u32 [] (block_size h) @ put_u64 [] (plain_size h)" by (rule build_header_eq)
  have len: "length ?h = 37" by (simp add: eq lens s)
  have 1: "readLe32 ?h 5 = unat (iterations h)"
    using readLe32_at [of "kStreamMagic @ [kStreamVersion]" 5] by (simp add: eq lens)
  have 2: "readLe32 ?h 25 = unat (block_size h)"
    using readLe32_at [of "kStreamMagic @ [kStreamVersion] @ put_u32 [] (iterations h) @ salt h" 25 _
        "put_u64 [] (plain_size h)"] by (simp add: eq lens s)
  have 3: "readLe64 ?h 29 = to_double (unat (plain_size h))"
    using readLe64_at [of "kStreamMagic @ [kStreamVersion] @ put_u32 [] (iterations h) @ salt h @
        put_u32 [] (block_size h)" 29 _ "[]"] by (simp add: eq lens s)
  have 4: "blob_slice ?h 9 25 = salt h"
    using blob_slice_at [of "kStreamMagic @ [kStreamVersion] @ put_u32 [] (iterations h)" 9 "salt h" 25]
    by (simp add: eq lens s)
  have 5: "blob_slice (?h @ body) 0 HEADER_LEN = ?h" by (simp add: blob_slice_def len HEADER_LEN_def)
  have "\<forall>i<4. ?h ! i = kStreamMagic ! i" by (simp add: eq lens nth_append)
  then have 6: "\<not> list_ex (\<lambda>i. ?h ! i \<noteq> MAGIC ! i) [0..<4]"
    by (simp add: list_ex_iff page_constants)
  have 7: "?h ! 4 = VERSION" by (simp add: eq lens nth_append page_constants)
  show ?thesis
    unfolding openBlob_def Let_def 5 using 1 2 3 4 6 7 len by (simp add: page_lengths split: option.split sum.split)
qed

lemma openBlob_sealed:
  assumes "same_standards W E" and "openssl_ok E"
    and h: "length (salt h) = kSaltLen" "block_size h \<noteq> 0"
    and key: "length (derive_key E pw (salt h) kContentKeyLabel (iterations h)) = kKeyLen"
    and ps: "sealed E (derive_key E pw (salt h) kContentKeyLabel (iterations h)) (build_header h) 0 ps bl"
      "length ps = unat (block_count (plain_size h) (block_size h))"
      "length (concat ps) = unat (plain_size h)" "\<forall>p\<in>set ps. length p < 2 ^ 32"
    and small: "unat (plain_size h) < 2 ^ 53"
  shows "openBlob W pw (build_header h @ bl @ rest) = Inr (concat ps)"
proof -
  let ?key = "derive_key E pw (salt h) kContentKeyLabel (iterations h)"
  let ?n = "unat (plain_size h)" let ?b = "unat (block_size h)"
  have b: "0 < ?b" using h(2) by (simp add: unat_gt_0)
  have k: "contentKey W pw (salt h) (unat (iterations h)) = Some ?key"
    using contentKey_derive [OF assms(1,2)] key by blast
  have n: "to_double ?n = ?n" using small by (rule to_double_exact)
  have count: "length ps = (?n + ?b - 1) div ?b"
  proof -
    have "?b < 2 ^ LENGTH(32)" by (rule unsigned_less)
    then have "?n + ?b \<le> 2 ^ 63 + 2 ^ 32" using small by simp
    from block_count_eq [OF this b] ps(2) show ?thesis by simp
  qed
  have blocks: "(if ?n = 0 then Some 0 else if ?b = 0 then None else Some (ceil_quotient ?n ?b)) = Some (0 + length ps)"
    using ceil_quotient_exact [OF _ small b] b count by (cases "?n = 0") auto
  have len: "length (build_header h) = HEADER_LEN"
    using h(1) by (simp add: build_header_eq length_magic u32.width u64.width page_lengths kSaltLen_def)
  show ?thesis
    unfolding openBlob_header [OF h(1)] k option.case Let_def n blocks
      open_parts_accepts [OF assms(1,2) key ps(1,4) len]
    using ps(3) by simp
qed

lemma page_opens_client_stream:
  assumes "same_standards W E" and "openssl_ok E"
    and "open_file E d sp out pw = (Inr (), d')" and "fs_read d sp = Some s" and "faults d = []"
    and "fs_read d' out = Some c" and "length c < 2 ^ 53"
  shows "openBlob W pw (bytes_of s) = Inr (bytes_of c)"
proof -
  obtain h ps bl rest where h: "header_ok h" "s = string_of (build_header h @ bl @ rest)"
    "sealed E (derive_key E pw (salt h) kContentKeyLabel (iterations h)) (build_header h) 0 ps bl"
    "length ps = unat (block_count (plain_size h) (block_size h))"
    "length (concat ps) = unat (plain_size h)" "\<forall>p\<in>set ps. length p \<le> unat (block_size h)"
    "fs_read d' out = Some (string_of (concat ps))"
    using open_file_accepts [OF assms(2-4)] assms(5) by auto
  obtain h' body where h': "header_ok h'" "s = string_of (build_header h' @ body)"
    "length (derive_key E pw (salt h') kContentKeyLabel (iterations h')) = kKeyLen"
    using open_file_stream [OF assms(3,4)] by blast
  have "build_header h = build_header h'"
    using h(2) h'(2) length_build_header [OF h(1)] length_build_header [OF h'(1)]
    by (auto simp: append_eq_append_conv)
  then have "h' = h" using parse_build_header [OF h(1)] parse_build_header [OF h'(1)]
    by (metis sum.inject(2))
  have c: "c = string_of (concat ps)" using h(7) assms(6) by simp
  have "\<forall>p\<in>set ps. length p < 2 ^ 32"
  proof
    fix p assume "p \<in> set ps"
    then have "length p \<le> unat (block_size h)" using h(6) by blast
    also have "unat (block_size h) < 2 ^ LENGTH(32)" by (rule unsigned_less)
    finally show "length p < 2 ^ 32" by simp
  qed
  moreover have "unat (plain_size h) < 2 ^ 53" using assms(7) h(5) by (simp add: c)
  ultimately show ?thesis
    using openBlob_sealed [OF assms(1,2) _ _ _ h(3-5), of rest] h(1) h'(3) \<open>h' = h\<close>
    by (simp add: h(2) c header_ok_def)
qed

text \<open>C20: Whatever stream the client opens, the page opens to the same bytes.\<close>

theorem page_opens_like_client:
  assumes "same_standards W E" and "openssl_ok E"
    and "open_file E d sp out pw = (Inr (), d')" and "fs_read d sp = Some s" and "faults d = []"
    and "fs_read d' out = Some c" and "length c < 2 ^ 53"
  shows "openBlob W pw (bytes_of s) = Inr (bytes_of c)"
  using assms by (rule page_opens_client_stream)

lemma page_stream_opens:
  assumes "same_standards W E" and "openssl_ok E"
    and "sealFile W pw (bytes_of c) rnd = (Inr s, rnd', shown)" and "length c < 2 ^ 53"
  shows "openBlob W pw s = Inr (bytes_of c)"
    and "faults e = [] \<Longrightarrow> fs_read e q = Some (string_of s) \<Longrightarrow> writable e out \<Longrightarrow>
      open_file E e q out pw = (Inr (), put e out c)"
proof -
  obtain st bl where st: "st = stake kSaltLen rnd"
    "length (derive_key E pw st kContentKeyLabel kKdfIterations) = kKeyLen"
    "sealed E (derive_key E pw st kContentKeyLabel kKdfIterations) (build_header (sealed_header st (length c))) 0
      (pieces (unat kBlockSize) c) bl" and s: "s = build_header (sealed_header st (length c)) @ bl"
    using sealFile_sealed [OF assms(1-3)] by blast
  have len: "length st = kSaltLen" by (simp add: st(1))
  have small: "length c < 2 ^ 63" using assms(4) by (rule less_trans) simp
  have n: "unat (of_nat (length c) :: u64) = length c" using small by (simp add: unat_of_nat)
  define h where "h = sealed_header st (length c)"
  have h: "salt h = st" "iterations h = kKdfIterations" "block_size h = kBlockSize" "plain_size h = of_nat (length c)"
    by (simp_all add: h_def sealed_header_def)
  have cat: "concat (pieces (unat kBlockSize) c) = bytes_of c"
    by (rule concat_pieces) (simp add: unat_kBlockSize)
  have "\<forall>p\<in>set (pieces (unat kBlockSize) c). length p < 2 ^ 32"
    using pieces_bound [of _ "unat kBlockSize" c] by (fastforce simp: unat_kBlockSize)
  moreover have "kBlockSize \<noteq> 0" by (simp add: kBlockSize_def)
  ultimately have "openBlob W pw (build_header h @ bl @ []) = Inr (concat (pieces (unat kBlockSize) c))"
    using assms(1,2,4) st(2,3) len
    by (intro openBlob_sealed) (simp_all only: h n block_count_sealed [OF small] cat length_bytes_of h_def [symmetric] not_False_eq_True)
  then show "openBlob W pw s = Inr (bytes_of c)" by (simp add: cat s h_def)
  show "open_file E e q out pw = (Inr (), put e out c)"
    if "faults e = []" "fs_read e q = Some (string_of s)" "writable e out"
    by (rule open_file_stream_sealed [OF assms(2) len st(2,3) that(2) [unfolded s] small that(1,3)])
qed

text \<open>C19: What the page seals, the page and the client open to the same bytes.\<close>

theorem page_seal_round_trip:
  assumes "same_standards W E" and "openssl_ok E"
    and "sealFile W pw (bytes_of c) rnd = (Inr s, rnd', shown)" and "length c < 2 ^ 53"
    and "faults e = []" and "fs_read e q = Some (string_of s)" and "writable e out"
  shows "openBlob W pw s = Inr (bytes_of c) \<and> open_file E e q out pw = (Inr (), put e out c)"
  using page_stream_opens [OF assms(1-4)] assms(5-7) by blast

lemma seal_file_page:
  assumes "same_standards W E" and "openssl_ok E"
    and "seal_file E d (stake m rnd) pp sp pw = (Inr tag, pool', d')" and "fs_read d pp = Some c"
  shows "\<exists>s k shown. sealFile W pw (bytes_of c) rnd = (Inr s, sdrop k rnd, shown) \<and>
    fs_read d' sp = Some (string_of s) \<and> k \<le> m \<and> pool' = stake (m - k) (sdrop k rnd)"
proof -
  have size: "fs_size d pp = Some (length c)" using assms(4) by (simp add: fs_size_def)
  obtain s pool1 where s: "random_bytes kSaltLen (stake m rnd) = (s, pool1)" by fastforce
  let ?key = "derive_key E pw s kContentKeyLabel kKdfIterations"
  let ?h = "build_header (sealed_header s (length c))"
  let ?t = "hmac_new E (derive_dedup_key E pw)"
  from assms(3,4) size s have len: "length s = kSaltLen" "length ?key = kKeyLen"
    by (auto simp: seal_file_def Let_def split: if_splits)
  have "0 < kSaltLen" by (simp add: kSaltLen_def)
  note rb = random_bytes_stake [OF s len(1) this]
  obtain d1 where d1: "fs_create d sp = (True, d1)"
    using assms(3,4) size s len by (auto simp: seal_file_def Let_def split: if_splits prod.splits)
  let ?run = "seal_loop E ?key ?h (length c) sp (True, c) 0 0 ?t pool1 (out_write sp ?h (True, d1))"
  obtain tg out2 where run: "?run = (Inr tg, pool', out2)" and fl: "fst (out_flush sp out2)" "d' = snd (out_flush sp out2)"
    using assms(3,4) size s len d1
    by (cases ?run; cases "fst ?run")
      (auto simp: seal_file_def Let_def sealed_header_def split: if_splits prod.splits sum.splits)
  then have flush: "out_flush sp out2 = (True, d')" by (simp add: prod_eq_iff)
  then obtain d2 where d2: "out2 = (True, d2)" "fs_flush d2 sp = (True, d')"
    by (cases out2) (auto simp: out_flush_def split: if_splits)
  have run': "seal_loop E ?key ?h (length c) sp (True, drop 0 c) 0 (of_nat 0) ?t
      (stake (m - kSaltLen) (sdrop kSaltLen rnd)) (out_write sp ?h (True, d1)) = (Inr tg, pool', (True, d2))"
    using run d2(1) rb by simp
  obtain e bl qs k shown where e: "out_write sp ?h (True, d1) = (True, e)" "grown sp bl e d2" "k \<le> m - kSaltLen"
    "pool' = stake (m - kSaltLen - k) (sdrop k (sdrop kSaltLen rnd))"
    "seal_parts W ?key ?h (bytes_of c) 0 0 (sdrop kSaltLen rnd) [?h] [] = (Inr qs, sdrop k (sdrop kSaltLen rnd), shown)"
    "concat qs = concat [?h] @ bl"
    using seal_loop_page [OF assms(1,2) len(2) run', of "[?h]" "[]"] by auto
  have "grown sp (?h @ bl) d1 d2" using grown_trans [OF _ e(2)] out_write_grown [OF e(1)] by auto
  moreover have "fs_read d1 sp = Some []" using create_effect d1 by simp
  ultimately have "fs_read d' sp = Some (string_of (?h @ bl))"
    using flush_effect [OF d2(2)] by (simp add: grown_def)
  moreover have "contentKey W pw s (unat kKdfIterations) = Some ?key"
    using contentKey_derive [OF assms(1,2)] len(2) by blast
  then have "sealFile W pw (bytes_of c) rnd = (Inr (?h @ bl), sdrop (kSaltLen + k) rnd, shown)"
    using e(5,6) rb by (simp add: sealFile_def random_values_def page_constants(1,6) buildHeader_eq sdrop_add)
  ultimately show ?thesis using e(3,4) conjunct1 [OF rb] by (auto simp: sdrop_add)
qed

text \<open>C5: Given the same passphrase, the same bytes and the same entropy, the page writes the very stream the
  client writes, and the same tag for a file small enough to have one.\<close>

theorem page_seals_like_client:
  assumes "same_standards W E" and "openssl_ok E"
    and "seal_file E d (stake m rnd) pp sp pw = (Inr tag, pool', d')" and "fs_read d pp = Some c"
  shows "(\<exists>s rnd' shown. sealFile W pw (bytes_of c) rnd = (Inr s, rnd', shown) \<and> fs_read d' sp = Some (string_of s)) \<and>
    (length (derive_dedup_key E pw) = kKeyLen \<longrightarrow>
       dedupTagFor W pw (bytes_of c) = Some (if length c \<le> DEDUP_LIMIT then tag else []))"
proof -
  have "tag = plain_tag E pw c" using seal_file_success [OF assms(3,4)] by blast
  then have "length (derive_dedup_key E pw) = kKeyLen \<longrightarrow>
      dedupTagFor W pw (bytes_of c) = Some (if length c \<le> DEDUP_LIMIT then tag else [])"
    using dedupTagFor_eq [OF assms(1), of c pw] by (auto simp: dedupTagFor_def)
  with seal_file_page [OF assms] show ?thesis by blast
qed

lemma openBlob_parts:
  assumes "same_standards W E" and "openssl_ok E" and "openBlob W pw blob = Inr p"
  shows "\<exists>h ps bl rest. length (salt h) = kSaltLen \<and> blob = build_header h @ bl @ rest \<and>
    sealed E (derive_key E pw (salt h) kContentKeyLabel (iterations h)) (build_header h) 0 ps bl \<and>
    p = concat ps \<and> length p = to_double (unat (plain_size h))"
proof -
  let ?raw = "blob_slice blob 0 HEADER_LEN"
  have raw: "length ?raw = 37" "\<forall>i<4. ?raw ! i = MAGIC ! i" "?raw ! 4 = VERSION"
    using assms(3) by (auto simp: openBlob_def HEADER_LEN_def list_ex_iff Let_def split: if_splits)
  then have "take 4 ?raw = kStreamMagic"
    by (intro nth_equalityI) (simp_all add: page_constants length_magic)
  define h where "h = \<lparr>iterations = get_u32 (drop 5 ?raw), salt = take 16 (drop 9 ?raw),
        block_size = get_u32 (drop 25 ?raw), plain_size = get_u64 (drop 29 ?raw)\<rparr>"
  have h: "build_header h = ?raw"
    unfolding h_def by (rule header_fields) (use raw \<open>take 4 ?raw = kStreamMagic\<close> in \<open>simp_all add: page_constants\<close>)
  have salt: "length (salt h) = kSaltLen" using raw(1) by (simp add: h_def kSaltLen_def)
  have blob: "blob = build_header h @ drop 37 blob"
    using h by (simp add: blob_slice_def HEADER_LEN_def)
  have len: "length blob \<ge> 37" using raw(1) by (simp add: blob_slice_def HEADER_LEN_def)
  let ?n = "to_double (unat (plain_size h))"
  let ?blocks = "if ?n = 0 then Some 0 else if unat (block_size h) = 0 then None
    else Some (ceil_quotient ?n (unat (block_size h)))"
  have run: "openBlob W pw (build_header h @ drop 37 blob) = Inr p" using assms(3) blob by simp
  obtain key qs where key: "contentKey W pw (salt h) (unat (iterations h)) = Some key"
    and qs: "open_parts W key (build_header h) blob ?blocks 0 HEADER_LEN [] 0 = Inr (qs, ?n)" "p = concat qs"
    using run [unfolded openBlob_header [OF salt]] unfolding blob [symmetric] Let_def
    by (auto split: option.splits sum.splits if_splits)
  have k: "derive_key E pw (salt h) kContentKeyLabel (iterations h) = key" "length key = kKeyLen"
    using contentKey_derive [OF assms(1,2), of pw "salt h" "iterations h" key] key by simp_all
  have "HEADER_LEN \<le> length blob" using len by (simp add: HEADER_LEN_def)
  from open_parts_sound [OF assms(1,2) k(2) qs(1) this] obtain ps bl rest where
    ps: "qs = ps" "?n = length (concat ps)" "drop 37 blob = bl @ rest" "sealed E key (build_header h) 0 ps bl"
    by (auto simp: HEADER_LEN_def)
  then show ?thesis using salt k(1) qs(2) blob by metis
qed

text \<open>C21: If the page opens a stream, it is a header followed by authentic blocks under their own index, and
  the result is exactly their plain text.\<close>

theorem page_open_sound:
  assumes "same_standards W E" and "openssl_ok E" and "openBlob W pw blob = Inr p"
  shows "\<exists>h ps bl rest. length (salt h) = kSaltLen \<and> blob = build_header h @ bl @ rest \<and>
    sealed E (derive_key E pw (salt h) kContentKeyLabel (iterations h)) (build_header h) 0 ps bl \<and>
    p = concat ps \<and> length p = to_double (unat (plain_size h))"
  using assms by (rule openBlob_parts)


section \<open>What authentication does not cover\<close>

text \<open>
  The stream with the eight bytes of its plain size set to zero. A header is authenticated with the blocks
  only, so a header that announces none is believed.
\<close>

definition emptied :: "string \<Rightarrow> string" where
  "emptied s = take 29 s @ replicate 8 (CHR 0x00) @ drop 37 s"

lemma emptied_between:
  assumes "length a = 29" and "length z = 8"
  shows "emptied (string_of (a @ z @ bl)) = string_of a @ replicate 8 (CHR 0x00) @ string_of bl"
  using assms by (simp add: emptied_def string_of_append)

lemma emptied_header:
  assumes "length (salt h) = kSaltLen"
  shows "emptied (string_of (build_header h @ bl)) = string_of (build_header (h\<lparr>plain_size := 0\<rparr>) @ bl)"
proof -
  let ?a = "kStreamMagic @ [kStreamVersion] @ put_u32 [] (iterations h) @ salt h @ put_u32 [] (block_size h)"
  have a: "length ?a = 29" using assms by (simp add: length_magic u32.width kSaltLen_def)
  have h: "build_header h @ bl = ?a @ put_u64 [] (plain_size h) @ bl"
    "build_header (h\<lparr>plain_size := 0\<rparr>) @ bl = ?a @ put_u64 [] 0 @ bl"
    by (simp_all add: build_header_eq)
  have z: "string_of (put_u64 [] 0) = replicate 8 (CHR 0x00)" by code_simp
  have "emptied (string_of (?a @ put_u64 [] (plain_size h) @ bl)) = string_of ?a @ replicate 8 (CHR 0x00) @ string_of bl"
    by (rule emptied_between [OF a]) (simp add: u64.width)
  then show ?thesis unfolding h z [symmetric] by (simp only: string_of_append)
qed

lemma empty_stream_opens:
  assumes "openssl_ok E" and "openssl_works E" and "header_ok h" and "plain_size h = 0"
    and "faults e = []" and "fs_read e q = Some (string_of (build_header h @ bl))" and "writable e out"
  shows "open_file E e q out pw = (Inr (), put e out [])"
    and "same_standards W E \<Longrightarrow> openBlob W pw (build_header h @ bl) = Inr []"
proof -
  have "pbkdf2_hmac_sha256 E pw (bytes_of kContentKeyLabel @ salt h) (iterations h) kKeyLen \<noteq> None"
    using assms(2) unfolding openssl_works_def by blast
  then obtain k where k: "pbkdf2_hmac_sha256 E pw (bytes_of kContentKeyLabel @ salt h) (iterations h) kKeyLen = Some k"
    by auto
  then have key: "length (derive_key E pw (salt h) kContentKeyLabel (iterations h)) = kKeyLen"
    using assms(1) by (auto simp: derive_key_def openssl_ok_def)
  have "fs_create e out = (True, put e out [])" using assms(5,7) by (simp add: create_ok writable_def)
  then show "open_file E e q out pw = (Inr (), put e out [])"
    using open_file_run [OF assms(6,3) key, of out] assms(4,5)
    by (simp add: block_count_def open_loop.simps out_flush_def fault_free fs_simps)
  show "openBlob W pw (build_header h @ bl) = Inr []" if "same_standards W E"
  proof -
    have "length (salt h) = kSaltLen" using assms(3) by (simp add: header_ok_def)
    moreover have "contentKey W pw (salt h) (unat (iterations h)) \<noteq> None"
      using k by (simp add: contentKey_pbkdf2 [OF that])
    ultimately show ?thesis
      using assms(4) by (auto simp: openBlob_header to_double_def round_div_1 round_div_def bit_count.simps
          open_parts.simps more_blocks_def)
  qed
qed

text \<open>C40: A sealed stream whose plain size was overwritten with zero bytes is opened by the client and by the
  page as an empty file, under any passphrase.\<close>

theorem emptied_stream_is_accepted:
  assumes "same_standards W E" and "openssl_ok E" and "openssl_works E"
    and "seal_file E d pool pp sp pw = (Inr tag, pool', d')" and "fs_read d pp = Some c" and "fs_read d' sp = Some s"
    and "faults e = []" and "fs_read e q = Some (emptied s)" and "writable e out"
  shows "open_file E e q out any = (Inr (), put e out []) \<and> openBlob W any (bytes_of (emptied s)) = Inr []"
proof -
  obtain st bl where st: "length st = kSaltLen" "s = string_of (build_header (sealed_header st (length c)) @ bl)"
    using seal_file_success [OF assms(4,5)] assms(6) by auto
  let ?h = "sealed_header st (length c)\<lparr>plain_size := 0\<rparr>"
  have h: "header_ok ?h" "plain_size ?h = 0" using sealed_header_ok [OF st(1), of 0] by (simp_all add: sealed_header_def header_ok_def)
  have "emptied s = string_of (build_header ?h @ bl)"
    unfolding st(2) by (rule emptied_header) (simp add: sealed_header_def st(1))
  with empty_stream_opens [OF assms(2,3) h assms(7) _ assms(9)] assms(1,8) show ?thesis by auto
qed

section \<open>Witnesses\<close>

lemma stake_sconst: "stake n (sconst x) = replicate n x"
  by (rule nth_equalityI) (simp_all add: id_funpow [unfolded id_def] del: stake.simps)

lemma example_sealed_stake:
  "\<exists>tag pool' s. seal_file mini_openssl example_disk (stake 64 (sconst 5)) [''a''] [''b''] ''pw'' =
     (Inr tag, pool', put example_disk [''b''] s)"
  unfolding stake_sconst by (rule example_sealed)

lemma page_opens_like_client_witness:
  "\<exists>s. openBlob mini_webcrypto ''pw'' (bytes_of s) = Inr (bytes_of ''hi'')"
proof -
  obtain tag pool' s where s: "seal_file mini_openssl example_disk
      (stake 64 (sconst 5)) [''a''] [''b''] ''pw'' = (Inr tag, pool', put example_disk [''b''] s)"
    using example_sealed_stake by blast
  let ?d = "put example_disk [''b''] s"
  have c: "open_file mini_openssl ?d [''b''] [''c''] ''pw'' = (Inr (), put ?d [''c''] ''hi'')"
    using open_file_sealed [OF mini_openssl_ok s, of "''hi''" ?d "[''b'']" "[''c'']"]
    by (auto simp: fs_simps writable_def)
  from page_opens_like_client [OF mini_same_standards mini_openssl_ok c, of s "''hi''"] show ?thesis
    by (auto simp: fs_simps)
qed

lemma page_sealed_example:
  "\<exists>s rnd' shown. sealFile mini_webcrypto ''pw'' (bytes_of ''hi'') (sconst 5) = (Inr s, rnd', shown)"
proof -
  obtain tag pool' s where s: "seal_file mini_openssl example_disk
      (stake 64 (sconst 5)) [''a''] [''b''] ''pw'' = (Inr tag, pool', put example_disk [''b''] s)"
    using example_sealed_stake by blast
  from seal_file_page [OF mini_same_standards mini_openssl_ok s, of "''hi''"] show ?thesis
    by (auto simp: fs_simps)
qed

lemma page_seal_round_trip_witness:
  "\<exists>s. openBlob mini_webcrypto ''pw'' s = Inr (bytes_of ''hi'') \<and>
     open_file mini_openssl (put example_disk [''b''] (string_of s)) [''b''] [''c''] ''pw'' =
       (Inr (), put (put example_disk [''b''] (string_of s)) [''c''] ''hi'')"
proof -
  obtain s rnd' shown where s: "sealFile mini_webcrypto ''pw'' (bytes_of ''hi'') (sconst 5) = (Inr s, rnd', shown)"
    using page_sealed_example by blast
  let ?d = "put example_disk [''b''] (string_of s)"
  from page_seal_round_trip [OF mini_same_standards mini_openssl_ok s, of ?d "[''b'']" "[''c'']"] show ?thesis
    by (auto simp: fs_simps writable_def)
qed

lemma page_seals_like_client_witness:
  "\<exists>s rnd' shown tag. sealFile mini_webcrypto ''pw'' (bytes_of ''hi'') (sconst 5) = (Inr s, rnd', shown) \<and>
     dedupTagFor mini_webcrypto ''pw'' (bytes_of ''hi'') = Some tag"
proof -
  obtain tag pool' s where s: "seal_file mini_openssl example_disk
      (stake 64 (sconst 5)) [''a''] [''b''] ''pw'' = (Inr tag, pool', put example_disk [''b''] s)"
    using example_sealed_stake by blast
  have "length (derive_dedup_key mini_openssl ''pw'') = kKeyLen"
    by (simp add: derive_dedup_key_def derive_key_def mini_openssl_def kKeyLen_def bytes_of_def kDedupKeyLabel_def Let_def)
  with page_seals_like_client [OF mini_same_standards mini_openssl_ok s, of "''hi''"] show ?thesis
    by (auto simp: fs_simps DEDUP_LIMIT_def)
qed

lemma page_open_sound_witness:
  "\<exists>s h ps bl rest. s = build_header h @ bl @ rest \<and> concat ps = bytes_of ''hi'' \<and>
     sealed mini_openssl (derive_key mini_openssl ''pw'' (salt h) kContentKeyLabel (iterations h)) (build_header h) 0 ps bl"
proof -
  obtain s rnd' shown where s: "sealFile mini_webcrypto ''pw'' (bytes_of ''hi'') (sconst 5) = (Inr s, rnd', shown)"
    using page_sealed_example by blast
  have "openBlob mini_webcrypto ''pw'' s = Inr (bytes_of ''hi'')"
    using page_stream_opens(1) [OF mini_same_standards mini_openssl_ok s] by simp
  from page_open_sound [OF mini_same_standards mini_openssl_ok this] show ?thesis by metis
qed


lemma emptied_stream_is_accepted_witness:
  "\<exists>s. s \<noteq> emptied s \<and> open_file mini_openssl (put example_disk [''b''] (emptied s)) [''b''] [''c''] ''other'' =
     (Inr (), put (put example_disk [''b''] (emptied s)) [''c''] []) \<and>
     openBlob mini_webcrypto ''other'' (bytes_of (emptied s)) = Inr []"
proof -
  obtain tag pool' s where s: "seal_file mini_openssl example_disk (replicate 64 5) [''a''] [''b''] ''pw'' =
      (Inr tag, pool', put example_disk [''b''] s)"
    using example_sealed by blast
  let ?e = "put example_disk [''b''] (emptied s)"
  obtain st bl where st: "length st = kSaltLen" "s = string_of (build_header (sealed_header st 2) @ bl)"
    using seal_file_success [OF s, of "''hi''"] by (auto simp: fs_simps numeral_2_eq_2)
  have "s \<noteq> emptied s"
  proof
    assume "s = emptied s"
    then have "build_header (sealed_header st 2) = build_header (sealed_header st 2\<lparr>plain_size := 0\<rparr>)"
      using emptied_header [of "sealed_header st 2" bl] st by (simp add: sealed_header_def)
    then have "put_u64 [] (2 :: u64) = put_u64 [] 0" by (simp add: build_header_eq sealed_header_def)
    then show False by (simp add: u64.enc_inj)
  qed
  with emptied_stream_is_accepted [OF mini_same_standards mini_openssl_ok mini_openssl_works s, of "''hi''" s ?e "[''b'']" "[''c'']" "''other''"]
  show ?thesis by (auto simp: fs_simps writable_def)
qed

end
