(* ===== verification/Json.thy ===== *)
theory Json
  imports Http
begin

text \<open>
  The browser's own library as far as the script of \<open>src/server/page.cpp\<close> calls it: \<open>JSON.parse\<close>,
  \<open>JSON.stringify\<close> of an object of strings, \<open>encodeURIComponent\<close>. Strings are their UTF-8 text, so a
  \<open>u\<close> escape becomes the bytes of its code point. A number is its exact decimal value, a mantissa and
  an exponent of ten.
\<close>

datatype json =
    JNull | JBool bool | JNum int int | JStr string | JArr "json list" | JObj "(string \<times> json) list"

section \<open>UTF-8\<close>

definition utf8 :: "nat \<Rightarrow> string" where
  "utf8 n =
     (if n < 0x80 then [char_of n]
      else if n < 0x800 then [char_of (0xC0 + n div 64), char_of (0x80 + n mod 64)]
      else if n < 0x10000 then
        [char_of (0xE0 + n div 4096), char_of (0x80 + n div 64 mod 64), char_of (0x80 + n mod 64)]
      else [char_of (0xF0 + n div 262144), char_of (0x80 + n div 4096 mod 64),
            char_of (0x80 + n div 64 mod 64), char_of (0x80 + n mod 64)])"

section \<open>JSON.parse\<close>

definition json_ws :: "string \<Rightarrow> string" where
  "json_ws s = dropWhile (\<lambda>c. c = CHR '' '' \<or> c = CHR 0x09 \<or> c = newline \<or> c = carriage_return) s"

fun hex4 :: "string \<Rightarrow> (nat \<times> string) option" where
  "hex4 (a # b # c # d # r) =
     (case (hex_digit a, hex_digit b, hex_digit c, hex_digit d) of
        (Some x, Some y, Some z, Some w) \<Rightarrow> Some (4096 * x + 256 * y + 16 * z + w, r)
      | _ \<Rightarrow> None)"
| "hex4 _ = None"

text \<open>A code unit after \<open>backslash u\<close>, and the second half of a surrogate pair when one follows.\<close>

definition json_unit :: "string \<Rightarrow> (string \<times> string) option" where
  "json_unit s =
     (case hex4 s of
        None \<Rightarrow> None
      | Some (u, r) \<Rightarrow>
          (if 0xD800 \<le> u \<and> u < 0xDC00 \<and> prefix [backslash, CHR ''u''] r then
             (case hex4 (drop 2 r) of
                Some (v, r') \<Rightarrow>
                  (if 0xDC00 \<le> v \<and> v < 0xE000
                   then Some (utf8 (0x10000 + (u - 0xD800) * 1024 + (v - 0xDC00)), r')
                   else Some (utf8 u, r))
              | None \<Rightarrow> Some (utf8 u, r))
           else Some (utf8 u, r)))"

definition json_escaped :: "char \<Rightarrow> char option" where
  "json_escaped c =
     (if c = quote \<or> c = backslash \<or> c = CHR ''/'' then Some c
      else if c = CHR ''n'' then Some newline
      else if c = CHR ''r'' then Some carriage_return
      else if c = CHR ''t'' then Some (CHR 0x09)
      else if c = CHR ''b'' then Some (CHR 0x08)
      else if c = CHR ''f'' then Some (CHR 0x0C)
      else None)"

lemma hex4_length: "hex4 s = Some (n, r) \<Longrightarrow> length s = length r + 4"
  by (induction s rule: hex4.induct) (auto split: option.splits)

lemma json_unit_length: "json_unit s = Some (x, r) \<Longrightarrow> length r < length s"
  by (auto simp: json_unit_def dest!: hex4_length split: option.splits prod.splits if_splits)

text \<open>What follows an opening quotation mark, up to the closing one.\<close>

function json_chars :: "string \<Rightarrow> string \<Rightarrow> (string \<times> string) option" where
  "json_chars val s =
     (case s of
        [] \<Rightarrow> None
      | c # r \<Rightarrow>
          if c = quote then Some (val, r)
          else if c = backslash then
            (case r of
               [] \<Rightarrow> None
             | e # r' \<Rightarrow>
                 if e = CHR ''u'' then
                   (case json_unit r' of None \<Rightarrow> None | Some (x, r'') \<Rightarrow> json_chars (val @ x) r'')
                 else (case json_escaped e of None \<Rightarrow> None | Some x \<Rightarrow> json_chars (val @ [x]) r'))
          else if (of_char c :: nat) < 0x20 then None
          else json_chars (val @ [c]) r)"
  by pat_completeness auto
termination by (relation "measure (\<lambda>(val, s). length s)") (auto dest: json_unit_length)

declare json_chars.simps [simp del]

definition json_digits :: "string \<Rightarrow> string \<times> string" where
  "json_digits s = (takeWhile is_digit s, dropWhile is_digit s)"

text \<open>A number: no leading zeros, at least one digit in every part that is there.\<close>

definition json_fraction :: "string \<Rightarrow> (string \<times> string) option" where
  "json_fraction s =
     (if prefix ''.'' s then case json_digits (tl s) of (fs, r) \<Rightarrow> if fs = [] then None else Some (fs, r)
      else Some ([], s))"

definition json_exponent :: "string \<Rightarrow> (int \<times> string) option" where
  "json_exponent s =
     (if prefix ''e'' s \<or> prefix ''E'' s then
        let s = tl s; down = prefix ''-'' s; s = (if down \<or> prefix ''+'' s then tl s else s)
        in case json_digits s of (es, r) \<Rightarrow>
             if es = [] then None else Some ((if down then - 1 else 1) * int (dec_value es), r)
      else Some (0, s))"

definition json_unsigned :: "int \<Rightarrow> string \<Rightarrow> (json \<times> string) option" where
  "json_unsigned sign s =
     (case json_digits s of (ds, s) \<Rightarrow>
      if ds = [] \<or> (length ds > 1 \<and> hd ds = CHR ''0'') then None
      else case json_fraction s of None \<Rightarrow> None | Some (fs, s) \<Rightarrow>
      case json_exponent s of None \<Rightarrow> None | Some (x, s) \<Rightarrow>
        Some (JNum (sign * int (dec_value (ds @ fs))) (x - int (length fs)), s))"

definition json_number :: "string \<Rightarrow> (json \<times> string) option" where
  "json_number s = (if prefix ''-'' s then json_unsigned (- 1) (tl s) else json_unsigned 1 s)"

fun json_val :: "nat \<Rightarrow> string \<Rightarrow> (json \<times> string) option"
  and json_items :: "nat \<Rightarrow> json list \<Rightarrow> string \<Rightarrow> (json \<times> string) option"
  and json_members :: "nat \<Rightarrow> (string \<times> json) list \<Rightarrow> string \<Rightarrow> (json \<times> string) option" where
  "json_val 0 s = None"
| "json_val (Suc n) s =
     (case json_ws s of
        [] \<Rightarrow> None
      | c # r \<Rightarrow>
          if c = quote then map_option (\<lambda>(x, r). (JStr x, r)) (json_chars [] r)
          else if c = CHR ''{'' then
            (if prefix ''}'' (json_ws r) then Some (JObj [], tl (json_ws r)) else json_members n [] r)
          else if c = CHR ''['' then
            (if prefix '']'' (json_ws r) then Some (JArr [], tl (json_ws r)) else json_items n [] r)
          else if prefix ''true'' (c # r) then Some (JBool True, drop 4 (c # r))
          else if prefix ''false'' (c # r) then Some (JBool False, drop 5 (c # r))
          else if prefix ''null'' (c # r) then Some (JNull, drop 4 (c # r))
          else json_number (c # r))"
| "json_items 0 acc s = None"
| "json_items (Suc n) acc s =
     (case json_val n s of
        None \<Rightarrow> None
      | Some (v, r) \<Rightarrow>
          (case json_ws r of
             [] \<Rightarrow> None
           | c # r \<Rightarrow>
               if c = CHR '','' then json_items n (acc @ [v]) r
               else if c = CHR '']'' then Some (JArr (acc @ [v]), r) else None))"
| "json_members 0 acc s = None"
| "json_members (Suc n) acc s =
     (case json_ws s of
        [] \<Rightarrow> None
      | q # r \<Rightarrow>
          if q \<noteq> quote then None
          else case json_chars [] r of
            None \<Rightarrow> None
          | Some (k, r) \<Rightarrow>
          case json_ws r of
            [] \<Rightarrow> None
          | c # r \<Rightarrow>
          if c \<noteq> CHR '':'' then None
          else case json_val n r of
            None \<Rightarrow> None
          | Some (v, r) \<Rightarrow>
          case json_ws r of
            [] \<Rightarrow> None
          | c # r \<Rightarrow>
              if c = CHR '','' then json_members n (acc @ [(k, v)]) r
              else if c = CHR ''}'' then Some (JObj (acc @ [(k, v)]), r) else None)"

text \<open>Every call consumes a character, so the length of the text is depth enough.\<close>

definition json_parse :: "string \<Rightarrow> json option" where
  "json_parse s =
     (case json_val (Suc (length s)) s of
        None \<Rightarrow> None
      | Some (v, r) \<Rightarrow> if json_ws r = [] then Some v else None)"

text \<open>A member of an object; of two of the same name the later one is kept.\<close>

definition json_member :: "string \<Rightarrow> json \<Rightarrow> json option" where
  "json_member k v = (case v of JObj ms \<Rightarrow> map_of (rev ms) k | _ \<Rightarrow> None)"

section \<open>JSON.stringify\<close>

definition quote_json_char :: "char \<Rightarrow> string" where
  "quote_json_char c =
     (if c = quote \<or> c = backslash then [backslash, c]
      else if c = CHR 0x08 then [backslash, CHR ''b'']
      else if c = CHR 0x0C then [backslash, CHR ''f'']
      else if c = newline then [backslash, CHR ''n'']
      else if c = carriage_return then [backslash, CHR ''r'']
      else if c = CHR 0x09 then [backslash, CHR ''t'']
      else if (of_char c :: nat) < 0x20 then [backslash, CHR ''u''] @ ''00'' @ to_hex [byte_of c]
      else [c])"

definition json_quoted :: "string \<Rightarrow> string" where
  "json_quoted s = [quote] @ concat (map quote_json_char s) @ [quote]"

fun join_comma :: "string list \<Rightarrow> string" where
  "join_comma [] = []"
| "join_comma [s] = s"
| "join_comma (s # ss) = s @ '','' @ join_comma ss"

definition stringify_object :: "(string \<times> string) list \<Rightarrow> string" where
  "stringify_object ms = ''{'' @ join_comma (map (\<lambda>(k, v). json_quoted k @ '':'' @ json_quoted v) ms) @ ''}''"

section \<open>encodeURIComponent\<close>

definition uri_unreserved :: "char \<Rightarrow> bool" where
  "uri_unreserved c \<longleftrightarrow> is_digit c \<or> (CHR ''A'' \<le> c \<and> c \<le> CHR ''Z'') \<or> (CHR ''a'' \<le> c \<and> c \<le> CHR ''z'')
     \<or> c \<in> set ''-_.!~*'' \<or> c = CHR 0x27 \<or> c \<in> set ''()''"

definition encodeURIComponent :: "string \<Rightarrow> string" where
  "encodeURIComponent s = concat (map (\<lambda>c. if uri_unreserved c then [c]
     else [CHR ''%'', kUpperHex ! (of_char c div 16), kUpperHex ! (of_char c mod 16)]) s)"

section \<open>Against the server's side\<close>

lemma url_decode_percent:
  "url_decode (CHR ''%'' # kUpperHex ! (of_char c div 16) # kUpperHex ! (of_char c mod 16) # s) = c # url_decode s"
proof -
  have c: "(of_char c :: nat) < 256" by (rule of_char_less_256)
  then have "(of_char c :: nat) div 16 < 16" "(of_char c :: nat) mod 16 < 16"
    by (simp_all add: less_mult_imp_div_less)
  then have "hex_digit (kUpperHex ! (of_char c div 16)) = Some (of_char c div 16)"
    "hex_digit (kUpperHex ! (of_char c mod 16)) = Some (of_char c mod 16)"
    by (simp_all only: hex_digit_upper)
  moreover have "16 * (of_char c div 16) + of_char c mod 16 = (of_char c :: nat)" by simp
  ultimately show ?thesis by (simp del: mult_div_mod_eq)
qed

lemma encodeURIComponent_Cons:
  "encodeURIComponent (c # s) = (if uri_unreserved c then [c]
     else [CHR ''%'', kUpperHex ! (of_char c div 16), kUpperHex ! (of_char c mod 16)]) @ encodeURIComponent s"
  by (simp add: encodeURIComponent_def)

lemma uri_unreserved_plain: "uri_unreserved c \<Longrightarrow> c \<noteq> CHR ''%'' \<and> c \<noteq> CHR ''+''"
  by (auto simp: uri_unreserved_def is_digit_def less_eq_char_def)

lemma url_decode_component: "url_decode (encodeURIComponent s @ r) = s @ url_decode r"
proof (induction s)
  case (Cons c s)
  then show ?case
    using uri_unreserved_plain [of c]
    by (simp add: encodeURIComponent_Cons url_decode_literal url_decode_percent del: url_decode.simps)
qed (simp add: encodeURIComponent_def)

lemma encoded_chars:
  assumes "c \<in> set (encodeURIComponent s)"
  shows "c = CHR ''%'' \<or> uri_unreserved c"
proof -
  have hex: "uri_unreserved (kUpperHex ! n)" if "n < 16" for n
  proof -
    have "\<forall>n\<in>set [0..<16]. uri_unreserved (kUpperHex ! n)" by code_simp
    with that show ?thesis by simp
  qed
  have "(of_char x :: nat) div 16 < 16" for x using of_char_less_256 [of x] by (simp add: less_mult_imp_div_less)
  with assms hex show ?thesis by (induction s) (auto simp: encodeURIComponent_Cons encodeURIComponent_def split: if_splits)
qed

lemma quote_json_char_escape: "json_plain c \<Longrightarrow> quote_json_char c = json_escape_char c"
  by (auto simp: quote_json_char_def json_escape_char_def json_plain_def)

lemma json_quoted_escape: "list_all json_plain s \<Longrightarrow> json_quoted s = [quote] @ json_escape s @ [quote]"
  unfolding json_quoted_def json_escape_def by (induction s) (simp_all add: quote_json_char_escape)

end
