(* ===== verification/Page.thy ===== *)
theory Page
  imports Pagecrypt Json Webui
begin

text \<open>
  \<open>src/server/page.cpp\<close>, the rest of the script: what the tab keeps, what it sends and what it shows.
  The state of the tab is the record \<open>page\<close>; the ghost field \<open>pg_sent\<close> lists every request that left it.
  The browser is the record \<open>browser\<close>: its network, WebCrypto, the Unicode tables and the wording of its own
  errors. A handler runs to its end before the next one starts, and a reply arrives whole or not at all. Which buttons are greyed out, where the
  focus is and timers that only tidy up are left out; a reply whose members have other types than the
  server's is taken as not having them.
\<close>

record page_request =
  pr_method :: string
  pr_target :: string
  pr_headers :: "(string \<times> string) list"
  pr_body :: bytes

record page_reply =
  rp_status :: nat
  rp_body :: bytes

datatype browser_failure = FetchFailed | NotJson | CryptoFailed

record 'n browser =
  br_fetch :: "page_request \<Rightarrow> 'n \<Rightarrow> page_reply option \<times> 'n"
  br_crypto :: webcrypto
  br_lower :: "string \<Rightarrow> string"
  br_trim :: "string \<Rightarrow> string"
  br_compare :: "string \<Rightarrow> string \<Rightarrow> int"
  br_date :: "int \<Rightarrow> string"
  br_error :: "browser_failure \<Rightarrow> string"
  br_secure :: bool

record page_file =
  pf_name :: string
  pf_size :: nat
  pf_modified :: int
  pf_tag :: string

record chosen_file =
  cf_name :: string
  cf_bytes :: bytes

record job =
  jb_name :: string
  jb_status :: string
  jb_kind :: string
  jb_progress :: "(nat \<times> nat) list"

record table_row =
  tr_icon :: string
  tr_name :: string
  tr_meta :: string
  tr_size :: string

record 'n page =
  pg_session :: "(string \<times> string) option"
  pg_passphrase :: string
  pg_files :: "page_file list"
  pg_hidden :: "string list"
  pg_said :: "(string \<times> string \<times> string) list"
  pg_jobs :: "job list"
  pg_fields :: "(string \<times> string) list"
  pg_who :: string
  pg_rows :: "table_row list"
  pg_summary :: string
  pg_saved :: "(string \<times> bytes) list"
  pg_clock :: int
  pg_rnd :: "byte stream"
  pg_sent :: "page_request list"
  pg_net :: 'n

section \<open>Text for people\<close>

definition page_units :: "string list" where "page_units = [''B'', ''KB'', ''MB'', ''GB'', ''TB'']"

text \<open>\<open>toFixed(1)\<close>: of two tenths equally near the larger one.\<close>

definition to_fixed1 :: "nat \<Rightarrow> nat \<Rightarrow> string" where
  "to_fixed1 v d = (let t = (20 * v + d) div (2 * d) in to_dec (t div 10) @ ''.'' @ to_dec (t mod 10))"

definition humanSize :: "nat \<Rightarrow> string" where
  "humanSize v =
     (let u = pick_unit v 0 (length page_units - 1)
      in (if u = 0 then to_dec v else to_fixed1 v (1024 ^ u)) @ '' '' @ page_units ! u)"

text \<open>The clock counts milliseconds; a time out of the range of a date is an invalid one.\<close>

definition whenText :: "'n browser \<Rightarrow> int \<Rightarrow> int \<Rightarrow> string" where
  "whenText B clock seconds =
     (if seconds = 0 then []
      else if \<bar>seconds * 1000\<bar> > 8640000000000000 then ''Invalid Date''
      else
        let ago = clock - seconds * 1000
        in if ago < 60 * 1000 then ''just now''
           else if ago < 3600 * 1000 then to_dec (nat (ago div (60 * 1000))) @ '' min ago''
           else if ago < 86400 * 1000 then to_dec (nat (ago div (3600 * 1000))) @ '' hr ago''
           else if ago < 604800 * 1000 then to_dec (nat (ago div (86400 * 1000))) @ '' days ago''
           else br_date B seconds)"

definition iconFor :: "'n browser \<Rightarrow> string \<Rightarrow> string" where
  "iconFor B name =
     (let ext = (if CHR ''.'' \<notin> set name then []
                 else br_lower B (rev (takeWhile (\<lambda>c. c \<noteq> CHR ''.'') (rev name))))
      in if ext \<in> set [''jpg'', ''jpeg'', ''png'', ''gif'', ''webp'', ''heic'', ''bmp'', ''svg''] then utf8 0x1F5BC
         else if ext \<in> set [''mp4'', ''mov'', ''mkv'', ''avi'', ''webm''] then utf8 0x1F3AC
         else if ext \<in> set [''mp3'', ''wav'', ''flac'', ''m4a'', ''ogg''] then utf8 0x1F3B5
         else if ext \<in> set [''pdf''] then utf8 0x1F4C4
         else if ext \<in> set [''zip'', ''gz'', ''tar'', ''7z'', ''rar''] then utf8 0x1F5DC
         else if ext \<in> set [''txt'', ''md'', ''rtf'', ''doc'', ''docx''] then utf8 0x1F4DD
         else utf8 0x1F4E6)"

section \<open>The document\<close>

definition page_say :: "string \<Rightarrow> string \<Rightarrow> string \<Rightarrow> 'n page \<Rightarrow> 'n page" where
  "page_say place message kind p = p\<lparr>pg_said := AList.update place (message, kind) (pg_said p)\<rparr>"

definition hide_all :: "string list \<Rightarrow> 'n page \<Rightarrow> 'n page" where
  "hide_all is p = p\<lparr>pg_hidden := filter (\<lambda>i. i \<notin> set is) (pg_hidden p) @ is\<rparr>"

definition show_all :: "string list \<Rightarrow> 'n page \<Rightarrow> 'n page" where
  "show_all is p = p\<lparr>pg_hidden := filter (\<lambda>i. i \<notin> set is) (pg_hidden p)\<rparr>"

definition field_value :: "'n page \<Rightarrow> string \<Rightarrow> string" where
  "field_value p i = (case map_of (pg_fields p) i of None \<Rightarrow> [] | Some v \<Rightarrow> v)"

definition clear_field :: "string \<Rightarrow> 'n page \<Rightarrow> 'n page" where
  "clear_field i p = p\<lparr>pg_fields := AList.update i [] (pg_fields p)\<rparr>"

text \<open>The page as it is loaded; without a secure context it says so.\<close>

definition page_start :: "'n browser \<Rightarrow> int \<Rightarrow> byte stream \<Rightarrow> page_request list \<Rightarrow> 'n \<Rightarrow> 'n page" where
  "page_start B clock rnd sent net =
     (let p = \<lparr>pg_session = None, pg_passphrase = [], pg_files = [],
               pg_hidden = [''session'', ''uploader'', ''picker'', ''files'', ''empty''],
               pg_said = [], pg_jobs = [], pg_fields = [], pg_who = [], pg_rows = [], pg_summary = [],
               pg_saved = [], pg_clock = clock, pg_rnd = rnd, pg_sent = sent, pg_net = net\<rparr>
      in if \<not> br_secure B then
           page_say ''signin-msg'' (''This browser will not allow encryption on this page. Install the ''
             @ ''server CA certificate and open the site over https.'') ''bad'' p
         else p)"

section \<open>Requests\<close>

definition reply_ok :: "page_reply \<Rightarrow> bool" where
  "reply_ok r \<longleftrightarrow> 200 \<le> rp_status r \<and> rp_status r \<le> 299"

definition reply_json :: "page_reply \<Rightarrow> json option" where
  "reply_json r = json_parse (string_of (rp_body r))"

text \<open>\<open>data.error || otherwise\<close>.\<close>

definition reply_error :: "json option \<Rightarrow> string \<Rightarrow> string" where
  "reply_error v otherwise =
     (case v of
        None \<Rightarrow> otherwise
      | Some v \<Rightarrow>
          (case json_member ''error'' v of Some (JStr s) \<Rightarrow> (if s = [] then otherwise else s) | _ \<Rightarrow> otherwise))"

definition page_fetch :: "'n browser \<Rightarrow> page_request \<Rightarrow> 'n page \<Rightarrow> page_reply option \<times> 'n page" where
  "page_fetch B rq p =
     (case br_fetch B rq (pg_net p) of (r, net) \<Rightarrow> (r, p\<lparr>pg_sent := pg_sent p @ [rq], pg_net := net\<rparr>))"

definition signedOut :: "'n page \<Rightarrow> 'n page" where
  "signedOut p =
     (let p = p\<lparr>pg_session := None, pg_passphrase := [], pg_files := []\<rparr>;
          p = show_all [''signin''] p;
          p = hide_all [''uploader'', ''files'', ''session''] p
      in page_say ''signin-msg'' ''That session expired. Please sign in again.'' ''bad'' p)"

definition api ::
  "'n browser \<Rightarrow> string \<Rightarrow> string \<Rightarrow> (string \<times> string) list \<Rightarrow> bytes \<Rightarrow> 'n page \<Rightarrow> page_reply option \<times> 'n page" where
  "api B meth target headers body p =
     (let headers = headers @ (case pg_session p of
                      None \<Rightarrow> []
                    | Some (token, _) \<Rightarrow> [(''Authorization'', ''Bearer '' @ token)])
      in case page_fetch B \<lparr>pr_method = meth, pr_target = target, pr_headers = headers, pr_body = body\<rparr> p of
           (None, p) \<Rightarrow> (None, p)
         | (Some r, p) \<Rightarrow>
             (Some r, if rp_status r = 401 \<and> pg_session p \<noteq> None then signedOut p else p))"

section \<open>The file list\<close>

definition file_entry :: "json \<Rightarrow> page_file option" where
  "file_entry v =
     (case (json_member ''name'' v, json_member ''size'' v, json_member ''modified'' v, json_member ''tag'' v) of
        (Some (JStr n), Some (JNum s e), Some (JNum m e'), Some (JStr t)) \<Rightarrow>
          (if e = 0 \<and> e' = 0 \<and> 0 \<le> s
           then Some \<lparr>pf_name = n, pf_size = to_double (nat s), pf_modified = m, pf_tag = t\<rparr> else None)
      | _ \<Rightarrow> None)"

fun gather :: "'a option list \<Rightarrow> 'a list option" where
  "gather [] = Some []"
| "gather (None # xs) = None"
| "gather (Some x # xs) = map_option (Cons x) (gather xs)"

text \<open>\<open>data.files || []\<close>.\<close>

definition file_entries :: "json \<Rightarrow> page_file list option" where
  "file_entries v =
     (case json_member ''files'' v of
        Some (JArr vs) \<Rightarrow> gather (map file_entry vs)
      | _ \<Rightarrow> Some [])"

text \<open>A stable sort by a comparison function.\<close>

fun insert_by :: "('a \<Rightarrow> 'a \<Rightarrow> int) \<Rightarrow> 'a \<Rightarrow> 'a list \<Rightarrow> 'a list" where
  "insert_by cmp x [] = [x]"
| "insert_by cmp x (y # ys) = (if cmp x y \<le> 0 then x # y # ys else y # insert_by cmp x ys)"

definition sort_by :: "('a \<Rightarrow> 'a \<Rightarrow> int) \<Rightarrow> 'a list \<Rightarrow> 'a list" where
  "sort_by cmp xs = foldr (insert_by cmp) xs []"

definition file_order :: "'n browser \<Rightarrow> string \<Rightarrow> page_file \<Rightarrow> page_file \<Rightarrow> int" where
  "file_order B order a b =
     (if order = ''big'' then int (pf_size b) - int (pf_size a)
      else if order = ''new'' then pf_modified b - pf_modified a
      else br_compare B (pf_name a) (pf_name b))"

definition shown_files :: "'n browser \<Rightarrow> 'n page \<Rightarrow> page_file list" where
  "shown_files B p =
     (let needle = br_lower B (br_trim B (field_value p ''filter'')); order = field_value p ''sort''
      in sort_by (file_order B order)
           (filter (\<lambda>f. needle = [] \<or> after_sub needle (br_lower B (pf_name f)) \<noteq> None) (pg_files p)))"

definition table_row_of :: "'n browser \<Rightarrow> int \<Rightarrow> page_file \<Rightarrow> table_row" where
  "table_row_of B clock f =
     \<lparr>tr_icon = iconFor B (pf_name f), tr_name = pf_name f, tr_meta = whenText B clock (pf_modified f),
      tr_size = humanSize (pf_size f)\<rparr>"

definition render :: "'n browser \<Rightarrow> 'n page \<Rightarrow> 'n page" where
  "render B p =
     (let shown = shown_files B p;
          nothing = (pg_files p = []);
          p = p\<lparr>pg_rows := map (table_row_of B (pg_clock p)) shown\<rparr>;
          p = (if nothing then show_all [''empty''] p else hide_all [''empty''] p);
          all_bytes = foldl (\<lambda>sum f. to_double (sum + pf_size f)) 0 (pg_files p);
          dot = '' '' @ utf8 0xB7 @ '' ''
      in p\<lparr>pg_summary :=
             (if nothing then []
              else to_dec (length (pg_files p)) @ (if length (pg_files p) = 1 then '' file'' else '' files'')
                @ dot @ humanSize all_bytes @ '' stored''
                @ (if length shown \<noteq> length (pg_files p) then dot @ to_dec (length shown) @ '' shown'' else []))\<rparr>)"

text \<open>Where the promise is rejected the rest of the handler does not run.\<close>

definition refresh :: "'n browser \<Rightarrow> 'n page \<Rightarrow> browser_failure option \<times> 'n page" where
  "refresh B p =
     (case api B ''GET'' ''/api/files'' [] [] p of
        (None, p) \<Rightarrow> (Some FetchFailed, p)
      | (Some r, p) \<Rightarrow>
          if \<not> reply_ok r then (None, page_say ''files-msg'' ''Could not list your files.'' ''bad'' p)
          else case reply_json r of
            None \<Rightarrow> (Some NotJson, p)
          | Some v \<Rightarrow>
              (case file_entries v of
                 None \<Rightarrow> (Some NotJson, p)
               | Some fs \<Rightarrow> (None, render B (p\<lparr>pg_files := fs\<rparr>))))"

section \<open>Uploads\<close>

definition failure_text :: "'n browser \<Rightarrow> page_error \<Rightarrow> string" where
  "failure_text B e =
     (case e of
        OperationFailed \<Rightarrow> br_error B CryptoFailed
      | FileTooShort \<Rightarrow> ''file is too short''
      | NotAnEncryptedFile \<Rightarrow> ''not an encrypted file''
      | UnsupportedFormat \<Rightarrow> ''unsupported format version''
      | FileEndsMidBlock \<Rightarrow> ''file ends mid-block''
      | WrongPassphraseOrAltered \<Rightarrow> ''wrong passphrase, or the file was altered''
      | RecoveredSizeDiffers \<Rightarrow> ''recovered size does not match'')"

definition file_target :: "string \<Rightarrow> string" where
  "file_target name = ''/api/files/'' @ encodeURIComponent name"

definition put_target :: "string \<Rightarrow> string \<Rightarrow> string" where
  "put_target name tag = file_target name @ (if tag \<noteq> [] then ''?tag='' @ encodeURIComponent tag else [])"

datatype sent_file = AlreadyStored | SentFile | NotSent string

text \<open>The body of the \<open>try\<close>: what became of one file, and what the job's bar showed.\<close>

definition send_file :: "'n browser \<Rightarrow> chosen_file \<Rightarrow> 'n page \<Rightarrow> sent_file \<times> (nat \<times> nat) list \<times> 'n page" where
  "send_file B f p =
     (case dedupTagFor (br_crypto B) (pg_passphrase p) (cf_bytes f) of
        None \<Rightarrow> (NotSent (br_error B CryptoFailed), [], p)
      | Some tag \<Rightarrow>
      let existing = find (\<lambda>e. pf_name e = cf_name f) (pg_files p)
      in if tag \<noteq> [] \<and> (case existing of None \<Rightarrow> False | Some e \<Rightarrow> pf_tag e = tag) then (AlreadyStored, [(1, 1)], p)
      else case sealFile (br_crypto B) (pg_passphrase p) (cf_bytes f) (pg_rnd p) of (r, rnd, shown) \<Rightarrow>
      let p = p\<lparr>pg_rnd := rnd\<rparr>
      in case r of
        Inl e \<Rightarrow> (NotSent (failure_text B e), shown, p)
      | Inr sealed_bytes \<Rightarrow>
      case api B ''PUT'' (put_target (cf_name f) tag) [(''Content-Type'', ''application/octet-stream'')] sealed_bytes p of
        (None, p) \<Rightarrow> (NotSent (br_error B FetchFailed), shown @ [(0, 1)], p)
      | (Some r, p) \<Rightarrow>
          if \<not> reply_ok r then (NotSent (reply_error (reply_json r) ''upload failed''), shown @ [(0, 1)], p)
          else (SentFile, shown @ [(0, 1), (1, 1)], p))"

definition job_of :: "string \<Rightarrow> sent_file \<Rightarrow> (nat \<times> nat) list \<Rightarrow> job" where
  "job_of name r shown =
     (case r of
        AlreadyStored \<Rightarrow> \<lparr>jb_name = name, jb_status = ''already stored'', jb_kind = ''done'', jb_progress = shown\<rparr>
      | SentFile \<Rightarrow> \<lparr>jb_name = name, jb_status = ''stored'', jb_kind = ''done'', jb_progress = shown\<rparr>
      | NotSent e \<Rightarrow> \<lparr>jb_name = name, jb_status = e, jb_kind = ''failed'', jb_progress = shown\<rparr>)"

fun upload_files :: "'n browser \<Rightarrow> chosen_file list \<Rightarrow> 'n page \<Rightarrow> 'n page" where
  "upload_files B [] p = p"
| "upload_files B (f # fs) p =
     (case send_file B f p of (r, shown, p) \<Rightarrow>
        upload_files B fs (p\<lparr>pg_jobs := pg_jobs p @ [job_of (cf_name f) r shown]\<rparr>))"

definition upload :: "'n browser \<Rightarrow> chosen_file list \<Rightarrow> 'n page \<Rightarrow> browser_failure option \<times> 'n page" where
  "upload B chosen p = (let p = upload_files B chosen p in refresh B p)"

section \<open>Downloads and deletion\<close>

definition download :: "'n browser \<Rightarrow> string \<Rightarrow> 'n page \<Rightarrow> 'n page" where
  "download B name p =
     (let p = page_say ''files-msg'' (''Fetching '' @ name @ ''...'') [] p
      in case api B ''GET'' (file_target name) [] [] p of
           (None, p) \<Rightarrow> page_say ''files-msg'' (name @ '': '' @ br_error B FetchFailed) ''bad'' p
         | (Some r, p) \<Rightarrow>
             if \<not> reply_ok r then page_say ''files-msg'' (name @ '': could not fetch it'') ''bad'' p
             else case openBlob (br_crypto B) (pg_passphrase p) (rp_body r) of
               Inl e \<Rightarrow> page_say ''files-msg'' (name @ '': '' @ failure_text B e) ''bad'' p
             | Inr plain \<Rightarrow>
                 page_say ''files-msg'' (''Saved '' @ name @ ''.'') ''good'' (p\<lparr>pg_saved := pg_saved p @ [(name, plain)]\<rparr>))"

definition remove :: "'n browser \<Rightarrow> bool \<Rightarrow> string \<Rightarrow> 'n page \<Rightarrow> browser_failure option \<times> 'n page" where
  "remove B confirmed name p =
     (if \<not> confirmed then (None, p)
      else case api B ''DELETE'' (file_target name) [] [] p of
        (None, p) \<Rightarrow> (Some FetchFailed, p)
      | (Some r, p) \<Rightarrow>
          refresh B
            (if reply_ok r then page_say ''files-msg'' (''Deleted '' @ name @ ''.'') [] p
             else page_say ''files-msg'' (''Could not delete '' @ name @ ''.'') ''bad'' p))"

section \<open>Signing in and out\<close>

definition session_of :: "json \<Rightarrow> (string \<times> string) option" where
  "session_of v =
     (case (json_member ''token'' v, json_member ''user'' v) of
        (Some (JStr t), Some (JStr u)) \<Rightarrow> Some (t, u)
      | _ \<Rightarrow> None)"

definition login_request :: "string \<Rightarrow> string \<Rightarrow> page_request" where
  "login_request user password =
     \<lparr>pr_method = ''POST'', pr_target = ''/api/login'', pr_headers = [(''Content-Type'', ''application/json'')],
      pr_body = bytes_of (stringify_object [(''user'', user), (''password'', password)])\<rparr>"

definition signIn :: "'n browser \<Rightarrow> 'n page \<Rightarrow> 'n page" where
  "signIn B p =
     (let user = br_trim B (field_value p ''user''); password = field_value p ''password'';
          secret = field_value p ''passphrase''
      in if user = [] \<or> password = [] \<or> secret = [] then page_say ''signin-msg'' ''All three are needed.'' ''bad'' p
      else
      let p = page_say ''signin-msg'' ''Signing in...'' [] p
      in case page_fetch B (login_request user password) p of
           (None, p) \<Rightarrow> page_say ''signin-msg'' (br_error B FetchFailed) ''bad'' p
         | (Some r, p) \<Rightarrow>
         case reply_json r of
           None \<Rightarrow> page_say ''signin-msg'' (br_error B NotJson) ''bad'' p
         | Some v \<Rightarrow>
         if \<not> reply_ok r then page_say ''signin-msg'' (reply_error (Some v) ''sign-in failed'') ''bad'' p
         else case session_of v of
           None \<Rightarrow> page_say ''signin-msg'' (br_error B NotJson) ''bad'' p
         | Some s \<Rightarrow>
             let p = p\<lparr>pg_session := Some s, pg_passphrase := secret\<rparr>;
                 p = clear_field ''passphrase'' (clear_field ''password'' p);
                 p = hide_all [''signin''] p;
                 p = show_all [''uploader'', ''files'', ''session''] p;
                 p = page_say ''signin-msg'' [] [] (p\<lparr>pg_who := snd s\<rparr>)
             in case refresh B p of
                  (None, p) \<Rightarrow> p
                | (Some e, p) \<Rightarrow> page_say ''signin-msg'' (br_error B e) ''bad'' p)"

definition sign_out :: "'n browser \<Rightarrow> 'n page \<Rightarrow> 'n page" where
  "sign_out B p =
     (case api B ''POST'' ''/api/logout'' [] [] p of
        (None, p) \<Rightarrow> p
      | (Some r, p) \<Rightarrow>
          let p = p\<lparr>pg_session := None, pg_passphrase := []\<rparr>
          in page_start B (pg_clock p) (pg_rnd p) (pg_sent p) (pg_net p))"


section \<open>What leaves the tab\<close>

lemma signedOut_fields [simp]:
  "pg_session (signedOut p) = None" "pg_passphrase (signedOut p) = []" "pg_sent (signedOut p) = pg_sent p"
  "pg_net (signedOut p) = pg_net p" "pg_files (signedOut p) = []" "pg_rnd (signedOut p) = pg_rnd p"
  "pg_saved (signedOut p) = pg_saved p"
  by (simp_all add: signedOut_def Let_def page_say_def hide_all_def show_all_def)

lemma page_say_fields [simp]:
  "pg_session (page_say i m k p) = pg_session p" "pg_passphrase (page_say i m k p) = pg_passphrase p"
  "pg_sent (page_say i m k p) = pg_sent p" "pg_net (page_say i m k p) = pg_net p" "pg_saved (page_say i m k p) = pg_saved p"
  "pg_files (page_say i m k p) = pg_files p" "pg_rnd (page_say i m k p) = pg_rnd p"
  by (simp_all add: page_say_def)

lemma render_fields [simp]:
  "pg_session (render B p) = pg_session p" "pg_passphrase (render B p) = pg_passphrase p"
  "pg_sent (render B p) = pg_sent p" "pg_net (render B p) = pg_net p" "pg_saved (render B p) = pg_saved p"
  "pg_files (render B p) = pg_files p"
  by (simp_all add: render_def Let_def hide_all_def show_all_def)

text \<open>A request leaves the session and the passphrase as they are, or ends both.\<close>

definition keeps_secret :: "'n page \<Rightarrow> 'n page \<Rightarrow> bool" where
  "keeps_secret p p' \<longleftrightarrow>
     pg_session p' = pg_session p \<and> pg_passphrase p' = pg_passphrase p \<or>
     pg_session p' = None \<and> pg_passphrase p' = []"

lemma keeps_secret_refl [simp]: "keeps_secret p p"
  by (simp add: keeps_secret_def)

lemma keeps_secret_trans: "keeps_secret p q \<Longrightarrow> keeps_secret q r \<Longrightarrow> keeps_secret p r"
  by (auto simp: keeps_secret_def)

lemma api_effect:
  assumes "api B meth target headers body p = (r, p')"
  shows "\<exists>hs. pg_sent p' = pg_sent p @ [\<lparr>pr_method = meth, pr_target = target, pr_headers = hs, pr_body = body\<rparr>]"
    and "keeps_secret p p'" and "pg_saved p' = pg_saved p"
    and "pg_session p' \<noteq> None \<Longrightarrow> pg_files p' = pg_files p"
  using assms by (auto simp: api_def page_fetch_def Let_def keeps_secret_def split: prod.splits option.splits if_splits)

lemma send_file_effect:
  assumes "send_file B f p = (r, shown, p')"
  shows "keeps_secret p p'"
    and "\<exists>rqs. pg_sent p' = pg_sent p @ rqs \<and> (\<forall>rq\<in>set rqs. pr_method rq = ''PUT'' \<and>
      (\<exists>tag. pr_target rq = put_target (cf_name f) tag) \<and>
      (\<exists>rnd rnd' shown. sealFile (br_crypto B) (pg_passphrase p) (cf_bytes f) rnd = (Inr (pr_body rq), rnd', shown)))"
proof -
  obtain sr rnd sh where seal: "sealFile (br_crypto B) (pg_passphrase p) (cf_bytes f) (pg_rnd p) = (sr, rnd, sh)"
    by (rule prod_cases3)
  consider "p' = p" | e where "sr = Inl e" "p' = p\<lparr>pg_rnd := rnd\<rparr>"
    | tag b q where "sr = Inr b" "api B ''PUT'' (put_target (cf_name f) tag) [(''Content-Type'', ''application/octet-stream'')] b
        (p\<lparr>pg_rnd := rnd\<rparr>) = (q, p')"
    using assms seal by (auto simp: send_file_def Let_def split: option.splits if_splits sum.splits prod.splits)
  then have "keeps_secret p p' \<and> (\<exists>rqs. pg_sent p' = pg_sent p @ rqs \<and> (\<forall>rq\<in>set rqs. pr_method rq = ''PUT'' \<and>
      (\<exists>tag. pr_target rq = put_target (cf_name f) tag) \<and>
      (\<exists>rnd rnd' shown. sealFile (br_crypto B) (pg_passphrase p) (cf_bytes f) rnd = (Inr (pr_body rq), rnd', shown))))"
  proof cases
    case 1
    then show ?thesis by simp
  next
    case 2
    then show ?thesis by (simp add: keeps_secret_def)
  next
    case 3
    have "keeps_secret p p'" using api_effect(2) [OF 3(2)] by (simp add: keeps_secret_def)
    moreover obtain hs where "pg_sent p' = pg_sent p @
        [\<lparr>pr_method = ''PUT'', pr_target = put_target (cf_name f) tag, pr_headers = hs, pr_body = b\<rparr>]"
      using api_effect(1) [OF 3(2)] by auto
    ultimately show ?thesis using seal 3(1) by auto
  qed
  then show "keeps_secret p p'" "\<exists>rqs. pg_sent p' = pg_sent p @ rqs \<and> (\<forall>rq\<in>set rqs. pr_method rq = ''PUT'' \<and>
      (\<exists>tag. pr_target rq = put_target (cf_name f) tag) \<and>
      (\<exists>rnd rnd' shown. sealFile (br_crypto B) (pg_passphrase p) (cf_bytes f) rnd = (Inr (pr_body rq), rnd', shown)))"
    by blast+
qed

text \<open>A request of an upload that carries one of the files, sealed under the passphrase.\<close>

definition carries :: "'n browser \<Rightarrow> string \<Rightarrow> chosen_file list \<Rightarrow> page_request \<Rightarrow> bool" where
  "carries B pw fs rq \<longleftrightarrow> pr_method rq = ''PUT'' \<and>
     (\<exists>f\<in>set fs. (\<exists>tag. pr_target rq = put_target (cf_name f) tag) \<and>
        (\<exists>rnd rnd' shown. sealFile (br_crypto B) pw (cf_bytes f) rnd = (Inr (pr_body rq), rnd', shown)))"

lemma upload_files_effect:
  "keeps_secret p (upload_files B fs p) \<and>
   (\<exists>rqs. pg_sent (upload_files B fs p) = pg_sent p @ rqs \<and>
     (\<forall>rq\<in>set rqs. carries B (pg_passphrase p) fs rq \<or> carries B [] fs rq) \<and>
     (pg_session p \<noteq> None \<longrightarrow> pg_session (upload_files B fs p) \<noteq> None \<longrightarrow>
        (\<forall>rq\<in>set rqs. carries B (pg_passphrase p) fs rq)))"
proof (induction fs arbitrary: p)
  case (Cons f fs)
  obtain r shown q where s: "send_file B f p = (r, shown, q)" by (rule prod_cases3)
  let ?q = "q\<lparr>pg_jobs := pg_jobs q @ [job_of (cf_name f) r shown]\<rparr>"
  let ?last = "upload_files B fs ?q"
  have run: "upload_files B (f # fs) p = ?last" by (simp add: s)
  obtain rqs where rqs: "pg_sent q = pg_sent p @ rqs" "\<forall>rq\<in>set rqs. carries B (pg_passphrase p) (f # fs) rq"
    using send_file_effect(2) [OF s] by (auto simp: carries_def)
  have mono: "carries B pw fs rq \<Longrightarrow> carries B pw (f # fs) rq" for pw rq by (auto simp: carries_def)
  have k: "keeps_secret p ?q" using send_file_effect(1) [OF s] by (simp add: keeps_secret_def)
  obtain rqs' where r': "pg_sent ?last = pg_sent ?q @ rqs'"
    "\<forall>rq\<in>set rqs'. carries B (pg_passphrase ?q) fs rq \<or> carries B [] fs rq"
    "pg_session ?q \<noteq> None \<longrightarrow> pg_session ?last \<noteq> None \<longrightarrow> (\<forall>rq\<in>set rqs'. carries B (pg_passphrase ?q) fs rq)"
    and k': "keeps_secret ?q ?last"
    using Cons.IH [of ?q] by blast
  have "keeps_secret p ?last" using keeps_secret_trans [OF k k'] .
  moreover have "pg_sent ?last = pg_sent p @ rqs @ rqs'" using rqs(1) r'(1) by simp
  moreover have "\<forall>rq\<in>set (rqs @ rqs'). carries B (pg_passphrase p) (f # fs) rq \<or> carries B [] (f # fs) rq"
    using rqs(2) r'(2) mono k by (auto simp: keeps_secret_def)
  moreover have "\<forall>rq\<in>set (rqs @ rqs'). carries B (pg_passphrase p) (f # fs) rq"
    if on: "pg_session p \<noteq> None" "pg_session ?last \<noteq> None"
  proof -
    have q: "pg_session ?q \<noteq> None" using k' on(2) by (auto simp: keeps_secret_def)
    then have "pg_passphrase ?q = pg_passphrase p" using k by (auto simp: keeps_secret_def)
    with r'(3) on(2) q have "\<forall>rq\<in>set rqs'. carries B (pg_passphrase p) fs rq" by simp
    with rqs(2) mono show ?thesis by (metis Un_iff set_append)
  qed
  ultimately show ?case unfolding run by blast
qed simp

lemma refresh_effect:
  assumes "refresh B p = (r, p')"
  shows "keeps_secret p p'" and "pg_saved p' = pg_saved p"
    and "\<exists>hs. pg_sent p' = pg_sent p @ [\<lparr>pr_method = ''GET'', pr_target = ''/api/files'', pr_headers = hs, pr_body = []\<rparr>]"
proof -
  obtain a q where a: "api B ''GET'' ''/api/files'' [] [] p = (a, q)" by fastforce
  have q: "pg_session p' = pg_session q \<and> pg_passphrase p' = pg_passphrase q \<and> pg_sent p' = pg_sent q \<and> pg_saved p' = pg_saved q"
    using assms a by (auto simp: refresh_def split: option.splits if_splits)
  show "keeps_secret p p'" using api_effect(2) [OF a] q by (simp add: keeps_secret_def)
  show "pg_saved p' = pg_saved p" using api_effect(3) [OF a] q by simp
  show "\<exists>hs. pg_sent p' = pg_sent p @ [\<lparr>pr_method = ''GET'', pr_target = ''/api/files'', pr_headers = hs, pr_body = []\<rparr>]"
    using api_effect(1) [OF a] q by simp
qed

text \<open>C11: What the page sends during an upload that did not lose its session is, file by file, a stream that
  opens to the chosen bytes under the passphrase, and then one request for the list.\<close>

theorem upload_sends_sealed:
  assumes "same_standards (br_crypto B) E" and "openssl_ok E"
    and "upload B fs p = (r, p')" and "pg_session p \<noteq> None" and "pg_session p' \<noteq> None"
    and "\<forall>f\<in>set fs. length (cf_bytes f) < 2 ^ 53"
  shows "pg_passphrase p' = pg_passphrase p \<and>
    (\<exists>rqs hs. pg_sent p' = pg_sent p @ rqs @
       [\<lparr>pr_method = ''GET'', pr_target = ''/api/files'', pr_headers = hs, pr_body = []\<rparr>] \<and>
     (\<forall>rq\<in>set rqs. pr_method rq = ''PUT'' \<and> (\<exists>f\<in>set fs. (\<exists>tag. pr_target rq = put_target (cf_name f) tag) \<and>
        openBlob (br_crypto B) (pg_passphrase p) (pr_body rq) = Inr (cf_bytes f))))"
proof -
  let ?q = "upload_files B fs p"
  have run: "refresh B ?q = (r, p')" using assms(3) by (simp add: upload_def)
  note e = refresh_effect [OF run]
  have q: "pg_session ?q \<noteq> None" "pg_passphrase p' = pg_passphrase ?q" using e(1) assms(5) by (auto simp: keeps_secret_def)
  obtain rqs where rqs: "keeps_secret p ?q" "pg_sent ?q = pg_sent p @ rqs" "\<forall>rq\<in>set rqs. carries B (pg_passphrase p) fs rq"
    using upload_files_effect [of p B fs] assms(4) q(1) by blast
  have "openBlob (br_crypto B) (pg_passphrase p) b = Inr (cf_bytes f)"
    if "f \<in> set fs" "sealFile (br_crypto B) (pg_passphrase p) (cf_bytes f) rnd = (Inr b, rnd', shown)" for f b rnd rnd' shown
    using page_stream_opens(1) [OF assms(1,2), of "pg_passphrase p" "string_of (cf_bytes f)" rnd b rnd' shown] that assms(6)
    by simp
  with rqs(3) have "\<forall>rq\<in>set rqs. pr_method rq = ''PUT'' \<and> (\<exists>f\<in>set fs. (\<exists>tag. pr_target rq = put_target (cf_name f) tag) \<and>
        openBlob (br_crypto B) (pg_passphrase p) (pr_body rq) = Inr (cf_bytes f))"
    unfolding carries_def by blast
  moreover have "pg_passphrase p' = pg_passphrase p" using q rqs(1) by (auto simp: keeps_secret_def)
  ultimately show ?thesis using e(3) rqs(2) by auto
qed


section \<open>When the session expires\<close>

lemma seal_parts_works:
  assumes "same_standards W E" and "openssl_works E" and "length key = kKeyLen"
  shows "\<exists>qs rnd' shown'. seal_parts W key hdr c done i rnd parts shown = (Inr qs, rnd', shown')"
proof (induction "length c - done" arbitrary: "done" i rnd parts shown rule: less_induct)
  case less
  show ?case
  proof (cases "done < length c")
    case False
    then show ?thesis by (simp add: seal_parts.simps)
  next
    case True
    let ?stop = "min (done + BLOCK_SIZE) (length c)"
    have "length (stake IV_LEN rnd) = kIvLen" by (simp add: page_constants)
    then obtain s where s: "wc_encrypt W key (stake IV_LEN rnd) (blockAad hdr i) (blob_slice c done ?stop) = Some s"
      using assms by (fastforce simp: same_standards_def openssl_works_def)
    have "length c - ?stop < length c - done" using True by (simp add: BLOCK_SIZE_def)
    from less.hyps [OF this] True s show ?thesis
      by (subst seal_parts.simps) (simp add: random_values_def Let_def)
  qed
qed

lemma sealFile_works:
  assumes "same_standards W E" and "openssl_ok E" and "openssl_works E"
  obtains s rnd' shown where "sealFile W pw c rnd = (Inr s, rnd', shown)"
proof -
  let ?s = "stake SALT_LEN rnd"
  have "contentKey W pw ?s ITERATIONS \<noteq> None"
    using assms(1,3) by (simp add: contentKey_pbkdf2 page_constants openssl_works_def del: not_None_eq)
  then obtain key where k: "contentKey W pw ?s ITERATIONS = Some key" by auto
  then have "length key = kKeyLen"
    using contentKey_derive [OF assms(1,2), of pw ?s kKdfIterations key] by (simp add: page_constants)
  from seal_parts_works [OF assms(1,3) this] obtain qs rnd' shown where
    "seal_parts W key (buildHeader ?s (length c)) c 0 0 (sdrop SALT_LEN rnd) [buildHeader ?s (length c)] [] = (Inr qs, rnd', shown)"
    by blast
  with k that show ?thesis by (simp add: sealFile_def random_values_def Let_def)
qed

lemma dedupTagFor_works:
  assumes "same_standards W E" and "openssl_works E"
  obtains tag where "dedupTagFor W pw c = Some tag"
proof -
  have "dedupKey W pw \<noteq> None"
    using assms by (simp add: dedupKey_def deriveBits_def same_standards_def openssl_works_def page_constants Let_def)
  with assms(1) have "dedupTagFor W pw c \<noteq> None" by (auto simp: dedupTagFor_def same_standards_def)
  with that show thesis by auto
qed

lemma send_file_sends:
  assumes "same_standards (br_crypto B) E" and "openssl_ok E" and "openssl_works E"
    and "find (\<lambda>e. pf_name e = cf_name f) (pg_files p) = None"
  shows "\<exists>tag b rnd rnd' shown r q rest. sealFile (br_crypto B) (pg_passphrase p) (cf_bytes f) rnd = (Inr b, rnd', shown) \<and>
    api B ''PUT'' (put_target (cf_name f) tag) [(''Content-Type'', ''application/octet-stream'')] b (p\<lparr>pg_rnd := rnd'\<rparr>) = (r, q) \<and>
    send_file B f p = (fst rest, snd rest, q)"
proof -
  obtain tag where tag: "dedupTagFor (br_crypto B) (pg_passphrase p) (cf_bytes f) = Some tag"
    using assms(1,3) by (rule dedupTagFor_works)
  obtain b rnd' shown where b: "sealFile (br_crypto B) (pg_passphrase p) (cf_bytes f) (pg_rnd p) = (Inr b, rnd', shown)"
    using assms(1-3) by (rule sealFile_works)
  obtain r q where a: "api B ''PUT'' (put_target (cf_name f) tag) [(''Content-Type'', ''application/octet-stream'')] b
      (p\<lparr>pg_rnd := rnd'\<rparr>) = (r, q)" by fastforce
  have "\<exists>x y. send_file B f p = (x, y, q)"
    using tag b a assms(4) by (auto simp: send_file_def Let_def split: option.split)
  with b a show ?thesis by fastforce
qed

lemma api_expired:
  assumes "api B meth target headers body p = (a, q)" and "pg_session p \<noteq> None"
    and "\<forall>rq. \<exists>r net. br_fetch B rq (pg_net p) = (Some r, net) \<and> rp_status r = 401"
  shows "pg_session q = None \<and> pg_passphrase q = [] \<and> pg_files q = []"
proof -
  define hs where "hs = headers @ (case pg_session p of
      None \<Rightarrow> [] | Some (token, _) \<Rightarrow> [(''Authorization'', ''Bearer '' @ token)])"
  obtain r net where r: "br_fetch B \<lparr>pr_method = meth, pr_target = target, pr_headers = hs, pr_body = body\<rparr> (pg_net p) =
      (Some r, net)" "rp_status r = 401" using assms(3) by blast
  from assms(1) have "q = signedOut (p\<lparr>pg_sent := pg_sent p @
      [\<lparr>pr_method = meth, pr_target = target, pr_headers = hs, pr_body = body\<rparr>], pg_net := net\<rparr>)"
    unfolding api_def hs_def [symmetric] Let_def page_fetch_def r(1) using assms(2) r(2) by simp
  then show ?thesis by simp
qed

text \<open>C39: When the session expires in the middle of a queue, the next file is still sent, sealed under the
  empty passphrase.\<close>

theorem expired_upload_seals_without_passphrase:
  assumes "same_standards (br_crypto B) E" and "openssl_ok E" and "openssl_works E"
    and "pg_session p \<noteq> None" and "pg_files p = []"
    and "\<forall>rq. \<exists>r net. br_fetch B rq (pg_net p) = (Some r, net) \<and> rp_status r = 401"
    and "length (cf_bytes g) < 2 ^ 53"
  shows "\<exists>rq1 rq2. pg_sent (upload_files B [f, g] p) = pg_sent p @ [rq1, rq2] \<and>
    pr_method rq2 = ''PUT'' \<and> openBlob (br_crypto B) [] (pr_body rq2) = Inr (cf_bytes g)"
proof -
  obtain tag b rnd rnd' shown r q rest where 1:
    "api B ''PUT'' (put_target (cf_name f) tag) [(''Content-Type'', ''application/octet-stream'')] b (p\<lparr>pg_rnd := rnd'\<rparr>) = (r, q)"
    "send_file B f p = (fst rest, snd rest, q)"
    using send_file_sends [OF assms(1-3), of f p] assms(5) by auto
  have gone: "pg_passphrase q = []" "pg_files q = []"
    using api_expired [OF 1(1)] assms(4,6) by simp_all
  let ?q = "q\<lparr>pg_jobs := pg_jobs q @ [job_of (cf_name f) (fst rest) (snd rest)]\<rparr>"
  obtain tag2 b2 rnd2 rnd2' shown2 r2 q2 rest2 where 2:
    "sealFile (br_crypto B) (pg_passphrase ?q) (cf_bytes g) rnd2 = (Inr b2, rnd2', shown2)"
    "api B ''PUT'' (put_target (cf_name g) tag2) [(''Content-Type'', ''application/octet-stream'')] b2 (?q\<lparr>pg_rnd := rnd2'\<rparr>) = (r2, q2)"
    "send_file B g ?q = (fst rest2, snd rest2, q2)"
    using send_file_sends [OF assms(1-3), of g ?q] gone(2) by auto
  have "openBlob (br_crypto B) [] b2 = Inr (cf_bytes g)"
    using page_stream_opens(1) [OF assms(1,2), of "[]" "string_of (cf_bytes g)" rnd2 b2 rnd2' shown2] 2(1) gone(1) assms(7)
    by simp
  moreover obtain h1 where "pg_sent q = pg_sent p @
      [\<lparr>pr_method = ''PUT'', pr_target = put_target (cf_name f) tag, pr_headers = h1, pr_body = b\<rparr>]"
    using api_effect(1) [OF 1(1)] by auto
  moreover obtain h2 where "pg_sent q2 = pg_sent ?q @
      [\<lparr>pr_method = ''PUT'', pr_target = put_target (cf_name g) tag2, pr_headers = h2, pr_body = b2\<rparr>]"
    using api_effect(1) [OF 2(2)] by auto
  moreover have "pg_sent (upload_files B [f, g] p) = pg_sent q2" by (simp add: 1(2) 2(3))
  ultimately show ?thesis by simp
qed

text \<open>Without an answer from the server, signing out does nothing.\<close>

lemma sign_out_needs_the_server:
  assumes "\<forall>rq net. fst (br_fetch B rq net) = None"
  shows "pg_session (sign_out B p) = pg_session p \<and> pg_passphrase (sign_out B p) = pg_passphrase p"
proof -
  define hs where "hs = [] @ (case pg_session p of
      None \<Rightarrow> [] | Some (token, _) \<Rightarrow> [(''Authorization'', ''Bearer '' @ token)])"
  let ?rq = "\<lparr>pr_method = ''POST'', pr_target = ''/api/logout'', pr_headers = hs, pr_body = []\<rparr>"
  obtain net where r: "br_fetch B ?rq (pg_net p) = (None, net)" using assms by (metis prod.collapse)
  have "sign_out B p = p\<lparr>pg_sent := pg_sent p @ [?rq], pg_net := net\<rparr>"
    unfolding sign_out_def api_def hs_def [symmetric] Let_def page_fetch_def r by simp
  then show ?thesis by simp
qed

end
