(* ===== verification/Pageserver.thy ===== *)
theory Pageserver
  imports Page
begin

text \<open>
  The page of \<open>src/server/page.cpp\<close> against the endpoints of \<open>src/server/webui.cpp\<close> and the parser of
  \<open>src/server/http.cpp\<close>. What the network and the browser do in between is a named hypothesis,
  \<open>http_network\<close>: the request arrives as the text HTTP prescribes, among header lines of the browser's
  own, and the page gets the status and the body of an answer that came whole.
\<close>

section \<open>Between the page and the server\<close>

definition field_lines :: "page_request \<Rightarrow> (string \<times> string) list" where
  "field_lines rq = pr_headers rq @
     (if pr_body rq \<noteq> [] \<or> pr_method rq \<in> {''PUT'', ''POST''}
      then [(''Content-Length'', to_dec (length (pr_body rq)))] else [])"

definition plain_line :: "string \<Rightarrow> bool" where
  "plain_line l \<longleftrightarrow> l \<noteq> [] \<and> newline \<notin> set l \<and> carriage_return \<notin> set l"

definition header_name :: "string \<Rightarrow> string" where
  "header_name l = http_lowercase (takeWhile (\<lambda>x. x \<noteq> CHR '':'') l)"

definition header_value :: "string \<Rightarrow> string" where
  "header_value l = dropWhile (\<lambda>x. x = CHR '' '' \<or> x = CHR 0x09) (tl (dropWhile (\<lambda>x. x \<noteq> CHR '':'') l))"

text \<open>A header of the browser's own is none of those the page or the body decides.\<close>

definition browser_line :: "string \<Rightarrow> bool" where
  "browser_line l \<longleftrightarrow> plain_line l \<and> header_name l \<notin> {''authorization'', ''content-length''}"

definition header_line :: "string \<times> string \<Rightarrow> string" where
  "header_line h = fst h @ '': '' @ snd h"

definition request_text :: "string list \<Rightarrow> page_request \<Rightarrow> string" where
  "request_text extra rq =
     pr_method rq @ '' '' @ pr_target rq @ '' HTTP/1.1'' @ crlf
     @ concat (map (\<lambda>l. l @ crlf) (extra @ map header_line (field_lines rq)))
     @ crlf @ string_of (pr_body rq)"

definition http_network ::
  "'x openssl \<Rightarrow> store \<Rightarrow> string \<Rightarrow> (page_request \<Rightarrow> world \<Rightarrow> page_reply option \<times> world) \<Rightarrow> bool" where
  "http_network E root served fetched \<longleftrightarrow>
     (\<forall>rq w r w'. fetched rq w = (Some r, w') \<longrightarrow>
        list_all plain_line (map header_line (field_lines rq)) \<and>
        (\<exists>extra c0 line c1 srq c2 ok c3 ct.
           list_all browser_line extra \<and> inp c0 = request_text extra rq \<and> outp c0 = [] \<and>
           ch_read_line c0 = (Some line, c1) \<and> read_request c1 line = (Inr srq, c2) \<and>
           web_handle E root served c2 w srq = (ok, c3, w') \<and>
           newline \<notin> set ct \<and> carriage_return \<notin> set ct \<and>
           outp c3 = header_block (rp_status r) ct (length (rp_body r)) [] @ string_of (rp_body r)))"

section \<open>What the server reads\<close>

lemma ssl_read_one_spec:
  "ssl_read c 1 = (s, c') \<Longrightarrow> outp c' = outp c \<and> (s = [] \<or> (\<exists>x. s = [x] \<and> inp c = x # inp c'))"
  by (cases "inp c") (auto simp: ssl_read_def Let_def split: list.splits if_splits)

lemma read_line_loop_spec:
  "read_line_loop c out = (Some l, c') \<Longrightarrow>
     \<exists>raw. inp c = raw @ newline # inp c' \<and> newline \<notin> set raw \<and>
       l = out @ filter (\<lambda>x. x \<noteq> carriage_return) raw \<and> outp c' = outp c"
proof (induction c out rule: read_line_loop.induct)
  case (1 c out)
  obtain s c1 where s: "ssl_read c 1 = (s, c1)" by fastforce
  note spec = ssl_read_one_spec [OF s]
  note IH = "1.IH" [OF refl s [symmetric]]
  note run = "1.prems" [unfolded read_line_loop.simps [of c] s Let_def prod.case]
  consider "hd s = newline" "s \<noteq> []" | "s \<noteq> []" "hd s \<noteq> newline" "hd s = carriage_return"
    | "s \<noteq> []" "hd s \<noteq> newline" "hd s \<noteq> carriage_return" "\<not> kMaxLineLen \<le> length out"
    using run by (auto split: if_splits)
  then show ?case
  proof cases
    case 1
    with run spec show ?thesis by (intro exI [of _ "[]"]) auto
  next
    case 2
    with run have "read_line_loop c1 out = (Some l, c')" by simp
    from IH(1) [OF 2 this] spec 2 obtain raw where
      "inp c1 = raw @ newline # inp c'" "newline \<notin> set raw" "l = out @ filter (\<lambda>x. x \<noteq> carriage_return) raw"
      "outp c' = outp c1" by blast
    with spec 2 show ?thesis by (intro exI [of _ "carriage_return # raw"]) auto
  next
    case 3
    with run have "read_line_loop c1 (out @ [hd s]) = (Some l, c')" by simp
    from IH(2) [OF 3 this] obtain raw where
      "inp c1 = raw @ newline # inp c'" "newline \<notin> set raw"
      "l = (out @ [hd s]) @ filter (\<lambda>x. x \<noteq> carriage_return) raw" "outp c' = outp c1" by blast
    with spec 3 show ?thesis by (intro exI [of _ "hd s # raw"]) auto
  qed
qed

lemma before_newline: "a @ newline # x = b @ newline # y \<Longrightarrow> newline \<notin> set a \<Longrightarrow> newline \<notin> set b \<Longrightarrow> a = b \<and> x = y"
proof (induction a arbitrary: b)
  case Nil
  then show ?case by (cases b) auto
next
  case (Cons c a)
  then show ?case by (cases b) auto
qed

lemma read_crlf_line:
  assumes "ch_read_line c = (Some l, c')" and "inp c = t @ crlf @ r"
    and "newline \<notin> set t" and "carriage_return \<notin> set t"
  shows "l = t \<and> inp c' = r \<and> outp c' = outp c"
proof -
  obtain raw where raw: "inp c = raw @ newline # inp c'" "newline \<notin> set raw"
    "l = filter (\<lambda>x. x \<noteq> carriage_return) raw" "outp c' = outp c"
    using read_line_loop_spec assms(1) by (fastforce simp: ch_read_line_def)
  have "raw @ newline # inp c' = (t @ [carriage_return]) @ newline # r"
    using assms(2) raw(1) by (simp add: crlf_def)
  from before_newline [OF this raw(2)] assms(3) have "raw = t @ [carriage_return]" "inp c' = r" by auto
  moreover have "filter (\<lambda>x. x \<noteq> carriage_return) t = t" using assms(4) by (auto simp: filter_id_conv)
  ultimately show ?thesis using raw(3,4) by simp
qed

definition add_header :: "(string \<times> string) list \<Rightarrow> string \<Rightarrow> (string \<times> string) list" where
  "add_header hs l = (if CHR '':'' \<notin> set l then hs else AList.update (header_name l) (header_value l) hs)"

lemma read_headers_lines:
  "read_headers c count hs = (Inr hs', c') \<Longrightarrow> inp c = concat (map (\<lambda>l. l @ crlf) ls) @ crlf @ body \<Longrightarrow>
     list_all plain_line ls \<Longrightarrow> hs' = foldl add_header hs ls \<and> inp c' = body \<and> outp c' = outp c"
proof (induction ls arbitrary: c count hs)
  case Nil
  obtain l c1 where l: "ch_read_line c = (Some l, c1)"
    using Nil(1) by (cases "ch_read_line c"; cases "fst (ch_read_line c)") (auto simp: read_headers.simps [of c])
  have "l = [] \<and> inp c1 = body \<and> outp c1 = outp c" by (rule read_crlf_line [OF l]) (use Nil(2) in simp_all)
  with Nil(1) l show ?case by (simp add: read_headers.simps [of c])
next
  case (Cons t ls)
  obtain l c1 where l: "ch_read_line c = (Some l, c1)"
    using Cons.prems(1) by (cases "ch_read_line c"; cases "fst (ch_read_line c)") (auto simp: read_headers.simps [of c])
  have t: "t \<noteq> []" "newline \<notin> set t" "carriage_return \<notin> set t" using Cons.prems(3) by (simp_all add: plain_line_def)
  have l1: "l = t \<and> inp c1 = concat (map (\<lambda>l. l @ crlf) ls) @ crlf @ body \<and> outp c1 = outp c"
    by (rule read_crlf_line [OF l _ t(2,3)]) (use Cons.prems(2) in simp)
  have "read_headers c1 (count + 1) (add_header hs t) = (Inr hs', c')"
    using Cons.prems(1) l l1 t(1)
    by (subst (asm) read_headers.simps [of c])
      (auto simp: add_header_def header_name_def header_value_def Let_def split: if_splits)
  from Cons.IH [OF this] l1 Cons.prems(3) show ?case by simp
qed

lemma map_of_add_header:
  "map_of (add_header hs l) k = (if CHR '':'' \<in> set l \<and> header_name l = k then Some (header_value l) else map_of hs k)"
  by (simp add: add_header_def update_conv)

lemma headers_skip:
  "\<forall>l\<in>set ls. header_name l \<noteq> k \<Longrightarrow> map_of (foldl add_header hs ls) k = map_of hs k"
  by (induction ls arbitrary: hs) (auto simp: map_of_add_header)

lemma headers_find:
  "CHR '':'' \<in> set l \<Longrightarrow> header_name l = k \<Longrightarrow> \<forall>m\<in>set ls. header_name m \<noteq> k \<Longrightarrow>
     map_of (foldl add_header hs (us @ l # ls)) k = Some (header_value l)"
  by (simp add: headers_skip map_of_add_header)

lemma header_line_parts:
  assumes "CHR '':'' \<notin> set n" and "v = [] \<or> hd v \<noteq> CHR '' '' \<and> hd v \<noteq> CHR 0x09"
  shows "header_name (header_line (n, v)) = http_lowercase n" and "header_value (header_line (n, v)) = v"
proof -
  have "takeWhile (\<lambda>x. x \<noteq> CHR '':'') (n @ CHR '':'' # CHR '' '' # v) = n"
    "dropWhile (\<lambda>x. x \<noteq> CHR '':'') (n @ CHR '':'' # CHR '' '' # v) = CHR '':'' # CHR '' '' # v"
    using assms(1) by (induction n) auto
  then show "header_name (header_line (n, v)) = http_lowercase n" "header_value (header_line (n, v)) = v"
    using assms(2) by (cases v; simp add: header_line_def header_name_def header_value_def)+
qed


lemma plain_request_line:
  assumes "is_word m" and "is_word t" and "newline \<notin> set m \<union> set t" and "carriage_return \<notin> set m \<union> set t"
  shows "split (m @ '' '' @ t @ '' HTTP/1.1'') = [m, t, ''HTTP/1.1'']"
    and "newline \<notin> set (m @ '' '' @ t @ '' HTTP/1.1'')" and "carriage_return \<notin> set (m @ '' '' @ t @ '' HTTP/1.1'')"
  using assms by (simp_all add: is_word_def split_field split_word)

lemma lower_names:
  "http_lowercase ''Content-Length'' = ''content-length''" "http_lowercase ''Authorization'' = ''authorization''"
  "http_lowercase ''Content-Type'' = ''content-type''"
  by code_simp+

text \<open>A request of the page as the server's handlers see it.\<close>

lemma request_read:
  assumes plain: "list_all plain_line (map header_line (field_lines rq))"
    and n: "list_all browser_line extra" "inp c0 = request_text extra rq" "outp c0 = []"
      "ch_read_line c0 = (Some line, c1)" "read_request c1 line = (Inr srq, c2)"
    and "is_word (pr_method rq)" and "is_word (pr_target rq)"
    and "newline \<notin> set (pr_method rq) \<union> set (pr_target rq)" and "carriage_return \<notin> set (pr_method rq) \<union> set (pr_target rq)"
    and "\<forall>h\<in>set (pr_headers rq). header_name (header_line h) \<noteq> ''content-length''"
  shows "rq_method srq = pr_method rq \<and> rq_path srq = url_decode (takeWhile (\<lambda>x. x \<noteq> CHR ''?'') (pr_target rq)) \<and>
    rq_query srq = tl (dropWhile (\<lambda>x. x \<noteq> CHR ''?'') (pr_target rq)) \<and>
    rq_headers srq = foldl add_header [] (extra @ map header_line (field_lines rq)) \<and>
    unat (rq_content_length srq) = length (pr_body rq) \<and> inp c2 = string_of (pr_body rq) \<and> outp c2 = []"
proof -
  let ?ls = "extra @ map header_line (field_lines rq)"
  let ?line = "pr_method rq @ '' '' @ pr_target rq @ '' HTTP/1.1''"
  note first = plain_request_line [OF assms(7-10)]
  have l: "line = ?line \<and> inp c1 = concat (map (\<lambda>l. l @ crlf) ?ls) @ crlf @ string_of (pr_body rq) \<and> outp c1 = outp c0"
    by (rule read_crlf_line [OF n(4) _ first(2,3)]) (simp add: n(2) request_text_def)
  obtain hs where hs: "read_headers c1 0 [] = (Inr hs, c2)"
    using n(5) l first(1) by (auto simp: read_request_def Let_def split: sum.splits prod.splits option.splits if_splits)
  have pl: "list_all plain_line ?ls" using plain n(1) by (auto simp: list_all_iff browser_line_def)
  from read_headers_lines [OF hs conjunct1 [OF conjunct2 [OF l]] pl] l n(3)
  have h: "hs = foldl add_header [] ?ls" "inp c2 = string_of (pr_body rq)" "outp c2 = []" by simp_all
  let ?len = "case map_of hs ''content-length'' of None \<Rightarrow> [] | Some v \<Rightarrow> v"
  have srq: "rq_method srq = pr_method rq" "rq_path srq = url_decode (takeWhile (\<lambda>x. x \<noteq> CHR ''?'') (pr_target rq))"
    "rq_query srq = tl (dropWhile (\<lambda>x. x \<noteq> CHR ''?'') (pr_target rq))" "rq_headers srq = hs"
    "(?len = [] \<and> rq_content_length srq = 0) \<or>
     parse_size ?len kMaxTransferSize = Some (rq_content_length srq)"
    using n(5) l first(1) hs
    by (auto simp: read_request_def Let_def request_header_def http_lowercase_def tolower_def less_eq_char_def
        split: option.splits if_splits)
  have skip: "header_name m \<noteq> ''content-length''" if "m \<in> set (extra @ map header_line (pr_headers rq))" for m
    using that n(1) assms(11) by (auto simp: list_all_iff browser_line_def)
  have "unat (rq_content_length srq) = length (pr_body rq)"
  proof (cases "pr_body rq \<noteq> [] \<or> pr_method rq \<in> {''PUT'', ''POST''}")
    case True
    let ?h = "(''Content-Length'', to_dec (length (pr_body rq)))"
    have dec: "to_dec k = [] \<or> hd (to_dec k) \<noteq> CHR '' '' \<and> hd (to_dec k) \<noteq> CHR 0x09" for k
      using to_dec_digits [of k] by (cases "to_dec k") (auto simp: is_digit_def less_eq_char_def)
    have name: "header_name (header_line ?h) = ''content-length''" "header_value (header_line ?h) = to_dec (length (pr_body rq))"
      using header_line_parts [of "''Content-Length''" "to_dec (length (pr_body rq))"] dec
      by (simp_all add: lower_names)
    have "foldl add_header [] ?ls = foldl add_header [] ((extra @ map header_line (pr_headers rq)) @ header_line ?h # [])"
      using True by (simp add: field_lines_def)
    moreover have "CHR '':'' \<in> set (header_line ?h)" by (simp add: header_line_def)
    ultimately have "map_of hs ''content-length'' = Some (to_dec (length (pr_body rq)))"
      using headers_find [OF _ name(1), of "[]" "[]" "extra @ map header_line (pr_headers rq)"] name(2) h(1) by simp
    then have p: "parse_size (to_dec (length (pr_body rq))) kMaxTransferSize = Some (rq_content_length srq)"
      using srq(5) by simp
    then have "length (pr_body rq) \<le> unat kMaxTransferSize" "rq_content_length srq = of_nat (length (pr_body rq))"
      by (auto simp: parse_size_spec split: if_splits)
    moreover have "unat kMaxTransferSize < 2 ^ 64" by (simp add: kMaxTransferSize_def)
    ultimately show ?thesis by (simp add: unat_of_nat)
  next
    case False
    then have "map_of hs ''content-length'' = None"
      using headers_skip [of "extra @ map header_line (pr_headers rq)" "''content-length''" "[]"] skip h(1)
      by (simp add: field_lines_def)
    with srq(5) False show ?thesis by (auto simp: parse_size_spec)
  qed
  with srq(1-4) h show ?thesis by simp
qed

lemma request_arrives:
  assumes "http_network E root served fetched" and "fetched rq w = (Some r, w')"
    and "is_word (pr_method rq)" and "is_word (pr_target rq)"
    and "newline \<notin> set (pr_method rq) \<union> set (pr_target rq)" and "carriage_return \<notin> set (pr_method rq) \<union> set (pr_target rq)"
    and "\<forall>h\<in>set (pr_headers rq). header_name (header_line h) \<noteq> ''content-length''"
  shows "\<exists>extra srq c2 ok c3 ct. list_all browser_line extra \<and>
    rq_method srq = pr_method rq \<and> rq_path srq = url_decode (takeWhile (\<lambda>x. x \<noteq> CHR ''?'') (pr_target rq)) \<and>
    rq_query srq = tl (dropWhile (\<lambda>x. x \<noteq> CHR ''?'') (pr_target rq)) \<and>
    rq_headers srq = foldl add_header [] (extra @ map header_line (field_lines rq)) \<and>
    unat (rq_content_length srq) = length (pr_body rq) \<and>
    inp c2 = string_of (pr_body rq) \<and> outp c2 = [] \<and> web_handle E root served c2 w srq = (ok, c3, w') \<and>
    newline \<notin> set ct \<and> carriage_return \<notin> set ct \<and>
    outp c3 = header_block (rp_status r) ct (length (rp_body r)) [] @ string_of (rp_body r)"
proof -
  note net = assms(1) [unfolded http_network_def, rule_format, OF assms(2)]
  from net obtain extra c0 line c1 srq c2 ok c3 ct where plain: "list_all plain_line (map header_line (field_lines rq))"
    and n: "list_all browser_line extra" "inp c0 = request_text extra rq" "outp c0 = []"
      "ch_read_line c0 = (Some line, c1)" "read_request c1 line = (Inr srq, c2)"
      "web_handle E root served c2 w srq = (ok, c3, w')" "newline \<notin> set ct" "carriage_return \<notin> set ct"
      "outp c3 = header_block (rp_status r) ct (length (rp_body r)) [] @ string_of (rp_body r)"
    by (elim conjE exE)
  from request_read [OF plain n(1-5) assms(3-7)] n(1,6-9) show ?thesis by blast
qed

section \<open>What the page reads of an answer\<close>

lemma before_char: "a @ c # x = b @ c # y \<Longrightarrow> c \<notin> set a \<Longrightarrow> c \<notin> set b \<Longrightarrow> a = b \<and> x = y"
proof (induction a arbitrary: b)
  case Nil
  then show ?case by (cases b) auto
next
  case (Cons d a)
  then show ?case by (cases b) auto
qed

lemma digits_free: "\<not> is_digit c \<Longrightarrow> c \<notin> set (to_dec n)"
  using to_dec_digits [of n] by (auto simp: list_all_iff)

lemma to_dec_inj: "to_dec n = to_dec m \<Longrightarrow> n = m"
  by (metis dec_value_to_dec)

lemma header_block_split:
  "header_block st ct n [] = ''HTTP/1.1 '' @ to_dec st @ CHR '' '' # status_text st @ crlf @ ''Content-Type: '' @ ct @
     crlf @ ''Content-Length: '' @ to_dec n @ carriage_return # newline # ''Cache-Control: no-store'' @ crlf
     @ ''X-Content-Type-Options: nosniff'' @ crlf @ ''Referrer-Policy: no-referrer'' @ crlf @ crlf"
  by (simp add: header_block_def crlf_def)

lemma header_block_status:
  "header_block st ct n [] @ x = header_block st' ct' n' [] @ y \<Longrightarrow> st = st'"
  using before_char [of "to_dec st" "CHR '' ''" _ "to_dec st'"] digits_free [of "CHR '' ''"]
  by (auto simp: header_block_split is_digit_def less_eq_char_def dest: to_dec_inj)

lemma header_block_inj:
  assumes "header_block st ct n [] @ x = header_block st ct' n' [] @ y"
    and "carriage_return \<notin> set ct" and "carriage_return \<notin> set ct'"
  shows "n = n' \<and> x = y"
proof -
  let ?e = "''Cache-Control: no-store'' @ crlf @ ''X-Content-Type-Options: nosniff'' @ crlf
     @ ''Referrer-Policy: no-referrer'' @ crlf @ crlf"
  have "ct @ carriage_return # (newline # ''Content-Length: '' @ to_dec n @ crlf @ ?e @ x) =
      ct' @ carriage_return # (newline # ''Content-Length: '' @ to_dec n' @ crlf @ ?e @ y)"
    using assms(1) by (simp add: header_block_split crlf_def)
  from before_char [OF this assms(2,3)]
  have "to_dec n @ carriage_return # (newline # ?e @ x) = to_dec n' @ carriage_return # (newline # ?e @ y)"
    by (simp add: crlf_def)
  from before_char [OF this digits_free digits_free] show ?thesis
    by (auto simp: is_digit_def less_eq_char_def dest: to_dec_inj)
qed

lemma send_response_prefix:
  "send_response c st ct body [] = (ok, c') \<Longrightarrow> \<exists>k. outp c' = outp c @ take k (header_block st ct (length body) [] @ body)"
proof -
  assume r: "send_response c st ct body [] = (ok, c')"
  let ?h = "header_block st ct (length body) []"
  obtain o1 c1 where 1: "ch_send c ?h = (o1, c1)" by fastforce
  from ch_send_spec [OF 1] obtain k where k: "outp c1 = outp c @ take k ?h" "o1 \<longrightarrow> take k ?h = ?h" by blast
  show ?thesis
  proof (cases "o1 \<and> body \<noteq> []")
    case False
    then have "outp c' = outp c1" using r 1 by (auto simp: send_response_def send_header_def split: if_splits)
    moreover have "take (min k (length ?h)) (?h @ body) = take k ?h" by (simp add: min_def)
    ultimately show ?thesis using k(1) by metis
  next
    case True
    obtain o2 where 2: "ch_send c1 body = (o2, c')"
      using r 1 True by (auto simp: send_response_def send_header_def)
    from ch_send_spec [OF 2] obtain j where "outp c' = outp c1 @ take j body" by blast
    then have "outp c' = outp c @ take (length ?h + j) (?h @ body)" using k True by simp
    then show ?thesis by blast
  qed
qed

text \<open>An answer that came whole has the status the handler gave.\<close>

lemma respond_status:
  assumes "respond c w st body = (ok, c', w')" and "outp c = []"
    and "outp c' = header_block st' ct n [] @ x"
  shows "st = st'"
proof -
  obtain o1 where "send_response c st json_type body [] = (o1, c')"
    using assms(1) by (auto simp: respond_def split: prod.splits)
  from send_response_prefix [OF this] assms(2) obtain k where
    "outp c' = take k (header_block st json_type (length body) [] @ body)" by auto
  then have "header_block st json_type (length body) [] @ body =
      header_block st' ct n [] @ x @ drop k (header_block st json_type (length body) [] @ body)"
    using assms(3) by (metis append_assoc append_take_drop_id)
  then show ?thesis by (rule header_block_status)
qed


section \<open>A request of a signed-in page\<close>

definition page_headers :: "(string \<times> string) list set" where
  "page_headers = {[], [(''Content-Type'', ''application/octet-stream'')]}"

lemma bearer_found:
  assumes "hs \<in> page_headers" and "list_all browser_line extra"
    and "rq_headers srq = foldl add_header [] (extra @ map header_line
           (field_lines \<lparr>pr_method = m, pr_target = t, pr_headers = hs @ [(''Authorization'', ''Bearer '' @ tok)], pr_body = b\<rparr>))"
  shows "request_header srq ''authorization'' = ''Bearer '' @ tok"
proof -
  let ?a = "(''Authorization'', ''Bearer '' @ tok)"
  let ?after = "map header_line (if b \<noteq> [] \<or> m \<in> {''PUT'', ''POST''}
      then [(''Content-Length'', to_dec (length b))] else [])"
  have name: "header_name (header_line ?a) = ''authorization''" "header_value (header_line ?a) = ''Bearer '' @ tok"
    using header_line_parts [of "''Authorization''" "''Bearer '' @ tok"] by (simp_all add: lower_names)
  have dec: "to_dec k = [] \<or> hd (to_dec k) \<noteq> CHR '' '' \<and> hd (to_dec k) \<noteq> CHR 0x09" for k
    using to_dec_digits [of k] by (cases "to_dec k") (auto simp: is_digit_def less_eq_char_def)
  have "header_name (header_line (''Content-Length'', to_dec (length b))) = ''content-length''"
    using header_line_parts(1) [of "''Content-Length''" "to_dec (length b)"] dec by (simp add: lower_names)
  then have after: "\<forall>l\<in>set ?after. header_name l \<noteq> ''authorization''" by simp
  have "CHR '':'' \<in> set (header_line ?a)" by (simp add: header_line_def)
  note found = headers_find [OF this name(1) after, of "[]" "extra @ map header_line hs", unfolded name(2)]
  have "extra @ map header_line (field_lines
      \<lparr>pr_method = m, pr_target = t, pr_headers = hs @ [?a], pr_body = b\<rparr>) =
      (extra @ map header_line hs) @ header_line ?a # ?after" by (simp add: field_lines_def)
  with found assms(3) have "map_of (rq_headers srq) ''authorization'' = Some (''Bearer '' @ tok)"
    by (simp only:)
  moreover have "http_lowercase ''authorization'' = ''authorization''" by code_simp
  ultimately show ?thesis by (simp add: request_header_def)
qed

lemma content_type_name: "header_name (header_line (''Content-Type'', ''application/octet-stream'')) = ''content-type''"
  by code_simp

lemma encoded_plain: "newline \<notin> set (encodeURIComponent n)" "carriage_return \<notin> set (encodeURIComponent n)"
  "CHR '' '' \<notin> set (encodeURIComponent n)" "CHR ''?'' \<notin> set (encodeURIComponent n)"
  by (auto dest!: encoded_chars simp: uri_unreserved_def is_digit_def less_eq_char_def)

lemma api_handled:
  assumes net: "http_network E root served (br_fetch B)" and run: "api B meth target hs body p = (Some r, q)"
    and session: "pg_session p = Some (tok, x)" and user: "sessions_lookup (pg_net p) tok = (Some u, w1)"
    and m: "meth \<in> {''GET'', ''PUT'', ''DELETE''}" and "hs \<in> page_headers"
    and t: "is_word target" "newline \<notin> set target" "carriage_return \<notin> set target"
    and path: "url_decode (takeWhile (\<lambda>x. x \<noteq> CHR ''?'') target) = ''/api/files'' @ rest"
  shows "\<exists>srq c2 ok c3 ct. rq_method srq = meth \<and> rq_path srq = ''/api/files'' @ rest \<and>
    rq_query srq = tl (dropWhile (\<lambda>x. x \<noteq> CHR ''?'') target) \<and> unat (rq_content_length srq) = length body \<and>
    inp c2 = string_of body \<and> outp c2 = [] \<and> web_routes root c2 w1 srq u = (ok, c3, pg_net q) \<and>
    carriage_return \<notin> set ct \<and>
    outp c3 = header_block (rp_status r) ct (length (rp_body r)) [] @ string_of (rp_body r)"
proof -
  let ?rq = "\<lparr>pr_method = meth, pr_target = target, pr_headers = hs @ [(''Authorization'', ''Bearer '' @ tok)], pr_body = body\<rparr>"
  obtain w' where f: "br_fetch B ?rq (pg_net p) = (Some r, w')" and q: "pg_net q = w'"
    using run session by (auto simp: api_def page_fetch_def Let_def split: prod.splits option.splits if_splits)
  have auth: "header_name (header_line (''Authorization'', ''Bearer '' @ tok)) = ''authorization''"
    using header_line_parts(1) [of "''Authorization''" "''Bearer '' @ tok"] by (simp add: lower_names)
  have 1: "is_word (pr_method ?rq)" "is_word (pr_target ?rq)"
    "newline \<notin> set (pr_method ?rq) \<union> set (pr_target ?rq)" "carriage_return \<notin> set (pr_method ?rq) \<union> set (pr_target ?rq)"
    "\<forall>h\<in>set (pr_headers ?rq). header_name (header_line h) \<noteq> ''content-length''"
    using m t assms(6) auth by (auto simp: is_word_def page_headers_def content_type_name)
  obtain extra srq c2 ok c3 ct where s: "list_all browser_line extra" "rq_method srq = meth"
    "rq_path srq = ''/api/files'' @ rest"
    "rq_query srq = tl (dropWhile (\<lambda>x. x \<noteq> CHR ''?'') target)"
    "rq_headers srq = foldl add_header [] (extra @ map header_line (field_lines ?rq))"
    "unat (rq_content_length srq) = length body" "inp c2 = string_of body" "outp c2 = []"
    "web_handle E root served c2 (pg_net p) srq = (ok, c3, w')" "carriage_return \<notin> set ct"
    "outp c3 = header_block (rp_status r) ct (length (rp_body r)) [] @ string_of (rp_body r)"
    using request_arrives [OF net f 1] path by auto
  have "request_header srq ''authorization'' = ''Bearer '' @ tok"
    using assms(6) s(1,5) by (rule bearer_found)
  then have "authenticate (pg_net p) srq = (Some u, w1)"
    using user by (simp add: authenticate_def kBearer_def)
  then have "web_routes root c2 w1 srq u = (ok, c3, w')"
    using s(2,3,9) m by (auto simp: web_handle_def)
  with s q show ?thesis by blast
qed

section \<open>An upload of the page is stored\<close>

lemma receive_body_outp: "receive_body c p out n = (got, c', out') \<Longrightarrow> outp c' = outp c"
proof (induction c p out n rule: receive_body.induct)
  case (1 c p out n)
  show ?case
    using "1.prems" "1.IH"
    by (subst (asm) receive_body.simps) (auto simp: Let_def dest!: ch_recv_spec split: if_splits prod.splits option.splits)
qed

lemma drain_body_outp: "drain_body c n = (ok, c') \<Longrightarrow> outp c' = outp c"
proof (induction c n rule: drain_body.induct)
  case (1 c n)
  show ?case
    using "1.prems" "1.IH"
    by (subst (asm) drain_body.simps) (auto simp: Let_def dest!: ch_recv_spec split: if_splits prod.splits option.splits)
qed

lemma header_block_nonempty: "header_block st ct n [] \<noteq> []"
  by (simp add: header_block_def)

lemma serve_put_created:
  assumes run: "serve_put_file root c w rq u n = (ok, c', w')" and "outp c = []"
    and out: "outp c' = header_block st ct k [] @ x" and "st < 300"
  shows "stored (w_disk w') root u n = Some (take (unat (rq_content_length rq)) (inp c)) \<and>
    unat (rq_content_length rq) \<le> length (inp c)"
proof (cases "file_path root u n")
  case None
  have none: "(if is_safe_name n then file_path root u n else None) = None" using None by simp
  obtain o1 c1 where dr: "drain_body c (unat (rq_content_length rq)) = (o1, c1)" by fastforce
  have "respond c1 w 400 (json_error ''that name cannot be stored'') = (ok, c', w')"
    using run dr none by (simp add: serve_put_file_def)
  from respond_status [OF this _ out] drain_body_outp [OF dr] assms(2,4) show ?thesis by simp
next
  case (Some final)
  then have safe: "is_safe_name n" by (auto simp: file_path_eq split: if_splits)
  let ?n = "unat (rq_content_length rq)"
  obtain temp pool where temp: "temp_path root (w_pool w) = (temp, pool)" by fastforce
  then have tmp: "in_tmp root temp" by (rule temp_path_in_tmp)
  obtain made d1 where cr: "fs_create (w_disk w) temp = (made, d1)" by fastforce
  obtain got c1 g2 d2 where rb: "receive_body c temp (True, d1) ?n = (got, c1, (g2, d2))"
    by (metis prod_cases3 surj_pair)
  obtain x3 d3 where rm: "fs_remove d2 temp = (x3, d3)" by fastforce
  obtain g4 d4 where fl: "out_flush temp (g2, d2) = (g4, d4)" by fastforce
  obtain x5 d5 where rm4: "fs_remove d4 temp = (x5, d5)" by fastforce
  obtain ok6 d6 where co: "commit_upload d4 temp final = (ok6, d6)" by fastforce
  obtain x7 d7 where wt: "write_tag d6 root u n (query_tag rq) = (x7, d7)" by fastforce
  have o1: "outp c1 = []" using receive_body_outp [OF rb] assms(2) by simp
  have no: "st \<noteq> 500" "c' \<noteq> c" "c' \<noteq> c1" using assms(2,4) out o1 header_block_nonempty by auto
  have "made \<and> got \<and> g4 \<and> ok6 \<and> w_disk w' = d7"
    using run no respond_status [OF _ o1 out]
    by (auto simp: serve_put_file_def Some safe temp cr rb rm fl rm4 co wt Let_def dest: respond_world split: if_splits)
  then have go: "made" "got" "g4" "ok6" "w_disk w' = d7" by simp_all
  from go(3) fl have fl': "g2" "fs_flush d2 temp = (True, d4)" by (auto simp: out_flush_def split: if_splits)
  have "fs_read d1 temp = Some []" using create_effect cr go(1) by simp
  with receive_body_spec [of c temp True d1 ?n c1 d2 "[]"] rb go(2) fl' obtain s where
    s: "length s = ?n" "inp c = s @ inp c1" "fs_read d2 temp = Some s" by auto
  have "fs_read d4 temp = Some s" using flush_effect [OF fl'(2)] s(3) by simp
  then have "stored d6 root u n = Some s" using commit_stored [OF co tmp Some] go(4) by simp
  then show ?thesis using write_tag_stored [OF wt] go(5) s(1,2) by simp
qed

lemma sent_file_reply:
  assumes "send_file B f p = (SentFile, shown, p')"
  shows "\<exists>tag b rnd' sh r. sealFile (br_crypto B) (pg_passphrase p) (cf_bytes f) (pg_rnd p) = (Inr b, rnd', sh) \<and>
    api B ''PUT'' (put_target (cf_name f) tag) [(''Content-Type'', ''application/octet-stream'')] b
      (p\<lparr>pg_rnd := rnd'\<rparr>) = (Some r, p') \<and> reply_ok r"
  using assms by (auto simp: send_file_def Let_def split: option.splits if_splits sum.splits prod.splits)

lemma put_target_plain:
  "is_word (put_target n tag)" "newline \<notin> set (put_target n tag)" "carriage_return \<notin> set (put_target n tag)"
  "is_word (file_target n)" "newline \<notin> set (file_target n)" "carriage_return \<notin> set (file_target n)"
  using encoded_plain [of n] encoded_plain [of tag] by (auto simp: put_target_def file_target_def is_word_def)

lemma before_query: "takeWhile (\<lambda>x. x \<noteq> CHR ''?'') (put_target n tag) = file_target n"
  "takeWhile (\<lambda>x. x \<noteq> CHR ''?'') (file_target n) = file_target n"
proof -
  have n: "CHR ''?'' \<notin> set (file_target n)" using encoded_plain(4) [of n] by (simp add: file_target_def)
  then show 2: "takeWhile (\<lambda>x. x \<noteq> CHR ''?'') (file_target n) = file_target n"
    by (auto simp: takeWhile_eq_all_conv)
  show "takeWhile (\<lambda>x. x \<noteq> CHR ''?'') (put_target n tag) = file_target n"
  proof (cases "tag = []")
    case False
    have "takeWhile (\<lambda>x. x \<noteq> CHR ''?'') (file_target n @ ''?tag='' @ encodeURIComponent tag) =
        file_target n @ takeWhile (\<lambda>x. x \<noteq> CHR ''?'') (''?tag='' @ encodeURIComponent tag)"
      by (rule takeWhile_append2) (use n in auto)
    with False show ?thesis by (simp add: put_target_def)
  qed (simp add: put_target_def 2)
qed

lemma decoded_target: "url_decode (file_target n) = ''/api/files'' @ (CHR ''/'' # n)"
proof -
  have "url_decode (file_target n) = ''/api/files/'' @ url_decode (encodeURIComponent n @ [])"
    by (simp add: file_target_def url_decode_literal del: url_decode.simps)
  then show ?thesis unfolding url_decode_component by simp
qed

lemma page_upload_stored:
  assumes net: "http_network E root served (br_fetch B)" and sent: "send_file B f p = (SentFile, shown, p')"
    and session: "pg_session p = Some (tok, x)" and user: "sessions_lookup (pg_net p) tok = (Some u, w1)"
  shows "\<exists>b rnd' sh. sealFile (br_crypto B) (pg_passphrase p) (cf_bytes f) (pg_rnd p) = (Inr b, rnd', sh) \<and>
    stored (w_disk (pg_net p')) root u (cf_name f) = Some (string_of b)"
proof -
  obtain tag b rnd' sh r where s: "sealFile (br_crypto B) (pg_passphrase p) (cf_bytes f) (pg_rnd p) = (Inr b, rnd', sh)"
    and a: "api B ''PUT'' (put_target (cf_name f) tag) [(''Content-Type'', ''application/octet-stream'')] b
      (p\<lparr>pg_rnd := rnd'\<rparr>) = (Some r, p')" and ok: "reply_ok r"
    using sent_file_reply [OF sent] by blast
  let ?q = "p\<lparr>pg_rnd := rnd'\<rparr>"
  have q: "pg_session ?q = Some (tok, x)" "sessions_lookup (pg_net ?q) tok = (Some u, w1)"
    using session user by simp_all
  have "url_decode (takeWhile (\<lambda>x. x \<noteq> CHR ''?'') (put_target (cf_name f) tag)) = ''/api/files'' @ (CHR ''/'' # cf_name f)"
    by (simp only: before_query decoded_target)
  from api_handled [OF net a q _ _ put_target_plain(1-3) this] obtain srq c2 ok' c3 ct where
    srq: "rq_method srq = ''PUT''" "rq_path srq = ''/api/files'' @ (CHR ''/'' # cf_name f)"
    "unat (rq_content_length srq) = length b" "inp c2 = string_of b" "outp c2 = []"
    "web_routes root c2 w1 srq u = (ok', c3, pg_net p')"
    "outp c3 = header_block (rp_status r) ct (length (rp_body r)) [] @ string_of (rp_body r)"
    by (auto simp: page_headers_def)
  have "serve_put_file root c2 w1 srq u (cf_name f) = (ok', c3, pg_net p')"
    using srq(1,2,6) by (simp add: web_routes_def kFilesPrefix_def)
  from serve_put_created [OF this srq(5,7)] ok srq(3,4) s show ?thesis by (auto simp: reply_ok_def)
qed


section \<open>A download of the page is what is stored\<close>

lemma respond_whole:
  assumes "respond c w st body = (ok, c', w')" and "outp c = []" and "carriage_return \<notin> set ct"
    and "outp c' = header_block st' ct (length y) [] @ y"
  shows "st = st' \<and> y = body"
proof -
  have st: "st = st'" using respond_status [OF assms(1,2,4)] .
  obtain o1 where "send_response c st json_type body [] = (o1, c')"
    using assms(1) by (auto simp: respond_def split: prod.splits)
  from send_response_prefix [OF this] assms(2) obtain k where
    "outp c' = take k (header_block st json_type (length body) [] @ body)" by auto
  then have "header_block st json_type (length body) [] @ body =
      header_block st ct (length y) [] @ (y @ drop k (header_block st json_type (length body) [] @ body))"
    using assms(4) st by (metis append_assoc append_take_drop_id)
  moreover have "carriage_return \<notin> set json_type" by (simp add: json_type_def)
  ultimately have "length body = length y \<and> body = y @ drop k (header_block st json_type (length body) [] @ body)"
    using assms(3) by (intro header_block_inj)
  then show ?thesis using st by (metis append_Nil2 append_eq_append_conv)
qed

lemma send_slices_prefix: "send_slices c rest left = (ok, c') \<Longrightarrow> \<exists>k\<le>left. outp c' = outp c @ take k rest"
proof (induction left arbitrary: c rest rule: less_induct)
  case (less left)
  show ?case
  proof (cases "0 < left \<and> length (take (min kIoBufferSize left) rest) = min kIoBufferSize left")
    case False
    with less.prems have "c' = c" by (auto simp: send_slices.simps [of c] Let_def split: if_splits)
    then show ?thesis by (intro exI [of _ 0]) simp
  next
    case True
    let ?n = "min kIoBufferSize left"
    have n: "left - ?n < left" "?n \<le> left" "?n \<le> length rest" using True by (auto simp: kIoBufferSize_def)
    obtain o1 c1 where o: "ch_send c (take ?n rest) = (o1, c1)" by fastforce
    obtain j where j: "outp c1 = outp c @ take j (take ?n rest)" "o1 \<longrightarrow> take j (take ?n rest) = take ?n rest"
      using ch_send_spec [OF o] by blast
    show ?thesis
    proof (cases o1)
      case False
      then have "c' = c1" using less.prems True o by (simp add: send_slices.simps [of c] Let_def)
      then show ?thesis using j(1) n(2) by (intro exI [of _ "min j ?n"]) (simp add: min.commute)
    next
      case o1: True
      then have "send_slices c1 (drop ?n rest) (left - ?n) = (ok, c')"
        using less.prems True o by (simp add: send_slices.simps [of c] Let_def)
      from less.IH [OF n(1) this] obtain k where k: "k \<le> left - ?n" "outp c' = outp c1 @ take k (drop ?n rest)" by blast
      then have "outp c' = outp c @ take (?n + k) rest" using j o1 by (simp add: take_add)
      then show ?thesis using k(1) n(2) by (intro exI [of _ "?n + k"]) simp
    qed
  qed
qed

lemma serve_get_whole:
  assumes run: "serve_get_file root c w u n = (ok, c', w')" and "outp c = []" and "carriage_return \<notin> set ct"
    and out: "outp c' = header_block st ct (length y) [] @ y" and "st < 300"
  shows "stored (w_disk w) root u n = Some y"
proof (cases "\<exists>p m tag. file_path root u n = Some p \<and> file_info (w_disk w) root u n = Some (m, tag)")
  case False
  then have "respond c w 404 (json_error ''no such file'') = (ok, c', w')"
    using run by (auto simp: serve_get_file_def split: option.splits)
  from respond_status [OF this assms(2) out] assms(5) show ?thesis by simp
next
  case True
  then obtain p m tag where p: "file_path root u n = Some p" "file_info (w_disk w) root u n = Some (m, tag)" by blast
  then obtain s where s: "fs_read (w_disk w) p = Some s" "m = length s"
    by (auto simp: file_info_def fs_size_def split: if_splits option.splits)
  let ?H = "header_block 200 ''application/octet-stream'' m []"
  obtain o1 c1 where h: "ch_send c ?H = (o1, c1)" by fastforce
  obtain j where j: "outp c1 = take j ?H" "o1 \<longrightarrow> take j ?H = ?H" using ch_send_spec [OF h] assms(2) by auto
  have "\<exists>k\<le>m. \<exists>z. outp c' @ z = ?H @ take k s"
  proof (cases o1)
    case False
    then have "c' = c1" using run p h by (simp add: serve_get_file_def send_header_def)
    then have "outp c' @ drop j ?H = ?H @ take 0 s" using j(1) by simp
    then show ?thesis by blast
  next
    case o1: True
    obtain o2 where "send_slices c1 s m = (o2, c')"
      using run p h o1 s by (auto simp: serve_get_file_def send_header_def split: prod.splits)
    from send_slices_prefix [OF this] obtain k where "k \<le> m" "outp c' = outp c1 @ take k s" by blast
    then have "outp c' @ [] = ?H @ take k s" using j o1 by simp
    with \<open>k \<le> m\<close> show ?thesis by blast
  qed
  then obtain k z where k1: "k \<le> m" "outp c' @ z = ?H @ take k s" by blast
  have k: "k \<le> m" "?H @ take k s = header_block st ct (length y) [] @ (y @ z)"
    using k1(1) k1(2) [symmetric] out by simp_all
  have st: "st = 200" using header_block_status [OF k(2)] by simp
  have "carriage_return \<notin> set ''application/octet-stream''" by simp
  from header_block_inj [OF k(2) [unfolded st] this assms(3)] have "m = length y" "take k s = y @ z" by simp_all
  moreover from this have "length y + length z \<le> m" using k(1) by (metis length_append length_take min.coboundedI2)
  ultimately have "y = s" using s(2) by (metis append_Nil2 append_eq_conv_conj le_add_same_cancel1 length_0_conv length_take min.absorb2 nle_le take_all_iff)
  then show ?thesis using p s by (simp add: stored_def)
qed

lemma page_download_saves:
  assumes net: "http_network E root served (br_fetch B)"
    and session: "pg_session q = Some (tok, x)" and user: "sessions_lookup (pg_net q) tok = (Some u, w1)"
  shows "(\<exists>s. stored (w_disk (pg_net q)) root u n = Some s \<and>
      (case openBlob (br_crypto B) (pg_passphrase q) (bytes_of s) of
         Inl e \<Rightarrow> pg_saved (download B n q) = pg_saved q
       | Inr plain \<Rightarrow> pg_saved (download B n q) = pg_saved q @ [(n, plain)])) \<or>
    pg_saved (download B n q) = pg_saved q \<and>
      map_of (pg_said (download B n q)) ''files-msg'' \<in>
        {Some (n @ '': '' @ br_error B FetchFailed, ''bad''), Some (n @ '': could not fetch it'', ''bad'')}"
proof -
  let ?q = "page_say ''files-msg'' (''Fetching '' @ n @ ''...'') [] q"
  have q: "pg_session ?q = Some (tok, x)" "sessions_lookup (pg_net ?q) tok = (Some u, w1)"
    using session user by simp_all
  obtain r q2 where a: "api B ''GET'' (file_target n) [] [] ?q = (r, q2)" by fastforce
  have saved: "pg_saved q2 = pg_saved q" using api_effect(3) [OF a] by simp
  show ?thesis
  proof (cases r)
    case None
    then show ?thesis using a saved by (simp add: download_def Let_def) (simp add: page_say_def update_conv)
  next
    case (Some rp)
    show ?thesis
    proof (cases "reply_ok rp")
      case False
      then show ?thesis using a saved Some by (simp add: download_def Let_def) (simp add: page_say_def update_conv)
    next
      case True
      have keep: "pg_passphrase q2 = pg_passphrase q"
        using a True Some unfolding api_def page_fetch_def Let_def
        by (auto simp: reply_ok_def split: prod.splits option.splits if_splits)
      have path: "url_decode (takeWhile (\<lambda>x. x \<noteq> CHR ''?'') (file_target n)) = ''/api/files'' @ (CHR ''/'' # n)"
        by (simp only: before_query decoded_target)
      obtain srq c2 ok c3 ct where srq: "rq_method srq = ''GET''" "rq_path srq = ''/api/files'' @ (CHR ''/'' # n)"
        "outp c2 = []" "web_routes root c2 w1 srq u = (ok, c3, pg_net q2)" "carriage_return \<notin> set ct"
        "outp c3 = header_block (rp_status rp) ct (length (rp_body rp)) [] @ string_of (rp_body rp)"
        using api_handled [OF net a [unfolded Some] q _ _ put_target_plain(4-6) path] by (auto simp: page_headers_def)
      have "serve_get_file root c2 w1 u n = (ok, c3, pg_net q2)"
        using srq(1,2,4) by (simp add: web_routes_def kFilesPrefix_def)
      from serve_get_whole [OF this srq(3,5), of _ "string_of (rp_body rp)"] srq(6) True
      have "stored (w_disk w1) root u n = Some (string_of (rp_body rp))" by (simp add: reply_ok_def)
      then have "stored (w_disk (pg_net q)) root u n = Some (string_of (rp_body rp))"
        using sessions_lookup_disk [OF user] by simp
      then show ?thesis using a saved Some True keep by (auto simp: download_def Let_def split: sum.split)
    qed
  qed
qed

text \<open>C6: A file the page reported as stored, and that nobody replaced since, is what a later download by the
  same account under the same passphrase saves, byte for byte, or the page says that it could not be
  fetched.\<close>

theorem page_keeps_files:
  assumes "same_standards (br_crypto B) E" and "openssl_ok E" and "http_network E root served (br_fetch B)"
    and "send_file B f p = (SentFile, shown, p')" and "length (cf_bytes f) < 2 ^ 53"
    and "pg_session p = Some (tok, x)" and "sessions_lookup (pg_net p) tok = (Some u, w1)"
    and "pg_session q = Some (tok', x')" and "sessions_lookup (pg_net q) tok' = (Some u, w2)"
    and "pg_passphrase q = pg_passphrase p"
    and "stored (w_disk (pg_net q)) root u (cf_name f) = stored (w_disk (pg_net p')) root u (cf_name f)"
  shows "pg_saved (download B (cf_name f) q) = pg_saved q @ [(cf_name f, cf_bytes f)] \<or>
    pg_saved (download B (cf_name f) q) = pg_saved q \<and>
      map_of (pg_said (download B (cf_name f) q)) ''files-msg'' \<in>
        {Some (cf_name f @ '': '' @ br_error B FetchFailed, ''bad''), Some (cf_name f @ '': could not fetch it'', ''bad'')}"
proof -
  obtain b rnd' sh where b: "sealFile (br_crypto B) (pg_passphrase p) (cf_bytes f) (pg_rnd p) = (Inr b, rnd', sh)"
    "stored (w_disk (pg_net p')) root u (cf_name f) = Some (string_of b)"
    using page_upload_stored [OF assms(3,4,6,7)] by blast
  have "openBlob (br_crypto B) (pg_passphrase p) b = Inr (cf_bytes f)"
    using page_stream_opens(1) [OF assms(1,2), of "pg_passphrase p" "string_of (cf_bytes f)" "pg_rnd p" b rnd' sh] b(1) assms(5)
    by simp
  with page_download_saves [OF assms(3,8,9), of "cf_name f"] b(2) assms(10,11) show ?thesis by auto
qed

end
