(* ===== verification/Pagelist.thy ===== *)
theory Pagelist
  imports Pageserver
begin

text \<open>
  The list of files the page shows against the one the server sends: what \<open>serve_list\<close> of
  \<open>src/server/webui.cpp\<close> writes, \<open>JSON.parse\<close> and \<open>refresh\<close> of \<open>src/server/page.cpp\<close> read back.
\<close>

section \<open>What the browser parses of the server's JSON\<close>

lemma json_chars_plain:
  "c \<noteq> quote \<Longrightarrow> c \<noteq> backslash \<Longrightarrow> 0x20 \<le> (of_char c :: nat) \<Longrightarrow> json_chars val (c # s) = json_chars (val @ [c]) s"
  by (subst json_chars.simps) simp

lemma json_chars_escape_one:
  "e \<noteq> CHR ''u'' \<Longrightarrow> json_escaped e = Some x \<Longrightarrow> json_chars val (backslash # e # s) = json_chars (val @ [x]) s"
  by (subst json_chars.simps) simp

lemma hex_digit_lower: "n < 16 \<Longrightarrow> hex_digit (kDigits ! n) = Some n"
proof -
  have "\<forall>n\<in>set [0..<16]. hex_digit (kDigits ! n) = Some n" by code_simp
  then show "n < 16 \<Longrightarrow> hex_digit (kDigits ! n) = Some n" by simp
qed

lemma json_unit_control:
  assumes "(of_char c :: nat) < 0x20"
  shows "json_unit (''00'' @ to_hex [byte_of c] @ r) = Some ([c], r)"
proof -
  let ?n = "of_char c :: nat"
  have n: "unat (byte_of c) = ?n" using of_char_less_256 [of c] by (simp add: byte_of_def unat_of_nat)
  have h: "?n div 16 < 16" "?n mod 16 < 16" using assms by simp_all
  have "to_hex [byte_of c] = [kDigits ! (?n div 16), kDigits ! (?n mod 16)]"
    using page_hex_eq [of "[byte_of c]"] n by (simp add: page_hex_def)
  moreover have "hex_digit CHR ''0'' = Some 0" by (simp add: hex_digit_def less_eq_char_def)
  ultimately have "hex4 (''00'' @ to_hex [byte_of c] @ r) = Some (?n, r)"
    using hex_digit_lower [OF h(1)] hex_digit_lower [OF h(2)] by simp
  moreover have "utf8 ?n = [c]" using assms by (simp add: utf8_def)
  ultimately show ?thesis using assms by (simp add: json_unit_def)
qed

lemma json_chars_char: "json_chars val (json_escape_char c @ s) = json_chars (val @ [c]) s"
proof -
  consider "c = quote \<or> c = backslash" | "c = newline" | "c = carriage_return" | "c = CHR 0x09"
    | "(of_char c :: nat) < 0x20" "c \<noteq> newline" "c \<noteq> carriage_return" "c \<noteq> CHR 0x09" "c \<noteq> quote" "c \<noteq> backslash"
    | "0x20 \<le> (of_char c :: nat)" "c \<noteq> quote" "c \<noteq> backslash"
    by fastforce
  then show ?thesis
  proof cases
    case 1
    then show ?thesis by (auto simp: json_escape_char_def json_chars_escape_one json_escaped_def)
  next
    case 5
    then have "json_escape_char c = [backslash, CHR ''u''] @ ''00'' @ to_hex [byte_of c]"
      by (simp add: json_escape_char_def)
    then have "json_chars val (json_escape_char c @ s) =
        json_chars val (backslash # CHR ''u'' # (''00'' @ to_hex [byte_of c] @ s))" by simp
    also have "\<dots> = json_chars (val @ [c]) s"
      using json_unit_control [OF 5(1), of s] by (subst json_chars.simps) simp
    finally show ?thesis .
  next
    case 6
    then have "json_escape_char c = [c]" by (auto simp: json_escape_char_def)
    with 6 show ?thesis by (simp add: json_chars_plain)
  qed (simp_all add: json_escape_char_def json_chars_escape_one json_escaped_def)
qed

lemma json_chars_escape: "json_chars val (json_escape v @ quote # r) = Some (val @ v, r)"
proof (induction v arbitrary: val)
  case Nil
  then show ?case by (simp add: json_escape_def json_chars.simps)
next
  case (Cons c v)
  have "json_escape (c # v) @ quote # r = json_escape_char c @ json_escape v @ quote # r"
    by (simp add: json_escape_def)
  with Cons json_chars_char show ?case by simp
qed

lemma json_ws_step: "c \<notin> {CHR '' '', CHR 0x09, newline, carriage_return} \<Longrightarrow> json_ws (c # s) = c # s"
  by (simp add: json_ws_def)

lemma json_val_string: "json_val (Suc n) (quote # json_escape v @ quote # r) = Some (JStr v, r)"
  by (simp add: json_ws_step json_chars_escape)

lemma to_dec_no_zero: "length (to_dec n) > 1 \<Longrightarrow> hd (to_dec n) \<noteq> CHR ''0''"
proof (induction n rule: to_dec.induct)
  case (1 n)
  show ?case
  proof (cases "n < 10")
    case True
    with 1(2) show ?thesis by (simp add: to_dec.simps [of n])
  next
    case False
    have eq: "to_dec n = to_dec (n div 10) @ [digit_char (n mod 10)]" using False by (subst to_dec.simps) simp
    show ?thesis
    proof (cases "length (to_dec (n div 10)) > 1")
      case True
      then show ?thesis using 1(1) [OF False] eq by simp
    next
      case one: False
      have "n div 10 < 10"
      proof (rule ccontr)
        assume "\<not> ?thesis"
        then have "length (to_dec (n div 10)) = length (to_dec (n div 10 div 10)) + 1" by (subst to_dec.simps) simp
        moreover have "0 < length (to_dec (n div 10 div 10))" by simp
        ultimately show False using one by linarith
      qed
      then have d: "to_dec (n div 10) = [digit_char (n div 10)]" by (subst to_dec.simps) simp
      have "0 < n div 10" using False by simp
      then have "digit_char (n div 10) \<noteq> CHR ''0''"
        using digit_char_less [OF \<open>n div 10 < 10\<close>] by auto
      then show ?thesis by (simp add: eq d)
    qed
  qed
qed

lemma json_number_dec:
  assumes "c = CHR '','' \<or> c = CHR ''}''"
  shows "json_number (to_dec n @ c # r) = Some (JNum (int n) 0, c # r)"
    and "json_number (CHR ''-'' # to_dec n @ c # r) = Some (JNum (- int n) 0, c # r)"
proof -
  have all: "\<forall>x\<in>set (to_dec n). is_digit x" using to_dec_digits [of n] by (simp add: list_all_iff)
  have c: "\<not> is_digit c" using assms by (auto simp: is_digit_def less_eq_char_def)
  have tw: "takeWhile is_digit (to_dec n @ c # r) = to_dec n" "dropWhile is_digit (to_dec n @ c # r) = c # r"
    using all c takeWhile_append2 [of "to_dec n" is_digit "c # r"] dropWhile_append2 [of "to_dec n" is_digit "c # r"]
    by simp_all
  have h: "\<not> prefix ''-'' (to_dec n @ c # r)"
    using all by (cases "to_dec n") (auto simp: is_digit_def less_eq_char_def)
  have z: "\<not> (length (to_dec n) > 1 \<and> hd (to_dec n) = CHR ''0'')" using to_dec_no_zero [of n] by blast
  have "json_fraction (c # r) = Some ([], c # r)" "json_exponent (c # r) = Some (0, c # r)"
    using assms by (auto simp: json_fraction_def json_exponent_def)
  then have u: "json_unsigned sign (to_dec n @ c # r) = Some (JNum (sign * int n) 0, c # r)" for sign
    using z by (simp add: json_unsigned_def json_digits_def tw)
  show "json_number (to_dec n @ c # r) = Some (JNum (int n) 0, c # r)"
    "json_number (CHR ''-'' # to_dec n @ c # r) = Some (JNum (- int n) 0, c # r)"
    using h u [of 1] u [of "- 1"] by (simp_all add: json_number_def)
qed

definition int_text :: "int \<Rightarrow> string" where
  "int_text m = (if m < 0 then ''-'' else []) @ to_dec (nat \<bar>m\<bar>)"

lemma json_val_int:
  assumes "c = CHR '','' \<or> c = CHR ''}''"
  shows "json_val (Suc k) (int_text m @ c # r) = Some (JNum m 0, c # r)"
    and "json_val (Suc k) (to_dec n @ c # r) = Some (JNum (int n) 0, c # r)"
proof -
  have start: "json_val (Suc k) (x # s) = json_number (x # s)" if "is_digit x \<or> x = CHR ''-''" for x s
  proof -
    have ws: "json_ws (x # s) = x # s" using that by (intro json_ws_step) (auto simp: is_digit_def less_eq_char_def)
    have x: "x \<notin> {quote, CHR ''{'', CHR ''['', CHR ''t'', CHR ''f'', CHR ''n''}"
      using that by (auto simp: is_digit_def less_eq_char_def)
    then have "\<not> prefix ''true'' (x # s)" "\<not> prefix ''false'' (x # s)" "\<not> prefix ''null'' (x # s)" by auto
    with x show ?thesis unfolding json_val.simps(2) ws list.case by (simp del: prefix_code)
  qed
  have d: "json_val (Suc k) (to_dec n @ c # r) = Some (JNum (int n) 0, c # r)" for n
  proof -
    obtain x s where x: "to_dec n @ c # r = x # s" "is_digit x"
      using to_dec_digits [of n] by (cases "to_dec n") auto
    have "json_val (Suc k) (to_dec n @ c # r) = json_number (to_dec n @ c # r)"
      unfolding x(1) by (rule start) (simp add: x(2))
    then show ?thesis using json_number_dec(1) [OF assms, of n r] by simp
  qed
  show "json_val (Suc k) (to_dec n @ c # r) = Some (JNum (int n) 0, c # r)" by (rule d)
  show "json_val (Suc k) (int_text m @ c # r) = Some (JNum m 0, c # r)"
  proof (cases "m < 0")
    case True
    then have "json_val (Suc k) (int_text m @ c # r) = json_number (CHR ''-'' # to_dec (nat \<bar>m\<bar>) @ c # r)"
      using start [of "CHR ''-''"] by (simp add: int_text_def del: json_val.simps)
    then show ?thesis using json_number_dec(2) [OF assms, of "nat \<bar>m\<bar>" r] True by simp
  next
    case False
    with d [of "nat m"] show ?thesis by (simp add: int_text_def del: json_val.simps)
  qed
qed


section \<open>A list of files\<close>

definition plain_key :: "string \<Rightarrow> bool" where
  "plain_key k \<longleftrightarrow> list_all (\<lambda>c. 0x20 \<le> (of_char c :: nat) \<and> c \<noteq> quote \<and> c \<noteq> backslash) k"

lemma json_chars_key: "plain_key k \<Longrightarrow> json_chars [] (k @ quote # r) = Some (k, r)"
  using json_chars_escape [of "[]" k r] json_escape_plain [of k] by (simp add: plain_key_def)

lemma json_members_step:
  assumes "plain_key k" and "json_val n s = Some (v, CHR '','' # r)"
  shows "json_members (Suc n) acc (quote # k @ quote # CHR '':'' # s) = json_members n (acc @ [(k, v)]) r"
  using json_chars_key [OF assms(1)] assms(2) by (simp add: json_ws_step)

lemma json_members_last:
  assumes "plain_key k" and "json_val n s = Some (v, CHR ''}'' # r)"
  shows "json_members (Suc n) acc (quote # k @ quote # CHR '':'' # s) = Some (JObj (acc @ [(k, v)]), r)"
  using json_chars_key [OF assms(1)] assms(2) by (simp add: json_ws_step)

lemma json_val_object:
  "json_val (Suc n) (CHR ''{'' # quote # s) = json_members n [] (quote # s)"
  by (simp add: json_ws_step)

definition file_json :: "stored_file \<Rightarrow> json" where
  "file_json f = JObj [(''name'', JStr (sf_name f)), (''size'', JNum (int (sf_size f)) 0),
     (''modified'', JNum (sf_modified f) 0), (''tag'', JStr (sf_tag f))]"

lemma json_file_text:
  "json_file f @ r = CHR ''{'' # quote # ''name'' @ quote # CHR '':'' #
     (quote # json_escape (sf_name f) @ quote # CHR '','' #
      (quote # ''size'' @ quote # CHR '':'' # (to_dec (sf_size f) @ CHR '','' #
       (quote # ''modified'' @ quote # CHR '':'' # (int_text (sf_modified f) @ CHR '','' #
        (quote # ''tag'' @ quote # CHR '':'' # (quote # json_escape (sf_tag f) @ quote # CHR ''}'' # r)))))))"
  by (simp add: json_file_def json_string_field_def int_text_def)

lemma plain_keys: "plain_key ''name''" "plain_key ''size''" "plain_key ''modified''" "plain_key ''tag''" "plain_key ''files''"
  by (simp_all add: plain_key_def)

lemma json_val_file: "json_val (Suc (Suc (Suc (Suc (Suc (Suc n)))))) (json_file f @ r) = Some (file_json f, r)"
proof -
  note step = json_members_step and val = json_val_string json_val_int(1) json_val_int(2)
  have tag: "json_members (Suc (Suc n)) acc (quote # ''tag'' @ quote # CHR '':'' # (quote # json_escape (sf_tag f) @ quote # CHR ''}'' # r)) =
      Some (JObj (acc @ [(''tag'', JStr (sf_tag f))]), r)" for acc
    by (rule json_members_last [OF plain_keys(4) json_val_string])
  have "json_val (Suc (Suc (Suc (Suc (Suc (Suc n)))))) (json_file f @ r) =
      json_members (Suc (Suc n)) ((([] @ [(''name'', JStr (sf_name f))]) @ [(''size'', JNum (int (sf_size f)) 0)]) @
        [(''modified'', JNum (sf_modified f) 0)])
        (quote # ''tag'' @ quote # CHR '':'' # (quote # json_escape (sf_tag f) @ quote # CHR ''}'' # r))"
    unfolding json_file_text json_val_object
    by (subst step [OF plain_keys(1) json_val_string], subst step [OF plain_keys(2) json_val_int(2)], simp,
        subst step [OF plain_keys(3) json_val_int(1)], simp, rule refl)
  then show ?thesis by (simp only: tag) (simp add: file_json_def)
qed

lemma json_val_file_deep: "6 \<le> n \<Longrightarrow> json_val n (json_file f @ r) = Some (file_json f, r)"
proof -
  assume "6 \<le> n"
  then obtain k where "n = 6 + k" using le_Suc_ex by blast
  then have "n = Suc (Suc (Suc (Suc (Suc (Suc k)))))" by simp
  then show ?thesis by (simp only: json_val_file)
qed

lemma json_items_step:
  assumes "json_val n s = Some (v, c # r)"
  shows "c = CHR '','' \<Longrightarrow> json_items (Suc n) acc s = json_items n (acc @ [v]) r"
    and "c = CHR '']'' \<Longrightarrow> json_items (Suc n) acc s = Some (JArr (acc @ [v]), r)"
  using assms by (simp_all add: json_ws_step)

lemma json_items_files:
  "fs \<noteq> [] \<Longrightarrow> length fs + 6 \<le> n \<Longrightarrow>
     json_items n acc (json_files fs @ CHR '']'' # r) = Some (JArr (acc @ map file_json fs), r)"
proof (induction fs arbitrary: n acc rule: json_files.induct)
  case (2 f)
  then obtain m where m: "n = Suc m" "6 \<le> m" by (cases n) auto
  have "json_items (Suc m) acc (json_file f @ CHR '']'' # r) = Some (JArr (acc @ [file_json f]), r)"
    using json_val_file_deep [OF m(2)] by (rule json_items_step(2)) (rule refl)
  then show ?case by (simp add: m(1) del: json_items.simps)
next
  case (3 f g fs)
  then obtain m where m: "n = Suc m" "6 \<le> m" "length (g # fs) + 6 \<le> m" by (cases n) auto
  have "json_items (Suc m) acc (json_file f @ CHR '','' # json_files (g # fs) @ CHR '']'' # r) =
      json_items m (acc @ [file_json f]) (json_files (g # fs) @ CHR '']'' # r)"
    using json_val_file_deep [OF m(2)] by (rule json_items_step(1)) (rule refl)
  also have "\<dots> = Some (JArr ((acc @ [file_json f]) @ map file_json (g # fs)), r)"
    by (rule "3.IH" [OF _ m(3)]) simp
  finally show ?case by (simp add: m(1) del: json_items.simps)
qed simp

definition list_body :: "stored_file list \<Rightarrow> string" where
  "list_body fs = ''{'' @ [quote] @ ''files'' @ [quote] @ '':['' @ json_files fs @ '']}''"

lemma json_files_length: "length fs \<le> length (json_files fs)"
  by (induction fs rule: json_files.induct) (auto simp: json_file_def)

lemma json_files_start: "fs \<noteq> [] \<Longrightarrow> \<exists>t. json_files fs = CHR ''{'' # t"
  by (induction fs rule: json_files.induct) (auto simp: json_file_def)

lemma json_val_array:
  assumes "length fs + 6 \<le> n"
  shows "json_val (Suc n) (CHR ''['' # json_files fs @ CHR '']'' # r) = Some (JArr (map file_json fs), r)"
proof (cases "fs = []")
  case True
  then show ?thesis by (simp add: json_ws_step)
next
  case False
  obtain t where t: "json_files fs = CHR ''{'' # t" using json_files_start [OF False] by blast
  then have "json_ws (json_files fs @ CHR '']'' # r) = json_files fs @ CHR '']'' # r" by (simp add: json_ws_step)
  moreover have "\<not> prefix '']'' (json_files fs @ CHR '']'' # r)" by (simp add: t)
  ultimately have "json_val (Suc n) (CHR ''['' # json_files fs @ CHR '']'' # r) =
      json_items n [] (json_files fs @ CHR '']'' # r)" by (simp add: json_ws_step)
  with json_items_files [OF False assms, of "[]" r] show ?thesis by simp
qed

lemma json_parse_list: "json_parse (list_body fs) = Some (JObj [(''files'', JArr (map file_json fs))])"
proof -
  let ?n = "length (list_body fs)"
  have n: "length fs + 12 \<le> ?n" using json_files_length [of fs] by (simp add: list_body_def)
  then obtain m where m: "?n = Suc (Suc m)" "length fs + 6 \<le> m" by (cases ?n; cases "?n - 1") auto
  have body: "list_body fs = CHR ''{'' # quote # ''files'' @ quote # CHR '':'' #
      (CHR ''['' # json_files fs @ CHR '']'' # CHR ''}'' # [])" by (simp add: list_body_def)
  have "json_val (Suc (Suc (Suc m))) (list_body fs) = Some (JObj ([] @ [(''files'', JArr (map file_json fs))]), [])"
    unfolding body json_val_object
    by (rule json_members_last [OF plain_keys(5) json_val_array [OF m(2)]])
  then show ?thesis unfolding json_parse_def m(1) by (simp add: json_ws_def del: json_val.simps)
qed

definition page_entry :: "stored_file \<Rightarrow> page_file" where
  "page_entry f = \<lparr>pf_name = sf_name f, pf_size = to_double (sf_size f), pf_modified = sf_modified f, pf_tag = sf_tag f\<rparr>"

lemma file_entry_json: "file_entry (file_json f) = Some (page_entry f)"
  by (simp add: file_entry_def file_json_def json_member_def page_entry_def)

lemma file_entries_json: "file_entries (JObj [(''files'', JArr (map file_json fs))]) = Some (map page_entry fs)"
proof -
  have "gather (map (\<lambda>f. Some (page_entry f)) fs) = Some (map page_entry fs)" by (induction fs) simp_all
  then show ?thesis by (simp add: file_entries_def json_member_def comp_def file_entry_json)
qed

section \<open>Refreshing\<close>

lemma refresh_lists:
  assumes net: "http_network E root served (br_fetch B)" and run: "refresh B p = (r, p')" and "r \<noteq> Some FetchFailed"
    and session: "pg_session p = Some (tok, x)" and user: "sessions_lookup (pg_net p) tok = (Some u, w1)"
  shows "r = None \<and> pg_session p' = pg_session p \<and> pg_passphrase p' = pg_passphrase p \<and>
    w_disk (pg_net p') = w_disk (pg_net p) \<and> pg_files p' = map page_entry (list_files (w_disk (pg_net p)) root u)"
proof -
  obtain a q where a: "api B ''GET'' ''/api/files'' [] [] p = (a, q)" by fastforce
  obtain rp where rp: "a = Some rp" using run a assms(3) by (cases a) (auto simp: refresh_def)
  have t: "is_word ''/api/files''" "newline \<notin> set ''/api/files''" "carriage_return \<notin> set ''/api/files''"
    by (simp_all add: is_word_def)
  have path: "url_decode (takeWhile (\<lambda>x. x \<noteq> CHR ''?'') ''/api/files'') = ''/api/files'' @ []" by simp
  obtain srq c2 ok c3 ct where srq: "rq_method srq = ''GET''" "rq_path srq = ''/api/files'' @ []"
    "outp c2 = []" "web_routes root c2 w1 srq u = (ok, c3, pg_net q)" "carriage_return \<notin> set ct"
    "outp c3 = header_block (rp_status rp) ct (length (rp_body rp)) [] @ string_of (rp_body rp)"
    using api_handled [OF net a [unfolded rp] session user _ _ t path] by (auto simp: page_headers_def)
  have s: "serve_list root c2 w1 u = (ok, c3, pg_net q)" using srq(1,2,4) by (simp add: web_routes_def)
  then have "respond c2 w1 200 (list_body (list_files (w_disk w1) root u)) = (ok, c3, pg_net q)"
    by (simp add: serve_list_def list_body_def Let_def)
  from respond_whole [OF this srq(3,5), of _ "string_of (rp_body rp)"] srq(6)
  have reply: "rp_status rp = 200" "string_of (rp_body rp) = list_body (list_files (w_disk w1) root u)" by auto
  have disk: "w_disk w1 = w_disk (pg_net p)" using sessions_lookup_disk [OF user] .
  have qd: "w_disk (pg_net q) = w_disk w1" using serve_others_world(2) [OF s] by simp
  have keep: "pg_session q = pg_session p" "pg_passphrase q = pg_passphrase p"
    using a reply(1) unfolding rp api_def page_fetch_def Let_def by (auto split: prod.splits option.splits)
  have "(r, p') = (None, render B (q\<lparr>pg_files := map page_entry (list_files (w_disk w1) root u)\<rparr>))"
    using run unfolding refresh_def a rp
    by (simp add: reply_ok_def reply(1) reply_json_def reply(2) json_parse_list file_entries_json)
  then show ?thesis by (auto simp: keep disk qd)
qed


end
