(* ===== verification/Pagelive.thy ===== *)
theory Pagelive
  imports Pagelist Exchange
begin

text \<open>
  The page and a server with nothing in the way: the network \<open>direct_fetch\<close> runs the parser of
  \<open>src/server/http.cpp\<close> and the handlers of \<open>src/server/webui.cpp\<close> on every request of
  \<open>src/server/page.cpp\<close>. It meets \<open>http_network\<close>, and over it an upload succeeds.
\<close>

section \<open>A network that loses nothing\<close>

text \<open>The answer, when what the server wrote is a whole one.\<close>

definition whole_reply :: "string \<Rightarrow> page_reply option" where
  "whole_reply out =
     (case (after_sub ''Content-Type: '' out, after_sub (crlf @ crlf) out) of
        (Some t, Some y) \<Rightarrow>
          (let st = dec_value (takeWhile is_digit (drop 9 out));
               ct = takeWhile (\<lambda>x. x \<noteq> carriage_return \<and> x \<noteq> newline) t
           in if out = header_block st ct (length y) [] @ y
              then Some \<lparr>rp_status = st, rp_body = bytes_of y\<rparr> else None)
      | _ \<Rightarrow> None)"

definition direct_fetch ::
  "'x openssl \<Rightarrow> store \<Rightarrow> string \<Rightarrow> page_request \<Rightarrow> world \<Rightarrow> page_reply option \<times> world" where
  "direct_fetch E root served rq w =
     (if \<not> list_all plain_line (map header_line (field_lines rq)) then (None, w)
      else case ch_read_line (quiet (request_text [] rq)) of
        (None, c) \<Rightarrow> (None, w)
      | (Some line, c) \<Rightarrow>
      case read_request c line of
        (Inl e, c) \<Rightarrow> (None, w)
      | (Inr srq, c) \<Rightarrow>
      case web_handle E root served c w srq of (ok, c, w) \<Rightarrow> (whole_reply (outp c), w))"

lemma whole_reply_block:
  assumes "whole_reply out = Some r"
  shows "\<exists>ct. newline \<notin> set ct \<and> carriage_return \<notin> set ct \<and>
    out = header_block (rp_status r) ct (length (rp_body r)) [] @ string_of (rp_body r)"
proof -
  obtain t y where "after_sub ''Content-Type: '' out = Some t"
    and out: "out = header_block (dec_value (takeWhile is_digit (drop 9 out)))
        (takeWhile (\<lambda>x. x \<noteq> carriage_return \<and> x \<noteq> newline) t) (length y) [] @ y"
    and r: "r = \<lparr>rp_status = dec_value (takeWhile is_digit (drop 9 out)), rp_body = bytes_of y\<rparr>"
    using assms by (auto simp: whole_reply_def Let_def split: option.splits if_splits)
  have "newline \<notin> set (takeWhile (\<lambda>x. x \<noteq> carriage_return \<and> x \<noteq> newline) t)"
    "carriage_return \<notin> set (takeWhile (\<lambda>x. x \<noteq> carriage_return \<and> x \<noteq> newline) t)"
    by (auto dest: set_takeWhileD)
  with out r show ?thesis by (intro exI [of _ "takeWhile (\<lambda>x. x \<noteq> carriage_return \<and> x \<noteq> newline) t"]) simp
qed

lemma direct_http_network: "http_network E root served (direct_fetch E root served)"
  unfolding http_network_def
proof (intro allI impI)
  fix rq w r w' assume f: "direct_fetch E root served rq w = (Some r, w')"
  then have plain: "list_all plain_line (map header_line (field_lines rq))"
    by (auto simp: direct_fetch_def split: if_splits)
  obtain line c1 srq c2 ok c3 where s: "ch_read_line (quiet (request_text [] rq)) = (Some line, c1)"
    "read_request c1 line = (Inr srq, c2)" "web_handle E root served c2 w srq = (ok, c3, w')"
    "whole_reply (outp c3) = Some r"
    using f plain by (auto simp: direct_fetch_def split: prod.splits option.splits sum.splits)
  from whole_reply_block [OF s(4)] obtain ct where ct: "newline \<notin> set ct" "carriage_return \<notin> set ct"
    "outp c3 = header_block (rp_status r) ct (length (rp_body r)) [] @ string_of (rp_body r)" by blast
  show "list_all plain_line (map header_line (field_lines rq)) \<and>
    (\<exists>extra c0 line c1 srq c2 ok c3 ct.
       list_all browser_line extra \<and> inp c0 = request_text extra rq \<and> outp c0 = [] \<and>
       ch_read_line c0 = (Some line, c1) \<and> read_request c1 line = (Inr srq, c2) \<and>
       web_handle E root served c2 w srq = (ok, c3, w') \<and> newline \<notin> set ct \<and> carriage_return \<notin> set ct \<and>
       outp c3 = header_block (rp_status r) ct (length (rp_body r)) [] @ string_of (rp_body r))"
  proof -
    have "list_all browser_line []" "inp (quiet (request_text [] rq)) = request_text [] rq"
      "outp (quiet (request_text [] rq)) = []" by simp_all
    with plain s(1-3) ct show ?thesis by blast
  qed
qed

section \<open>Reading without errors\<close>

lemma read_line_loop_crlf:
  assumes "calm c" and "inp c = l @ crlf @ r" and "newline \<notin> set l" and "carriage_return \<notin> set l"
    and "length out + length l \<le> kMaxLineLen"
  shows "\<exists>c'. read_line_loop c out = (Some (out @ l), c') \<and> inp c' = r \<and> outp c' = outp c \<and> calm c'"
  using assms
proof (induction l arbitrary: c out)
  case Nil
  then obtain c1 where c1: "ssl_read c 1 = ([carriage_return], c1)" "inp c1 = newline # r" "outp c1 = outp c" "calm c1"
    using ssl_read_one [of c carriage_return "newline # r"] by (auto simp: crlf_def)
  then obtain c2 where c2: "ssl_read c1 1 = ([newline], c2)" "inp c2 = r" "outp c2 = outp c1" "calm c2"
    using ssl_read_one [of c1 newline r] by auto
  from c1 c2 show ?case by (simp add: read_line_loop.simps [of c] read_line_loop.simps [of c1])
next
  case (Cons x l)
  then obtain c1 where c1: "ssl_read c 1 = ([x], c1)" "inp c1 = l @ crlf @ r" "outp c1 = outp c" "calm c1"
    using ssl_read_one [of c x "l @ crlf @ r"] by auto
  then obtain c' where "read_line_loop c1 (out @ [x]) = (Some (out @ x # l), c')" "inp c' = r"
    "outp c' = outp c" "calm c'"
    using Cons.IH [of c1 "out @ [x]"] Cons.prems by auto
  with c1 Cons.prems show ?case by (subst read_line_loop.simps) auto
qed

lemma read_crlf_calm:
  assumes "calm c" and "inp c = l @ crlf @ r" and "newline \<notin> set l" and "carriage_return \<notin> set l"
    and "length l \<le> kMaxLineLen"
  obtains c' where "ch_read_line c = (Some l, c')" "inp c' = r" "outp c' = outp c" "calm c'"
  using read_line_loop_crlf [of c l r "[]"] assms by (auto simp: ch_read_line_def)

lemma read_headers_calm:
  assumes "calm c" and "inp c = concat (map (\<lambda>l. l @ crlf) ls) @ crlf @ b" and "list_all plain_line ls"
    and "count + length ls \<le> 64" and "\<forall>l\<in>set ls. length l \<le> kMaxLineLen"
  shows "\<exists>c'. read_headers c count hs = (Inr (foldl add_header hs ls), c') \<and> inp c' = b \<and> outp c' = outp c \<and> calm c'"
  using assms
proof (induction ls arbitrary: c count hs)
  case Nil
  then obtain c1 where "ch_read_line c = (Some [], c1)" "inp c1 = b" "outp c1 = outp c" "calm c1"
    using read_crlf_calm [of c "[]" b] by auto
  then show ?case by (simp add: read_headers.simps [of c])
next
  case (Cons t ls)
  have t: "t \<noteq> []" "newline \<notin> set t" "carriage_return \<notin> set t" using Cons.prems(3) by (simp_all add: plain_line_def)
  obtain c1 where c1: "ch_read_line c = (Some t, c1)" "inp c1 = concat (map (\<lambda>l. l @ crlf) ls) @ crlf @ b"
    "outp c1 = outp c" "calm c1"
    using read_crlf_calm [of c t "concat (map (\<lambda>l. l @ crlf) ls) @ crlf @ b"] Cons.prems t by auto
  have "read_headers c count hs = read_headers c1 (count + 1) (add_header hs t)"
    using c1(1) t(1) Cons.prems(4)
    by (subst read_headers.simps [of c]) (simp add: add_header_def header_name_def header_value_def Let_def)
  then show ?case using Cons.IH [OF c1(4,2), of "count + 1" "add_header hs t"] Cons.prems c1(3) by simp
qed


lemma read_request_calm:
  assumes "list_all plain_line (map header_line (field_lines rq))" and "length (field_lines rq) \<le> 64"
    and "\<forall>h\<in>set (field_lines rq). length (header_line h) \<le> kMaxLineLen"
    and "is_word (pr_method rq)" and "is_word (pr_target rq)"
    and "newline \<notin> set (pr_method rq) \<union> set (pr_target rq)" and "carriage_return \<notin> set (pr_method rq) \<union> set (pr_target rq)"
    and "length (pr_method rq) + length (pr_target rq) + 10 \<le> kMaxLineLen"
    and "length (pr_body rq) \<le> unat kMaxTransferSize"
    and "\<forall>h\<in>set (pr_headers rq). header_name (header_line h) \<noteq> ''content-length''"
  shows "\<exists>line c1 srq c2. ch_read_line (quiet (request_text [] rq)) = (Some line, c1) \<and>
    read_request c1 line = (Inr srq, c2) \<and> calm c2 \<and> outp c2 = [] \<and> inp c2 = string_of (pr_body rq)"
proof -
  let ?line = "pr_method rq @ '' '' @ pr_target rq @ '' HTTP/1.1''"
  let ?ls = "map header_line (field_lines rq)"
  note first = plain_request_line [OF assms(4-7)]
  have "inp (quiet (request_text [] rq)) = ?line @ crlf @ concat (map (\<lambda>l. l @ crlf) ?ls) @ crlf @ string_of (pr_body rq)"
    by (simp add: request_text_def)
  moreover have "length ?line \<le> kMaxLineLen" using assms(8) by simp
  ultimately obtain c1 where c1: "ch_read_line (quiet (request_text [] rq)) = (Some ?line, c1)"
    "inp c1 = concat (map (\<lambda>l. l @ crlf) ?ls) @ crlf @ string_of (pr_body rq)" "outp c1 = []" "calm c1"
    using read_crlf_calm [OF quiet_simps(1) _ first(2,3)] by (metis quiet_simps(3))
  have "\<forall>l\<in>set ?ls. length l \<le> kMaxLineLen" "0 + length ?ls \<le> 64" using assms(2,3) by simp_all
  from read_headers_calm [OF c1(4,2) assms(1) this(2,1), of "[]"] obtain c2 where
    c2: "read_headers c1 0 [] = (Inr (foldl add_header [] ?ls), c2)" "inp c2 = string_of (pr_body rq)" "outp c2 = []" "calm c2"
    using c1(3) by auto
  define hs where "hs = foldl add_header [] ?ls"
  let ?len = "case map_of hs ''content-length'' of None \<Rightarrow> [] | Some v \<Rightarrow> v"
  have len: "?len = [] \<or> ?len = to_dec (length (pr_body rq))"
  proof (cases "pr_body rq \<noteq> [] \<or> pr_method rq \<in> {''PUT'', ''POST''}")
    case True
    let ?h = "(''Content-Length'', to_dec (length (pr_body rq)))"
    have dec: "to_dec k = [] \<or> hd (to_dec k) \<noteq> CHR '' '' \<and> hd (to_dec k) \<noteq> CHR 0x09" for k
      using to_dec_digits [of k] by (cases "to_dec k") (auto simp: is_digit_def less_eq_char_def)
    have name: "header_name (header_line ?h) = ''content-length''" "header_value (header_line ?h) = to_dec (length (pr_body rq))"
      using header_line_parts [of "''Content-Length''" "to_dec (length (pr_body rq))"] dec by (simp_all add: lower_names)
    have "?ls = map header_line (pr_headers rq) @ header_line ?h # []" using True by (simp add: field_lines_def)
    moreover have "CHR '':'' \<in> set (header_line ?h)" by (simp add: header_line_def)
    ultimately show ?thesis
      using headers_find [OF _ name(1), of "[]" "[]" "map header_line (pr_headers rq)"] name(2) by (simp add: hs_def)
  next
    case False
    then have "?ls = map header_line (pr_headers rq)" by (simp add: field_lines_def)
    then have "map_of hs ''content-length'' = None"
      using headers_skip [of ?ls "''content-length''" "[]"] assms(10) by (simp add: hs_def)
    then show ?thesis by simp
  qed
  have "http_lowercase ''content-length'' = ''content-length''" by code_simp
  then have "\<exists>srq. read_request c1 ?line = (Inr srq, c2)"
    using first(1) c2(1) len parse_size_to_dec [OF assms(9)]
    by (auto simp: read_request_def Let_def request_header_def hs_def [symmetric])
  with c1(1) c2(2-4) show ?thesis by blast
qed

section \<open>An upload succeeds\<close>

lemma receive_body_ok:
  "calm c \<Longrightarrow> inp c = b @ r \<Longrightarrow> faults d = [] \<Longrightarrow>
     \<exists>c'. receive_body c p (True, put d p x) (length b) = (True, c', (True, put d p (x @ b))) \<and> calm c' \<and> outp c' = outp c"
proof (induction "length b" arbitrary: c b x rule: less_induct)
  case less
  show ?case
  proof (cases "b = []")
    case True
    with less.prems show ?thesis by (simp add: receive_body.simps)
  next
    case False
    define u v where "u = take kIoBufferSize b" and "v = drop kIoBufferSize b"
    have uv: "b = u @ v" "length v < length b" "min kIoBufferSize (length b) = length u" "length b - length u = length v"
      using False by (simp_all add: u_def v_def kIoBufferSize_def)
    obtain c1 where c1: "ch_recv c (length u) = (Some u, c1)" "calm c1" "inp c1 = v @ r" "outp c1 = outp c"
      using ch_recv_calm [of c u "v @ r"] less.prems uv(1) by auto
    from less.hyps [OF uv(2) c1(2,3) less.prems(3), of "x @ u"] c1 uv False less.prems(3) show ?thesis
      by (subst receive_body.simps) (auto simp: out_text_def append_ok fs_simps)
  qed
qed

lemma respond_calm:
  "calm c \<Longrightarrow> \<exists>c'. respond c w st body = (True, c', w) \<and> outp c' = outp c @ header_block st json_type (length body) [] @ body"
proof -
  assume c: "calm c"
  obtain c1 where c1: "ch_send c (header_block st json_type (length body) []) = (True, c1)" "calm c1"
    using ch_send_calm [OF c] by blast
  obtain c2 where c2: "ch_send c1 body = (True, c2)" using ch_send_calm [OF c1(2)] by blast
  have "\<exists>c'. send_response c st json_type body [] = (True, c')"
    using c1 c2 by (cases "body = []") (auto simp: send_response_def send_header_def)
  then obtain c' where "send_response c st json_type body [] = (True, c')" by blast
  with response_framing [OF this] show ?thesis by (simp add: respond_def)
qed

lemma serve_put_file_ok:
  assumes "calm c" and "accepts_file (w_disk w) root u n" and "inp c = b" and "unat (rq_content_length rq) = length b"
  shows "\<exists>c' w'. serve_put_file root c w rq u n = (True, c', w') \<and>
    outp c' = outp c @ header_block 201 json_type (length json_ok) [] @ json_ok"
proof -
  note acc = assms(2) [unfolded accepts_file_def]
  let ?final = "root @ [''users'', u, ''files'', n]"
  have final: "file_path root u n = Some ?final" and safe: "is_safe_name n" using acc by (simp_all add: file_path_eq)
  obtain temp pool where temp: "temp_path root (w_pool w) = (temp, pool)" by fastforce
  have wt: "writable (w_disk w) temp" using acc temp by (metis fst_conv)
  have cr: "fs_create (w_disk w) temp = (True, put (w_disk w) temp [])"
    using acc wt by (simp add: create_ok writable_def)
  obtain c1 where rb: "receive_body c temp (True, put (w_disk w) temp []) (length b) = (True, c1, (True, put (w_disk w) temp b))"
    and c1: "calm c1" "outp c1 = outp c"
    using receive_body_ok [OF assms(1), of b "[]" "w_disk w" temp "[]"] assms(3) acc by auto
  have fl: "out_flush temp (True, put (w_disk w) temp b) = (True, put (w_disk w) temp b)"
    using acc by (simp add: out_flush_def flush_ok fs_simps)
  obtain e where co: "commit_upload (put (w_disk w) temp b) temp ?final = (True, e)" using commit_ok acc by blast
  obtain x f where tg: "write_tag e root u n (query_tag rq) = (x, f)" by fastforce
  show ?thesis
    using respond_calm [OF c1(1), of _ 201 json_ok] c1(2)
    by (auto simp: serve_put_file_def Let_def final safe temp cr rb fl co tg assms(4)) metis
qed


lemma page_stream_length:
  "openssl_ok E \<Longrightarrow> sealed E key hdr i ps bl \<Longrightarrow> length bl = 32 * length ps + length (concat ps)"
proof (induction ps arbitrary: i bl)
  case (Cons p ps)
  then obtain iv c t bl' where b: "length iv = kIvLen" "aes_gcm_seal E key iv (block_aad hdr (of_nat i)) p = Some (c, t)"
    "bl = iv @ put_u32 [] (of_nat (length c)) @ c @ t @ bl'" "sealed E key hdr (Suc i) ps bl'"
    by auto
  then have "length c = length p" "length t = kTagLen" using Cons.prems(1) by (auto simp: openssl_ok_def)
  with Cons.IH [OF Cons.prems(1) b(4)] b show ?case by (simp add: u32.width kIvLen_def kTagLen_def)
qed simp

lemma sealFile_length:
  assumes "same_standards W E" and "openssl_ok E" and "sealFile W pw c rnd = (Inr s, rnd', shown)"
  shows "length s = 37 + 32 * ((length c + 1048575) div 1048576) + length c"
proof -
  obtain st bl where st: "st = stake kSaltLen rnd"
    "sealed E (derive_key E pw st kContentKeyLabel kKdfIterations) (build_header (sealed_header st (length c))) 0
      (pieces (unat kBlockSize) (string_of c)) bl" and s: "s = build_header (sealed_header st (length c)) @ bl"
    using sealFile_sealed [OF assms(1,2), of pw "string_of c" rnd s rnd' shown] assms(3) by auto
  have "length (build_header (sealed_header st (length c))) = 37"
    using length_build_header [OF sealed_header_ok] st(1) by (simp add: kHeaderLen_def kSaltLen_def)
  moreover have "length (pieces (unat kBlockSize) (string_of c)) = (length c + 1048575) div 1048576"
    using length_pieces [of "unat kBlockSize" "string_of c"] by (simp add: unat_kBlockSize)
  moreover have "length (concat (pieces (unat kBlockSize) (string_of c))) = length c"
    using concat_pieces [of "unat kBlockSize" "string_of c"] by (simp add: unat_kBlockSize)
  ultimately show ?thesis using page_stream_length [OF assms(2) st(2)] by (simp add: s)
qed

lemma length_encoded: "length (encodeURIComponent n) \<le> 3 * length n"
  by (induction n) (auto simp: encodeURIComponent_Cons encodeURIComponent_def)

lemma dedup_tag_length:
  assumes "same_standards W E" and "openssl_ok E" and "dedupTagFor W pw c = Some tag"
  shows "length tag \<le> 64"
  using assms by (auto simp: dedupTagFor_def page_hex_eq same_standards_def openssl_ok_def split: if_splits option.splits)

lemma after_crlf:
  assumes "carriage_return \<notin> set a" and "x \<noteq> []" and "hd x \<noteq> carriage_return"
  shows "after_sub (crlf @ crlf) (a @ crlf @ x) = after_sub (crlf @ crlf) x"
proof -
  have "after_sub (crlf @ crlf) (a @ crlf @ x) = after_sub (crlf @ crlf) (crlf @ x)"
    using assms(1) by (intro after_sub_skip) (simp_all add: crlf_def)
  also have "\<dots> = after_sub (crlf @ crlf) (newline # x)"
    using assms(2,3) by (cases x) (simp_all add: crlf_def)
  also have "\<dots> = after_sub (crlf @ crlf) x" by (simp add: crlf_def)
  finally show ?thesis .
qed

lemma whole_reply_header:
  assumes st: "status_text st \<noteq> []" "carriage_return \<notin> set (status_text st)" "CHR ''C'' \<notin> set (status_text st)"
    and ct: "ct \<in> {json_type, ''application/octet-stream''}" and n: "length y = n"
  shows "whole_reply (header_block st ct n [] @ y) = Some \<lparr>rp_status = st, rp_body = bytes_of y\<rparr>"
proof -
  let ?out = "header_block st ct n [] @ y"
  have all: "\<forall>x\<in>set (to_dec k). is_digit x" for k using to_dec_digits [of k] by (simp add: list_all_iff)
  have free: "carriage_return \<notin> set (to_dec k)" "CHR ''C'' \<notin> set (to_dec k)" for k
    by (rule digits_free, simp add: is_digit_def less_eq_char_def)+
  have ct': "carriage_return \<notin> set ct" "newline \<notin> set ct" using ct by (auto simp: json_type_def)
  have sp: "\<not> is_digit (CHR '' '')" by (simp add: is_digit_def less_eq_char_def)
  have 1: "dec_value (takeWhile is_digit (drop 9 ?out)) = st"
  proof -
    have "\<exists>t. drop 9 ?out = to_dec st @ CHR '' '' # t" by (simp add: header_block_split)
    then obtain t where t: "drop 9 ?out = to_dec st @ CHR '' '' # t" ..
    have "takeWhile is_digit (to_dec st @ CHR '' '' # t) = to_dec st"
      using all sp by (subst takeWhile_append2) auto
    then show ?thesis unfolding t by simp
  qed
  let ?rest = "crlf @ ''Content-Length: '' @ to_dec n @ crlf @ ''Cache-Control: no-store'' @ crlf
     @ ''X-Content-Type-Options: nosniff'' @ crlf @ ''Referrer-Policy: no-referrer'' @ crlf @ crlf"
  have out: "?out = (''HTTP/1.1 '' @ to_dec st @ '' '' @ status_text st @ crlf) @ ''Content-Type: '' @ ct @ ?rest @ y"
    by (simp add: header_block_def)
  have "CHR ''C'' \<notin> set (''HTTP/1.1 '' @ to_dec st @ '' '' @ status_text st @ crlf)"
    using st(3) free(2) [of st] by (simp add: crlf_def)
  then have 2: "after_sub ''Content-Type: '' ?out = Some (ct @ ?rest @ y)"
    unfolding out using after_sub_here [of "''Content-Type: ''" "ct @ ?rest @ y"] by (subst after_sub_skip) simp_all
  have 3: "takeWhile (\<lambda>x. x \<noteq> carriage_return \<and> x \<noteq> newline) (ct @ ?rest @ y) = ct"
  proof -
    have "takeWhile (\<lambda>x. x \<noteq> carriage_return \<and> x \<noteq> newline) (ct @ (carriage_return # tl (?rest @ y))) = ct"
      using ct' by (subst takeWhile_append2) auto
    then show ?thesis by (simp add: crlf_def)
  qed
  have 4: "after_sub (crlf @ crlf) ?out = Some y"
  proof -
    let ?k = "crlf @ crlf"
    let ?e = "''Cache-Control: no-store'' @ crlf @ ''X-Content-Type-Options: nosniff'' @ crlf @ ''Referrer-Policy: no-referrer''
      @ crlf @ crlf @ y"
    have "after_sub ?k ?out = after_sub ?k ((''Content-Type: '' @ ct) @ crlf @ (''Content-Length: '' @ to_dec n) @ crlf @ ?e)"
      unfolding out append_assoc
      using after_crlf [of "''HTTP/1.1 '' @ to_dec st @ '' '' @ status_text st"] st(2) free(1) [of st] by simp
    also have "\<dots> = after_sub ?k ((''Content-Length: '' @ to_dec n) @ crlf @ ?e)"
      using ct'(1) by (intro after_crlf) simp_all
    also have "\<dots> = after_sub ?k ?e" using free(1) by (intro after_crlf) simp_all
    also have "\<dots> = after_sub ?k (''X-Content-Type-Options: nosniff'' @ crlf @ ''Referrer-Policy: no-referrer'' @ crlf @ crlf @ y)"
      by (intro after_crlf) simp_all
    also have "\<dots> = after_sub ?k (''Referrer-Policy: no-referrer'' @ crlf @ crlf @ y)" by (intro after_crlf) simp_all
    also have "\<dots> = after_sub ?k (?k @ y)"
      using after_sub_skip [of ?k "''Referrer-Policy: no-referrer''" "?k @ y"] by (simp add: crlf_def)
    also have "\<dots> = Some y" by (rule after_sub_here)
    finally show ?thesis .
  qed
  show ?thesis unfolding whole_reply_def 2 4 by (simp only: option.case prod.case 1 3 Let_def n) simp
qed

lemma plain_statuses:
  "status_text 200 \<noteq> [] \<and> carriage_return \<notin> set (status_text 200) \<and> CHR ''C'' \<notin> set (status_text 200)"
  by (simp add: status_text_def)

lemma whole_created:
  "whole_reply (header_block 201 json_type (length json_ok) [] @ json_ok) =
     Some \<lparr>rp_status = 201, rp_body = bytes_of json_ok\<rparr>"
  by code_simp

text \<open>A session the page holds: its token is one the server knows and can be sent in a header.\<close>

definition holds_session :: "'n page \<Rightarrow> world \<Rightarrow> string \<Rightarrow> string \<Rightarrow> bool" where
  "holds_session p w tok u \<longleftrightarrow> (\<exists>x. pg_session p = Some (tok, x)) \<and> fst (sessions_lookup w tok) = Some u \<and>
     length tok \<le> 1000 \<and> newline \<notin> set tok \<and> carriage_return \<notin> set tok"

lemma api_reaches_routes:
  assumes "holds_session p (pg_net p) tok u" and "br_fetch B = direct_fetch E root served"
    and "meth \<in> {''GET'', ''PUT'', ''DELETE''}" and "hs \<in> page_headers" and "length b \<le> unat kMaxTransferSize"
    and target: "is_word target" "newline \<notin> set target" "carriage_return \<notin> set target" "length target \<le> 1100"
    and path: "url_decode (takeWhile (\<lambda>x. x \<noteq> CHR ''?'') target) = ''/api/files'' @ rest"
  shows "\<exists>srq c2 w1. calm c2 \<and> inp c2 = string_of b \<and> outp c2 = [] \<and> rq_method srq = meth \<and>
    rq_path srq = ''/api/files'' @ rest \<and> unat (rq_content_length srq) = length b \<and>
    sessions_lookup (pg_net p) tok = (Some u, w1) \<and>
    (\<forall>c3 w' r. web_routes root c2 w1 srq u = (True, c3, w') \<longrightarrow> whole_reply (outp c3) = Some r \<longrightarrow>
       rp_status r \<noteq> 401 \<longrightarrow> (\<exists>q. api B meth target hs b p = (Some r, q) \<and> pg_net q = w' \<and> pg_session q = pg_session p \<and>
         pg_passphrase q = pg_passphrase p \<and> pg_files q = pg_files p))"
proof -
  obtain x w1 where sess: "pg_session p = Some (tok, x)" "sessions_lookup (pg_net p) tok = (Some u, w1)"
    and tok: "length tok \<le> 1000" "newline \<notin> set tok" "carriage_return \<notin> set tok"
    using assms(1) unfolding holds_session_def by (metis prod.collapse)
  let ?hs = "hs @ [(''Authorization'', ''Bearer '' @ tok)]"
  let ?rq = "\<lparr>pr_method = meth, pr_target = target, pr_headers = ?hs, pr_body = b\<rparr>"
  have fl: "set (field_lines ?rq) \<subseteq> {(''Content-Type'', ''application/octet-stream''), (''Authorization'', ''Bearer '' @ tok),
      (''Content-Length'', to_dec (length b))}" "length (field_lines ?rq) \<le> 3"
    using assms(4) by (auto simp: field_lines_def page_headers_def)
  have dec: "newline \<notin> set (to_dec k)" "carriage_return \<notin> set (to_dec k)" for k
    by (rule digits_free, simp add: is_digit_def less_eq_char_def)+
  have dl: "length (to_dec (length b)) \<le> 20"
  proof -
    have "unat kMaxTransferSize < 10 ^ 20" by (simp add: kMaxTransferSize_def)
    then show ?thesis using assms(5) by (intro to_dec_length) simp_all
  qed
  have auth: "header_name (header_line (''Authorization'', ''Bearer '' @ tok)) = ''authorization''"
    using header_line_parts(1) [of "''Authorization''" "''Bearer '' @ tok"] by (simp add: lower_names)
  have each: "plain_line (header_line h) \<and> length (header_line h) \<le> kMaxLineLen" if "h \<in> set (field_lines ?rq)" for h
    using subsetD [OF fl(1) that] tok dec dl by (auto simp: header_line_def plain_line_def kMaxLineLen_def)
  then have plain: "list_all plain_line (map header_line (field_lines ?rq))" by (auto simp: list_all_iff)
  have few: "length (field_lines ?rq) \<le> 64" using fl(2) by linarith
  have short: "\<forall>h\<in>set (field_lines ?rq). length (header_line h) \<le> kMaxLineLen" using each by blast
  have 1: "is_word (pr_method ?rq)" "is_word (pr_target ?rq)"
    "newline \<notin> set (pr_method ?rq) \<union> set (pr_target ?rq)" "carriage_return \<notin> set (pr_method ?rq) \<union> set (pr_target ?rq)"
    "length (pr_method ?rq) + length (pr_target ?rq) + 10 \<le> kMaxLineLen"
    "\<forall>h\<in>set (pr_headers ?rq). header_name (header_line h) \<noteq> ''content-length''"
    using assms(3,4) target auth by (auto simp: is_word_def kMaxLineLen_def page_headers_def content_type_name)
  have "length (pr_body ?rq) \<le> unat kMaxTransferSize" using assms(5) by simp
  from read_request_calm [OF plain few short 1(1-5) this 1(6)] obtain line c1 srq c2 where
    c: "ch_read_line (quiet (request_text [] ?rq)) = (Some line, c1)" "read_request c1 line = (Inr srq, c2)"
    "calm c2" "outp c2 = []" "inp c2 = string_of b" by auto
  have none: "list_all browser_line []" "inp (quiet (request_text [] ?rq)) = request_text [] ?rq"
    "outp (quiet (request_text [] ?rq)) = []" by simp_all
  note read = request_read [OF plain none c(1,2) 1(1-4,6)]
  have rd: "rq_method srq = meth" "rq_path srq = ''/api/files'' @ rest" "unat (rq_content_length srq) = length b"
    using read path by simp_all
  have "rq_headers srq = foldl add_header [] ([] @ map header_line (field_lines ?rq))" using read by simp
  from bearer_found [OF assms(4) none(1) this] have authn: "authenticate (pg_net p) srq = (Some u, w1)"
    using sess(2) by (simp add: authenticate_def kBearer_def)
  have "\<exists>q. api B meth target hs b p = (Some r, q) \<and> pg_net q = w' \<and> pg_session q = pg_session p \<and>
      pg_passphrase q = pg_passphrase p \<and> pg_files q = pg_files p"
    if "web_routes root c2 w1 srq u = (True, c3, w')" "whole_reply (outp c3) = Some r" "rp_status r \<noteq> 401" for c3 w' r
  proof -
    have "web_handle E root served c2 (pg_net p) srq = (True, c3, w')"
      using rd assms(3) authn that(1) by (auto simp: web_handle_def)
    then have "direct_fetch E root served ?rq (pg_net p) = (Some r, w')"
      using plain c(1,2) that(2) by (simp add: direct_fetch_def)
    then show ?thesis using sess(1) assms(2) that(3) by (simp add: api_def page_fetch_def Let_def)
  qed
  with c(3-5) rd sess(2) show ?thesis by blast
qed

lemma put_arrives:
  assumes "holds_session p (pg_net p) tok u" and "br_fetch B = direct_fetch E root served"
    and "accepts_file (w_disk (pg_net p)) root u n" and "length b \<le> unat kMaxTransferSize" and "length tag \<le> 64"
  shows "\<exists>r q. api B ''PUT'' (put_target n tag) [(''Content-Type'', ''application/octet-stream'')] b p = (Some r, q) \<and>
    rp_status r = 201 \<and> pg_session q = pg_session p \<and> pg_passphrase q = pg_passphrase p \<and> pg_files q = pg_files p \<and>
    w_sessions (pg_net q) = w_sessions (snd (sessions_lookup (pg_net p) tok)) \<and> w_clock (pg_net q) = w_clock (snd (sessions_lookup (pg_net p) tok))"
proof -
  have safe: "length n \<le> 255" using assms(3) is_safe_name_length by (simp add: accepts_file_def)
  have len: "length (put_target n tag) \<le> 1100"
    using length_encoded [of n] length_encoded [of tag] safe assms(5) by (simp add: put_target_def file_target_def)
  have path: "url_decode (takeWhile (\<lambda>x. x \<noteq> CHR ''?'') (put_target n tag)) = ''/api/files'' @ (CHR ''/'' # n)"
    by (simp only: before_query decoded_target)
  obtain srq c2 w1 where s: "calm c2" "inp c2 = string_of b" "outp c2 = []" "rq_method srq = ''PUT''"
    "rq_path srq = ''/api/files'' @ (CHR ''/'' # n)" "unat (rq_content_length srq) = length b"
    "sessions_lookup (pg_net p) tok = (Some u, w1)"
    and go: "\<And>c3 w' r. web_routes root c2 w1 srq u = (True, c3, w') \<Longrightarrow> whole_reply (outp c3) = Some r \<Longrightarrow>
       rp_status r \<noteq> 401 \<Longrightarrow> (\<exists>q. api B ''PUT'' (put_target n tag) [(''Content-Type'', ''application/octet-stream'')] b p = (Some r, q) \<and>
         pg_net q = w' \<and> pg_session q = pg_session p \<and> pg_passphrase q = pg_passphrase p \<and> pg_files q = pg_files p)"
    using api_reaches_routes [OF assms(1,2) _ _ assms(4) put_target_plain(1-3) len path,
        of "''PUT''" "[(''Content-Type'', ''application/octet-stream'')]"] by (auto simp: page_headers_def)
  have "accepts_file (w_disk w1) root u n" using assms(3) sessions_lookup_disk [OF s(7)] by simp
  from serve_put_file_ok [OF s(1) this s(2), of srq] s(6) obtain c3 w' where
    put: "serve_put_file root c2 w1 srq u n = (True, c3, w')"
    and out: "outp c3 = header_block 201 json_type (length json_ok) [] @ json_ok" using s(3) by auto
  have "web_routes root c2 w1 srq u = (True, c3, w')" using s(4,5) put by (simp add: web_routes_def kFilesPrefix_def)
  from go [OF this, of "\<lparr>rp_status = 201, rp_body = bytes_of json_ok\<rparr>"] whole_created out
    serve_put_file_spec [OF put] s(7) show ?thesis by auto
qed

lemma page_upload_goes_through:
  assumes "same_standards (br_crypto B) E" and "openssl_ok E" and "openssl_works E"
    and "holds_session p (pg_net p) tok u" and "br_fetch B = direct_fetch E' root served"
    and "accepts_file (w_disk (pg_net p)) root u (cf_name f)"
    and "length (cf_bytes f) \<le> 2 ^ 39" and "find (\<lambda>e. pf_name e = cf_name f) (pg_files p) = None"
  shows "\<exists>shown p'. send_file B f p = (SentFile, shown, p') \<and> holds_session p' (pg_net p') tok u \<and>
    pg_passphrase p' = pg_passphrase p"
proof -
  obtain tag where tag: "dedupTagFor (br_crypto B) (pg_passphrase p) (cf_bytes f) = Some tag"
    using assms(1,3) by (rule dedupTagFor_works)
  obtain b rnd' shown where b: "sealFile (br_crypto B) (pg_passphrase p) (cf_bytes f) (pg_rnd p) = (Inr b, rnd', shown)"
    using assms(1-3) by (rule sealFile_works)
  have "(length (cf_bytes f) + 1048575) div 1048576 \<le> length (cf_bytes f) div 1048576 + 1" by simp
  then have "length b \<le> 37 + 32 * (length (cf_bytes f) div 1048576 + 1) + length (cf_bytes f)"
    using sealFile_length [OF assms(1,2) b] by simp
  also have "\<dots> \<le> unat kMaxTransferSize" using assms(7) by (simp add: kMaxTransferSize_def)
  finally have small: "length b \<le> unat kMaxTransferSize" .
  let ?p = "p\<lparr>pg_rnd := rnd'\<rparr>"
  have p: "holds_session ?p (pg_net ?p) tok u" "accepts_file (w_disk (pg_net ?p)) root u (cf_name f)"
    using assms(4,6) by (simp_all add: holds_session_def)
  from put_arrives [OF p(1) assms(5) p(2) small dedup_tag_length [OF assms(1,2) tag]] obtain r q where
    q: "api B ''PUT'' (put_target (cf_name f) tag) [(''Content-Type'', ''application/octet-stream'')] b ?p = (Some r, q)"
    "rp_status r = 201" "pg_session q = pg_session p" "pg_passphrase q = pg_passphrase p"
    "w_sessions (pg_net q) = w_sessions (snd (sessions_lookup (pg_net p) tok))"
    "w_clock (pg_net q) = w_clock (snd (sessions_lookup (pg_net p) tok))" by auto
  have "fst (sessions_lookup (pg_net q) tok) = fst (sessions_lookup (pg_net p) tok)"
    using q(5,6) by (auto simp: sessions_lookup_def expire_locked_def Let_def)
  then have "holds_session q (pg_net q) tok u" using assms(4) q(3) by (simp add: holds_session_def)
  moreover have "\<exists>shown. send_file B f p = (SentFile, shown, q)"
    using tag b q(1,2) assms(8) by (simp add: send_file_def Let_def reply_ok_def)
  ultimately show ?thesis using q(4) by blast
qed


section \<open>A download succeeds\<close>

lemma reply_200:
  assumes "outp c = header_block 200 ct (length y) [] @ y" and "ct \<in> {json_type, ''application/octet-stream''}"
  shows "whole_reply (outp c) = Some \<lparr>rp_status = 200, rp_body = bytes_of y\<rparr>"
  unfolding assms(1) using plain_statuses assms(2) by (intro whole_reply_header) simp_all

lemma serve_get_file_ok:
  assumes "calm c" and "outp c = []" and "stored (w_disk w) root u n = Some s"
  shows "\<exists>c'. serve_get_file root c w u n = (True, c', w) \<and>
    outp c' = header_block 200 ''application/octet-stream'' (length s) [] @ s"
proof -
  obtain p tag where p: "file_path root u n = Some p" "fs_read (w_disk w) p = Some s"
    "file_info (w_disk w) root u n = Some (length s, tag)" using stored_path [OF assms(3)] by metis
  obtain c1 where c1: "ch_send c (header_block 200 ''application/octet-stream'' (length s) []) = (True, c1)" "calm c1"
    using ch_send_calm [OF assms(1)] by blast
  obtain c2 where c2: "send_slices c1 s (length s) = (True, c2)" using send_slices_calm [OF c1(2)] by blast
  have "outp c1 = header_block 200 ''application/octet-stream'' (length s) []"
    using ch_send_spec [OF c1(1)] assms(2) by auto
  with send_slices_spec [OF c2] p c1(1) c2 show ?thesis by (simp add: serve_get_file_def send_header_def)
qed

lemma page_download_goes_through:
  assumes "holds_session p (pg_net p) tok u" and "br_fetch B = direct_fetch E root served"
    and "stored (w_disk (pg_net p)) root u n = Some s" and "openBlob (br_crypto B) (pg_passphrase p) (bytes_of s) = Inr plain"
  shows "pg_saved (download B n p) = pg_saved p @ [(n, plain)]"
proof -
  let ?p = "page_say ''files-msg'' (''Fetching '' @ n @ ''...'') [] p"
  have p: "holds_session ?p (pg_net ?p) tok u" using assms(1) by (simp add: holds_session_def)
  have safe: "length n \<le> 255" using assms(3) is_safe_name_length
    by (auto simp: stored_def file_path_eq split: if_splits)
  have len: "length (file_target n) \<le> 1100" using length_encoded [of n] safe by (simp add: file_target_def)
  have path: "url_decode (takeWhile (\<lambda>x. x \<noteq> CHR ''?'') (file_target n)) = ''/api/files'' @ (CHR ''/'' # n)"
    by (simp only: before_query decoded_target)
  obtain srq c2 w1 where c: "calm c2" "outp c2 = []" "rq_method srq = ''GET''"
    "rq_path srq = ''/api/files'' @ (CHR ''/'' # n)" "sessions_lookup (pg_net p) tok = (Some u, w1)"
    and go: "\<And>c3 w' r. web_routes root c2 w1 srq u = (True, c3, w') \<Longrightarrow> whole_reply (outp c3) = Some r \<Longrightarrow>
       rp_status r \<noteq> 401 \<Longrightarrow> (\<exists>q. api B ''GET'' (file_target n) [] [] ?p = (Some r, q) \<and>
         pg_net q = w' \<and> pg_session q = pg_session p \<and> pg_passphrase q = pg_passphrase p \<and> pg_files q = pg_files p)"
    using api_reaches_routes [OF p assms(2) _ _ _ put_target_plain(4-6) len path, of "''GET''" "[]" "[]"]
    by (auto simp: page_headers_def)
  have "stored (w_disk w1) root u n = Some s" using assms(3) sessions_lookup_disk [OF c(5)] by simp
  from serve_get_file_ok [OF c(1,2) this] obtain c3 where c3: "serve_get_file root c2 w1 u n = (True, c3, w1)"
    "outp c3 = header_block 200 ''application/octet-stream'' (length s) [] @ s" by blast
  have "web_routes root c2 w1 srq u = (True, c3, w1)" using c(3,4) c3(1) by (simp add: web_routes_def kFilesPrefix_def)
  from go [OF this reply_200 [OF c3(2)]] obtain q where
    q: "api B ''GET'' (file_target n) [] [] ?p = (Some \<lparr>rp_status = 200, rp_body = bytes_of s\<rparr>, q)"
    "pg_passphrase q = pg_passphrase p" by auto
  have "pg_saved q = pg_saved p" using api_effect(3) [OF q(1)] by simp
  then show ?thesis using q assms(4) by (simp add: download_def Let_def reply_ok_def)
qed

lemma page_list_goes_through:
  assumes "holds_session p (pg_net p) tok u" and "br_fetch B = direct_fetch E root served"
  shows "fst (refresh B p) \<noteq> Some FetchFailed"
proof -
  have t: "is_word ''/api/files''" "newline \<notin> set ''/api/files''" "carriage_return \<notin> set ''/api/files''"
    "length ''/api/files'' \<le> 1100" by (simp_all add: is_word_def)
  have path: "url_decode (takeWhile (\<lambda>x. x \<noteq> CHR ''?'') ''/api/files'') = ''/api/files'' @ []" by simp
  obtain srq c2 w1 where c: "calm c2" "outp c2 = []" "rq_method srq = ''GET''" "rq_path srq = ''/api/files'' @ []"
    and go: "\<And>c3 w' r. web_routes root c2 w1 srq u = (True, c3, w') \<Longrightarrow> whole_reply (outp c3) = Some r \<Longrightarrow>
       rp_status r \<noteq> 401 \<Longrightarrow> (\<exists>q. api B ''GET'' ''/api/files'' [] [] p = (Some r, q))"
    using api_reaches_routes [OF assms _ _ _ t path, of "''GET''" "[]" "[]"] by (simp add: page_headers_def) metis
  let ?body = "list_body (list_files (w_disk w1) root u)"
  obtain c3 where c3: "respond c2 w1 200 ?body = (True, c3, w1)"
    "outp c3 = header_block 200 json_type (length ?body) [] @ ?body" using respond_calm [OF c(1), of w1 200 ?body] c(2) by auto
  have "web_routes root c2 w1 srq u = (True, c3, w1)"
    using c(3,4) c3(1) by (simp add: web_routes_def serve_list_def list_body_def Let_def)
  from go [OF this reply_200 [OF c3(2)]] obtain q where
    "api B ''GET'' ''/api/files'' [] [] p = (Some \<lparr>rp_status = 200, rp_body = bytes_of ?body\<rparr>, q)" by auto
  then show ?thesis by (simp add: refresh_def split: option.split)
qed

text \<open>C12: With a session the server knows and a disk that takes the file, sending a file succeeds and
  downloading it afterwards saves the same bytes.\<close>

theorem page_upload_succeeds:
  assumes "same_standards (br_crypto B) E" and "openssl_ok E" and "openssl_works E"
    and "holds_session p (pg_net p) tok u" and "br_fetch B = direct_fetch E' root served"
    and "accepts_file (w_disk (pg_net p)) root u (cf_name f)"
    and "length (cf_bytes f) \<le> 2 ^ 39" and "find (\<lambda>e. pf_name e = cf_name f) (pg_files p) = None"
  shows "\<exists>shown p'. send_file B f p = (SentFile, shown, p') \<and>
    pg_saved (download B (cf_name f) p') = pg_saved p' @ [(cf_name f, cf_bytes f)]"
proof -
  obtain shown p' where s: "send_file B f p = (SentFile, shown, p')" "holds_session p' (pg_net p') tok u"
    "pg_passphrase p' = pg_passphrase p"
    using page_upload_goes_through [OF assms] by blast
  obtain x w1 where x: "pg_session p = Some (tok, x)" "sessions_lookup (pg_net p) tok = (Some u, w1)"
    using assms(4) unfolding holds_session_def by (metis prod.collapse)
  have "http_network E' root served (br_fetch B)" unfolding assms(5) by (rule direct_http_network)
  from page_upload_stored [OF this s(1) x] obtain b rnd' sh where
    b: "sealFile (br_crypto B) (pg_passphrase p) (cf_bytes f) (pg_rnd p) = (Inr b, rnd', sh)"
    "stored (w_disk (pg_net p')) root u (cf_name f) = Some (string_of b)" by blast
  have "length (cf_bytes f) < 2 ^ 53" using assms(7) by (rule le_less_trans) simp
  with page_stream_opens(1) [OF assms(1,2), of "pg_passphrase p" "string_of (cf_bytes f)" "pg_rnd p" b rnd' sh] b(1)
  have "openBlob (br_crypto B) (pg_passphrase p') (bytes_of (string_of b)) = Inr (cf_bytes f)" using s(3) by simp
  from page_download_goes_through [OF s(2) assms(5) b(2) this] s(1) show ?thesis by blast
qed

section \<open>Examples\<close>

definition tab_browser :: "world browser" where
  "tab_browser = \<lparr>br_fetch = direct_fetch mini_openssl example_root [], br_crypto = mini_webcrypto,
     br_lower = http_lowercase, br_trim = (\<lambda>s. s), br_compare = (\<lambda>a b. if a \<le> b then - 1 else 1),
     br_date = (\<lambda>t. ''2026-01-01''), br_error = (\<lambda>e. ''Error''), br_secure = True\<rparr>"

definition open_tab :: "world page" where
  "open_tab = (page_start tab_browser 0 (sconst 5) [] example_browser)
     \<lparr>pg_session := Some (''t0k3n'', ''ann''), pg_passphrase := ''pw''\<rparr>"

definition chosen_notes :: chosen_file where
  "chosen_notes = \<lparr>cf_name = ''notes'', cf_bytes = bytes_of ''hi''\<rparr>"

lemma open_tab_fields [simp]:
  "pg_session open_tab = Some (''t0k3n'', ''ann'')" "pg_passphrase open_tab = ''pw''" "pg_files open_tab = []"
  "pg_net open_tab = example_browser" "pg_sent open_tab = []" "pg_saved open_tab = []"
  "br_fetch tab_browser = direct_fetch mini_openssl example_root []" "br_crypto tab_browser = mini_webcrypto"
  "cf_name chosen_notes = ''notes''" "cf_bytes chosen_notes = bytes_of ''hi''"
  by (simp_all add: open_tab_def tab_browser_def page_start_def chosen_notes_def Let_def)

lemma tab_session: "sessions_lookup example_browser ''t0k3n'' = (Some ''ann'', example_browser)"
  by (simp add: sessions_lookup_def expire_locked_def example_browser_def Let_def)

lemma tab_disk [simp]: "w_disk example_browser = example_store"
  by (simp add: example_browser_def)

lemma tab_holds: "holds_session open_tab example_browser ''t0k3n'' ''ann''"
  by (simp add: holds_session_def tab_session)

lemma page_upload_succeeds_witness:
  "\<exists>shown p'. send_file tab_browser chosen_notes open_tab = (SentFile, shown, p') \<and>
     pg_saved (download tab_browser ''notes'' p') = pg_saved p' @ [(''notes'', bytes_of ''hi'')]"
  using page_upload_succeeds [of tab_browser mini_openssl open_tab "''t0k3n''" "''ann''" mini_openssl example_root "[]" chosen_notes]
  by (simp add: mini_same_standards mini_openssl_ok mini_openssl_works tab_holds example_accepts)

lemma tab_uploaded: "\<exists>shown p'. send_file tab_browser chosen_notes open_tab = (SentFile, shown, p')"
  using page_upload_goes_through [of tab_browser mini_openssl open_tab "''t0k3n''" "''ann''" mini_openssl example_root "[]" chosen_notes]
  by (auto simp: mini_same_standards mini_openssl_ok mini_openssl_works tab_holds example_accepts)

lemma page_keeps_files_witness:
  "\<exists>shown p' q. send_file tab_browser chosen_notes open_tab = (SentFile, shown, p') \<and>
     stored (w_disk (pg_net q)) example_root ''ann'' ''notes'' = stored (w_disk (pg_net p')) example_root ''ann'' ''notes'' \<and>
     (pg_saved (download tab_browser ''notes'' q) = [(''notes'', bytes_of ''hi'')] \<or>
      map_of (pg_said (download tab_browser ''notes'' q)) ''files-msg'' \<in>
        {Some (''notes: Error'', ''bad''), Some (''notes: could not fetch it'', ''bad'')})"
proof -
  obtain shown p' where s: "send_file tab_browser chosen_notes open_tab = (SentFile, shown, p')"
    using tab_uploaded by blast
  let ?q = "open_tab\<lparr>pg_net := example_browser\<lparr>w_disk := w_disk (pg_net p')\<rparr>\<rparr>"
  have user: "sessions_lookup (pg_net ?q) ''t0k3n'' = (Some ''ann'', example_browser\<lparr>w_disk := w_disk (pg_net p')\<rparr>)"
    by (simp add: sessions_lookup_def expire_locked_def example_browser_def Let_def)
  have "br_error tab_browser e = ''Error''" for e by (simp add: tab_browser_def)
  with page_keeps_files [of tab_browser mini_openssl example_root "[]" chosen_notes open_tab shown p'
      "''t0k3n''" "''ann''" "''ann''" example_browser ?q "''t0k3n''" "''ann''", OF _ _ _ s _ _ _ _ user] s
  show ?thesis
    by (intro exI [of _ shown] exI [of _ p'] exI [of _ ?q])
      (auto simp: mini_same_standards mini_openssl_ok direct_http_network tab_session)
qed


definition answering :: "nat \<Rightarrow> unit browser" where
  "answering st = \<lparr>br_fetch = (\<lambda>rq n. (Some \<lparr>rp_status = st, rp_body = []\<rparr>, n)), br_crypto = mini_webcrypto,
     br_lower = http_lowercase, br_trim = (\<lambda>s. s), br_compare = (\<lambda>a b. if a \<le> b then - 1 else 1),
     br_date = (\<lambda>t. ''2026-01-01''), br_error = (\<lambda>e. ''Error''), br_secure = True\<rparr>"

definition plain_tab :: "unit page" where
  "plain_tab = (page_start (answering 200) 0 (sconst 5) [] ())
     \<lparr>pg_session := Some (''t0k3n'', ''ann''), pg_passphrase := ''pw''\<rparr>"

lemma plain_tab_fields [simp]:
  "pg_session plain_tab = Some (''t0k3n'', ''ann'')" "pg_passphrase plain_tab = ''pw''" "pg_files plain_tab = []"
  "pg_sent plain_tab = []" "br_crypto (answering st) = mini_webcrypto"
  "br_fetch (answering st) = (\<lambda>rq n. (Some \<lparr>rp_status = st, rp_body = []\<rparr>, n))"
  by (simp_all add: plain_tab_def answering_def page_start_def Let_def)

lemma answering_api: "st \<noteq> 401 \<Longrightarrow> api (answering st) m t hs b p = (r, q) \<Longrightarrow> pg_session q = pg_session p"
  by (auto simp: api_def page_fetch_def Let_def)

lemma answering_upload:
  assumes "st \<noteq> 401" and "upload (answering st) [f] p = (r, p')"
  shows "pg_session p' = pg_session p"
proof -
  obtain x shown q where s: "send_file (answering st) f p = (x, shown, q)" by (rule prod_cases3)
  have q: "pg_session q = pg_session p"
    using s by (auto simp: send_file_def Let_def dest: answering_api [OF assms(1)] split: option.splits sum.splits prod.splits if_splits)
  have "refresh (answering st) (q\<lparr>pg_jobs := pg_jobs q @ [job_of (cf_name f) x shown]\<rparr>) = (r, p')"
    using assms(2) s by (simp add: upload_def Let_def)
  with q show ?thesis
    by (auto simp: refresh_def dest: answering_api [OF assms(1)] split: option.splits prod.splits if_splits)
qed

lemma upload_sends_sealed_witness:
  "\<exists>p' rqs hs. upload (answering 200) [chosen_notes] plain_tab = p' \<and> pg_sent (snd p') = rqs @
       [\<lparr>pr_method = ''GET'', pr_target = ''/api/files'', pr_headers = hs, pr_body = []\<rparr>] \<and>
     (\<forall>rq\<in>set rqs. openBlob mini_webcrypto ''pw'' (pr_body rq) = Inr (bytes_of ''hi''))"
proof -
  obtain r p' where r: "upload (answering 200) [chosen_notes] plain_tab = (r, p')" by fastforce
  have "pg_session p' \<noteq> None" using answering_upload [OF _ r] by simp
  with upload_sends_sealed [of "answering 200" mini_openssl "[chosen_notes]" plain_tab r p'] r
  show ?thesis by (fastforce simp: mini_same_standards mini_openssl_ok)
qed

lemma expired_upload_seals_without_passphrase_witness:
  "\<exists>rq1 rq2. pg_sent (upload_files (answering 401) [chosen_notes, chosen_notes] plain_tab) = [rq1, rq2] \<and>
     openBlob mini_webcrypto [] (pr_body rq2) = Inr (bytes_of ''hi'')"
  using expired_upload_seals_without_passphrase [of "answering 401" mini_openssl plain_tab chosen_notes chosen_notes]
  by (auto simp: mini_same_standards mini_openssl_ok mini_openssl_works)

end
