(* ===== verification/Spec2Isabelle.thy ===== *)
theory Spec2Isabelle
  imports Cli Traffic Pagelive
begin

text \<open>
  A verification library of the Personal Cloud Storage program: its cryptographic container, its
  erasure code, its file formats, its server and its client.

  \<^bold>\<open>The program.\<close> A client seals a file into an encrypted stream (\<open>src/core/stream.cpp\<close>) and sends
  it to a server over TLS (\<open>src/core/wire.cpp\<close>), or, when no server answers, splits the stream into
  four shards, any two of which are enough (\<open>src/core/shardfile.cpp\<close>), gives them to peers and leaves
  a manifest (\<open>src/core/manifest.cpp\<close>). A server (\<open>src/server\<close>) keeps accounts, files, tags and chunks
  below one directory and speaks a line protocol and HTTP on one port.

  \<^bold>\<open>Theories\<close>, from the bottom:
  \<^item> Prelude: machine types, bytes and characters, decimal numbers, shared limits.
  \<^item> Hex, Safename, Gf256, Erasure, Protocol: the pure parts of \<open>src/core\<close>. Gf256 states the laws of
    the field as the locale \<open>gf_field\<close>; Erasure solves for lost bytes with its facts.
  \<^item> Filesys: the part of \<open>std::filesystem\<close> and of file streams the program uses. A disk maps paths to
    contents; every call that can fail takes its outcome from the list \<open>faults\<close>, so a theorem about
    all disks is about all failures. \<open>touches P d d'\<close> is the frame: nothing outside \<open>P\<close> changed.
  \<^item> Crypto: the wrappers of \<open>cipher.cpp\<close> and \<open>digest.cpp\<close>. OpenSSL is a parameter, the record
    \<open>openssl\<close>; \<open>openssl_ok\<close> states what the code relies on, \<open>mini_openssl\<close> shows it can be met.
  \<^item> Container (\<open>stream.cpp\<close>), Shardfile, Manifest, Passwd, Settings, Tlsca, Wire: one file of
    \<open>src/core\<close> each. The integers of the container are two interpretations of the locale
    \<open>fixed_codec\<close>. A channel of Wire has scripts that say how many bytes each TLS call handles.
  \<^item> Users, Store, Http, Webui, Session: one file of \<open>src/server\<close> each. What uploads rely on of
    the store is the locale \<open>blob_area\<close>, interpreted for the files of accounts and for chunks. Webui
    and Session share the record \<open>world\<close> (disk, entropy, accounts, browser sessions, clock, log).

  \<^item> Remote (\<open>src/client/remote.cpp\<close>): every request of the client and the two body loops, over the
    channel of Wire. Exchange puts the client's requests and one turn of Session together, each
    reading what the other wrote.
  \<^item> Keysource (\<open>src/core/keysource.cpp\<close>), Frames (what each disk routine may touch), Workspace
    (\<open>workspace.cpp\<close>, connections, the record \<open>client\<close> and the relation \<open>leaves\<close>), Upload, Recover
    (\<open>recover.cpp\<close>, \<open>download.cpp\<close>, \<open>local.cpp\<close>) and Sync (\<open>sync.cpp\<close>, \<open>list.cpp\<close>): the commands of
    the client. The network is the record \<open>internet\<close>: the outcome of the k-th dialling and what the
    peer then delivers.
  \<^item> Flags: which state of the client a command leaves alone, and that autosync ends. Peers, Pending,
    Relay: what the offline path promises. A pending record \<open>describes\<close> a stream; peers may deliver
    anything that does not forge a digest (\<open>no_forgery\<close>); \<open>sent_on\<close> says what left on a connection.
    Direct: what an upload as a whole leads to.
  \<^item> Watch (\<open>watch.cpp\<close>): the state file of the watcher, its passes and its loop. Daemon, Progress
    (\<open>src/core\<close>): detaching, with the answers of the process calls as a parameter and the descriptors
    as a table; the progress bar and sizes for people.
  \<^item> Cli (\<open>src/client/main.cpp\<close>): \<open>plan\<close> turns a command line, the environment and the settings file
    into options and one \<open>action\<close>; \<open>client_main\<close> runs it. Serve (\<open>src/server/main.cpp\<close> and the listener
    of \<open>wire.cpp\<close>): the commands of the server program and what it has prepared when it starts to serve.
  \<^item> Traffic: the accept loop and the threads of \<open>src/server/main.cpp\<close>. A thread's state is a \<open>connection\<close>, one
    step of it \<open>conn_step\<close>; \<open>serves\<close> is a step of the server and \<open>traffic\<close> holds its histories.
  \<^item> Pagecrypt, Json, Page: the script in \<open>src/server/page.cpp\<close>, which the server hands to a browser.
    Pagecrypt is the container over WebCrypto, a parameter that \<open>same_standards\<close> ties to the one of OpenSSL;
    Json what the browser's library does to text on its way; Page the state of the tab, its requests and
    its handlers. Pageserver says when a browser's network is this server (\<open>http_network\<close>) and
    carries requests into the handlers of Webui; Pagelist reads the listing back; Pagelive builds such a
    network from \<open>read_request\<close> and \<open>web_handle\<close> and shows that uploads and downloads succeed over it.

  \<^bold>\<open>How code became definitions.\<close> A class is a record, passed and returned; an out-parameter with a
  boolean result is an option or a sum; every early return is a branch. A loop is a function with a
  measure: the bytes that are left, or, for the two conversation loops, the input that is left,
  since every turn reads a line. Fuel is used for the passes of \<open>cmd_autosync\<close> and
  \<open>cmd_watch\<close> only, which run until a signal comes: each pass takes at least one look at the stop flag,
  so as many turns as there are looks that find it clear, and one more, are enough. A flag that was
  seen set stays set. Integers whose width matters are words; sizes
  that were checked against a limit are natural numbers. Mutexes make a handler one step; the
  relation \<open>converses\<close> of Session lets other connections change the world between the lines
  of one, and \<open>serves\<close> of Traffic interleaves the steps of all of them. A rename of a finished temporary file is the only step that replaces a stored file.

  \<^bold>\<open>What is shown.\<close> Round trips of the container, the shards, the manifest, the account file,
  hexadecimal text, URLs and JSON; authenticity and refusal of truncated streams; that no command
  and no browser request changes a file but for its owner, and that signing in rests on a verified
  password; that an acknowledged upload holds exactly the bytes that arrived; atomic changes of the
  accounts; containment of every path made from a name off the network; the field laws and the
  polynomial meaning of the byte multiplication; sizes that never wrap. Some theorems state
  where the code falls short of its intention; they are named so. For the client: what put and
  get report is what the server holds; a file sealed, sent, fetched and opened is the original; a
  file left with peers comes back as the original, two honest peers being enough; a pass of sync
  forwards a pending file whole or keeps its record, and leaves no scratch file.

  The watcher records only what was uploaded, and a restart uploads nothing again; no command line
  reaches the network with verification off unless it says so; every run of the client ends once
  it is told to; an account made by the command can sign in at a server that is running; a server
  starts with a certificate that covers its names.

  In every history of a server a file changes only after the password of its account was presented and
  verified, on some connection, and a chunk only after the token was.

  The page and the client write the same streams and open each other's; what the page sends in an upload
  opens to the chosen file under the passphrase, as long as the session lasts; a file sent from the page
  comes back from it; its list is the server's. Two theorems show limits: a session that
  expires in a queue leaves an empty passphrase for the files after it, and a stream whose size was
  overwritten with zero opens as an empty file.

  \<^bold>\<open>Not modelled.\<close> The markup and style of the page and its timers, TLS itself, the building and signing
  of X.509 structures, interleaving inside a handler, signal handlers,
  terminal control, the socket option calls, usage texts. Messages stand in the model by their first
  words, and the name of a key file is taken from the root of the file system.
\<close>

end
